(* ===== verification/Prelude.thy ===== *)
theory Prelude
  imports Main "HOL-Library.Word"
begin

text \<open>
  Shared vocabulary of the development: the machine integer types, the collections of
  rewrite rules the component theories feed and use, and the generic facts on words and
  on error results that more than one component needs.
\<close>

unbundle bit_operations_syntax

section \<open>Machine integers\<close>

type_synonym u8 = "8 word"
type_synonym u16 = "16 word"
type_synonym u32 = "32 word"
type_synonym u64 = "64 word"
type_synonym u128 = "128 word"

named_theorems limb_defs \<open>definitions of the limb operations\<close>
named_theorems limb_simps \<open>what a limb operation computes, as an equation on integers\<close>

text \<open>A C++ comparison cast to an integer: 1 for true, 0 for false.\<close>

definition b2w :: "bool \<Rightarrow> 'a::len word" where
  "b2w b = (if b then 1 else 0)"

lemma b2w_simps [simp]: "b2w True = 1" "b2w False = 0"
  by (simp_all add: b2w_def)

lemma uint_b2w [simp]: "uint (b2w b :: 'a::len word) = of_bool b"
  by (simp add: b2w_def)

section \<open>Words as integers\<close>

lemma uint_lt64: "uint (x::u64) < 18446744073709551616"
  using uint_lt2p [of x] by simp

lemma uint_range64: "0 \<le> uint (x::u64) \<and> uint x < 18446744073709551616"
  using uint_lt64 by simp

lemma uint_lt128: "uint (x::u128) < 340282366920938463463374607431768211456"
  using uint_lt2p [of x] by simp

lemma uint_add64: "uint (a + b :: u64) = (uint a + uint b) mod 18446744073709551616"
  by (simp add: uint_word_ariths)

lemma uint_mul64: "uint (a * b :: u64) = (uint a * uint b) mod 18446744073709551616"
  by (simp add: uint_word_ariths)

lemma uint_sub64: "uint (a - b :: u64) = (uint a - uint b) mod 18446744073709551616"
  by (simp add: uint_word_ariths)

lemma uint_drop_bit: "uint (drop_bit n (x::'a::len word)) = uint x div 2 ^ n"
proof -
  have "uint (drop_bit n x) = take_bit LENGTH('a) (drop_bit n (uint x))"
    by transfer (simp add: take_bit_drop_bit min_def)
  also have "\<dots> = drop_bit n (uint x)"
  proof -
    have "uint x < 2 ^ (LENGTH('a) + n)"
      using uint_lt2p [of x] by (rule less_le_trans) simp
    then show ?thesis
      by (simp add: take_bit_drop_bit take_bit_int_eq_self)
  qed
  finally show ?thesis
    by (simp add: drop_bit_eq_div)
qed

lemma uint_push_bit64: "uint (push_bit n (x::u64)) = (uint x * 2 ^ n) mod 18446744073709551616"
proof -
  have "uint (push_bit n x) = take_bit 64 (push_bit n (uint x))"
    by (subst unsigned_push_bit_eq) simp
  then show ?thesis
    by (simp add: take_bit_eq_mod push_bit_eq_mult)
qed

lemma half_range:
  fixes x :: int
  assumes "0 \<le> x \<and> x < 18446744073709551616"
  shows "0 \<le> x div 4294967296 \<and> x div 4294967296 < 4294967296
    \<and> 0 \<le> x mod 4294967296 \<and> x mod 4294967296 < 4294967296"
  using assms mult_div_mod_eq [of 4294967296 x] pos_mod_bound [of 4294967296 x]
    pos_mod_sign [of 4294967296 x] by linarith

text \<open>Products of two limbs stay below the square of the base.\<close>

lemma limb_prod_le: "uint (a::u64) * uint (b::u64) \<le> 18446744073709551615 * 18446744073709551615"
proof (rule mult_mono)
  show "uint a \<le> 18446744073709551615" "uint b \<le> 18446744073709551615"
    using uint_lt64 [of a] uint_lt64 [of b] by linarith+
qed simp_all

lemma limb_prod_ge [simp]: "0 \<le> uint (a::'a::len word) * uint (b::'b::len word)"
  by simp

text \<open>
  The idiom of the code for a carry, sum < a, and for a borrow,
  difference > a: the comparison is exactly the bit that went out of the limb.
\<close>

lemma uint_add_carry:
  "uint (a + b :: u64) = uint a + uint b - 18446744073709551616 * of_bool (a + b < a)"
proof -
  have "uint (a + b) = (if uint a + uint b < 18446744073709551616 then uint a + uint b
      else uint a + uint b - 18446744073709551616)"
    by (simp add: uint_plus_if')
  moreover have "(a + b < a) = (uint (a + b) < uint a)"
    by (rule word_less_def)
  ultimately show ?thesis
    using uint_range64 [of a] uint_range64 [of b] by (smt (verit) of_bool_eq)
qed

lemma uint_sub_borrow:
  "uint (a - b :: u64) = uint a - uint b + 18446744073709551616 * of_bool (a - b > a)"
proof -
  have "uint (a - b) = (if uint b \<le> uint a then uint a - uint b
      else uint a - uint b + 18446744073709551616)"
    by (simp add: uint_sub_if')
  moreover have "(a - b > a) = (uint a < uint (a - b))"
    by (rule word_less_def)
  ultimately show ?thesis
    using uint_range64 [of a] uint_range64 [of b] by (smt (verit) of_bool_eq)
qed

lemma borrow_iff: "(a - b > a) \<longleftrightarrow> uint a < uint (b::u64)"
  using uint_sub_borrow [of a b] uint_range64 [of "a - b"] uint_range64 [of a] uint_range64 [of b]
  by (smt (verit) of_bool_eq)

lemma uint_add_b2w [simp]:
  "uint (b2w p + b2w q :: u64) = of_bool p + of_bool q"
  by (cases p; cases q) simp_all

lemma uint_or_b2w [simp]: "(b2w p OR b2w q :: 'a::len word) = b2w (p \<or> q)"
  by (cases p; cases q) simp_all

lemma uint_pow2_le: "2 ^ k \<le> uint (x::'a::len word) \<longleftrightarrow> 2 ^ k \<le> unat x"
proof -
  have "2 ^ k \<le> uint x \<longleftrightarrow> int (2 ^ k) \<le> int (unat x)" by simp
  then show ?thesis by (simp only: of_nat_le_iff)
qed

lemma uint_pow2_less: "uint (x::'a::len word) < 2 ^ k \<longleftrightarrow> unat x < 2 ^ k"
proof -
  have "uint x < 2 ^ k \<longleftrightarrow> int (unat x) < int (2 ^ k)" by simp
  then show ?thesis by (simp only: of_nat_less_iff)
qed

section \<open>Errors as results\<close>

text \<open>Sequencing of results that may be an error: the error wins, a value is passed on.\<close>

fun ebind :: "'e + 'a \<Rightarrow> ('a \<Rightarrow> 'e + 'b) \<Rightarrow> 'e + 'b" where
  "ebind (Inl e) k = Inl e"
| "ebind (Inr x) k = k x"

lemma ebind_Inr_iff: "ebind m k = Inr y \<longleftrightarrow> (\<exists>x. m = Inr x \<and> k x = Inr y)"
  by (cases m) auto

lemma ebind_split: "P (ebind m k) \<longleftrightarrow> (\<forall>e. m = Inl e \<longrightarrow> P (Inl e)) \<and> (\<forall>x. m = Inr x \<longrightarrow> P (k x))"
  by (cases m) auto

lemma ebind_assoc: "ebind (ebind m f) g = ebind m (\<lambda>x. ebind (f x) g)"
  by (cases m) auto

section \<open>Square and multiply\<close>

text \<open>
  The code raises to a power in three places (numeric::pow64, uint256_t::pow, field::pow)
  with the same loop: from the second highest bit of the exponent down, square, then
  multiply by the base when the bit is set. The contract is what one pass over bit
  i does to the number the accumulator stands for; the exponent has at most
  bits bits; ok is the range the
  representation keeps.
\<close>

locale square_multiply =
  fixes loop :: "nat \<Rightarrow> 'a \<Rightarrow> 'a"
    and rep :: "'a \<Rightarrow> 'm::monoid_mult"
    and ok :: "'a \<Rightarrow> bool"
    and base :: 'm
    and e :: nat
    and bits :: nat
  assumes loop_done: "loop 0 acc = acc"
    and loop_step: "ok acc \<Longrightarrow> i < bits \<Longrightarrow> \<exists>acc'. ok acc' \<and> loop (Suc i) acc = loop i acc' \<and>
      rep acc' = rep acc * rep acc * (if odd (e div 2 ^ i) then base else 1)"
begin

lemma loop_power:
  assumes "ok acc" and "i \<le> bits" and "rep acc = base ^ (e div 2 ^ i)"
  shows "ok (loop i acc) \<and> rep (loop i acc) = base ^ e"
  using assms
proof (induction i arbitrary: acc)
  case 0
  then show ?case
    by (simp add: loop_done)
next
  case (Suc i)
  from Suc.prems(2) have i: "i < bits" "i \<le> bits" by simp_all
  from loop_step [OF Suc.prems(1) i(1)] obtain acc' where acc': "ok acc'" "loop (Suc i) acc = loop i acc'"
    "rep acc' = rep acc * rep acc * (if odd (e div 2 ^ i) then base else 1)" by blast
  define q where "q = e div 2 ^ i"
  have half: "e div 2 ^ Suc i = q div 2"
    unfolding q_def by (metis div_mult2_eq power_Suc2)
  have "base ^ q = base ^ (q div 2 + q div 2) * (if odd q then base else 1)"
  proof (cases "odd q")
    case True
    then have "q = Suc (q div 2 + q div 2)"
      by presburger
    then have "base ^ q = base ^ Suc (q div 2 + q div 2)"
      by simp
    with True show ?thesis
      by (simp only: power_Suc2 if_True not_False_eq_True)
  next
    case False
    then have "q = q div 2 + q div 2"
      by presburger
    with False show ?thesis
      by simp
  qed
  then have "rep acc' = base ^ q"
    using acc'(3) Suc.prems(3) unfolding q_def [symmetric] half by (simp only: power_add)
  with acc' Suc.IH [OF _ i(2)] show ?case
    unfolding q_def by simp
qed

end

lemma div_eq_one_between:
  fixes e k :: nat
  assumes "2 ^ k \<le> e" "e < 2 ^ Suc k"
  shows "e div 2 ^ k = 1"
  using assms by (simp add: div_nat_eqI)

text \<open>Every positive number lies between two neighbouring powers of two.\<close>

lemma pow2_bracket:
  assumes "0 < (x::int)"
  obtains k where "2 ^ k \<le> x" "x < 2 ^ Suc k"
proof -
  have "\<exists>k. 2 ^ k \<le> nat x \<and> nat x < 2 ^ Suc k"
    using assms ex_power_ivl1 [of 2 "nat x"] by auto
  then obtain k where k: "2 ^ k \<le> nat x" "nat x < 2 ^ Suc k" by blast
  have "2 ^ k \<le> x" "x < 2 ^ Suc k"
    using k assms by (simp_all add: le_nat_iff nat_less_iff)
  then show ?thesis by (rule that)
qed

end
