(* ===== verification/Uint256.thy ===== *)
theory Uint256
  imports Prelude
begin

text \<open>
  The 256-bit unsigned integer of numeric/uint256: four 64-bit limbs, least significant
  first, with the schoolbook carry, borrow and multiply-accumulate chains of
  uint256_impl.hpp. The abstraction ival reads the limbs as an integer; the lemmas
  say that every operation is the operation on integers modulo 2 ^ 256.
\<close>

section \<open>The class and its limb primitives\<close>

datatype uint256_t = Uint256 (data0: u64) (data1: u64) (data2: u64) (data3: u64)

abbreviation B64 :: int where
  "B64 \<equiv> 18446744073709551616"

abbreviation B256 :: int where
  "B256 \<equiv> 115792089237316195423570985008687907853269984665640564039457584007913129639936"

definition ival :: "uint256_t \<Rightarrow> int" where
  "ival x = uint (data0 x) + 18446744073709551616 * uint (data1 x)
     + 340282366920938463463374607431768211456 * uint (data2 x)
     + 6277101735386680763835789423207666416102355444464034512896 * uint (data3 x)"

definition uint256_of_u64 :: "u64 \<Rightarrow> uint256_t" where
  "uint256_of_u64 a = Uint256 a 0 0 0"

definition uint256_from_uint128 :: "u128 \<Rightarrow> uint256_t" where
  "uint256_from_uint128 a = Uint256 (ucast a) (ucast (drop_bit 64 a)) 0 0"

definition uint256_to_uint128 :: "uint256_t \<Rightarrow> u128" where
  "uint256_to_uint128 x = push_bit 64 (ucast (data1 x)) + ucast (data0 x)"

text \<open>The 64x64 to 128 bit product from 32-bit halves; the result is (low, high).\<close>

definition mul_wide :: "u64 \<Rightarrow> u64 \<Rightarrow> u64 \<times> u64" where
  "mul_wide a b =
     (let a_lo = a AND 0xffffffff;
          a_hi = drop_bit 32 a;
          b_lo = b AND 0xffffffff;
          b_hi = drop_bit 32 b;
          lo_lo = a_lo * b_lo;
          hi_lo = a_hi * b_lo;
          lo_hi = a_lo * b_hi;
          hi_hi = a_hi * b_hi;
          cross = drop_bit 32 lo_lo + (hi_lo AND 0xffffffff) + lo_hi
      in (push_bit 32 cross OR (lo_lo AND 0xffffffff),
          drop_bit 32 hi_lo + drop_bit 32 cross + hi_hi))"

definition addc :: "u64 \<Rightarrow> u64 \<Rightarrow> u64 \<Rightarrow> u64 \<times> u64" where
  "addc a b carry_in =
     (let sum = a + b;
          carry_temp = b2w (sum < a);
          r = sum + carry_in;
          carry_out = carry_temp + b2w (r < carry_in)
      in (r, carry_out))"

definition addc_discard_hi :: "u64 \<Rightarrow> u64 \<Rightarrow> u64 \<Rightarrow> u64" where
  "addc_discard_hi a b carry_in = a + b + carry_in"

definition sbb :: "u64 \<Rightarrow> u64 \<Rightarrow> u64 \<Rightarrow> u64 \<times> u64" where
  "sbb a b borrow_in =
     (let t_1 = a - drop_bit 63 borrow_in;
          borrow_temp_1 = b2w (t_1 > a) :: u64;
          t_2 = t_1 - b;
          borrow_temp_2 = b2w (t_2 > t_1)
      in (t_2, 0 - (borrow_temp_1 OR borrow_temp_2)))"

definition sbb_discard_hi :: "u64 \<Rightarrow> u64 \<Rightarrow> u64 \<Rightarrow> u64" where
  "sbb_discard_hi a b borrow_in = a - b - drop_bit 63 borrow_in"

text \<open>(r, carry out) = a + carry in + b * c.\<close>

definition mac :: "u64 \<Rightarrow> u64 \<Rightarrow> u64 \<Rightarrow> u64 \<Rightarrow> u64 \<times> u64" where
  "mac a b c carry_in =
     (let (first0, second0) = mul_wide b c;
          first1 = first0 + a;
          overflow_c = b2w (first1 < a);
          first2 = first1 + carry_in;
          overflow_carry = b2w (first2 < carry_in)
      in (first2, second0 + (overflow_c + overflow_carry)))"

definition mac_discard_hi :: "u64 \<Rightarrow> u64 \<Rightarrow> u64 \<Rightarrow> u64 \<Rightarrow> u64" where
  "mac_discard_hi a b c carry_in = b * c + a + carry_in"

section \<open>Operators\<close>

definition u256_add :: "uint256_t \<Rightarrow> uint256_t \<Rightarrow> uint256_t" where
  "u256_add x y =
     (let (r0, t0) = addc (data0 x) (data0 y) 0;
          (r1, t1) = addc (data1 x) (data1 y) t0;
          (r2, t2) = addc (data2 x) (data2 y) t1;
          r3 = addc_discard_hi (data3 x) (data3 y) t2
      in Uint256 r0 r1 r2 r3)"

definition u256_sub :: "uint256_t \<Rightarrow> uint256_t \<Rightarrow> uint256_t" where
  "u256_sub x y =
     (let (r0, t0) = sbb (data0 x) (data0 y) 0;
          (r1, t1) = sbb (data1 x) (data1 y) t0;
          (r2, t2) = sbb (data2 x) (data2 y) t1;
          r3 = sbb_discard_hi (data3 x) (data3 y) t2
      in Uint256 r0 r1 r2 r3)"

definition u256_neg :: "uint256_t \<Rightarrow> uint256_t" where
  "u256_neg x = u256_sub (uint256_of_u64 0) x"

definition u256_mul :: "uint256_t \<Rightarrow> uint256_t \<Rightarrow> uint256_t" where
  "u256_mul x y =
     (let (r0, t0) = mac 0 (data0 x) (data0 y) 0;
          (q0, t1) = mac 0 (data0 x) (data1 y) t0;
          (q1, t2) = mac 0 (data0 x) (data2 y) t1;
          q2 = mac_discard_hi 0 (data0 x) (data3 y) t2;
          (r1, t3) = mac q0 (data1 x) (data0 y) 0;
          (q3, t4) = mac q1 (data1 x) (data1 y) t3;
          q4 = mac_discard_hi q2 (data1 x) (data2 y) t4;
          (r2, t5) = mac q3 (data2 x) (data0 y) 0;
          q5 = mac_discard_hi q4 (data2 x) (data1 y) t5;
          r3 = mac_discard_hi q5 (data3 x) (data0 y) 0
      in Uint256 r0 r1 r2 r3)"

text \<open>The full 512-bit product as (low half, high half).\<close>

definition u256_mul_extended :: "uint256_t \<Rightarrow> uint256_t \<Rightarrow> uint256_t \<times> uint256_t" where
  "u256_mul_extended x y =
     (let (r0, t0) = mul_wide (data0 x) (data0 y);
          (q0, t1) = mac t0 (data0 x) (data1 y) 0;
          (q1, t2) = mac t1 (data0 x) (data2 y) 0;
          (q2, z0) = mac t2 (data0 x) (data3 y) 0;
          (r1, t3) = mac q0 (data1 x) (data0 y) 0;
          (q3, t4) = mac q1 (data1 x) (data1 y) t3;
          (q4, t5) = mac q2 (data1 x) (data2 y) t4;
          (q5, z1) = mac z0 (data1 x) (data3 y) t5;
          (r2, t6) = mac q3 (data2 x) (data0 y) 0;
          (q6, t7) = mac q4 (data2 x) (data1 y) t6;
          (q7, t8) = mac q5 (data2 x) (data2 y) t7;
          (q8, z2) = mac z1 (data2 x) (data3 y) t8;
          (r3, t9) = mac q6 (data3 x) (data0 y) 0;
          (r4, t10) = mac q7 (data3 x) (data1 y) t9;
          (r5, t11) = mac q8 (data3 x) (data2 y) t10;
          (r6, r7) = mac z2 (data3 x) (data3 y) t11
      in (Uint256 r0 r1 r2 r3, Uint256 r4 r5 r6 r7))"

definition u256_and :: "uint256_t \<Rightarrow> uint256_t \<Rightarrow> uint256_t" where
  "u256_and x y = Uint256 (data0 x AND data0 y) (data1 x AND data1 y)
     (data2 x AND data2 y) (data3 x AND data3 y)"

definition u256_xor :: "uint256_t \<Rightarrow> uint256_t \<Rightarrow> uint256_t" where
  "u256_xor x y = Uint256 (data0 x XOR data0 y) (data1 x XOR data1 y)
     (data2 x XOR data2 y) (data3 x XOR data3 y)"

definition u256_or :: "uint256_t \<Rightarrow> uint256_t \<Rightarrow> uint256_t" where
  "u256_or x y = Uint256 (data0 x OR data0 y) (data1 x OR data1 y)
     (data2 x OR data2 y) (data3 x OR data3 y)"

definition u256_not :: "uint256_t \<Rightarrow> uint256_t" where
  "u256_not x = Uint256 (NOT (data0 x)) (NOT (data1 x)) (NOT (data2 x)) (NOT (data3 x))"

definition u256_eq :: "uint256_t \<Rightarrow> uint256_t \<Rightarrow> bool" where
  "u256_eq x y \<longleftrightarrow> data0 x = data0 y \<and> data1 x = data1 y \<and> data2 x = data2 y \<and> data3 x = data3 y"

definition u256_gt :: "uint256_t \<Rightarrow> uint256_t \<Rightarrow> bool" where
  "u256_gt x y =
     (let t0 = data3 x > data3 y;
          t1 = (data3 x = data3 y \<and> data2 x > data2 y);
          t2 = (data3 x = data3 y \<and> data2 x = data2 y \<and> data1 x > data1 y);
          t3 = (data3 x = data3 y \<and> data2 x = data2 y \<and> data1 x = data1 y \<and> data0 x > data0 y)
      in t0 \<or> t1 \<or> t2 \<or> t3)"

definition u256_ge :: "uint256_t \<Rightarrow> uint256_t \<Rightarrow> bool" where
  "u256_ge x y \<longleftrightarrow> u256_gt x y \<or> u256_eq x y"

definition u256_lt :: "uint256_t \<Rightarrow> uint256_t \<Rightarrow> bool" where
  "u256_lt x y \<longleftrightarrow> u256_gt y x"

definition u256_le :: "uint256_t \<Rightarrow> uint256_t \<Rightarrow> bool" where
  "u256_le x y \<longleftrightarrow> u256_lt x y \<or> u256_eq x y"

section \<open>What the limb primitives compute\<close>

lemma u64_low_half: "uint ((x::u64) AND 0xffffffff) = uint x mod 4294967296"
proof -
  have "x AND 0xffffffff = take_bit 32 x"
    by (simp add: take_bit_eq_mask mask_eq_exp_minus_1)
  then have "uint (x AND 0xffffffff) = take_bit 32 (uint x)"
    by (simp only: unsigned_take_bit_eq)
  then show ?thesis
    by (simp add: take_bit_eq_mod)
qed

lemma u64_high_half: "uint (drop_bit 32 (x::u64)) = uint x div 4294967296"
  by (simp add: uint_drop_bit)

lemma half_prod_bound:
  fixes a b :: int
  assumes "0 \<le> a" "a < 4294967296" "0 \<le> b" "b < 4294967296"
  shows "0 \<le> a * b \<and> a * b \<le> 18446744065119617025"
proof -
  have "a * b \<le> 4294967295 * 4294967295"
    using assms by (intro mult_mono) auto
  then show ?thesis using assms by simp
qed

lemma low_sum_bound:
  "(x * 4294967296) mod B64 + y mod 4294967296 < B64" "0 \<le> (x * 4294967296) mod B64 + y mod 4294967296"
proof -
  have "(x * 4294967296) mod B64 = 4294967296 * (x mod 4294967296)"
    using mult_mod_right [of 4294967296 x 4294967296] by (simp add: mult.commute)
  then show "(x * 4294967296) mod B64 + y mod 4294967296 < B64"
      "0 \<le> (x * 4294967296) mod B64 + y mod 4294967296"
    using pos_mod_bound [of 4294967296 x] pos_mod_bound [of 4294967296 y]
      pos_mod_sign [of 4294967296 x] pos_mod_sign [of 4294967296 y] by linarith+
qed

lemma uint_or_halves:
  "uint (push_bit 32 (c::u64) OR (d AND 0xffffffff)) =
     (uint c * 4294967296) mod B64 + uint d mod 4294967296"
proof -
  have "d AND 0xffffffff = take_bit 32 d"
    by (simp add: take_bit_eq_mask mask_eq_exp_minus_1)
  then have "push_bit 32 c AND (d AND 0xffffffff) = (0::u64)"
    by (simp only:) (rule bit_word_eqI, auto simp: bit_simps)
  then have "push_bit 32 c OR (d AND 0xffffffff) = push_bit 32 c + (d AND 0xffffffff)"
    by (metis word_plus_and_or add.left_neutral)
  then show ?thesis
    using low_sum_bound [of "uint c" "uint d"]
    by (simp add: uint_add64 uint_push_bit64 u64_low_half)
qed

lemma schoolbook_halves:
  fixes ll hl lh hh :: int
  assumes "ll = 4294967296 * llq + llr" and "hl = 4294967296 * hlq + hlr"
    and "llq + hlr + lh = 4294967296 * cq + cr"
  shows "4294967296 * cr + llr + B64 * (hlq + cq + hh) = ll + 4294967296 * (hl + lh) + B64 * hh"
proof -
  have "4294967296 * cr = 4294967296 * (llq + hlr + lh) - B64 * cq"
    unfolding assms(3) by simp
  then show ?thesis
    unfolding assms(1,2) by (simp add: distrib_left)
qed

lemma cross_bounds:
  fixes ll hl lh :: int
  assumes "0 \<le> ll" "ll \<le> 18446744065119617025" "0 \<le> lh" "lh \<le> 18446744065119617025"
  shows "0 \<le> ll div 4294967296 + hl mod 4294967296 + lh"
    and "ll div 4294967296 + hl mod 4294967296 + lh < B64"
    and "0 \<le> ll div 4294967296 + hl mod 4294967296"
proof -
  have "0 \<le> ll div 4294967296" "ll div 4294967296 \<le> 4294967295"
    using assms zdiv_mono1 [of ll 18446744065119617025 4294967296]
    by (simp_all add: pos_imp_zdiv_nonneg_iff)
  moreover have "0 \<le> hl mod 4294967296" "hl mod 4294967296 \<le> 4294967295"
    using pos_mod_bound [of 4294967296 hl] by simp_all
  ultimately show "0 \<le> ll div 4294967296 + hl mod 4294967296 + lh"
      "ll div 4294967296 + hl mod 4294967296 + lh < B64"
      "0 \<le> ll div 4294967296 + hl mod 4294967296"
    using assms by simp_all
qed

lemma mul_wide_eq:
  assumes "mul_wide a b = (lo, hi)"
  shows "uint lo + B64 * uint hi = uint a * uint b"
proof -
  define a0 a1 b0 b1 where "a0 = uint a mod 4294967296" and "a1 = uint a div 4294967296"
    and "b0 = uint b mod 4294967296" and "b1 = uint b div 4294967296"
  note defs = a0_def a1_def b0_def b1_def
  have bounds: "0 \<le> a0" "a0 < 4294967296" "0 \<le> a1" "a1 < 4294967296"
      "0 \<le> b0" "b0 < 4294967296" "0 \<le> b1" "b1 < 4294967296"
    using half_range [OF uint_range64 [of a]] half_range [OF uint_range64 [of b]]
    unfolding defs by blast+
  define ll hl lh hh where "ll = a0 * b0" and "hl = a1 * b0" and "lh = a0 * b1" and "hh = a1 * b1"
  note pdefs = ll_def hl_def lh_def hh_def
  have prods: "0 \<le> ll \<and> ll \<le> 18446744065119617025" "0 \<le> hl \<and> hl \<le> 18446744065119617025"
      "0 \<le> lh \<and> lh \<le> 18446744065119617025" "0 \<le> hh \<and> hh \<le> 18446744065119617025"
    unfolding pdefs by (intro half_prod_bound bounds)+
  define c where "c = ll div 4294967296 + hl mod 4294967296 + lh"
  have c: "0 \<le> c" "c < B64" "0 \<le> ll div 4294967296 + hl mod 4294967296"
    unfolding c_def using prods cross_bounds [of ll lh hl] by blast+
  have ab: "uint a * uint b = ll + 4294967296 * (hl + lh) + B64 * hh"
  proof -
    have "uint a = 4294967296 * a1 + a0" "uint b = 4294967296 * b1 + b0"
      unfolding defs by (simp_all only: mult_div_mod_eq)
    then show ?thesis by (simp add: pdefs algebra_simps)
  qed
  define h where "h = hl div 4294967296 + c div 4294967296 + hh"
  have shift: "(c * 4294967296) mod B64 = 4294967296 * (c mod 4294967296)"
    using mult_mod_right [of 4294967296 c 4294967296] by (simp add: mult.commute)
  have sum: "(c * 4294967296) mod B64 + ll mod 4294967296 + B64 * h = uint a * uint b"
    unfolding ab h_def shift
    by (rule schoolbook_halves [of ll "ll div 4294967296" _ hl _ "hl mod 4294967296" lh])
      (simp_all only: mult_div_mod_eq c_def)
  have "0 \<le> hl div 4294967296" "0 \<le> c div 4294967296"
    using prods c by (simp_all add: pos_imp_zdiv_nonneg_iff)
  moreover have "h < B64"
  proof -
    have "B64 * h \<le> uint a * uint b"
      unfolding sum [symmetric] by simp
    then show ?thesis
      using limb_prod_le [of a b] by linarith
  qed
  ultimately have h: "0 \<le> hl div 4294967296 + c div 4294967296" "h < B64"
      "hl div 4294967296 + c div 4294967296 < B64" "0 \<le> h"
    using prods unfolding h_def by simp_all
  have w: "uint (a AND 0xffffffff) = a0" "uint (drop_bit 32 a) = a1"
      "uint (b AND 0xffffffff) = b0" "uint (drop_bit 32 b) = b1"
    by (simp_all only: defs u64_low_half u64_high_half)
  have ww: "uint ((a AND 0xffffffff) * (b AND 0xffffffff)) = ll"
      "uint (drop_bit 32 a * (b AND 0xffffffff)) = hl"
      "uint ((a AND 0xffffffff) * drop_bit 32 b) = lh" "uint (drop_bit 32 a * drop_bit 32 b) = hh"
    using prods by (simp_all add: uint_mul64 w pdefs)
  define cross where "cross = drop_bit 32 ((a AND 0xffffffff) * (b AND 0xffffffff))
      + (drop_bit 32 a * (b AND 0xffffffff) AND 0xffffffff) + (a AND 0xffffffff) * drop_bit 32 b"
  have cw: "uint cross = c"
    unfolding cross_def uint_add64 u64_low_half u64_high_half ww
    using prods c by (simp add: c_def mod_simps)
  have lo: "lo = push_bit 32 cross OR ((a AND 0xffffffff) * (b AND 0xffffffff) AND 0xffffffff)"
    and hi: "hi = drop_bit 32 (drop_bit 32 a * (b AND 0xffffffff)) + drop_bit 32 cross
      + drop_bit 32 a * drop_bit 32 b"
    using assms by (simp_all add: mul_wide_def Let_def cross_def)
  have "uint lo = (c * 4294967296) mod B64 + ll mod 4294967296"
    unfolding lo by (simp only: uint_or_halves cw ww)
  moreover have "uint hi = h"
    unfolding hi uint_add64 u64_high_half ww cw using h by (simp add: h_def mod_simps)
  ultimately show ?thesis
    using sum by simp
qed

lemma addc_eq:
  assumes "addc a b c = (r, c')" and "uint c \<le> 1"
  shows "uint r + B64 * uint c' = uint a + uint b + uint c \<and> uint c' \<le> 1"
proof -
  have r: "r = c + (a + b)" and c': "c' = b2w (a + b < a) + b2w (c + (a + b) < c)"
    using assms(1) by (auto simp: addc_def Let_def add.commute)
  have "uint r = uint c + (uint a + uint b - B64 * of_bool (a + b < a)) - B64 * of_bool (r < c)"
    unfolding r by (simp only: uint_add_carry)
  moreover have "uint c' = of_bool (a + b < a) + of_bool (r < c)"
    unfolding c' r by simp
  ultimately show ?thesis
    using assms(2) uint_range64 [of a] uint_range64 [of b] uint_range64 [of r]
    by (smt (verit) of_bool_eq)
qed

lemma mod_witness: "x mod m = y \<Longrightarrow> \<exists>k. y + m * k = (x::int)"
  by (metis add.commute mult_div_mod_eq)

lemma addc_discard_hi_eq:
  "\<exists>k. uint (addc_discard_hi a b c) + B64 * k = uint a + uint b + uint c"
  by (rule mod_witness) (simp add: addc_discard_hi_def uint_add64 mod_simps)

text \<open>A borrow is carried as 0 or all ones; its top bit is the number to subtract.\<close>

definition borrow_bit :: "u64 \<Rightarrow> int" where
  "borrow_bit b = uint (drop_bit 63 b)"

definition is_borrow :: "u64 \<Rightarrow> bool" where
  "is_borrow b \<longleftrightarrow> b = 0 \<or> b = - 1"

lemma borrow_bit_range: "0 \<le> borrow_bit b \<and> borrow_bit b \<le> 1"
proof -
  have "uint b div 2 ^ 63 < 2"
    using uint_lt64 [of b] by (simp add: div_less_iff_less_mult)
  then show ?thesis
    by (simp add: borrow_bit_def uint_drop_bit pos_imp_zdiv_nonneg_iff)
qed

lemma borrow_bit_0 [simp]: "borrow_bit 0 = 0"
  by (simp add: borrow_bit_def)

lemma borrow_bit_b2w: "borrow_bit (0 - b2w p) = of_bool p"
  by (simp add: borrow_bit_def b2w_def uint_drop_bit uint_word_ariths)

lemma sbb_eq:
  assumes "sbb a b c = (r, c')"
  shows "uint r - B64 * borrow_bit c' = uint a - uint b - borrow_bit c \<and> is_borrow c'"
proof -
  define t where "t = a - drop_bit 63 c"
  have r: "r = t - b" and c': "c' = 0 - b2w (t > a \<or> r > t)"
    using assms by (auto simp: sbb_def Let_def t_def)
  have "uint t = uint a - borrow_bit c + B64 * of_bool (t > a)"
    unfolding t_def borrow_bit_def by (rule uint_sub_borrow)
  moreover have "uint r = uint t - uint b + B64 * of_bool (r > t)"
    unfolding r by (rule uint_sub_borrow)
  moreover have "borrow_bit c' = of_bool (t > a \<or> r > t)"
    unfolding c' by (rule borrow_bit_b2w)
  moreover have "is_borrow c'"
    unfolding c' is_borrow_def by (simp add: b2w_def)
  ultimately show ?thesis
    using borrow_bit_range [of c] uint_range64 [of a] uint_range64 [of b] uint_range64 [of r]
      uint_range64 [of t] by (smt (verit) of_bool_eq)
qed

lemma sbb_discard_hi_eq:
  "\<exists>k. uint (sbb_discard_hi a b c) + B64 * k = uint a - uint b - borrow_bit c"
  by (rule mod_witness) (simp add: sbb_discard_hi_def borrow_bit_def uint_sub64 mod_simps)

lemma mac_eq:
  assumes "mac a b c d = (r, e)"
  shows "uint r + B64 * uint e = uint a + uint b * uint c + uint d"
proof -
  obtain f s where fs: "mul_wide b c = (f, s)"
    by (cases "mul_wide b c")
  have r: "r = d + (a + f)" and e: "e = s + (b2w (a + f < a) + b2w (r < d))"
    using assms by (auto simp: mac_def fs Let_def ac_simps)
  have "uint r = uint d + (uint a + uint f - B64 * of_bool (a + f < a)) - B64 * of_bool (r < d)"
    unfolding r by (simp only: uint_add_carry)
  moreover have "uint f + B64 * uint s = uint b * uint c"
    using fs by (rule mul_wide_eq)
  moreover have "uint e = (uint s + (of_bool (a + f < a) + of_bool (r < d))) mod B64"
    unfolding e by (metis uint_add64 uint_add_b2w)
  moreover have "uint s + (of_bool (a + f < a) + of_bool (r < d)) < B64"
    using calculation(1,2) limb_prod_le [of b c] uint_range64 [of a] uint_range64 [of d]
      uint_range64 [of r] by linarith
  ultimately show ?thesis
    by simp
qed

lemma mac_discard_hi_eq:
  "\<exists>k. uint (mac_discard_hi a b c d) + B64 * k = uint a + uint b * uint c + uint d"
  by (rule mod_witness)
    (simp add: mac_discard_hi_def uint_add64 uint_mul64 mod_simps algebra_simps)
section \<open>The abstraction to integers\<close>

lemma B256_eq: "B256 = 2 ^ 256"
  by simp

lemma ival_range: "0 \<le> ival x \<and> ival x < B256"
  using uint_range64 [of "data0 x"] uint_range64 [of "data1 x"] uint_range64 [of "data2 x"]
    uint_range64 [of "data3 x"] unfolding ival_def by linarith

lemma ival_0 [simp]: "ival (Uint256 0 0 0 0) = 0"
  by (simp add: ival_def)

lemma ival_of_u64 [simp]: "ival (uint256_of_u64 a) = uint a"
  by (simp add: ival_def uint256_of_u64_def)

lemma ival_eqI:
  assumes "ival x + B256 * k = z"
  shows "ival x = z mod B256"
  using assms ival_range [of x] by (metis mod_mult_self2 mod_pos_pos_trivial)

text \<open>Limbs are the digits of the value, so the value determines them.\<close>

lemma radix_unique:
  fixes a b c d :: int
  assumes "a + B64 * b = c + B64 * d" and "0 \<le> a" "a < B64" "0 \<le> c" "c < B64"
  shows "a = c \<and> b = d"
proof -
  have "a = (a + B64 * b) mod B64" "c = (c + B64 * d) mod B64"
    using assms(2-5) by simp_all
  then have "a = c"
    using assms(1) by simp
  with assms(1) show ?thesis
    by simp
qed

lemma ival_horner: "ival z = uint (data0 z) + B64 * (uint (data1 z) + B64 * (uint (data2 z)
    + B64 * uint (data3 z)))"
  by (simp add: ival_def)

lemma uint_word_eq: "uint x = uint y \<longleftrightarrow> x = (y::'a::len word)"
  by (rule word_uint_eq_iff [symmetric])

lemma ival_inject: "ival x = ival y \<longleftrightarrow> x = y"
proof
  assume eq: "ival x = ival y"
  note horner = ival_horner
  note r = uint_range64 [THEN conjunct1] uint_range64 [THEN conjunct2]
  from eq have 0: "uint (data0 x) = uint (data0 y) \<and>
      uint (data1 x) + B64 * (uint (data2 x) + B64 * uint (data3 x))
      = uint (data1 y) + B64 * (uint (data2 y) + B64 * uint (data3 y))"
    unfolding horner by (rule radix_unique) (rule r)+
  from 0 [THEN conjunct2] have 1: "uint (data1 x) = uint (data1 y) \<and>
      uint (data2 x) + B64 * uint (data3 x) = uint (data2 y) + B64 * uint (data3 y)"
    by (rule radix_unique) (rule r)+
  from 1 [THEN conjunct2] have "uint (data2 x) = uint (data2 y) \<and> uint (data3 x) = uint (data3 y)"
    by (rule radix_unique) (rule r)+
  with 0 1 show "x = y"
    by (simp add: uint256_t.expand uint_word_eq)
qed simp

section \<open>Addition, subtraction, multiplication\<close>

lemma ival_add: "ival (u256_add x y) = (ival x + ival y) mod B256"
proof -
  obtain r0 t0 where 0: "addc (data0 x) (data0 y) 0 = (r0, t0)" by fastforce
  obtain r1 t1 where 1: "addc (data1 x) (data1 y) t0 = (r1, t1)" by fastforce
  obtain r2 t2 where 2: "addc (data2 x) (data2 y) t1 = (r2, t2)" by fastforce
  obtain k where 3: "uint (addc_discard_hi (data3 x) (data3 y) t2) + B64 * k
      = uint (data3 x) + uint (data3 y) + uint t2"
    using addc_discard_hi_eq by blast
  note e0 = addc_eq [OF 0, simplified]
  note e1 = addc_eq [OF 1 e0 [THEN conjunct2]]
  note e2 = addc_eq [OF 2 e1 [THEN conjunct2]]
  have "ival (u256_add x y) + B256 * k = ival x + ival y"
    using e0 e1 e2 3 unfolding u256_add_def ival_def by (simp add: 0 1 2)
  then show ?thesis
    by (rule ival_eqI)
qed

lemma ival_sub: "ival (u256_sub x y) = (ival x - ival y) mod B256"
proof -
  obtain r0 t0 where 0: "sbb (data0 x) (data0 y) 0 = (r0, t0)" by fastforce
  obtain r1 t1 where 1: "sbb (data1 x) (data1 y) t0 = (r1, t1)" by fastforce
  obtain r2 t2 where 2: "sbb (data2 x) (data2 y) t1 = (r2, t2)" by fastforce
  obtain k where 3: "uint (sbb_discard_hi (data3 x) (data3 y) t2) + B64 * k
      = uint (data3 x) - uint (data3 y) - borrow_bit t2"
    using sbb_discard_hi_eq by blast
  note e = sbb_eq [OF 0, simplified, THEN conjunct1] sbb_eq [OF 1, THEN conjunct1]
    sbb_eq [OF 2, THEN conjunct1]
  have "ival (u256_sub x y) + B256 * k = ival x - ival y"
    using e 3 unfolding u256_sub_def ival_def by (simp add: 0 1 2)
  then show ?thesis
    by (rule ival_eqI)
qed

lemma ival_neg: "ival (u256_neg x) = (- ival x) mod B256"
  by (simp add: u256_neg_def ival_sub)

lemma ival_prod:
  fixes a0 a1 a2 a3 b0 b1 b2 b3 :: int
  shows "(a0 + 18446744073709551616 * a1 + 340282366920938463463374607431768211456 * a2
      + 6277101735386680763835789423207666416102355444464034512896 * a3)
    * (b0 + 18446744073709551616 * b1 + 340282366920938463463374607431768211456 * b2
      + 6277101735386680763835789423207666416102355444464034512896 * b3) =
    a0 * b0 + B64 * (a0 * b1 + a1 * b0 + B64 * (a0 * b2 + a1 * b1 + a2 * b0
    + B64 * (a0 * b3 + a1 * b2 + a2 * b1 + a3 * b0
    + B64 * (a1 * b3 + a2 * b2 + a3 * b1 + B64 * (a2 * b3 + a3 * b2 + B64 * (a3 * b3))))))"
  by (simp add: algebra_simps)

lemma ival_mul_extended:
  assumes "u256_mul_extended x y = (lo, hi)"
  shows "ival lo + B256 * ival hi = ival x * ival y"
proof -
  obtain r0 t0 where 0: "mul_wide (data0 x) (data0 y) = (r0, t0)" by fastforce
  obtain q0 t1 where 1: "mac t0 (data0 x) (data1 y) 0 = (q0, t1)" by fastforce
  obtain q1 t2 where 2: "mac t1 (data0 x) (data2 y) 0 = (q1, t2)" by fastforce
  obtain q2 z0 where 3: "mac t2 (data0 x) (data3 y) 0 = (q2, z0)" by fastforce
  obtain r1 t3 where 4: "mac q0 (data1 x) (data0 y) 0 = (r1, t3)" by fastforce
  obtain q3 t4 where 5: "mac q1 (data1 x) (data1 y) t3 = (q3, t4)" by fastforce
  obtain q4 t5 where 6: "mac q2 (data1 x) (data2 y) t4 = (q4, t5)" by fastforce
  obtain q5 z1 where 7: "mac z0 (data1 x) (data3 y) t5 = (q5, z1)" by fastforce
  obtain r2 t6 where 8: "mac q3 (data2 x) (data0 y) 0 = (r2, t6)" by fastforce
  obtain q6 t7 where 9: "mac q4 (data2 x) (data1 y) t6 = (q6, t7)" by fastforce
  obtain q7 t8 where 10: "mac q5 (data2 x) (data2 y) t7 = (q7, t8)" by fastforce
  obtain q8 z2 where 11: "mac z1 (data2 x) (data3 y) t8 = (q8, z2)" by fastforce
  obtain r3 t9 where 12: "mac q6 (data3 x) (data0 y) 0 = (r3, t9)" by fastforce
  obtain r4 t10 where 13: "mac q7 (data3 x) (data1 y) t9 = (r4, t10)" by fastforce
  obtain r5 t11 where 14: "mac q8 (data3 x) (data2 y) t10 = (r5, t11)" by fastforce
  obtain r6 r7 where 15: "mac z2 (data3 x) (data3 y) t11 = (r6, r7)" by fastforce
  have out: "lo = Uint256 r0 r1 r2 r3" "hi = Uint256 r4 r5 r6 r7"
    using assms unfolding u256_mul_extended_def
    by (simp_all add: 0 1 2 3 4 5 6 7 8 9 10 11 12 13 14 15)
  note e = mul_wide_eq [OF 0] mac_eq [OF 1] mac_eq [OF 2] mac_eq [OF 3] mac_eq [OF 4]
    mac_eq [OF 5] mac_eq [OF 6] mac_eq [OF 7] mac_eq [OF 8] mac_eq [OF 9] mac_eq [OF 10]
    mac_eq [OF 11] mac_eq [OF 12] mac_eq [OF 13] mac_eq [OF 14] mac_eq [OF 15]
  show ?thesis
    unfolding out ival_def uint256_t.sel unfolding ival_prod unfolding distrib_left
    using e uint_0_eq [where 'a = 64] by linarith
qed

lemma ival_mul: "ival (u256_mul x y) = (ival x * ival y) mod B256"
proof -
  obtain r0 t0 where 0: "mac 0 (data0 x) (data0 y) 0 = (r0, t0)" by fastforce
  obtain q0 t1 where 1: "mac 0 (data0 x) (data1 y) t0 = (q0, t1)" by fastforce
  obtain q1 t2 where 2: "mac 0 (data0 x) (data2 y) t1 = (q1, t2)" by fastforce
  define q2 where "q2 = mac_discard_hi 0 (data0 x) (data3 y) t2"
  obtain r1 t3 where 3: "mac q0 (data1 x) (data0 y) 0 = (r1, t3)" by fastforce
  obtain q3 t4 where 4: "mac q1 (data1 x) (data1 y) t3 = (q3, t4)" by fastforce
  define q4 where "q4 = mac_discard_hi q2 (data1 x) (data2 y) t4"
  obtain r2 t5 where 5: "mac q3 (data2 x) (data0 y) 0 = (r2, t5)" by fastforce
  define q5 where "q5 = mac_discard_hi q4 (data2 x) (data1 y) t5"
  define r3 where "r3 = mac_discard_hi q5 (data3 x) (data0 y) 0"
  have out: "u256_mul x y = Uint256 r0 r1 r2 r3"
    unfolding u256_mul_def by (simp add: 0 1 2 3 4 5 q2_def q4_def q5_def r3_def)
  obtain k2 where k2: "uint q2 + B64 * k2 = uint (0::u64) + uint (data0 x) * uint (data3 y) + uint t2"
    unfolding q2_def using mac_discard_hi_eq by blast
  obtain k4 where k4: "uint q4 + B64 * k4 = uint q2 + uint (data1 x) * uint (data2 y) + uint t4"
    unfolding q4_def using mac_discard_hi_eq by blast
  obtain k5 where k5: "uint q5 + B64 * k5 = uint q4 + uint (data2 x) * uint (data1 y) + uint t5"
    unfolding q5_def using mac_discard_hi_eq by blast
  obtain k6 where k6: "uint r3 + B64 * k6 = uint q5 + uint (data3 x) * uint (data0 y) + uint (0::u64)"
    unfolding r3_def using mac_discard_hi_eq by blast
  note e = mac_eq [OF 0] mac_eq [OF 1] mac_eq [OF 2] mac_eq [OF 3] mac_eq [OF 4] mac_eq [OF 5]
    k2 k4 k5 k6
  define high where "high = k2 + k4 + k5 + k6
    + (uint (data1 x) * uint (data3 y) + uint (data2 x) * uint (data2 y) + uint (data3 x) * uint (data1 y)
    + B64 * (uint (data2 x) * uint (data3 y) + uint (data3 x) * uint (data2 y)
    + B64 * (uint (data3 x) * uint (data3 y))))"
  have "ival (u256_mul x y) + B256 * high = ival x * ival y"
    unfolding out ival_def high_def uint256_t.sel unfolding ival_prod unfolding distrib_left
    using e uint_0_eq [where 'a = 64] by linarith
  then show ?thesis
    by (rule ival_eqI)
qed

section \<open>Bitwise operators and comparisons\<close>

lemma ival_concat:
  "ival x = concat_bit 64 (uint (data0 x)) (concat_bit 64 (uint (data1 x))
     (concat_bit 64 (uint (data2 x)) (uint (data3 x))))"
proof -
  have "take_bit 64 (uint (w::u64)) = uint w" for w
    using uint_range64 [of w] by (simp add: take_bit_int_eq_self)
  then show ?thesis
    by (simp add: ival_horner concat_bit_eq push_bit_eq_mult)
qed

lemma ival_and: "ival (u256_and x y) = ival x AND ival y"
  unfolding ival_concat u256_and_def uint256_t.sel unsigned_and_eq
  by (rule bit_eqI) (auto simp: bit_concat_bit_iff bit_and_iff)

lemma ival_or: "ival (u256_or x y) = ival x OR ival y"
  unfolding ival_concat u256_or_def uint256_t.sel unsigned_or_eq
  by (rule bit_eqI) (auto simp: bit_concat_bit_iff bit_or_iff)

lemma ival_xor: "ival (u256_xor x y) = ival x XOR ival y"
  unfolding ival_concat u256_xor_def uint256_t.sel unsigned_xor_eq
  by (rule bit_eqI) (auto simp: bit_concat_bit_iff bit_xor_iff)

lemma uint_not64: "uint (NOT (w::u64)) = 18446744073709551615 - uint w"
proof -
  have "NOT w = - 1 - w"
    by (simp add: not_eq_complement)
  then have "uint (NOT w) = (18446744073709551615 - uint w) mod B64"
    by (simp add: uint_sub64 unsigned_minus_1_eq_mask mask_eq_exp_minus_1)
  then show ?thesis
    using uint_range64 [of w] by simp
qed

lemma ival_not: "ival (u256_not x) = B256 - 1 - ival x"
  unfolding ival_def u256_not_def uint256_t.sel uint_not64 by simp

lemma radix_less:
  fixes a b c d :: int
  assumes "0 \<le> a" "a < B64" "0 \<le> c" "c < B64"
  shows "a + B64 * b < c + B64 * d \<longleftrightarrow> b < d \<or> b = d \<and> a < c"
proof (cases b d rule: linorder_cases)
  case less
  then have "B64 * (b + 1) \<le> B64 * d"
    by (intro mult_left_mono) simp_all
  with less assms show ?thesis
    by (simp add: distrib_left)
next
  case equal
  then show ?thesis by simp
next
  case greater
  then have "B64 * (d + 1) \<le> B64 * b"
    by (intro mult_left_mono) simp_all
  with greater assms show ?thesis
    by (simp add: distrib_left)
qed

lemma radix_eq:
  fixes a b c d :: int
  assumes "0 \<le> a" "a < B64" "0 \<le> c" "c < B64"
  shows "a + B64 * b = c + B64 * d \<longleftrightarrow> a = c \<and> b = d"
  using radix_unique [of a b c d] assms by auto

lemma u256_gt_iff: "u256_gt x y \<longleftrightarrow> ival x > ival y"
proof -
  note r = uint_range64 [THEN conjunct1] uint_range64 [THEN conjunct2]
  have "ival y < ival x \<longleftrightarrow> uint (data3 y) < uint (data3 x) \<or> uint (data3 y) = uint (data3 x) \<and>
      (uint (data2 y) < uint (data2 x) \<or> uint (data2 y) = uint (data2 x) \<and>
      (uint (data1 y) < uint (data1 x) \<or> uint (data1 y) = uint (data1 x) \<and>
       uint (data0 y) < uint (data0 x)))"
    unfolding ival_horner
    by (auto simp only: radix_less radix_eq r)
  then show ?thesis
    unfolding u256_gt_def Let_def word_less_def uint_word_eq by auto
qed

lemma u256_eq_iff: "u256_eq x y \<longleftrightarrow> ival x = ival y"
  unfolding ival_inject u256_eq_def by (auto intro: uint256_t.expand)

lemma u256_ge_iff: "u256_ge x y \<longleftrightarrow> ival x \<ge> ival y"
  unfolding u256_ge_def u256_gt_iff u256_eq_iff by auto

lemma u256_lt_iff: "u256_lt x y \<longleftrightarrow> ival x < ival y"
  unfolding u256_lt_def u256_gt_iff by auto

lemma u256_le_iff: "u256_le x y \<longleftrightarrow> ival x \<le> ival y"
  unfolding u256_le_def u256_lt_iff u256_eq_iff by auto

lemmas u256_cmp_iffs = u256_gt_iff u256_ge_iff u256_lt_iff u256_le_iff u256_eq_iff
lemmas u256_arith = ival_add ival_sub ival_neg ival_mul ival_and ival_or ival_xor ival_not

text \<open>The order of the class is the library's linear order on the type.\<close>

instantiation uint256_t :: linorder
begin
definition less_uint256_t :: "uint256_t \<Rightarrow> uint256_t \<Rightarrow> bool" where
  "less_uint256_t x y = u256_lt x y"
definition less_eq_uint256_t :: "uint256_t \<Rightarrow> uint256_t \<Rightarrow> bool" where
  "less_eq_uint256_t x y = u256_le x y"
instance
  by standard (auto simp: less_uint256_t_def less_eq_uint256_t_def u256_cmp_iffs ival_inject)
end

end
