(* ===== verification/Serialize.thy ===== *)
theory Serialize
  imports Uint256
begin

text \<open>
  Binary serialization, common/serialize.hpp: integers are written big endian, containers with
  the number of their elements in 32 bits in front. A writer is the list of bytes it appends;
  a reader takes the bytes at the pointer and gives the value with the bytes after it, or None
  where the C++ code would read past the end of the buffer.
\<close>

type_synonym 'a reader = "u8 list \<Rightarrow> ('a \<times> u8 list) option"
type_synonym 'a writer = "'a \<Rightarrow> u8 list"

section \<open>Integers\<close>

text \<open>
  A load of n bytes followed by ntohs, ntohl or ntohll, on any host: the first byte is the most
  significant.
\<close>

definition be_value :: "u8 list \<Rightarrow> 'a::len word" where
  "be_value bs = foldl (\<lambda>v b. push_bit 8 v OR ucast b) 0 bs"

fun be_bytes :: "nat \<Rightarrow> 'a::len word \<Rightarrow> u8 list" where
  "be_bytes 0 w = []"
| "be_bytes (Suc n) w = be_bytes n (drop_bit 8 w) @ [ucast w]"

definition read_be :: "nat \<Rightarrow> 'a::len word reader" where
  "read_be n it = (if length it < n then None else Some (be_value (take n it), drop n it))"

definition read_u8 :: "u8 reader" where
  "read_u8 it = (case it of [] \<Rightarrow> None | b # rest \<Rightarrow> Some (b, rest))"

definition write_u8 :: "u8 writer" where
  "write_u8 v = [v]"

definition read_bool :: "bool reader" where
  "read_bool it = (case it of [] \<Rightarrow> None | b # rest \<Rightarrow> Some (b \<noteq> 0, rest))"

definition write_bool :: "bool writer" where
  "write_bool v = [of_bool v]"

definition read_u16 :: "u16 reader" where
  "read_u16 = read_be 2"

definition write_u16 :: "u16 writer" where
  "write_u16 = be_bytes 2"

definition read_u32 :: "u32 reader" where
  "read_u32 = read_be 4"

definition write_u32 :: "u32 writer" where
  "write_u32 = be_bytes 4"

definition read_u64 :: "u64 reader" where
  "read_u64 = read_be 8"

definition write_u64 :: "u64 writer" where
  "write_u64 = be_bytes 8"

definition read_u128 :: "u128 reader" where
  "read_u128 it =
     Option.bind (read_u64 it) (\<lambda>(hi, it).
     Option.bind (read_u64 it) (\<lambda>(lo, it).
       Some (push_bit 64 (ucast hi) OR ucast lo, it)))"

definition write_u128 :: "u128 writer" where
  "write_u128 v = write_u64 (ucast (drop_bit 64 v)) @ write_u64 (ucast v)"

section \<open>Containers\<close>

text \<open>Arrays have a fixed length and no prefix; n is the template argument.\<close>

fun read_array :: "'a reader \<Rightarrow> nat \<Rightarrow> 'a list reader" where
  "read_array rd 0 it = Some ([], it)"
| "read_array rd (Suc n) it =
     Option.bind (rd it) (\<lambda>(x, it). Option.bind (read_array rd n it) (\<lambda>(xs, it). Some (x # xs, it)))"

definition write_array :: "'a writer \<Rightarrow> 'a list writer" where
  "write_array wr xs = concat (map wr xs)"

definition read_vector :: "'a reader \<Rightarrow> 'a list reader" where
  "read_vector rd it = Option.bind (read_u32 it) (\<lambda>(n, it). read_array rd (unat n) it)"

definition write_vector :: "'a writer \<Rightarrow> 'a list writer" where
  "write_vector wr xs = write_u32 (of_nat (length xs)) @ write_array wr xs"

text \<open>Vectors and arrays of bytes are copied in one go.\<close>

definition read_byte_array :: "nat \<Rightarrow> u8 list reader" where
  "read_byte_array n it = (if length it < n then None else Some (take n it, drop n it))"

definition read_bytes :: "u8 list reader" where
  "read_bytes it = Option.bind (read_u32 it) (\<lambda>(n, it). read_byte_array (unat n) it)"

definition write_bytes :: "u8 list writer" where
  "write_bytes bs = write_u32 (of_nat (length bs)) @ bs"

text \<open>A string is a vector of its bytes.\<close>

definition read_string :: "string reader" where
  "read_string it = map_option (\<lambda>(bs, it). (map (\<lambda>b. char_of (unat b)) bs, it)) (read_bytes it)"

definition write_string :: "string writer" where
  "write_string s = write_bytes (map (\<lambda>c. of_nat (of_char c)) s)"

definition read_pair :: "'a reader \<Rightarrow> 'b reader \<Rightarrow> ('a \<times> 'b) reader" where
  "read_pair rd1 rd2 it =
     Option.bind (rd1 it) (\<lambda>(x, it). Option.bind (rd2 it) (\<lambda>(y, it). Some ((x, y), it)))"

definition write_pair :: "'a writer \<Rightarrow> 'b writer \<Rightarrow> ('a \<times> 'b) writer" where
  "write_pair wr1 wr2 p = wr1 (fst p) @ wr2 (snd p)"

text \<open>
  A std::map is its list of pairs in the order of the keys; emplace keeps the pair that is
  already there.
\<close>

fun emplace :: "'k::linorder \<times> 'v \<Rightarrow> ('k \<times> 'v) list \<Rightarrow> ('k \<times> 'v) list" where
  "emplace p [] = [p]"
| "emplace p (q # qs) =
     (if fst p < fst q then p # q # qs else if fst p = fst q then q # qs else q # emplace p qs)"

definition read_map :: "'k::linorder reader \<Rightarrow> 'v reader \<Rightarrow> ('k \<times> 'v) list reader" where
  "read_map rd1 rd2 it =
     Option.bind (read_u32 it) (\<lambda>(n, it).
     Option.bind (read_array (read_pair rd1 rd2) (unat n) it) (\<lambda>(ps, it).
       Some (foldl (\<lambda>m p. emplace p m) [] ps, it)))"

definition write_map :: "'k::linorder writer \<Rightarrow> 'v writer \<Rightarrow> ('k \<times> 'v) list writer" where
  "write_map wr1 wr2 m = write_u32 (of_nat (length m)) @ write_array (write_pair wr1 wr2) m"

definition read_optional :: "'a reader \<Rightarrow> 'a option reader" where
  "read_optional rd it =
     Option.bind (read_bool it) (\<lambda>(is_nullopt, it).
       if is_nullopt then Some (None, it)
       else Option.bind (rd it) (\<lambda>(x, it). Some (Some x, it)))"

definition write_optional :: "'a writer \<Rightarrow> 'a option writer" where
  "write_optional wr v = (case v of Some x \<Rightarrow> write_bool False @ wr x | None \<Rightarrow> write_bool True)"

section \<open>Buffers\<close>

definition from_buffer :: "'a reader \<Rightarrow> u8 list \<Rightarrow> nat \<Rightarrow> 'a option" where
  "from_buffer rd buffer offset = map_option fst (rd (drop offset buffer))"

definition to_buffer :: "'a writer \<Rightarrow> 'a \<Rightarrow> u8 list" where
  "to_buffer wr x = wr x"

definition to_buffer_vector :: "bool \<Rightarrow> 'a writer \<Rightarrow> 'a list \<Rightarrow> u8 list" where
  "to_buffer_vector include_size wr xs = (if include_size then write_vector wr xs else write_array wr xs)"

definition to_heap_buffer :: "'a writer \<Rightarrow> 'a \<Rightarrow> u8 list" where
  "to_heap_buffer wr x = write_bytes (to_buffer wr x)"

text \<open>The number of bytes of a T is an argument; the loop stops at the first read that fails.\<close>

fun from_buffer_each :: "'a reader \<Rightarrow> u8 list \<Rightarrow> nat list \<Rightarrow> 'a list option" where
  "from_buffer_each rd buffer [] = Some []"
| "from_buffer_each rd buffer (offset # offsets) =
     Option.bind (from_buffer rd buffer offset) (\<lambda>x.
       map_option ((#) x) (from_buffer_each rd buffer offsets))"

definition many_from_buffer :: "nat \<Rightarrow> 'a reader \<Rightarrow> u8 list \<Rightarrow> 'a list option" where
  "many_from_buffer sizeof rd buffer =
     from_buffer_each rd buffer (map (\<lambda>i. i * sizeof) [0..<length buffer div sizeof])"

section \<open>Writers and readers that fit\<close>

text \<open>
  What a type promises to the containers that hold it: a value that may be written is read
  back, and the reader stops where the writer did.
\<close>

locale codec =
  fixes wr :: "'a writer" and rd :: "'a reader" and ok :: "'a \<Rightarrow> bool"
  assumes rd_wr: "ok x \<Longrightarrow> rd (wr x @ rest) = Some (x, rest)"
begin

text \<open>No code word is the beginning of another.\<close>

lemma prefix_free: "ok x \<Longrightarrow> ok y \<Longrightarrow> wr x @ r = wr y @ s \<Longrightarrow> x = y \<and> r = s"
  by (metis rd_wr option.inject prod.inject)

lemma array_codec: "list_all ok xs \<Longrightarrow> read_array rd (length xs) (write_array wr xs @ rest) = Some (xs, rest)"
  by (induction xs) (simp_all add: write_array_def rd_wr)

lemma optional_codec:
  "(case v of None \<Rightarrow> True | Some x \<Rightarrow> ok x) \<Longrightarrow> read_optional rd (write_optional wr v @ rest) = Some (v, rest)"
  by (cases v) (simp_all add: read_optional_def write_optional_def read_bool_def write_bool_def rd_wr)

lemma buffer_roundtrip: "ok x \<Longrightarrow> from_buffer rd (bs @ to_buffer wr x @ rest) (length bs) = Some x"
  by (simp add: from_buffer_def to_buffer_def rd_wr)

lemma from_buffer_each_array:
  assumes "list_all ok xs" and "\<And>x. ok x \<Longrightarrow> length (wr x) = n"
  shows "from_buffer_each rd (bs @ write_array wr xs @ rest) (map (\<lambda>i. length bs + i * n) [0..<length xs]) = Some xs"
  using assms(1)
proof (induction xs arbitrary: bs)
  case (Cons x xs)
  have len: "length (wr x) = n"
    using Cons.prems assms(2) by simp
  have shift: "map (\<lambda>i. length bs + i * n) [0..<length (x # xs)] =
      length bs # map (\<lambda>i. length (bs @ wr x) + i * n) [0..<length xs]"
  proof -
    have "[0..<length (x # xs)] = 0 # map Suc [0..<length xs]"
      by (simp only: list.size add_Suc_right add_0_right map_Suc_upt upt_conv_Cons zero_less_Suc)
    then show ?thesis
      by (simp only: list.map list.map_comp o_def length_append len mult_Suc mult_zero_left add_0_right add.assoc)
  qed
  show ?case
    using Cons.IH [of "bs @ wr x"] Cons.prems buffer_roundtrip [of x bs "write_array wr xs @ rest"]
    unfolding shift by (simp add: write_array_def to_buffer_def)
qed simp

lemma length_write_array:
  "list_all ok xs \<Longrightarrow> (\<And>x. ok x \<Longrightarrow> length (wr x) = n) \<Longrightarrow> length (write_array wr xs) = length xs * n"
  by (induction xs) (simp_all add: write_array_def)

lemma many_from_buffer_array:
  assumes "list_all ok xs" and "\<And>x. ok x \<Longrightarrow> length (wr x) = n" and "0 < n"
  shows "many_from_buffer n rd (to_buffer_vector False wr xs) = Some xs"
  using from_buffer_each_array [OF assms(1,2), of "[]" "[]"] length_write_array [OF assms(1,2)] assms(3)
  by (simp add: many_from_buffer_def to_buffer_vector_def)

end

section \<open>Integers are codecs\<close>

lemma length_be_bytes [simp]: "length (be_bytes n w) = n"
  by (induction n w rule: be_bytes.induct) simp_all

lemma be_value_snoc: "be_value (bs @ [b]) = push_bit 8 (be_value bs) OR ucast b"
  by (simp add: be_value_def)

lemma be_value_bytes: "be_value (be_bytes n w) = take_bit (8 * n) (w :: 'a::len word)"
proof (induction n w rule: be_bytes.induct)
  case (2 n w)
  show ?case
    unfolding be_bytes.simps be_value_snoc 2
    by (rule bit_word_eqI) (auto simp: bit_simps)
qed (simp add: be_value_def)

lemma bit_ucast_byte: "bit (ucast (b :: u8) :: 'a::len word) k \<longleftrightarrow> k < LENGTH('a) \<and> k < 8 \<and> bit b k"
  by (auto simp: bit_simps dest: bit_imp_le_length)

lemma not_bit_byte [simp]: "\<not> bit (b :: u8) (8 + k)"
  using bit_imp_le_length [of b "8 + k"] by auto

lemma be_value_bound: "bit (be_value bs :: 'a::len word) k \<Longrightarrow> k < 8 * length bs"
proof (induction bs arbitrary: k rule: rev_induct)
  case (snoc b bs)
  show ?case
  proof (cases "k < 8")
    case False
    then have "bit (be_value bs :: 'a word) (k - 8)"
      using snoc.prems by (auto simp: be_value_snoc bit_simps bit_ucast_byte dest: bit_imp_le_length)
    then show ?thesis
      using snoc.IH [of "k - 8"] False by simp
  qed simp
qed (simp add: be_value_def)

lemma be_bytes_value:
  assumes "length bs = n" and "8 * n \<le> LENGTH('a::len)"
  shows "be_bytes n (be_value bs :: 'a word) = bs"
  using assms
proof (induction bs arbitrary: n rule: rev_induct)
  case (snoc b bs)
  define v where "v = (be_value bs :: 'a word)"
  obtain m where m: "n = Suc m" "length bs = m"
    using snoc.prems(1) by auto
  have high: "drop_bit 8 (push_bit 8 v OR ucast b) = v"
    using be_value_bound [of bs, where 'a = 'a, folded v_def] snoc.prems(2) m
    by (intro bit_word_eqI) (fastforce simp: bit_simps bit_ucast_byte)
  have low: "ucast (push_bit 8 v OR ucast b) = b"
    using snoc.prems(2) m by (intro bit_word_eqI) (auto simp: bit_simps)
  show ?case
    using snoc.IH [of m] snoc.prems(2) m high low unfolding v_def by (simp add: be_value_snoc)
qed (simp add: be_value_def)

lemma read_be_write:
  assumes "LENGTH('a::len) = 8 * n"
  shows "read_be n (be_bytes n (w :: 'a word) @ rest) = Some (w, rest)"
  using assms by (simp add: read_be_def be_value_bytes take_bit_word_eq_self)


lemma write_read_be:
  assumes "read_be n it = Some (w :: 'a::len word, rest)" and "LENGTH('a) = 8 * n"
  shows "it = be_bytes n w @ rest"
  using assms be_bytes_value [of "take n it" n, where 'a = 'a]
  by (auto simp: read_be_def min_def split: if_splits)

interpretation u8_codec: codec write_u8 read_u8 "\<lambda>_. True"
  by unfold_locales (simp add: read_u8_def write_u8_def)

interpretation bool_codec: codec write_bool read_bool "\<lambda>_. True"
  by unfold_locales (simp add: read_bool_def write_bool_def)

interpretation u16_codec: codec write_u16 read_u16 "\<lambda>_. True"
  by unfold_locales (simp add: read_u16_def write_u16_def read_be_write)

interpretation u32_codec: codec write_u32 read_u32 "\<lambda>_. True"
  by unfold_locales (simp add: read_u32_def write_u32_def read_be_write)

interpretation u64_codec: codec write_u64 read_u64 "\<lambda>_. True"
  by unfold_locales (simp add: read_u64_def write_u64_def read_be_write)

lemma u128_halves: "push_bit 64 (ucast (ucast (drop_bit 64 v) :: u64)) OR ucast (ucast v :: u64) = (v :: u128)"
  by (intro bit_word_eqI) (auto simp: bit_simps)

interpretation u128_codec: codec write_u128 read_u128 "\<lambda>_. True"
  by unfold_locales (simp add: read_u128_def write_u128_def u64_codec.rd_wr u128_halves)

interpretation bytes_codec: codec write_bytes read_bytes "\<lambda>bs. length bs < 2 ^ 32"
  by unfold_locales
    (simp add: read_bytes_def write_bytes_def read_byte_array_def u32_codec.rd_wr unat_of_nat)

interpretation string_codec: codec write_string read_string "\<lambda>s. length s < 2 ^ 32"
proof unfold_locales
  fix s :: string and rest
  assume "length s < 2 ^ 32"
  then show "read_string (write_string s @ rest) = Some (s, rest)"
    using bytes_codec.rd_wr [of "map (\<lambda>c. of_nat (of_char c)) s" rest]
    by (simp add: read_string_def write_string_def o_def unat_of_nat)
qed

section \<open>Containers of codecs\<close>

context codec
begin

lemma vector_codec: "codec (write_vector wr) (read_vector rd) (\<lambda>xs. length xs < 2 ^ 32 \<and> list_all ok xs)"
  by unfold_locales
    (simp add: read_vector_def write_vector_def u32_codec.rd_wr unat_of_nat array_codec)

lemma optional_is_codec: "codec (write_optional wr) (read_optional rd) (\<lambda>v. case v of None \<Rightarrow> True | Some x \<Rightarrow> ok x)"
  by unfold_locales (rule optional_codec)

end

locale pair_codec = first: codec wr1 rd1 ok1 + second: codec wr2 rd2 ok2
  for wr1 :: "'a::linorder writer" and rd1 ok1 and wr2 :: "'b writer" and rd2 ok2
begin

lemma pair_is_codec: "codec (write_pair wr1 wr2) (read_pair rd1 rd2) (\<lambda>(x, y). ok1 x \<and> ok2 y)"
  by unfold_locales (auto simp: read_pair_def write_pair_def first.rd_wr second.rd_wr)

lemma emplace_last: "\<forall>q\<in>set m. fst q < fst p \<Longrightarrow> emplace p m = m @ [p]"
  by (induction m) auto

lemma emplace_all: "sorted_wrt (<) (map fst (m @ ps)) \<Longrightarrow> foldl (\<lambda>m p. emplace p m) m ps = m @ ps"
proof (induction ps arbitrary: m)
  case (Cons p ps)
  then have "emplace p m = m @ [p]"
    by (intro emplace_last) (auto simp: sorted_wrt_append)
  then show ?case
    using Cons.IH [of "m @ [p]"] Cons.prems by simp
qed simp

lemma map_is_codec:
  "codec (write_map wr1 wr2) (read_map rd1 rd2)
     (\<lambda>m. length m < 2 ^ 32 \<and> sorted_wrt (<) (map fst m) \<and> list_all (\<lambda>(x, y). ok1 x \<and> ok2 y) m)"
proof unfold_locales
  fix m :: "('a \<times> 'b) list" and rest
  assume m: "length m < 2 ^ 32 \<and> sorted_wrt (<) (map fst m) \<and> list_all (\<lambda>(x, y). ok1 x \<and> ok2 y) m"
  show "read_map rd1 rd2 (write_map wr1 wr2 m @ rest) = Some (m, rest)"
    using m emplace_all [of "[]" m]
    by (simp add: read_map_def write_map_def u32_codec.rd_wr unat_of_nat codec.array_codec [OF pair_is_codec])
qed

end

text \<open>A map from numbers to names.\<close>

interpretation number_name: pair_codec write_u64 read_u64 "\<lambda>_. True" write_string read_string "\<lambda>s. length s < 2 ^ 32" ..

section \<open>256-bit integers\<close>

definition read_uint256 :: "uint256_t reader" where
  "read_uint256 it =
     Option.bind (read_u64 it) (\<lambda>(d, it). Option.bind (read_u64 it) (\<lambda>(c, it).
     Option.bind (read_u64 it) (\<lambda>(b, it). Option.bind (read_u64 it) (\<lambda>(a, it).
       Some (Uint256 a b c d, it)))))"

definition write_uint256 :: "uint256_t writer" where
  "write_uint256 v = write_u64 (data3 v) @ write_u64 (data2 v) @ write_u64 (data1 v) @ write_u64 (data0 v)"

interpretation uint256_codec: codec write_uint256 read_uint256 "\<lambda>_. True"
  by unfold_locales (simp add: read_uint256_def write_uint256_def u64_codec.rd_wr)

lemma length_writes: "length (write_u16 a) = 2" "length (write_u32 b) = 4" "length (write_u64 c) = 8"
  "length (write_u128 d) = 16" "length (write_uint256 v) = 32"
  by (simp_all add: write_u16_def write_u32_def write_u64_def write_u128_def write_uint256_def)

section \<open>Properties\<close>

text \<open>
  Integers of every width are read back as they were written, by a reader that stops right
  after them, and 128- and 256-bit integers are written with their most significant word first.
\<close>

theorem serialize_integers:
  "read_u8 (write_u8 a @ rest) = Some (a, rest) \<and> read_bool (write_bool b @ rest) = Some (b, rest) \<and>
   read_u16 (write_u16 c @ rest) = Some (c, rest) \<and> read_u32 (write_u32 d @ rest) = Some (d, rest) \<and>
   read_u64 (write_u64 e @ rest) = Some (e, rest) \<and> read_u128 (write_u128 f @ rest) = Some (f, rest) \<and>
   read_uint256 (write_uint256 g @ rest) = Some (g, rest)"
  by (simp add: u8_codec.rd_wr bool_codec.rd_wr u16_codec.rd_wr u32_codec.rd_wr u64_codec.rd_wr
    u128_codec.rd_wr uint256_codec.rd_wr)

text \<open>
  C35: Containers of types that are read back as written are read back as written, by readers that
  stop right after them, whatever the widths of the values: vectors of less than 2^32 elements,
  arrays of the length that is read, pairs, maps of less than 2^32 entries in the order of their
  keys, for any ordered type of keys, and optional values. An absent value is the byte 1 alone, and
  a present one the byte 0 with the value after it. If every value takes n bytes, n > 0, then a
  buffer of values without a prefix is read back too.
\<close>

theorem serialize_containers:
  assumes "codec wr rd ok" and "codec wrk rdk okk"
  shows "(list_all ok xs \<longrightarrow> read_array rd (length xs) (write_array wr xs @ rest) = Some (xs, rest) \<and>
      (length xs < 2 ^ 32 \<longrightarrow> read_vector rd (write_vector wr xs @ rest) = Some (xs, rest)) \<and>
      (0 < n \<and> (\<forall>x. ok x \<longrightarrow> length (wr x) = n) \<longrightarrow> many_from_buffer n rd (to_buffer_vector False wr xs) = Some xs)) \<and>
    (okk k \<and> ok x \<longrightarrow> read_pair rdk rd (write_pair wrk wr (k, x) @ rest) = Some ((k, x), rest)) \<and>
    (list_all (\<lambda>(k, x). okk k \<and> ok x) m \<and> sorted_wrt (<) (map fst m) \<and> length m < 2 ^ 32 \<longrightarrow>
      read_map rdk rd (write_map wrk wr m @ rest) = Some (m, rest)) \<and>
    write_optional wr None = [1] \<and> write_optional wr (Some x) = 0 # wr x \<and>
    read_optional rd (write_optional wr None @ rest) = Some (None, rest) \<and>
    (ok x \<longrightarrow> read_optional rd (write_optional wr (Some x) @ rest) = Some (Some x, rest))"
proof -
  have p: "pair_codec wrk rdk okk wr rd ok"
    using assms by (simp add: pair_codec_def)
  note vec = codec.rd_wr [OF codec.vector_codec [OF assms(1)]] and opt = codec.rd_wr [OF codec.optional_is_codec [OF assms(1)]]
    and pair = codec.rd_wr [OF pair_codec.pair_is_codec [OF p]] and map = codec.rd_wr [OF pair_codec.map_is_codec [OF p]]
  show ?thesis
    using codec.array_codec [OF assms(1)] codec.many_from_buffer_array [OF assms(1)] vec [of xs] pair [of "(k, x)"] map [of m]
      opt [of None] opt [of "Some x"]
    by (simp add: write_optional_def write_bool_def)
qed

lemma serialize_containers_witness:
  "read_map read_u64 read_string (write_map write_u64 write_string [(3, ''a''), (5, ''bc'')] @ [0xff]) = Some ([(3, ''a''), (5, ''bc'')], [0xff]) \<and>
   read_optional read_string (write_optional write_string None @ [0xff]) = Some (None, [0xff]) \<and>
   many_from_buffer 4 read_u32 (to_buffer_vector False write_u32 [7, 8]) = Some [7, 8]"
  using serialize_containers [OF string_codec.codec_axioms u64_codec.codec_axioms, where xs = "[]" and n = 1 and k = 1 and rest = "[0xff]" and x = "''a''" and
      m = "[(3, ''a''), (5, ''bc'')]"]
    serialize_containers [OF u32_codec.codec_axioms u64_codec.codec_axioms, where xs = "[7, 8]" and rest = "[]" and n = 4 and k = 1 and x = 0 and m = "[]"]
  by (auto simp: length_writes)

end
