(* ===== verification/Bitop.thy ===== *)
theory Bitop
  imports Prelude
begin

text \<open>
  The 32- and 64-bit helpers of numeric/bitop: rotation, masking, the de Bruijn
  most-significant-bit tables and exponentiation modulo 2 ^ 64.
\<close>

section \<open>rotate.hpp, keep_n_lsb.hpp\<close>

definition rotate64 :: "u64 \<Rightarrow> u64 \<Rightarrow> u64" where
  "rotate64 value rotation =
     (if rotation \<noteq> 0
      then drop_bit (unat rotation) value + push_bit (unat (64 - rotation)) value
      else value)"

definition rotate32 :: "u32 \<Rightarrow> u32 \<Rightarrow> u32" where
  "rotate32 value rotation =
     (if rotation \<noteq> 0
      then drop_bit (unat rotation) value + push_bit (unat (32 - rotation)) value
      else value)"

definition keep_n_lsb :: "'a::len word \<Rightarrow> nat \<Rightarrow> 'a word" where
  "keep_n_lsb input num_bits =
     (if num_bits \<ge> LENGTH('a) then input else input AND (push_bit num_bits 1 - 1))"

section \<open>get_msb.hpp\<close>

definition MultiplyDeBruijnBitPosition :: "u8 list" where
  "MultiplyDeBruijnBitPosition =
     [0, 9, 1, 10, 13, 21, 2, 29, 11, 14, 16,
      18, 22, 25, 3, 30, 8, 12, 20, 28, 15, 17,
      24, 7, 19, 27, 23, 6, 26, 5, 4, 31]"

definition get_msb32 :: "u32 \<Rightarrow> u32" where
  "get_msb32 in_val =
     (let v = in_val OR drop_bit 1 in_val;
          v = v OR drop_bit 2 v;
          v = v OR drop_bit 4 v;
          v = v OR drop_bit 8 v;
          v = v OR drop_bit 16 v
      in ucast (MultiplyDeBruijnBitPosition ! unat (drop_bit 27 (v * 0x07C4ACDD))))"

definition de_bruijn_sequence :: "u8 list" where
  "de_bruijn_sequence =
     [0, 47, 1, 56, 48, 27, 2, 60, 57, 49, 41, 37, 28,
      16, 3, 61, 54, 58, 35, 52, 50, 42, 21, 44, 38, 32,
      29, 23, 17, 11, 4, 62, 46, 55, 26, 59, 40, 36, 15,
      53, 34, 51, 20, 43, 31, 22, 10, 45, 25, 39, 14, 33,
      19, 30, 9, 24, 13, 18, 8, 12, 7, 6, 5, 63]"

definition get_msb64 :: "u64 \<Rightarrow> u64" where
  "get_msb64 in_val =
     (let t = in_val OR drop_bit 1 in_val;
          t = t OR drop_bit 2 t;
          t = t OR drop_bit 4 t;
          t = t OR drop_bit 8 t;
          t = t OR drop_bit 16 t;
          t = t OR drop_bit 32 t
      in ucast (de_bruijn_sequence ! unat (drop_bit 58 (t * 0x03F79D71B4CB0A89))))"

section \<open>pow.hpp\<close>

text \<open>The body of the loop for bits i - 1 down to 0.\<close>

fun pow64_loop :: "u64 \<Rightarrow> u64 \<Rightarrow> nat \<Rightarrow> u64 \<Rightarrow> u64" where
  "pow64_loop to_mul exponent 0 accumulator = accumulator"
| "pow64_loop to_mul exponent (Suc i) accumulator =
     (let accumulator = accumulator * accumulator;
          accumulator = (if drop_bit i exponent AND 1 \<noteq> 0 then accumulator * to_mul else accumulator)
      in pow64_loop to_mul exponent i accumulator)"

definition pow64 :: "u64 \<Rightarrow> u64 \<Rightarrow> u64" where
  "pow64 input exponent =
     (if input = 0 then 0
      else if exponent = 0 then 1
      else pow64_loop input exponent (unat (get_msb64 exponent)) input)"

definition is_power_of_two :: "u64 \<Rightarrow> bool" where
  "is_power_of_two x \<longleftrightarrow> x \<noteq> 0 \<and> x AND (x - 1) = 0"

section \<open>Rotation and masking\<close>

lemma word_plus_disjoint: "x AND y = 0 \<Longrightarrow> x + y = x OR (y::'a::len word)"
  by (metis word_plus_and_or add.left_neutral)

lemma shifts_rotate:
  fixes v :: "'a::len word"
  assumes "0 < r" "r < LENGTH('a)"
  shows "drop_bit r v + push_bit (LENGTH('a) - r) v = word_rotr r v"
proof -
  have wrap: "(n + r) mod LENGTH('a) = (if n + r < LENGTH('a) then n + r else n + r - LENGTH('a))"
    if "n < LENGTH('a)" for n
    using that assms by (simp add: mod_if)
  have "drop_bit r v AND push_bit (LENGTH('a) - r) v = 0"
    by (rule bit_word_eqI) (use assms in \<open>auto simp: bit_simps dest: bit_imp_le_length\<close>)
  then have "drop_bit r v + push_bit (LENGTH('a) - r) v = drop_bit r v OR push_bit (LENGTH('a) - r) v"
    by (rule word_plus_disjoint)
  also have "\<dots> = word_rotr r v"
  proof (rule bit_word_eqI)
    fix n
    assume n: "n < LENGTH('a)"
    show "bit (drop_bit r v OR push_bit (LENGTH('a) - r) v) n \<longleftrightarrow> bit (word_rotr r v) n"
    proof (cases "n + r < LENGTH('a)")
      case True
      then show ?thesis
        using n assms by (auto simp: bit_simps wrap add.commute)
    next
      case False
      then have "\<not> bit v (r + n)" "n - (LENGTH('a) - r) = n + r - LENGTH('a)"
        using assms by (auto dest: bit_imp_le_length)
      with False show ?thesis
        using n assms by (auto simp: bit_simps wrap)
    qed
  qed
  finally show ?thesis .
qed

lemma word_rotr_0: "word_rotr 0 x = x"
  by (rule bit_word_eqI) (simp add: bit_simps)

lemma rotate64_word_rotr:
  assumes "rotation < 64"
  shows "rotate64 value rotation = word_rotr (unat rotation) value"
proof (cases "rotation = 0")
  case False
  have "0 < unat rotation" "unat rotation < 64"
    using assms False by (simp_all add: word_less_nat_alt unat_gt_0)
  moreover have "unat (64 - rotation) = 64 - unat rotation"
    using assms by (simp add: unat_sub_if_size word_less_nat_alt word_size)
  ultimately show ?thesis
    using False shifts_rotate [of "unat rotation" "value"] by (simp add: rotate64_def)
qed (simp add: rotate64_def word_rotr_0)

lemma rotate32_word_rotr:
  assumes "rotation < 32"
  shows "rotate32 value rotation = word_rotr (unat rotation) value"
proof (cases "rotation = 0")
  case False
  have "0 < unat rotation" "unat rotation < 32"
    using assms False by (simp_all add: word_less_nat_alt unat_gt_0)
  moreover have "unat (32 - rotation) = 32 - unat rotation"
    using assms by (simp add: unat_sub_if_size word_less_nat_alt word_size)
  ultimately show ?thesis
    using False shifts_rotate [of "unat rotation" "value"] by (simp add: rotate32_def)
qed (simp add: rotate32_def word_rotr_0)

lemma keep_n_lsb_take_bit: "keep_n_lsb x n = take_bit n x"
  by (simp add: keep_n_lsb_def take_bit_eq_mask mask_eq_exp_minus_1 take_bit_word_eq_self flip: push_bit_of_1)

section \<open>The most significant bit\<close>

text \<open>
  After the cascade of shifts and ors the word has every bit below its top bit set, so the
  multiplication looks up one of as many table entries as there are top bits.
\<close>

lemma or_cascade_step:
  assumes "\<And>j. bit t j \<longleftrightarrow> (\<exists>i<n. bit (x::'a::len word) (j + i))"
  shows "bit (t OR drop_bit n t) j \<longleftrightarrow> (\<exists>i<2 * n. bit x (j + i))"
proof
  assume "bit (t OR drop_bit n t) j"
  then show "\<exists>i<2 * n. bit x (j + i)"
  proof -
    from \<open>bit (t OR drop_bit n t) j\<close> consider i where "i < n" "bit x (j + i)"
      | i where "i < n" "bit x (n + j + i)"
      by (auto simp: bit_or_iff bit_drop_bit_eq assms)
    then show ?thesis
    proof cases
      case 1
      then show ?thesis by (auto intro!: exI [of _ i])
    next
      case 2
      then show ?thesis by (intro exI [of _ "n + i"]) (auto simp: ac_simps)
    qed
  qed
next
  assume "\<exists>i<2 * n. bit x (j + i)"
  then obtain i where i: "i < 2 * n" "bit x (j + i)" by blast
  show "bit (t OR drop_bit n t) j"
  proof (cases "i < n")
    case True
    with i show ?thesis by (auto simp: bit_or_iff assms)
  next
    case False
    then have "i - n < n" "n + j + (i - n) = j + i"
      using i(1) by auto
    with i(2) have "\<exists>i<n. bit x (n + j + i)"
      by metis
    then show ?thesis
      by (simp add: bit_or_iff bit_drop_bit_eq assms)
  qed
qed

lemma pow2_bracket_bits:
  assumes "2 ^ k \<le> uint (x::'a::len word)" and "uint x < 2 ^ Suc k"
  shows "bit x k" and "k < j \<Longrightarrow> \<not> bit x j"
proof -
  have "uint x div 2 ^ k = 1"
    by (rule int_div_pos_eq [of _ _ _ "uint x - 2 ^ k"]) (use assms in simp_all)
  then have "bit (uint x) k"
    by (simp add: bit_iff_odd)
  then show "bit x k"
    by (simp add: bit_uint_iff)
  assume "k < j"
  then have "(2::int) ^ Suc k \<le> 2 ^ j"
    by (intro power_increasing) auto
  then have "uint x div 2 ^ j = 0"
    using assms(2) by simp
  then have "\<not> bit (uint x) j"
    by (simp add: bit_iff_odd)
  then show "\<not> bit x j"
    by (metis bit_uint_iff bit_imp_le_length)
qed

lemma mask_from_cascade:
  fixes x t :: "'a::len word"
  assumes t: "\<And>j. bit t j \<longleftrightarrow> (\<exists>i<LENGTH('a). bit x (j + i))"
    and k: "2 ^ k \<le> uint x" "uint x < 2 ^ Suc k"
  shows "t = mask (Suc k)" and "k < LENGTH('a)"
proof -
  note top = pow2_bracket_bits [OF k]
  show kl: "k < LENGTH('a)"
    using top(1) by (rule bit_imp_le_length)
  show "t = mask (Suc k)"
  proof (rule bit_word_eqI)
    fix j
    assume "j < LENGTH('a)"
    have "(\<exists>i<LENGTH('a). bit x (j + i)) \<longleftrightarrow> j \<le> k"
    proof
      assume "\<exists>i<LENGTH('a). bit x (j + i)"
      then obtain i where "bit x (j + i)" by blast
      then have "\<not> k < j + i"
        using top(2) by blast
      then show "j \<le> k" by simp
    next
      assume "j \<le> k"
      then show "\<exists>i<LENGTH('a). bit x (j + i)"
        using top(1) kl by (intro exI [of _ "k - j"]) auto
    qed
    then show "bit t j \<longleftrightarrow> bit (mask (Suc k) :: 'a word) j"
      using kl by (auto simp: t bit_simps)
  qed
qed

lemma de_bruijn_table_64:
  "list_all (\<lambda>k. (ucast (de_bruijn_sequence ! unat (drop_bit 58
      ((mask (Suc k) :: u64) * 0x03F79D71B4CB0A89))) :: u64) = of_nat k) [0..<64]"
  by code_simp

lemma de_bruijn_table_32:
  "list_all (\<lambda>k. (ucast (MultiplyDeBruijnBitPosition ! unat (drop_bit 27
      ((mask (Suc k) :: u32) * 0x07C4ACDD))) :: u32) = of_nat k) [0..<32]"
  by code_simp

text \<open>For a nonzero word the result is the position of its top bit.\<close>

lemma get_msb64_bracket:
  assumes "2 ^ k \<le> uint x" "uint x < 2 ^ Suc k"
  shows "get_msb64 x = of_nat k" and "k < 64"
proof -
  define t1 where "t1 = x OR drop_bit 1 x"
  define t2 where "t2 = t1 OR drop_bit 2 t1"
  define t4 where "t4 = t2 OR drop_bit 4 t2"
  define t8 where "t8 = t4 OR drop_bit 8 t4"
  define t16 where "t16 = t8 OR drop_bit 16 t8"
  define t32 where "t32 = t16 OR drop_bit 32 t16"
  have c0: "bit x j \<longleftrightarrow> (\<exists>i<1. bit x (j + i))" for j by simp
  have c1: "bit t1 j \<longleftrightarrow> (\<exists>i<2. bit x (j + i))" for j
    unfolding t1_def using or_cascade_step [OF c0] by simp
  have c2: "bit t2 j \<longleftrightarrow> (\<exists>i<4. bit x (j + i))" for j
    unfolding t2_def using or_cascade_step [OF c1] by simp
  have c4: "bit t4 j \<longleftrightarrow> (\<exists>i<8. bit x (j + i))" for j
    unfolding t4_def using or_cascade_step [OF c2] by simp
  have c8: "bit t8 j \<longleftrightarrow> (\<exists>i<16. bit x (j + i))" for j
    unfolding t8_def using or_cascade_step [OF c4] by simp
  have c16: "bit t16 j \<longleftrightarrow> (\<exists>i<32. bit x (j + i))" for j
    unfolding t16_def using or_cascade_step [OF c8] by simp
  have c32: "bit t32 j \<longleftrightarrow> (\<exists>i<LENGTH(64). bit x (j + i))" for j
    unfolding t32_def using or_cascade_step [OF c16] by simp
  note m = mask_from_cascade [OF c32 assms]
  show "k < 64"
    using m(2) by simp
  then have "(ucast (de_bruijn_sequence ! unat (drop_bit 58
      ((mask (Suc k) :: u64) * 0x03F79D71B4CB0A89))) :: u64) = of_nat k"
    using de_bruijn_table_64 by (simp only: list_all_iff set_upt) auto
  moreover have "get_msb64 x = ucast (de_bruijn_sequence ! unat (drop_bit 58 (t32 * 0x03F79D71B4CB0A89)))"
    unfolding get_msb64_def Let_def t32_def t16_def t8_def t4_def t2_def t1_def ..
  ultimately show "get_msb64 x = of_nat k"
    using m(1) by simp
qed

lemma get_msb32_bracket:
  assumes "2 ^ k \<le> uint x" "uint x < 2 ^ Suc k"
  shows "get_msb32 x = of_nat k" and "k < 32"
proof -
  define t1 where "t1 = x OR drop_bit 1 x"
  define t2 where "t2 = t1 OR drop_bit 2 t1"
  define t4 where "t4 = t2 OR drop_bit 4 t2"
  define t8 where "t8 = t4 OR drop_bit 8 t4"
  define t16 where "t16 = t8 OR drop_bit 16 t8"
  have c0: "bit x j \<longleftrightarrow> (\<exists>i<1. bit x (j + i))" for j by simp
  have c1: "bit t1 j \<longleftrightarrow> (\<exists>i<2. bit x (j + i))" for j
    unfolding t1_def using or_cascade_step [OF c0] by simp
  have c2: "bit t2 j \<longleftrightarrow> (\<exists>i<4. bit x (j + i))" for j
    unfolding t2_def using or_cascade_step [OF c1] by simp
  have c4: "bit t4 j \<longleftrightarrow> (\<exists>i<8. bit x (j + i))" for j
    unfolding t4_def using or_cascade_step [OF c2] by simp
  have c8: "bit t8 j \<longleftrightarrow> (\<exists>i<16. bit x (j + i))" for j
    unfolding t8_def using or_cascade_step [OF c4] by simp
  have c16: "bit t16 j \<longleftrightarrow> (\<exists>i<LENGTH(32). bit x (j + i))" for j
    unfolding t16_def using or_cascade_step [OF c8] by simp
  note m = mask_from_cascade [OF c16 assms]
  show "k < 32"
    using m(2) by simp
  then have "(ucast (MultiplyDeBruijnBitPosition ! unat (drop_bit 27
      ((mask (Suc k) :: u32) * 0x07C4ACDD))) :: u32) = of_nat k"
    using de_bruijn_table_32 by (simp only: list_all_iff set_upt) auto
  moreover have "get_msb32 x = ucast (MultiplyDeBruijnBitPosition ! unat (drop_bit 27 (t16 * 0x07C4ACDD)))"
    unfolding get_msb32_def Let_def t16_def t8_def t4_def t2_def t1_def ..
  ultimately show "get_msb32 x = of_nat k"
    using m(1) by simp
qed

lemma get_msb64_0 [simp]: "get_msb64 0 = 0"
  by (simp add: get_msb64_def de_bruijn_sequence_def)

lemma get_msb32_0 [simp]: "get_msb32 0 = 0"
  by (simp add: get_msb32_def MultiplyDeBruijnBitPosition_def)

lemma uint_pos_iff: "0 < uint x \<longleftrightarrow> x \<noteq> (0::'a::len word)"
  by (simp only: word_neq_0_conv word_less_def uint_0_eq)

lemma get_msb64_spec:
  assumes "x \<noteq> 0"
  shows "2 ^ unat (get_msb64 x) \<le> uint x" and "uint x < 2 ^ Suc (unat (get_msb64 x))"
    and "unat (get_msb64 x) < 64"
proof -
  obtain k where k: "2 ^ k \<le> uint x" "uint x < 2 ^ Suc k"
    using pow2_bracket [of "uint x"] assms by (auto simp: uint_pos_iff)
  note g = get_msb64_bracket [OF k]
  have "unat (get_msb64 x) = k"
  proof -
    have "k < 2 ^ 64"
      using g(2) by simp
    then show ?thesis
      by (simp add: g(1) unat_of_nat)
  qed
  with k g(2) show "2 ^ unat (get_msb64 x) \<le> uint x" "uint x < 2 ^ Suc (unat (get_msb64 x))"
      "unat (get_msb64 x) < 64"
    by simp_all
qed

section \<open>Exponentiation\<close>

lemma low_bit_shift: "drop_bit i x AND 1 \<noteq> (0::'a::len word) \<longleftrightarrow> odd (unat x div 2 ^ i)"
proof -
  have "drop_bit i x AND 1 \<noteq> 0 \<longleftrightarrow> bit (drop_bit i x) 0"
    by (simp add: and_one_eq odd_iff_mod_2_eq_one bit_0)
  also have "\<dots> \<longleftrightarrow> bit (unat x) i"
    by (simp add: bit_drop_bit_eq bit_unsigned_iff)
  finally show ?thesis
    by (simp add: bit_iff_odd)
qed

interpretation pow64: square_multiply "pow64_loop to_mul exponent" "\<lambda>x. x" "\<lambda>_. True"
    to_mul "unat exponent" 64 for to_mul exponent :: u64
  by unfold_locales (auto simp: Let_def low_bit_shift)

lemma pow64_power:
  assumes "input \<noteq> 0 \<or> exponent \<noteq> 0"
  shows "pow64 input exponent = input ^ unat exponent"
proof (cases "input = 0 \<or> exponent = 0")
  case True
  with assms show ?thesis
    by (auto simp: pow64_def unat_gt_0 zero_power)
next
  case False
  note top = get_msb64_spec [of exponent]
  have "unat exponent div 2 ^ unat (get_msb64 exponent) = 1"
  proof (rule div_eq_one_between)
    show "2 ^ unat (get_msb64 exponent) \<le> unat exponent" "unat exponent < 2 ^ Suc (unat (get_msb64 exponent))"
      using top(1,2) False unfolding uint_pow2_le uint_pow2_less by blast+
  qed
  then have "input = input ^ (unat exponent div 2 ^ unat (get_msb64 exponent))"
    by simp
  from pow64.loop_power [OF TrueI less_imp_le this] top(3) False show ?thesis
    by (simp add: pow64_def)
qed

lemma clear_lowest_bit:
  assumes "2 ^ k \<le> uint (x::u64)" "uint x < 2 ^ Suc k"
  shows "x AND (x - 1) = 0 \<longleftrightarrow> uint x = 2 ^ k"
proof
  assume clear: "x AND (x - 1) = 0"
  show "uint x = 2 ^ k"
  proof (rule ccontr)
    assume "uint x \<noteq> 2 ^ k"
    with assms have less: "2 ^ k < uint x" by simp
    have "(1::int) \<le> 2 ^ k" by simp
    with less have "1 \<le> uint x" by linarith
    then have "uint (x - 1) = uint x - 1"
      using uint_sub_lem [of 1 x] by simp
    then have "bit (x - 1) k"
      using less assms(2) by (intro pow2_bracket_bits(1)) simp_all
    moreover have "bit x k"
      using assms by (rule pow2_bracket_bits(1))
    ultimately have "bit (x AND (x - 1)) k"
      by (simp add: bit_and_iff)
    with clear show False by simp
  qed
next
  assume eq: "uint x = 2 ^ k"
  have "word_of_int (uint x) = (2 ^ k :: u64)"
    unfolding eq by simp
  then have "x = 2 ^ k" by simp
  then show "x AND (x - 1) = 0"
    by (auto intro!: bit_word_eqI simp: bit_simps bit_mask_iff simp flip: mask_eq_exp_minus_1)
qed

lemma is_power_of_two_iff: "is_power_of_two x \<longleftrightarrow> (\<exists>k. uint x = 2 ^ k)"
proof (cases "x = 0")
  case False
  then obtain k where k: "2 ^ k \<le> uint x" "uint x < 2 ^ Suc k"
    using pow2_bracket [of "uint x"] by (auto simp: uint_pos_iff)
  have "j = k" if "uint x = 2 ^ j" for j
  proof -
    have "(2::int) ^ k \<le> 2 ^ j" "(2::int) ^ j < 2 ^ Suc k"
      using k that by simp_all
    then have "k \<le> j" "j < Suc k"
      by (simp_all only: power_increasing_iff power_strict_increasing_iff one_less_numeral_iff semiring_norm(76))
    then show ?thesis by simp
  qed
  then show ?thesis
    using False clear_lowest_bit [OF k] by (auto simp: is_power_of_two_def)
qed (simp add: is_power_of_two_def)

end
