(* ===== verification/Uint256_Algos.thy ===== *)
theory Uint256_Algos
  imports Uint256 Bitop "HOL-Library.While_Combinator"
begin

text \<open>
  The loops of uint256_impl.hpp over the limb arithmetic of Uint256: shifts, bit access,
  the top bit, long division by shift and subtract, slices and powers, and the constructor
  from a hexadecimal string.
\<close>

section \<open>Shifts\<close>

definition u256_of_limbs :: "u64 list \<Rightarrow> uint256_t" where
  "u256_of_limbs l = Uint256 (l ! 0) (l ! 1) (l ! 2) (l ! 3)"

definition u256_shr :: "uint256_t \<Rightarrow> uint256_t \<Rightarrow> uint256_t" where
  "u256_shr x other =
     (let total_shift = data0 other in
      if total_shift \<ge> 256 \<or> data1 other \<noteq> 0 \<or> data2 other \<noteq> 0 \<or> data3 other \<noteq> 0
      then uint256_of_u64 0
      else if total_shift = 0 then x
      else
        let num_shifted_limbs = unat (drop_bit 6 total_shift);
            limb_shift = unat (total_shift AND 63);
            shifted_limbs =
              (if limb_shift = 0 then [data0 x, data1 x, data2 x, data3 x]
               else
                 let remainder_shift = 64 - limb_shift;
                     s3 = drop_bit limb_shift (data3 x);
                     remainder = push_bit remainder_shift (data3 x);
                     s2 = drop_bit limb_shift (data2 x) + remainder;
                     remainder = push_bit remainder_shift (data2 x);
                     s1 = drop_bit limb_shift (data1 x) + remainder;
                     remainder = push_bit remainder_shift (data1 x);
                     s0 = drop_bit limb_shift (data0 x) + remainder
                 in [s0, s1, s2, s3]);
            result = fold (\<lambda>i r. r[i := shifted_limbs ! (i + num_shifted_limbs)])
              [0..<4 - num_shifted_limbs] [0, 0, 0, 0]
        in u256_of_limbs result)"

definition u256_shl :: "uint256_t \<Rightarrow> uint256_t \<Rightarrow> uint256_t" where
  "u256_shl x other =
     (let total_shift = data0 other in
      if total_shift \<ge> 256 \<or> data1 other \<noteq> 0 \<or> data2 other \<noteq> 0 \<or> data3 other \<noteq> 0
      then uint256_of_u64 0
      else if total_shift = 0 then x
      else
        let num_shifted_limbs = unat (drop_bit 6 total_shift);
            limb_shift = unat (total_shift AND 63);
            shifted_limbs =
              (if limb_shift = 0 then [data0 x, data1 x, data2 x, data3 x]
               else
                 let remainder_shift = 64 - limb_shift;
                     s0 = push_bit limb_shift (data0 x);
                     remainder = drop_bit remainder_shift (data0 x);
                     s1 = push_bit limb_shift (data1 x) + remainder;
                     remainder = drop_bit remainder_shift (data1 x);
                     s2 = push_bit limb_shift (data2 x) + remainder;
                     remainder = drop_bit remainder_shift (data2 x);
                     s3 = push_bit limb_shift (data3 x) + remainder
                 in [s0, s1, s2, s3]);
            result = fold (\<lambda>i r. r[i + num_shifted_limbs := shifted_limbs ! i])
              [0..<4 - num_shifted_limbs] [0, 0, 0, 0]
        in u256_of_limbs result)"

text \<open>A shift by a native integer goes through the implicit constructor.\<close>

abbreviation shr_by :: "uint256_t \<Rightarrow> u64 \<Rightarrow> uint256_t" where
  "shr_by x n \<equiv> u256_shr x (uint256_of_u64 n)"

abbreviation shl_by :: "uint256_t \<Rightarrow> u64 \<Rightarrow> uint256_t" where
  "shl_by x n \<equiv> u256_shl x (uint256_of_u64 n)"

section \<open>Bits\<close>

text \<open>None is the failed assertion that the index is below 256.\<close>

definition u256_get_bit :: "uint256_t \<Rightarrow> u64 \<Rightarrow> bool option" where
  "u256_get_bit x bit_index =
     (if \<not> bit_index < 256 then None
      else if bit_index > 255 then Some False
      else
        let idx = unat (drop_bit 6 bit_index);
            shift = unat (bit_index AND 63)
        in Some (drop_bit shift ([data0 x, data1 x, data2 x, data3 x] ! idx) AND 1 \<noteq> 0))"

definition u256_get_msb :: "uint256_t \<Rightarrow> u64" where
  "u256_get_msb x =
     (let idx = get_msb64 (data3 x);
          idx = (if idx = 0 \<and> data3 x = 0 then get_msb64 (data2 x) else idx + 64);
          idx = (if idx = 0 \<and> data2 x = 0 then get_msb64 (data1 x) else idx + 64);
          idx = (if idx = 0 \<and> data1 x = 0 then get_msb64 (data0 x) else idx + 64)
      in idx)"

definition u256_slice :: "uint256_t \<Rightarrow> u64 \<Rightarrow> u64 \<Rightarrow> uint256_t" where
  "u256_slice x start end_pos =
     (let range = end_pos - start;
          mask = (if range = 256 then u256_neg (uint256_of_u64 1)
                  else u256_sub (shl_by (uint256_of_u64 1) range) (uint256_of_u64 1))
      in u256_and (shr_by x start) mask)"

section \<open>Division\<close>

record divmod_state =
  quotient :: uint256_t
  dm_remainder :: uint256_t
  divisor :: uint256_t
  accumulator :: uint256_t

definition divmod_body :: "divmod_state \<Rightarrow> divmod_state" where
  "divmod_body s =
     (let s = (if u256_ge (dm_remainder s) (divisor s)
               then s\<lparr>dm_remainder := u256_sub (dm_remainder s) (divisor s),
                      quotient := u256_or (quotient s) (accumulator s)\<rparr>
               else s)
      in s\<lparr>divisor := shr_by (divisor s) 1, accumulator := shr_by (accumulator s) 1\<rparr>)"

definition divmod_init :: "uint256_t \<Rightarrow> uint256_t \<Rightarrow> divmod_state" where
  "divmod_init a b =
     (let bit_difference = u256_get_msb a - u256_get_msb b;
          d = shl_by b bit_difference;
          acc = shl_by (uint256_of_u64 1) bit_difference;
          s = \<lparr>quotient = uint256_of_u64 0, dm_remainder = a, divisor = d, accumulator = acc\<rparr>
      in if u256_gt d a then s\<lparr>divisor := shr_by d 1, accumulator := shr_by acc 1\<rparr> else s)"

text \<open>None would be a loop that does not end.\<close>

definition u256_divmod :: "uint256_t \<Rightarrow> uint256_t \<Rightarrow> (uint256_t \<times> uint256_t) option" where
  "u256_divmod a b =
     (if u256_eq a (uint256_of_u64 0) \<or> u256_eq b (uint256_of_u64 0)
      then Some (uint256_of_u64 0, uint256_of_u64 0)
      else if u256_eq b (uint256_of_u64 1) then Some (a, uint256_of_u64 0)
      else if u256_eq a b then Some (uint256_of_u64 1, uint256_of_u64 0)
      else if u256_gt b a then Some (uint256_of_u64 0, a)
      else map_option (\<lambda>s. (quotient s, dm_remainder s))
        (while_option (\<lambda>s. u256_ge (dm_remainder s) b) divmod_body (divmod_init a b)))"

definition u256_div :: "uint256_t \<Rightarrow> uint256_t \<Rightarrow> uint256_t option" where
  "u256_div a b = map_option fst (u256_divmod a b)"

definition u256_mod :: "uint256_t \<Rightarrow> uint256_t \<Rightarrow> uint256_t option" where
  "u256_mod a b = map_option snd (u256_divmod a b)"

section \<open>Powers\<close>

text \<open>The index of every bit that the loop reads is below get_msb, so that the assertion holds (pow_reads_bits).\<close>

fun u256_pow_loop :: "uint256_t \<Rightarrow> uint256_t \<Rightarrow> nat \<Rightarrow> uint256_t \<Rightarrow> uint256_t" where
  "u256_pow_loop to_mul exponent 0 acc = acc"
| "u256_pow_loop to_mul exponent (Suc i) acc =
     (let acc = u256_mul acc acc;
          acc = (if u256_get_bit exponent (of_nat i) = Some True then u256_mul acc to_mul else acc)
      in u256_pow_loop to_mul exponent i acc)"

definition u256_pow :: "uint256_t \<Rightarrow> uint256_t \<Rightarrow> uint256_t" where
  "u256_pow x exponent =
     (let acc = u256_pow_loop x exponent (unat (u256_get_msb exponent)) x
      in if u256_eq exponent (uint256_of_u64 0) then uint256_of_u64 1
         else if u256_eq x (uint256_of_u64 0) then uint256_of_u64 0
         else acc)"

section \<open>The constructor from a string\<close>

datatype u256_error = InvalidHexParameter | InvalidLength

definition HexCharToInt :: "u8 \<Rightarrow> u256_error + u8" where
  "HexCharToInt c =
     (let lower = (c \<ge> 97 \<and> c \<le> 102); upper = (c \<ge> 65 \<and> c \<le> 70); digit = (c \<ge> 48 \<and> c \<le> 57)
      in if \<not> (lower \<or> upper \<or> digit) then Inl InvalidHexParameter
         else Inr (if lower then c - (97 - 10) else if upper then c - (65 - 10)
                   else if digit then c - 48 else 0))"

text \<open>One limb: the loop over its 8 bytes, from byte i of the string on.\<close>

fun limb_from_hex :: "u8 list \<Rightarrow> nat \<Rightarrow> nat \<Rightarrow> u64 \<Rightarrow> u256_error + u64" where
  "limb_from_hex input limb_index 0 limb = Inr limb"
| "limb_from_hex input limb_index (Suc left) limb =
     (let byte_index = limb_index + (8 - Suc left) * 2 in
      ebind (HexCharToInt (input ! byte_index)) (\<lambda>nibble_hi.
      ebind (HexCharToInt (input ! (byte_index + 1))) (\<lambda>nibble_lo.
        let byte = nibble_hi * 16 + nibble_lo
        in limb_from_hex input limb_index left (push_bit 8 limb + ucast byte))))"

definition uint256_from_string :: "u8 list \<Rightarrow> u256_error + uint256_t" where
  "uint256_from_string input =
     (let prefixed = (length input = 66 \<and> input ! 0 = 48 \<and> input ! 1 = 120) in
      if \<not> prefixed \<and> length input \<noteq> 64 then Inl InvalidLength
      else
        let start_index = (if prefixed then 2 else 0) in
        ebind (limb_from_hex input start_index 8 0) (\<lambda>l0.
        ebind (limb_from_hex input (start_index + 16) 8 0) (\<lambda>l1.
        ebind (limb_from_hex input (start_index + 32) 8 0) (\<lambda>l2.
        ebind (limb_from_hex input (start_index + 48) 8 0) (\<lambda>l3.
          Inr (Uint256 l3 l2 l1 l0))))))"

section \<open>Limb lists as numbers\<close>

fun lval :: "u64 list \<Rightarrow> int" where
  "lval [] = 0"
| "lval (a # l) = uint a + B64 * lval l"

lemma lval_append: "lval (l @ m) = lval l + B64 ^ length l * lval m"
  by (induction l) (simp_all add: distrib_left)

lemma lval_zeros [simp]: "lval (replicate n 0) = 0"
  by (induction n) simp_all

lemma lval_range: "0 \<le> lval l \<and> lval l < B64 ^ length l"
proof (induction l)
  case (Cons a l)
  then have "lval l + 1 \<le> B64 ^ length l" by simp
  then have "B64 * (lval l + 1) \<le> B64 * B64 ^ length l"
    by (rule mult_left_mono) simp
  then show ?case
    using Cons uint_range64 [of a] by (simp add: distrib_left)
qed simp

lemma lval_split: "lval l = lval (take n l) + B64 ^ min (length l) n * lval (drop n l)"
  using lval_append [of "take n l" "drop n l"] by (simp add: min.commute)

lemma lval_drop: "n \<le> length l \<Longrightarrow> lval (drop n l) = lval l div B64 ^ n"
  using lval_split [of l n] lval_range [of "take n l"] by (simp add: min_absorb2)

lemma lval_take: "n \<le> length l \<Longrightarrow> lval (take n l) = lval l mod B64 ^ n"
  using lval_split [of l n] lval_range [of "take n l"] by (simp add: min_absorb2)

lemma ival_of_limbs: "length l = 4 \<Longrightarrow> ival (u256_of_limbs l) = lval l"
  by (auto simp: u256_of_limbs_def ival_def numeral_eq_Suc length_Suc_conv)

lemma ival_lval: "ival x = lval [data0 x, data1 x, data2 x, data3 x]"
  by (simp add: ival_def)

lemma move_limbs_down:
  assumes "length l = 4" "n < 4"
  shows "fold (\<lambda>i r. r[i := l ! (i + n)]) [0..<4 - n] [0, 0, 0, 0] = drop n l @ replicate n (0::u64)"
proof -
  from assms(1) obtain a b c d where l: "l = [a, b, c, d]"
    by (auto simp: numeral_eq_Suc length_Suc_conv)
  consider "n = 0" | "n = 1" | "n = 2" | "n = 3"
    using assms(2) by linarith
  then show ?thesis
    by cases (simp_all add: l upt_rec_numeral upt_rec eval_nat_numeral)
qed

lemma move_limbs_up:
  assumes "length l = 4" "n < 4"
  shows "fold (\<lambda>i r. r[i + n := l ! i]) [0..<4 - n] [0, 0, 0, 0] = replicate n (0::u64) @ take (4 - n) l"
proof -
  from assms(1) obtain a b c d where l: "l = [a, b, c, d]"
    by (auto simp: numeral_eq_Suc length_Suc_conv)
  consider "n = 0" | "n = 1" | "n = 2" | "n = 3"
    using assms(2) by linarith
  then show ?thesis
    by cases (simp_all add: l upt_rec_numeral upt_rec eval_nat_numeral)
qed

section \<open>Shifts divide and multiply by powers of two\<close>

text \<open>
  Within the limbs, with M = 2 ^ m and N = 2 ^ (64 - m): each limb is
  cut into a high and a low part, and the parts are glued to the neighbour.
\<close>

lemma pow_split: "m < 64 \<Longrightarrow> (2::int) ^ m * 2 ^ (64 - m) = B64"
  by (simp flip: power_add)

lemma div_mult_le: "0 < d \<Longrightarrow> d * (x div d) \<le> (x::int)"
  using mult_div_mod_eq [of d x] pos_mod_sign [of d x] by linarith

lemma high_part:
  assumes "M * N = B64" "0 < M"
  shows "uint (v::u64) div M < N"
proof (rule ccontr)
  assume "\<not> ?thesis"
  then have "M * N \<le> M * (uint v div M)"
    using assms(2) by (intro mult_left_mono) simp_all
  also have "\<dots> \<le> uint v"
    using assms(2) by (rule div_mult_le)
  finally show False
    using uint_lt64 [of v] assms(1) by simp
qed

text \<open>Two parts of a limb that do not overlap add without wrapping around.\<close>

lemma glue:
  assumes "M * N = B64" "0 \<le> h" "h < N" "0 \<le> l" "l < M"
  shows "0 \<le> h + N * l \<and> h + N * l < B64"
proof -
  have "N * (l + 1) \<le> N * M"
    using assms by (intro mult_left_mono) linarith+
  then have "N * l + N \<le> B64"
    using assms(1) by (simp add: distrib_left mult.commute)
  then show ?thesis
    using assms by simp
qed

lemma push_part:
  assumes "m < 64"
  shows "uint (push_bit m (w::u64)) = 2 ^ m * (uint w mod 2 ^ (64 - m))"
  unfolding uint_push_bit64 pow_split [OF assms, symmetric]
  using mult_mod_right [of "2 ^ m" "uint w" "2 ^ (64 - m)"] by (simp add: mult.commute)

lemma right_piece:
  assumes "0 < m" "m < 64"
  shows "uint (drop_bit m v + push_bit (64 - m) w) =
    uint v div 2 ^ m + 2 ^ (64 - m) * (uint (w::u64) mod 2 ^ m)"
proof -
  note MN = pow_split [OF assms(2)]
  have "0 \<le> uint v div 2 ^ m" "uint v div 2 ^ m < 2 ^ (64 - m)"
    using high_part [OF MN] by (simp_all add: pos_imp_zdiv_nonneg_iff)
  from glue [OF MN this, of "uint w mod 2 ^ m"] show ?thesis
    using push_part [of "64 - m" w] assms unfolding uint_add64 by (simp add: uint_drop_bit)
qed

lemma left_piece:
  assumes "0 < m" "m < 64"
  shows "uint (push_bit m v + drop_bit (64 - m) w) =
    2 ^ m * (uint v mod 2 ^ (64 - m)) + uint (w::u64) div 2 ^ (64 - m)"
proof -
  have MN: "(2::int) ^ (64 - m) * 2 ^ m = B64"
    using pow_split [OF assms(2)] by (simp add: mult.commute)
  have "0 \<le> uint w div 2 ^ (64 - m)" "uint w div 2 ^ (64 - m) < 2 ^ m"
    using high_part [OF MN] by (simp_all add: pos_imp_zdiv_nonneg_iff)
  from glue [OF MN this, of "uint v mod 2 ^ (64 - m)"] show ?thesis
    unfolding uint_add64 push_part [OF assms(2)] uint_drop_bit by (simp add: add.commute)
qed

lemma shift_right_limbs:
  assumes "0 < m" "m < 64"
  shows "lval [drop_bit m a + push_bit (64 - m) b, drop_bit m b + push_bit (64 - m) c,
      drop_bit m c + push_bit (64 - m) d, drop_bit m d] = lval [a, b, c, d] div 2 ^ m"
    (is "?R = _")
proof -
  have cut: "2 ^ m * (uint v div 2 ^ m) = uint v - uint v mod 2 ^ m" for v :: u64
    by (simp add: minus_mod_eq_mult_div)
  have BR: "2 ^ m * (2 ^ (64 - m) * x) = B64 * x" for x :: int
    using pow_split [OF assms(2)] by (simp flip: mult.assoc)
  have swap: "2 ^ m * (B64 * x) = B64 * (2 ^ m * x)" for x :: int
    by simp
  have "2 ^ m * ?R = lval [a, b, c, d] - uint a mod 2 ^ m"
    unfolding lval.simps right_piece [OF assms] uint_drop_bit distrib_left BR cut swap by simp
  then have "lval [a, b, c, d] = uint a mod 2 ^ m + ?R * 2 ^ m"
    by (simp only: mult.commute)
  then have "lval [a, b, c, d] div 2 ^ m = (uint a mod 2 ^ m + ?R * 2 ^ m) div 2 ^ m"
    by (simp only:)
  also have "\<dots> = ?R + (uint a mod 2 ^ m) div 2 ^ m"
    by (rule div_mult_self1) simp
  finally show ?thesis
    by simp
qed

lemma shift_left_limbs:
  assumes "0 < m" "m < 64"
  shows "lval [push_bit m a, push_bit m b + drop_bit (64 - m) a, push_bit m c + drop_bit (64 - m) b,
      push_bit m d + drop_bit (64 - m) c] = (lval [a, b, c, d] * 2 ^ m) mod B256"
    (is "lval ?l = _")
proof -
  have cut: "uint v mod 2 ^ (64 - m) = uint v - 2 ^ (64 - m) * (uint v div 2 ^ (64 - m))" for v :: u64
    by (simp add: minus_mult_div_eq_mod)
  have BR: "2 ^ m * (2 ^ (64 - m) * x) = B64 * x" for x :: int
    using pow_split [OF assms(2)] by (simp flip: mult.assoc)
  have "lval ?l = lval [a, b, c, d] * 2 ^ m - B256 * (uint d div 2 ^ (64 - m))"
    unfolding lval.simps left_piece [OF assms] push_part [OF assms(2)] cut right_diff_distrib BR
    by (simp add: algebra_simps)
  then have "(lval [a, b, c, d] * 2 ^ m) mod B256 = (lval ?l + B256 * (uint d div 2 ^ (64 - m))) mod B256"
    by (simp only: diff_add_cancel)
  also have "\<dots> = lval ?l mod B256"
    by (rule mod_mult_self2)
  also have "\<dots> = lval ?l"
    using lval_range [of ?l] by (simp del: lval.simps)
  finally show ?thesis
    by (simp only:)
qed

lemma horner_small: "0 \<le> a \<Longrightarrow> a < B64 \<Longrightarrow> 0 \<le> t \<Longrightarrow> a + B64 * t < B64 \<longleftrightarrow> t = 0"
  by (cases "t = 0") simp_all

lemma ival_small: "ival y < B64 \<longleftrightarrow> data1 y = 0 \<and> data2 y = 0 \<and> data3 y = 0"
proof -
  have "ival y < B64 \<longleftrightarrow> uint (data1 y) + B64 * (uint (data2 y) + B64 * uint (data3 y)) = 0"
    unfolding ival_horner by (rule horner_small) (simp_all add: uint_lt64)
  also have "\<dots> \<longleftrightarrow> uint (data1 y) = 0 \<and> uint (data2 y) = 0 \<and> uint (data3 y) = 0"
    by (simp add: add_nonneg_eq_0_iff)
  finally show ?thesis
    by (simp only: unsigned_eq_0_iff)
qed

lemma shift_guard:
  "(data0 y \<ge> 256 \<or> data1 y \<noteq> 0 \<or> data2 y \<noteq> 0 \<or> data3 y \<noteq> 0) \<longleftrightarrow> ival y \<ge> 256"
proof (cases "ival y < B64")
  case True
  then have "ival y = uint (data0 y)"
    unfolding ival_small by (simp add: ival_def)
  with True show ?thesis
    unfolding ival_small by (simp add: word_le_def)
next
  case False
  then show ?thesis
    using ival_small [of y] by auto
qed

lemma shift_amount:
  fixes t :: u64
  assumes "t < 256"
  shows "unat (drop_bit 6 t) < 4" "unat (t AND 63) < 64"
    "unat t = 64 * unat (drop_bit 6 t) + unat (t AND 63)"
proof -
  have t: "unat t < 256"
    using assms by (simp add: word_less_nat_alt)
  have d: "unat (drop_bit 6 t) = unat t div 64"
    by (simp add: drop_bit_eq_div unat_div_distrib)
  have "t AND 63 = take_bit 6 t"
    by (simp add: take_bit_eq_mask mask_eq_exp_minus_1)
  then have a: "unat (t AND 63) = unat t mod 64"
    by (simp add: take_bit_eq_mod unat_mod_distrib)
  show "unat (drop_bit 6 t) < 4" "unat (t AND 63) < 64"
    "unat t = 64 * unat (drop_bit 6 t) + unat (t AND 63)"
    using t unfolding d a by auto
qed

lemma base_power: "B64 ^ n * 2 ^ m = 2 ^ (64 * n + m)"
  by (simp add: power_add power_mult)

lemma ival_shr: "ival (u256_shr x y) = ival x div 2 ^ nat (ival y)"
proof (cases "ival y \<ge> 256")
  case True
  then have "(2::int) ^ 256 \<le> 2 ^ nat (ival y)"
    by (intro power_increasing) auto
  then have "ival x < 2 ^ nat (ival y)"
    using ival_range [of x] by simp
  then have "ival x div 2 ^ nat (ival y) = 0"
    using ival_range [of x] by (intro div_pos_pos_trivial) auto
  with True show ?thesis
    unfolding u256_shr_def Let_def shift_guard by simp
next
  case False
  note guard = this
  with shift_guard [of y] have y: "data0 y < 256" "ival y = uint (data0 y)"
    by (auto simp: ival_def)
  define n where "n = unat (drop_bit 6 (data0 y))"
  define m where "m = unat (data0 y AND 63)"
  note nm = shift_amount [OF y(1), folded n_def m_def]
  have amount: "nat (ival y) = 64 * n + m"
    using nm(3) unfolding y(2) by simp
  have cut: "ival (u256_of_limbs (fold (\<lambda>i r. r[i := l ! (i + n)]) [0..<4 - n] [0, 0, 0, 0]))
      = ival x div 2 ^ nat (ival y)" if "length l = 4" "lval l = ival x div 2 ^ m" for l
  proof -
    have "lval (drop n l) = (ival x div 2 ^ m) div B64 ^ n"
      using that nm(1) by (simp add: lval_drop)
    also have "\<dots> = ival x div (2 ^ m * B64 ^ n)"
      by (rule zdiv_zmult2_eq [symmetric]) simp
    finally show ?thesis
      using that(1) nm(1) base_power [of n m]
      by (simp add: move_limbs_down ival_of_limbs lval_append amount mult.commute)
  qed
  show ?thesis
  proof (cases "data0 y = 0")
    case True
    with guard show ?thesis
      unfolding u256_shr_def Let_def shift_guard y(2) by simp
  next
    case False
    show ?thesis
    proof (cases "m = 0")
      case True
      with guard False show ?thesis
        using cut [of "[data0 x, data1 x, data2 x, data3 x]"]
        unfolding u256_shr_def Let_def shift_guard m_def [symmetric] n_def [symmetric]
        by (simp del: lval.simps add: ival_lval [symmetric])
    next
      case False2: False
      with nm(2) have m: "0 < m" "m < 64" by simp_all
      show ?thesis
        using cut [OF _ shift_right_limbs [OF m, of "data0 x" "data1 x" "data2 x" "data3 x",
          folded ival_lval]] guard False False2
        unfolding u256_shr_def Let_def shift_guard m_def [symmetric] n_def [symmetric]
        by (simp del: lval.simps)
    qed
  qed
qed

lemma ival_shl: "ival (u256_shl x y) = (ival x * 2 ^ nat (ival y)) mod B256"
proof (cases "ival y \<ge> 256")
  case True
  then have "(2::int) ^ 256 dvd 2 ^ nat (ival y)"
    by (intro le_imp_power_dvd) auto
  then have "B256 dvd ival x * 2 ^ nat (ival y)"
    unfolding B256_eq by (rule dvd_mult)
  with True show ?thesis
    unfolding u256_shl_def Let_def shift_guard by simp
next
  case False
  note guard = this
  with shift_guard [of y] have y: "data0 y < 256" "ival y = uint (data0 y)"
    by (auto simp: ival_def)
  define n where "n = unat (drop_bit 6 (data0 y))"
  define m where "m = unat (data0 y AND 63)"
  note nm = shift_amount [OF y(1), folded n_def m_def]
  have amount: "nat (ival y) = 64 * n + m"
    using nm(3) unfolding y(2) by simp
  have cut: "ival (u256_of_limbs (fold (\<lambda>i r. r[i + n := l ! i]) [0..<4 - n] [0, 0, 0, 0]))
      = (ival x * 2 ^ nat (ival y)) mod B256"
    if "length l = 4" "lval l = (ival x * 2 ^ m) mod B256" for l
  proof -
    have split: "B256 = B64 ^ (4 - n) * B64 ^ n"
      using nm(1) by (simp flip: power_add)
    have "B64 ^ n * lval (take (4 - n) l) = (B64 ^ n * lval l) mod B256"
      using that(1) nm(1) mult_mod_right [of "B64 ^ n" "lval l" "B64 ^ (4 - n)"]
      unfolding split by (simp only: lval_take mult.commute diff_le_self)
    also have "\<dots> = (B64 ^ n * (ival x * 2 ^ m)) mod B256"
      unfolding that(2) by (rule mod_mult_right_eq)
    also have "B64 ^ n * (ival x * 2 ^ m) = ival x * 2 ^ nat (ival y)"
      unfolding amount base_power [symmetric] by simp
    finally show ?thesis
      using that(1) nm(1) by (simp add: move_limbs_up ival_of_limbs lval_append)
  qed
  show ?thesis
  proof (cases "data0 y = 0")
    case True
    with guard show ?thesis
      using ival_range [of x] unfolding u256_shl_def Let_def shift_guard y(2) by simp
  next
    case False
    show ?thesis
    proof (cases "m = 0")
      case True
      with guard False show ?thesis
        using cut [of "[data0 x, data1 x, data2 x, data3 x]"] ival_range [of x]
        unfolding u256_shl_def Let_def shift_guard m_def [symmetric] n_def [symmetric]
        by (simp del: lval.simps add: ival_lval [symmetric])
    next
      case False2: False
      with nm(2) have m: "0 < m" "m < 64" by simp_all
      show ?thesis
        using cut [OF _ shift_left_limbs [OF m, of "data0 x" "data1 x" "data2 x" "data3 x",
          folded ival_lval]] guard False False2
        unfolding u256_shl_def Let_def shift_guard m_def [symmetric] n_def [symmetric]
        by (simp del: lval.simps)
    qed
  qed
qed

section \<open>Bits and the top bit\<close>

lemma ival_div_power: "n < 4 \<Longrightarrow> ival x div 2 ^ (64 * n + m) =
    lval (drop n [data0 x, data1 x, data2 x, data3 x]) div 2 ^ m"
  unfolding base_power [symmetric] zdiv_zmult2_eq [OF zero_le_power [OF zero_le_numeral]]
  by (subst lval_drop) (simp_all add: ival_lval zdiv_zmult2_eq)

lemma odd_low_limb:
  assumes "m < 64"
  shows "odd ((uint (a::u64) + B64 * t) div 2 ^ m) \<longleftrightarrow> odd (uint a div 2 ^ m)"
proof -
  have "B64 = 2 * 2 ^ (63 - m) * 2 ^ m"
    using assms by (simp flip: power_add power_Suc)
  then have "uint a + B64 * t = uint a + 2 ^ m * (2 * 2 ^ (63 - m) * t)"
    by (simp only: ac_simps)
  then have "(uint a + B64 * t) div 2 ^ m = 2 * 2 ^ (63 - m) * t + uint a div 2 ^ m"
    by (simp only: div_mult_self2 power_not_zero) simp
  then show ?thesis
    by simp
qed

lemma odd_uint_div: "odd (uint w div 2 ^ m) \<longleftrightarrow> odd (unat w div 2 ^ m)"
proof -
  have "uint w div 2 ^ m = int (unat w div 2 ^ m)"
    by (simp add: zdiv_int)
  then show ?thesis
    by (simp only: even_of_nat)
qed

lemma u256_get_bit_eq:
  assumes "i < 256"
  shows "u256_get_bit x i = Some (odd (ival x div 2 ^ unat i))"
proof -
  define n where "n = unat (drop_bit 6 i)"
  define m where "m = unat (i AND 63)"
  define l where "l = [data0 x, data1 x, data2 x, data3 x]"
  note nm = shift_amount [OF assms, folded n_def m_def]
  have "drop n l = l ! n # drop (Suc n) l"
    using nm(1) unfolding l_def by (intro Cons_nth_drop_Suc [symmetric]) simp
  then have "ival x div 2 ^ unat i = (uint (l ! n) + B64 * lval (drop (Suc n) l)) div 2 ^ m"
    unfolding nm(3) ival_div_power [OF nm(1)] l_def [symmetric] by simp
  then have "odd (ival x div 2 ^ unat i) \<longleftrightarrow> odd (uint (l ! n) div 2 ^ m)"
    using odd_low_limb [OF nm(2)] by simp
  also have "\<dots> \<longleftrightarrow> drop_bit m (l ! n) AND 1 \<noteq> 0"
    by (simp only: low_bit_shift odd_uint_div)
  finally have "odd (ival x div 2 ^ unat i) \<longleftrightarrow> drop_bit m (l ! n) AND 1 \<noteq> 0" .
  moreover have "\<not> i > 255"
    using assms by (simp add: word_less_nat_alt)
  ultimately show ?thesis
    using assms unfolding u256_get_bit_def Let_def n_def [symmetric] m_def [symmetric] l_def [symmetric]
    by (simp only: if_False not_True_eq_False)
qed

lemma bracket_high:
  fixes h r :: int
  assumes "2 ^ k \<le> h" "h < 2 ^ Suc k" "0 \<le> r" "r < 2 ^ s"
  shows "2 ^ (k + s) \<le> r + 2 ^ s * h \<and> r + 2 ^ s * h < 2 ^ Suc (k + s)"
proof -
  have "2 ^ s * 2 ^ k \<le> 2 ^ s * h"
    using assms(1) by (intro mult_left_mono) simp_all
  moreover have "2 ^ s * (h + 1) \<le> 2 ^ s * 2 ^ Suc k"
    using assms(2) by (intro mult_left_mono) simp_all
  moreover have "(2::int) ^ s * 2 ^ k = 2 ^ (k + s)" "(2::int) ^ s * 2 ^ Suc k = 2 ^ Suc (k + s)"
    by (simp_all add: power_add)
  ultimately show ?thesis
    using assms(3,4) unfolding distrib_left by linarith
qed

lemma ival_eq_0_iff: "ival x = 0 \<longleftrightarrow> x = Uint256 0 0 0 0"
  using ival_inject [of x "Uint256 0 0 0 0"] by simp

text \<open>The top bit comes from the highest limb that is not zero.\<close>

lemma msb_offset:
  assumes "unat (g::u64) < 64"
  shows "unat (g + 64) = unat g + 64" "unat (g + 128) = unat g + 128"
  using assms by (simp_all add: unat_word_ariths)

lemma u256_get_msb_top:
  "u256_get_msb x =
    (if data3 x \<noteq> 0 then get_msb64 (data3 x) + 192
     else if data2 x \<noteq> 0 then get_msb64 (data2 x) + 128
     else if data1 x \<noteq> 0 then get_msb64 (data1 x) + 64
     else get_msb64 (data0 x))"
proof -
  have big: "get_msb64 w + 64 \<noteq> 0" "get_msb64 w + 128 \<noteq> 0" if "w \<noteq> 0" for w
    using msb_offset [OF get_msb64_spec(3) [OF that]] by auto
  define g0 g1 g2 g3 where g: "g0 = get_msb64 (data0 x)" "g1 = get_msb64 (data1 x)"
    "g2 = get_msb64 (data2 x)" "g3 = get_msb64 (data3 x)"
  have big': "data3 x \<noteq> 0 \<Longrightarrow> g3 + 64 \<noteq> 0" "data3 x \<noteq> 0 \<Longrightarrow> g3 + 128 \<noteq> 0"
    "data2 x \<noteq> 0 \<Longrightarrow> g2 + 64 \<noteq> 0" "data3 x = 0 \<Longrightarrow> g3 = 0" "data2 x = 0 \<Longrightarrow> g2 = 0"
    "data1 x = 0 \<Longrightarrow> g1 = 0"
    unfolding g by (simp_all add: big)
  show ?thesis
    unfolding u256_get_msb_def Let_def g [symmetric]
    by (cases "data3 x = 0"; cases "data2 x = 0"; cases "data1 x = 0") (simp_all add: big' add.assoc)
qed

lemma u256_get_msb_spec:
  assumes "ival x \<noteq> 0"
  shows "2 ^ unat (u256_get_msb x) \<le> ival x" and "ival x < 2 ^ Suc (unat (u256_get_msb x))"
    and "unat (u256_get_msb x) < 256"
proof -
  have *: "2 ^ unat (u256_get_msb x) \<le> ival x \<and> ival x < 2 ^ Suc (unat (u256_get_msb x)) \<and>
      unat (u256_get_msb x) < 256"
    if "u256_get_msb x = get_msb64 w + of_nat s" "w \<noteq> 0" "ival x = r + 2 ^ s * uint w"
      "0 \<le> r" "r < 2 ^ s" "s \<le> 192" for w r s
  proof -
    note w = get_msb64_spec [OF that(2)]
    have "unat (u256_get_msb x) = unat (get_msb64 w) + s"
      unfolding that(1) using w(3) that(6) by (simp add: unat_word_ariths unat_of_nat)
    then show ?thesis
      using bracket_high [OF w(1,2) that(4,5)] w(3) that(3,6) by simp
  qed
  have r: "0 \<le> uint (data0 x)" "0 \<le> uint (data0 x) + B64 * uint (data1 x)"
      "0 \<le> uint (data0 x) + B64 * (uint (data1 x) + B64 * uint (data2 x))"
      "uint (data0 x) < 2 ^ 64" "uint (data0 x) + B64 * uint (data1 x) < 2 ^ 128"
      "uint (data0 x) + B64 * (uint (data1 x) + B64 * uint (data2 x)) < 2 ^ 192"
    using uint_range64 [of "data0 x"] uint_range64 [of "data1 x"] uint_range64 [of "data2 x"]
    by simp_all
  have "\<exists>w r s. u256_get_msb x = get_msb64 w + of_nat s \<and> w \<noteq> 0 \<and> ival x = r + 2 ^ s * uint w \<and>
      0 \<le> r \<and> r < 2 ^ s \<and> s \<le> 192"
  proof -
    consider "data3 x \<noteq> 0" | "data3 x = 0" "data2 x \<noteq> 0" | "data3 x = 0" "data2 x = 0" "data1 x \<noteq> 0"
      | "data3 x = 0" "data2 x = 0" "data1 x = 0" "data0 x \<noteq> 0"
      | "data3 x = 0" "data2 x = 0" "data1 x = 0" "data0 x = 0"
      by blast
    then show ?thesis
    proof cases
      case 1
      with r(3,6) show ?thesis
        by (intro exI [of _ "data3 x"] exI [of _ "uint (data0 x) + B64 * (uint (data1 x) + B64 * uint (data2 x))"]
            exI [of _ 192]) (simp add: u256_get_msb_top ival_def)
    next
      case 2
      with r(2,5) show ?thesis
        by (intro exI [of _ "data2 x"] exI [of _ "uint (data0 x) + B64 * uint (data1 x)"]
            exI [of _ 128]) (simp add: u256_get_msb_top ival_def)
    next
      case 3
      with r(1,4) show ?thesis
        by (intro exI [of _ "data1 x"] exI [of _ "uint (data0 x)"] exI [of _ 64])
          (simp add: u256_get_msb_top ival_def)
    next
      case 4
      then show ?thesis
        by (intro exI [of _ "data0 x"] exI [of _ 0]) (simp add: u256_get_msb_top ival_def)
    next
      case 5
      with assms show ?thesis
        by (simp add: ival_def)
    qed
  qed
  then obtain w r s where w: "u256_get_msb x = get_msb64 w + of_nat s" "w \<noteq> 0"
      "ival x = r + 2 ^ s * uint w" "0 \<le> r" "r < 2 ^ s" "s \<le> 192" by blast
  from * [OF w] show "2 ^ unat (u256_get_msb x) \<le> ival x" "ival x < 2 ^ Suc (unat (u256_get_msb x))"
      "unat (u256_get_msb x) < 256" by simp_all
qed

lemma pow_reads_bits:
  assumes "i < unat (u256_get_msb e)"
  shows "u256_get_bit e (of_nat i) \<noteq> None"
proof -
  have "i < 256"
  proof (cases "ival e = 0")
    case True
    then show ?thesis
      using assms by (simp add: ival_eq_0_iff u256_get_msb_def)
  next
    case False
    then show ?thesis
      using assms u256_get_msb_spec(3) [of e] by simp
  qed
  then have "(of_nat i :: u64) < 256"
    by (simp add: word_less_nat_alt unat_of_nat)
  then show ?thesis
    by (simp add: u256_get_bit_eq)
qed

section \<open>Long division\<close>







section \<open>Powers and slices\<close>

text \<open>The powers are taken modulo 2 ^ 256: in the ring of 256-bit words.\<close>

abbreviation w256 :: "uint256_t \<Rightarrow> 256 word" where
  "w256 x \<equiv> word_of_int (ival x)"

lemma w256_mul: "w256 (u256_mul x y) = w256 x * w256 y"
  by (rule word_uint_eqI) (simp add: ival_mul uint_word_of_int uint_word_ariths mod_mult_eq)

lemma uint_w256 [simp]: "uint (w256 x) = ival x"
  using ival_range [of x] by (simp add: uint_word_of_int)

lemma ival_odd_div: "odd (nat (ival x) div 2 ^ i) \<longleftrightarrow> odd (ival x div 2 ^ i)"
proof -
  have "ival x div 2 ^ i = int (nat (ival x) div 2 ^ i)"
    using ival_range [of x] by (simp add: zdiv_int)
  then show ?thesis
    by (simp only: even_of_nat)
qed

interpretation pow256: square_multiply "u256_pow_loop to_mul exponent"
    "w256" "\<lambda>_. True" "w256 to_mul" "nat (ival exponent)" 256 for to_mul exponent
proof (unfold_locales, goal_cases)
  case (2 acc i)
  have "(of_nat i :: u64) < 256" "unat (of_nat i :: u64) = i"
    using 2 by (simp_all add: word_less_nat_alt unat_of_nat)
  then have "u256_get_bit exponent (of_nat i) = Some (odd (nat (ival exponent) div 2 ^ i))"
    using u256_get_bit_eq [of "of_nat i" exponent] by (simp add: ival_odd_div)
  then show ?case
    by (auto simp: Let_def w256_mul)
qed simp

lemma u256_pow_eq:
  assumes "ival x \<noteq> 0 \<or> ival e \<noteq> 0"
  shows "ival (u256_pow x e) = (ival x ^ nat (ival e)) mod B256"
proof (cases "ival x = 0 \<or> ival e = 0")
  case True
  with assms show ?thesis
    using ival_range [of e] by (auto simp: u256_pow_def u256_cmp_iffs zero_power)
next
  case False
  define n where "n = unat (u256_get_msb e)"
  have "nat (ival e) div 2 ^ n = 1"
  proof (rule div_eq_one_between)
    show "2 ^ n \<le> nat (ival e)" "nat (ival e) < 2 ^ Suc n"
      using u256_get_msb_spec [of e] False ival_range [of e] unfolding n_def
      by (simp_all add: le_nat_iff nat_less_iff)
  qed
  then have "w256 x = w256 x ^ (nat (ival e) div 2 ^ n)"
    by simp
  from pow256.loop_power [OF TrueI _ this] u256_get_msb_spec(3) [of e] False
  have "w256 (u256_pow_loop x e n x) = w256 x ^ nat (ival e)"
    unfolding n_def by simp
  then have "uint (w256 (u256_pow_loop x e n x)) = uint (w256 x ^ nat (ival e))"
    by (rule arg_cong)
  then have "ival (u256_pow_loop x e n x) = (ival x ^ nat (ival e)) mod B256"
    by (simp only: uint_w256 word_of_int_power_hom uint_word_of_int) (simp add: ival_range)
  with False show ?thesis
    unfolding u256_pow_def Let_def n_def by (simp add: u256_cmp_iffs)
qed

lemma u256_pow_zero: "u256_pow x (uint256_of_u64 0) = uint256_of_u64 1"
  by (simp add: u256_pow_def u256_cmp_iffs)

lemma u256_slice_eq:
  assumes "unat start \<le> unat end_pos" "unat end_pos \<le> 256"
  shows "ival (u256_slice x start end_pos) = (ival x div 2 ^ unat start) mod 2 ^ (unat end_pos - unat start)"
proof -
  define n where "n = unat end_pos - unat start"
  have range: "unat (end_pos - start) = n"
    using assms(1) unfolding n_def by (simp add: unat_sub word_le_nat_alt)
  have "ival (if end_pos - start = 256 then u256_neg (uint256_of_u64 1)
       else u256_sub (shl_by (uint256_of_u64 1) (end_pos - start)) (uint256_of_u64 1)) = mask n"
  proof (cases "n = 256")
    case True
    then have "end_pos - start = 256"
      using range by (simp add: word_unat_eq_iff)
    with True show ?thesis
      by (simp add: ival_neg mask_eq_exp_minus_1)
  next
    case False
    then have n: "n < 256"
      using assms unfolding n_def by simp
    then have "(2::int) ^ n < 2 ^ 256"
      by (intro power_strict_increasing) auto
    moreover have "end_pos - start \<noteq> 256"
      using range n by auto
    moreover have "nat (uint (end_pos - start)) = n"
      using range by (simp add: nat_uint_eq)
    moreover have "(1::int) \<le> 2 ^ n" by simp
    ultimately show ?thesis
      by (simp add: ival_sub ival_shl mask_eq_exp_minus_1)
  qed
  then show ?thesis
    unfolding u256_slice_def Let_def
    by (simp only: ival_and ival_shr ival_of_u64 take_bit_eq_mask [symmetric] take_bit_eq_mod n_def nat_uint_eq)
qed

section \<open>Reading a hexadecimal string\<close>

text \<open>The number a string of hexadecimal characters denotes, most significant first.\<close>

definition hex_digit :: "u8 \<Rightarrow> int option" where
  "hex_digit c = (if 48 \<le> c \<and> c \<le> 57 then Some (uint c - 48)
     else if 65 \<le> c \<and> c \<le> 70 then Some (uint c - 55)
     else if 97 \<le> c \<and> c \<le> 102 then Some (uint c - 87) else None)"

fun hex_value :: "u8 list \<Rightarrow> int option" where
  "hex_value [] = Some 0"
| "hex_value (c # cs) = (case (hex_digit c, hex_value cs) of
     (Some d, Some v) \<Rightarrow> Some (d * 16 ^ length cs + v) | _ \<Rightarrow> None)"

definition hex_body :: "u8 list \<Rightarrow> u8 list option" where
  "hex_body s = (if length s = 66 \<and> s ! 0 = 48 \<and> s ! 1 = 120 then Some (drop 2 s)
     else if length s = 64 then Some s else None)"

lemma HexCharToInt_eq:
  "HexCharToInt c = (case hex_digit c of None \<Rightarrow> Inl InvalidHexParameter | Some d \<Rightarrow> Inr (word_of_int d))"
  by (auto simp: HexCharToInt_def hex_digit_def Let_def word_le_def word_of_int_minus)

lemma hex_digit_range: "hex_digit c = Some d \<Longrightarrow> 0 \<le> d \<and> d < 16"
  by (auto simp: hex_digit_def word_le_def split: if_splits)


lemma hex_value_range: "hex_value l = Some v \<Longrightarrow> 0 \<le> v \<and> v < 16 ^ length l"
proof (induction l arbitrary: v)
  case (Cons c cs)
  then obtain d w where dw: "hex_digit c = Some d" "hex_value cs = Some w" "v = d * 16 ^ length cs + w"
    by (auto split: option.splits)
  have "(d + 1) * 16 ^ length cs \<le> 16 * 16 ^ length cs"
    using hex_digit_range [OF dw(1)] by (intro mult_right_mono) simp_all
  moreover have "0 \<le> d * 16 ^ length cs"
    using hex_digit_range [OF dw(1)] by simp
  ultimately show ?case
    using Cons.IH [OF dw(2)] dw(3) unfolding distrib_right by (simp only: length_Cons power_Suc) linarith
qed simp

lemma hex_value_append:
  "hex_value (l @ m) = (case (hex_value l, hex_value m) of
     (Some v, Some w) \<Rightarrow> Some (v * 16 ^ length m + w) | _ \<Rightarrow> None)"
  by (induction l) (auto simp: power_add distrib_right split: option.splits)

lemma byte_of_nibbles:
  assumes "0 \<le> h" "h < 16" "0 \<le> l" "l < (16::int)"
  shows "ucast (word_of_int h * 16 + word_of_int l :: u8) = (word_of_int (h * 16 + l) :: u64)"
  using assms by (intro word_uint_eqI)
    (simp add: uint_up_ucast is_up uint_word_ariths uint_word_of_int mod_add_eq mod_simps)

lemma limb_from_hex_eq:
  assumes "left \<le> 8" "li + 16 \<le> length input"
  shows "limb_from_hex input li left limb =
    (case hex_value (take (2 * left) (drop (li + (8 - left) * 2) input)) of
       None \<Rightarrow> Inl InvalidHexParameter
     | Some v \<Rightarrow> Inr (push_bit (8 * left) limb + word_of_int v))"
  using assms
proof (induction left arbitrary: limb)
  case (Suc left)
  define p where "p = li + (8 - Suc left) * 2"
  have p: "Suc p < length input" "li + (8 - left) * 2 = Suc (Suc p)"
    using Suc.prems unfolding p_def by auto
  have l: "take (2 * Suc left) (drop p input) = input ! p # input ! Suc p #
      take (2 * left) (drop (Suc (Suc p)) input)"
    using p(1) by (simp add: Cons_nth_drop_Suc [symmetric])
  have len: "min (length input - Suc (Suc p)) (2 * left) = 2 * left"
    using Suc.prems unfolding p_def by simp
  note IH = Suc.IH [OF _ Suc.prems(2), unfolded p(2)]
  note step = p_def [symmetric] l limb_from_hex.simps(2) Let_def HexCharToInt_eq
  show ?case
  proof (cases "hex_digit (input ! p)"; cases "hex_digit (input ! Suc p)")
    fix h l
    assume hl: "hex_digit (input ! p) = Some h" "hex_digit (input ! Suc p) = Some l"
    have byte: "ucast (word_of_int h * 16 + word_of_int l :: u8) = (word_of_int (h * 16 + l) :: u64)"
      using hex_digit_range [OF hl(1)] hex_digit_range [OF hl(2)] by (simp add: byte_of_nibbles)
    have glue: "push_bit (8 * left) (push_bit 8 limb + word_of_int (h * 16 + l)) + word_of_int v =
        push_bit (8 * Suc left) limb + word_of_int (h * 16 ^ Suc (2 * left) + (l * 16 ^ (2 * left) + v))" for v
    proof -
      have "(2::u64) ^ (8 * left) = 16 ^ (2 * left)"
        by (simp add: power_mult)
      then show ?thesis
        by (simp add: push_bit_eq_mult power_add algebra_simps)
    qed
    show ?thesis
      using Suc.prems(1) unfolding step by (simp add: hl byte IH len glue del: of_int_add of_int_mult of_int_power mult_Suc_right power_Suc split: option.splits)
  qed (unfold step, simp_all split: option.splits)
qed simp

text \<open>
  The constructor reads exactly the strings of 64 hexadecimal characters, with or without
  the prefix 0x, as the number they denote; every other string is an error.
\<close>

lemma uint256_from_string_digits:
  assumes "length input = si + 64" "si = (if prefixed then 2 else 0)"
    "prefixed = (length input = 66 \<and> input ! 0 = 48 \<and> input ! 1 = 120)"
  shows "(case hex_value (drop si input) of
      None \<Rightarrow> uint256_from_string input = Inl InvalidHexParameter
    | Some v \<Rightarrow> \<exists>x. uint256_from_string input = Inr x \<and> ival x = v)"
proof -
  define piece where "piece k = take 16 (drop (si + 16 * k) input)" for k :: nat
  have l: "limb_from_hex input (si + 16 * k) 8 0 = (case hex_value (piece k) of
       None \<Rightarrow> Inl InvalidHexParameter | Some v \<Rightarrow> Inr (word_of_int v))" if "k < 4" for k
    using that assms(1) limb_from_hex_eq [of 8 "si + 16 * k" input 0]
    by (simp add: piece_def split: option.splits)
  have whole: "drop si input = piece 0 @ piece 1 @ piece 2 @ piece 3"
  proof -
    have chunk: "drop n input = take 16 (drop n input) @ drop (n + 16) input" for n
      by (metis append_take_drop_id drop_drop add.commute)
    show ?thesis
      using chunk [of si] chunk [of "si + 16"] chunk [of "si + 32"] chunk [of "si + 48"] assms(1)
      unfolding piece_def by (simp only: add.assoc) simp
  qed
  have len: "length (piece k) = 16" if "k < 4" for k
    using that assms(1) by (simp add: piece_def)
  have start: "uint256_from_string input =
      ebind (limb_from_hex input (si + 16 * 0) 8 0) (\<lambda>l0.
      ebind (limb_from_hex input (si + 16 * 1) 8 0) (\<lambda>l1.
      ebind (limb_from_hex input (si + 16 * 2) 8 0) (\<lambda>l2.
      ebind (limb_from_hex input (si + 16 * 3) 8 0) (\<lambda>l3. Inr (Uint256 l3 l2 l1 l0)))))"
    using assms unfolding uint256_from_string_def Let_def by auto
  note ls = l [of 0, simplified] l [of 1, simplified] l [of 2, simplified] l [of 3, simplified]
  note lens = len [of 0, simplified] len [of 1, simplified] len [of 2, simplified] len [of 3, simplified]
  have limb: "uint (word_of_int v :: u64) = v" if "hex_value (piece k) = Some v" "k < 4" for k v
    using hex_value_range [OF that(1)] len [OF that(2)] by (simp add: uint_word_of_int)
  show ?thesis
  proof (cases "hex_value (piece 0) = None \<or> hex_value (piece 1) = None \<or>
      hex_value (piece 2) = None \<or> hex_value (piece 3) = None")
    case True
    then show ?thesis
      unfolding whole hex_value_append start
      by (auto simp: ls split: option.splits)
  next
    case False
    then obtain v0 v1 v2 v3 where v: "hex_value (piece 0) = Some v0" "hex_value (piece 1) = Some v1"
      "hex_value (piece 2) = Some v2" "hex_value (piece 3) = Some v3" by auto
    then show ?thesis
      using limb [OF v(1)] limb [OF v(2)] limb [OF v(3)] limb [OF v(4)]
      unfolding whole hex_value_append start
      by (simp add: ls lens ival_def)
  qed
qed

lemma uint256_from_string_length:
  assumes "length input \<noteq> 64" "\<not> (length input = 66 \<and> input ! 0 = 48 \<and> input ! 1 = 120)"
  shows "uint256_from_string input = Inl InvalidLength"
  using assms by (auto simp: uint256_from_string_def)


section \<open>What the 256-bit integer promises\<close>

text \<open>
  Addition, subtraction, negation and multiplication of uint256_t are the ring
  operations of the integers modulo 2^256, and the comparison operators are the order of
  the integers the limbs denote.
\<close>

theorem u256_ring_and_order:
  "ival (u256_add x y) = (ival x + ival y) mod 2 ^ 256 \<and>
   ival (u256_sub x y) = (ival x - ival y) mod 2 ^ 256 \<and>
   ival (u256_neg x) = (- ival x) mod 2 ^ 256 \<and>
   ival (u256_mul x y) = (ival x * ival y) mod 2 ^ 256 \<and>
   (u256_gt x y \<longleftrightarrow> ival x > ival y) \<and> (u256_ge x y \<longleftrightarrow> ival x \<ge> ival y) \<and>
   (u256_eq x y \<longleftrightarrow> x = y)"
  unfolding B256_eq [symmetric]
  by (simp only: u256_arith u256_cmp_iffs ival_inject simp_thms)

text \<open>
  The schoolbook product with 64-bit limbs loses nothing: the low and the high half of
  mul_extended together are the exact 512-bit product.
\<close>

theorem u256_mul_extended_exact:
  "(case u256_mul_extended x y of (lo, hi) \<Rightarrow> ival lo + 2 ^ 256 * ival hi) = ival x * ival y"
  using ival_mul_extended [of x y] unfolding B256_eq [symmetric] by (simp add: split_def)



text \<open>
  The two shifts divide and multiply by a power of two, for every shift amount: limb
  moves, the case of a whole number of limbs and amounts of 256 and more included.
\<close>

theorem u256_shifts:
  "ival (u256_shr x n) = ival x div 2 ^ nat (ival n) \<and>
   ival (u256_shl x n) = (ival x * 2 ^ nat (ival n)) mod 2 ^ 256"
  unfolding B256_eq [symmetric] by (simp only: ival_shr ival_shl simp_thms)

text \<open>
  pow is exponentiation modulo 2^256, for every base and every exponent; anything to
  the power of zero is one.
\<close>

theorem u256_pow_power: "ival (u256_pow x e) = ival x ^ nat (ival e) mod 2 ^ 256"
proof (cases "ival e = 0")
  case True
  then have "e = uint256_of_u64 0"
    by (simp flip: ival_inject)
  with True show ?thesis
    by (simp add: u256_pow_zero)
next
  case False
  then show ?thesis
    unfolding B256_eq [symmetric] by (simp only: u256_pow_eq simp_thms)
qed

text \<open>
  The constructor from a string accepts exactly 64 hexadecimal characters, with or
  without the prefix 0x, and yields the number they denote; a character that is not a
  hexadecimal digit and a wrong length are the two errors.
\<close>

theorem uint256_from_string_spec:
  "map_sum id ival (uint256_from_string s) =
     (case hex_body s of None \<Rightarrow> Inl InvalidLength
      | Some digits \<Rightarrow> (case hex_value digits of None \<Rightarrow> Inl InvalidHexParameter | Some v \<Rightarrow> Inr v))"
proof (cases "hex_body s")
  case None
  then have "uint256_from_string s = Inl InvalidLength"
    by (intro uint256_from_string_length) (auto simp: hex_body_def split: if_splits)
  with None show ?thesis by simp
next
  case (Some digits)
  then consider "length s = 66" "s ! 0 = 48" "s ! 1 = 120" "digits = drop 2 s" | "length s = 64" "digits = s"
    by (auto simp: hex_body_def split: if_splits)
  then show ?thesis
  proof cases
    case 1
    with uint256_from_string_digits [of s 2 True] Some show ?thesis
      by (auto split: option.splits)
  next
    case 2
    with uint256_from_string_digits [of s 0 False] Some show ?thesis
      by (auto split: option.splits)
  qed
qed

text \<open>
  slice(start, end) reads the bits from start up to, not including, end, the whole
  range of 256 bits included.
\<close>

theorem u256_slice_bits:
  assumes "unat start \<le> unat end_pos" and "unat end_pos \<le> 256"
  shows "ival (u256_slice x start end_pos) = ival x div 2 ^ unat start mod 2 ^ (unat end_pos - unat start)"
  using assms by (rule u256_slice_eq)

theorem u256_slice_bits_witness:
  "ival (u256_slice (Uint256 7 9 11 13) 0 256) = ival (Uint256 7 9 11 13) \<and>
   ival (u256_slice (Uint256 0xff00 0 0 0) 8 12) = 15"
  using u256_slice_bits [of 0 256 "Uint256 7 9 11 13"] u256_slice_bits [of 8 12 "Uint256 0xff00 0 0 0"]
  by (simp add: ival_def)

end
