(* ===== verification/Field_Limbs.thy ===== *)
theory Field_Limbs
  imports Uint256_Algos
begin

text \<open>
  The limb arithmetic of prime fields, ecc/fields/field_impl_generic.hpp, on the path with
  128-bit integers: Montgomery multiplication and squaring, addition and subtraction with
  coarse reduction. The element of a field is four limbs, the type uint256_t; its
  parameters are the record field_params.
\<close>

section \<open>Parameters of a field\<close>

record field_params =
  modulus :: uint256_t
  r_squared :: uint256_t
  r_inv :: u64
  primitive_root :: uint256_t

definition twice_modulus :: "field_params \<Rightarrow> uint256_t" where
  "twice_modulus P = u256_add (modulus P) (modulus P)"

definition not_modulus :: "field_params \<Rightarrow> uint256_t" where
  "not_modulus P = u256_neg (modulus P)"

definition twice_not_modulus :: "field_params \<Rightarrow> uint256_t" where
  "twice_not_modulus P = u256_neg (twice_modulus P)"

definition modulus_minus_two :: "field_params \<Rightarrow> uint256_t" where
  "modulus_minus_two P =
     Uint256 (data0 (modulus P) - 2) (data1 (modulus P)) (data2 (modulus P)) (data3 (modulus P))"

text \<open>The compile-time switch: a modulus of at least 255 bits takes the paths for big moduli.\<close>

definition big_modulus :: "field_params \<Rightarrow> bool" where
  "big_modulus P \<longleftrightarrow> data3 (modulus P) \<ge> 0x4000000000000000"

section \<open>Limb primitives on 128-bit integers\<close>

definition lo64 :: "u128 \<Rightarrow> u64" where
  "lo64 res = ucast res"

definition hi64 :: "u128 \<Rightarrow> u64" where
  "hi64 res = ucast (drop_bit 64 res)"

definition w128 :: "u64 \<Rightarrow> u128" where
  "w128 a = ucast a"

definition f_mul_wide :: "u64 \<Rightarrow> u64 \<Rightarrow> u64 \<times> u64" where
  "f_mul_wide a b = (let res = w128 a * w128 b in (lo64 res, hi64 res))"

definition f_mac :: "u64 \<Rightarrow> u64 \<Rightarrow> u64 \<Rightarrow> u64 \<Rightarrow> u64 \<times> u64" where
  "f_mac a b c carry_in = (let res = w128 a + (w128 b * w128 c) + w128 carry_in in (lo64 res, hi64 res))"

definition f_mac_mini :: "u64 \<Rightarrow> u64 \<Rightarrow> u64 \<Rightarrow> u64 \<times> u64" where
  "f_mac_mini a b c = (let res = w128 a + (w128 b * w128 c) in (lo64 res, hi64 res))"

definition f_mac_discard_lo :: "u64 \<Rightarrow> u64 \<Rightarrow> u64 \<Rightarrow> u64" where
  "f_mac_discard_lo a b c = (let res = w128 a + (w128 b * w128 c) in hi64 res)"

definition f_addc :: "u64 \<Rightarrow> u64 \<Rightarrow> u64 \<Rightarrow> u64 \<times> u64" where
  "f_addc a b carry_in = (let res = w128 a + w128 b + w128 carry_in in (lo64 res, hi64 res))"

definition f_sbb :: "u64 \<Rightarrow> u64 \<Rightarrow> u64 \<Rightarrow> u64 \<times> u64" where
  "f_sbb a b borrow_in = (let res = w128 a - (w128 b + w128 (drop_bit 63 borrow_in)) in (lo64 res, hi64 res))"

text \<open>Twice the product b * c, plus a and a carry of two limbs: (out, carry low, carry high).\<close>

definition f_square_accumulate :: "u64 \<Rightarrow> u64 \<Rightarrow> u64 \<Rightarrow> u64 \<Rightarrow> u64 \<Rightarrow> u64 \<times> u64 \<times> u64" where
  "f_square_accumulate a b c carry_in_lo carry_in_hi =
     (let product = w128 b * w128 c;
          r0 = lo64 product;
          r1 = hi64 product;
          out = r0 + r0;
          carry_lo = b2w (out < r0);
          out = out + a;
          carry_lo = carry_lo + b2w (out < a);
          out = out + carry_in_lo;
          carry_lo = carry_lo + b2w (out < carry_in_lo);
          carry_lo = carry_lo + r1;
          carry_hi = b2w (carry_lo < r1);
          carry_lo = carry_lo + r1;
          carry_hi = carry_hi + b2w (carry_lo < r1);
          carry_lo = carry_lo + carry_in_hi;
          carry_hi = carry_hi + b2w (carry_lo < carry_in_hi)
      in (out, carry_lo, carry_hi))"

section \<open>Reduction, addition, subtraction\<close>

text \<open>The branchless choice between two values: the second where the mask is all ones.\<close>

definition select_limb :: "u64 \<Rightarrow> u64 \<Rightarrow> u64 \<Rightarrow> u64" where
  "select_limb selection_mask r t = (r AND NOT selection_mask) OR (t AND selection_mask)"

definition f_reduce :: "field_params \<Rightarrow> uint256_t \<Rightarrow> uint256_t" where
  "f_reduce P x =
     (if big_modulus P then if u256_ge x (modulus P) then u256_sub x (modulus P) else x
      else
        let n = not_modulus P;
            t0 = data0 x + data0 n;
            c = b2w (t0 < data0 x);
            (t1, c) = f_addc (data1 x) (data1 n) c;
            (t2, c) = f_addc (data2 x) (data2 n) c;
            (t3, c) = f_addc (data3 x) (data3 n) c;
            selection_mask = 0 - c
        in Uint256 (select_limb selection_mask (data0 x) t0) (select_limb selection_mask (data1 x) t1)
             (select_limb selection_mask (data2 x) t2) (select_limb selection_mask (data3 x) t3))"

text \<open>The subtraction of four limbs with the borrow that goes out.\<close>

definition f_sub4 :: "u64 \<Rightarrow> u64 \<Rightarrow> u64 \<Rightarrow> u64 \<Rightarrow> uint256_t \<Rightarrow> uint256_t \<times> u64" where
  "f_sub4 a0 a1 a2 a3 y =
     (let (r0, b) = f_sbb a0 (data0 y) 0;
          (r1, b) = f_sbb a1 (data1 y) b;
          (r2, b) = f_sbb a2 (data2 y) b;
          (r3, b) = f_sbb a3 (data3 y) b
      in (Uint256 r0 r1 r2 r3, b))"

definition f_add :: "field_params \<Rightarrow> uint256_t \<Rightarrow> uint256_t \<Rightarrow> uint256_t" where
  "f_add P x y =
     (if big_modulus P then
        let r0 = data0 x + data0 y;
            c = b2w (r0 < data0 x);
            (r1, c) = f_addc (data1 x) (data1 y) c;
            (r2, c) = f_addc (data2 x) (data2 y) c;
            (r3, c) = f_addc (data3 x) (data3 y) c
        in if c \<noteq> 0 then
             let (r, b) = f_sub4 r0 r1 r2 r3 (modulus P)
             in if b = 0 then fst (f_sub4 (data0 r) (data1 r) (data2 r) (data3 r) (modulus P)) else r
           else Uint256 r0 r1 r2 r3
      else
        let r0 = data0 x + data0 y;
            c = b2w (r0 < data0 x);
            (r1, c) = f_addc (data1 x) (data1 y) c;
            (r2, c) = f_addc (data2 x) (data2 y) c;
            r3 = data3 x + data3 y + c;
            n = twice_not_modulus P;
            t0 = r0 + data0 n;
            c = b2w (t0 < data0 n);
            (t1, c) = f_addc r1 (data1 n) c;
            (t2, c) = f_addc r2 (data2 n) c;
            (t3, c) = f_addc r3 (data3 n) c;
            selection_mask = 0 - c
        in Uint256 (select_limb selection_mask r0 t0) (select_limb selection_mask r1 t1)
             (select_limb selection_mask r2 t2) (select_limb selection_mask r3 t3))"

text \<open>Adding a masked number to four limbs, with the carry that goes out.\<close>

definition f_add4_masked :: "uint256_t \<Rightarrow> uint256_t \<Rightarrow> u64 \<Rightarrow> uint256_t \<times> u64" where
  "f_add4_masked r m borrow =
     (let r0 = data0 r + (data0 m AND borrow);
          carry = b2w (r0 < (data0 m AND borrow));
          (r1, carry) = f_addc (data1 r) (data1 m AND borrow) carry;
          (r2, carry) = f_addc (data2 r) (data2 m AND borrow) carry;
          (r3, carry) = f_addc (data3 r) (data3 m AND borrow) carry
      in (Uint256 r0 r1 r2 r3, carry))"

definition f_subtract :: "field_params \<Rightarrow> uint256_t \<Rightarrow> uint256_t \<Rightarrow> uint256_t" where
  "f_subtract P x y =
     (let (r, borrow) = f_sub4 (data0 x) (data1 x) (data2 x) (data3 x) y;
          (r, carry) = f_add4_masked r (modulus P) borrow
      in if carry = 0 then fst (f_add4_masked r (modulus P) borrow) else r)"

text \<open>The same addition without a carry out of the top limb.\<close>

definition f_add4_masked_wrap :: "uint256_t \<Rightarrow> uint256_t \<Rightarrow> u64 \<Rightarrow> uint256_t" where
  "f_add4_masked_wrap r m borrow =
     (let r0 = data0 r + (data0 m AND borrow);
          carry = b2w (r0 < (data0 m AND borrow));
          (r1, carry) = f_addc (data1 r) (data1 m AND borrow) carry;
          (r2, carry) = f_addc (data2 r) (data2 m AND borrow) carry;
          r3 = data3 r + ((data3 m AND borrow) + carry)
      in Uint256 r0 r1 r2 r3)"

definition f_subtract_coarse :: "field_params \<Rightarrow> uint256_t \<Rightarrow> uint256_t \<Rightarrow> uint256_t" where
  "f_subtract_coarse P x y =
     (if big_modulus P then f_subtract P x y
      else
        let (r, borrow) = f_sub4 (data0 x) (data1 x) (data2 x) (data3 x) y
        in f_add4_masked_wrap r (twice_modulus P) borrow)"

section \<open>Montgomery multiplication\<close>

text \<open>
  One round of montgomery_mul, for one limb x of the left operand: the text of the second
  block, which the third and the fourth repeat.
\<close>

definition mont_round :: "field_params \<Rightarrow> uint256_t \<Rightarrow> u64 \<Rightarrow> u64 \<times> u64 \<times> u64 \<times> u64 \<Rightarrow> u64 \<times> u64 \<times> u64 \<times> u64" where
  "mont_round P other x t =
     (let (t0, t1, t2, t3) = t;
          m = modulus P;
          (t0, a) = f_mac_mini t0 x (data0 other);
          k = t0 * r_inv P;
          c = f_mac_discard_lo t0 k (data0 m);
          (t1, a) = f_mac t1 x (data1 other) a;
          (t0, c) = f_mac t1 k (data1 m) c;
          (t2, a) = f_mac t2 x (data2 other) a;
          (t1, c) = f_mac t2 k (data2 m) c;
          (t3, a) = f_mac t3 x (data3 other) a;
          (t2, c) = f_mac t3 k (data3 m) c;
          t3 = c + a
      in (t0, t1, t2, t3))"

definition mont_first_round :: "field_params \<Rightarrow> uint256_t \<Rightarrow> u64 \<Rightarrow> u64 \<times> u64 \<times> u64 \<times> u64" where
  "mont_first_round P other x =
     (let m = modulus P;
          (t0, c) = f_mul_wide x (data0 other);
          k = t0 * r_inv P;
          a = f_mac_discard_lo t0 k (data0 m);
          (t1, a) = f_mac_mini a x (data1 other);
          (t0, c) = f_mac t1 k (data1 m) c;
          (t2, a) = f_mac_mini a x (data2 other);
          (t1, c) = f_mac t2 k (data2 m) c;
          (t3, a) = f_mac_mini a x (data3 other);
          (t2, c) = f_mac t3 k (data3 m) c;
          t3 = c + a
      in (t0, t1, t2, t3))"

text \<open>The path for big moduli keeps a fifth limb; t5 is the top carry inside a round.\<close>

definition mont_big_round ::
  "field_params \<Rightarrow> uint256_t \<Rightarrow> u64 \<Rightarrow> u64 \<times> u64 \<times> u64 \<times> u64 \<times> u64 \<Rightarrow> u64 \<times> u64 \<times> u64 \<times> u64 \<times> u64" where
  "mont_big_round P other element t =
     (let (t0, t1, t2, t3, t4) = t;
          m = modulus P;
          (t0, c) = f_mac t0 element (data0 other) 0;
          (t1, c) = f_mac t1 element (data1 other) c;
          (t2, c) = f_mac t2 element (data2 other) c;
          (t3, c) = f_mac t3 element (data3 other) c;
          (t4, t5) = f_addc t4 c 0;
          k = t0 * r_inv P;
          c = f_mac_discard_lo t0 k (data0 m);
          (t0, c) = f_mac t1 k (data1 m) c;
          (t1, c) = f_mac t2 k (data2 m) c;
          (t2, c) = f_mac t3 k (data3 m) c;
          (t3, c) = f_addc c t4 0;
          t4 = t5 + c
      in (t0, t1, t2, t3, t4))"

definition f_montgomery_mul_big :: "field_params \<Rightarrow> uint256_t \<Rightarrow> uint256_t \<Rightarrow> uint256_t" where
  "f_montgomery_mul_big P x other =
     (let (t0, t1, t2, t3, t4) =
            fold (mont_big_round P other) [data0 x, data1 x, data2 x, data3 x] (0, 0, 0, 0, 0);
          (r, borrow) = f_sub4 t0 t1 t2 t3 (modulus P);
          borrow = borrow XOR (0 - t4)
      in f_add4_masked_wrap r (modulus P) borrow)"

definition f_montgomery_mul :: "field_params \<Rightarrow> uint256_t \<Rightarrow> uint256_t \<Rightarrow> uint256_t" where
  "f_montgomery_mul P x other =
     (if big_modulus P then f_montgomery_mul_big P x other
      else
        let t = mont_first_round P other (data0 x);
            t = mont_round P other (data1 x) t;
            t = mont_round P other (data2 x) t;
            (t0, t1, t2, t3) = mont_round P other (data3 x) t
        in Uint256 t0 t1 t2 t3)"

text \<open>The reduction step all four blocks of montgomery_square end with.\<close>

definition mont_reduce_step :: "field_params \<Rightarrow> u64 \<times> u64 \<times> u64 \<times> u64 \<Rightarrow> u64 \<Rightarrow> u64 \<times> u64 \<times> u64 \<times> u64" where
  "mont_reduce_step P t round_carry =
     (let (t0, t1, t2, t3) = t;
          m = modulus P;
          k = t0 * r_inv P;
          carry_lo = f_mac_discard_lo t0 k (data0 m);
          (t0, carry_lo) = f_mac t1 k (data1 m) carry_lo;
          (t1, carry_lo) = f_mac t2 k (data2 m) carry_lo;
          (t2, carry_lo) = f_mac t3 k (data3 m) carry_lo;
          t3 = carry_lo + round_carry
      in (t0, t1, t2, t3))"

definition f_montgomery_square :: "field_params \<Rightarrow> uint256_t \<Rightarrow> uint256_t" where
  "f_montgomery_square P x =
     (if big_modulus P then f_montgomery_mul_big P x x
      else
        let (t0, carry_lo) = f_mul_wide (data0 x) (data0 x);
            (t1, carry_lo, carry_hi) = f_square_accumulate 0 (data1 x) (data0 x) carry_lo 0;
            (t2, carry_lo, carry_hi) = f_square_accumulate 0 (data2 x) (data0 x) carry_lo carry_hi;
            (t3, carry_lo, carry_hi) = f_square_accumulate 0 (data3 x) (data0 x) carry_lo carry_hi;
            (t0, t1, t2, t3) = mont_reduce_step P (t0, t1, t2, t3) carry_lo;
            (t1, carry_lo) = f_mac_mini t1 (data1 x) (data1 x);
            (t2, carry_lo, carry_hi) = f_square_accumulate t2 (data2 x) (data1 x) carry_lo 0;
            (t3, carry_lo, carry_hi) = f_square_accumulate t3 (data3 x) (data1 x) carry_lo carry_hi;
            (t0, t1, t2, t3) = mont_reduce_step P (t0, t1, t2, t3) carry_lo;
            (t2, carry_lo) = f_mac_mini t2 (data2 x) (data2 x);
            (t3, carry_lo, carry_hi) = f_square_accumulate t3 (data3 x) (data2 x) carry_lo 0;
            (t0, t1, t2, t3) = mont_reduce_step P (t0, t1, t2, t3) carry_lo;
            (t3, carry_lo) = f_mac_mini t3 (data3 x) (data3 x);
            (t0, t1, t2, t3) = mont_reduce_step P (t0, t1, t2, t3) carry_lo
        in Uint256 t0 t1 t2 t3)"

text \<open>The full product, the eight limbs as (low half, high half).\<close>

definition f_mul_512 :: "uint256_t \<Rightarrow> uint256_t \<Rightarrow> uint256_t \<times> uint256_t" where
  "f_mul_512 x other =
     (let (r0, carry) = f_mul_wide (data0 x) (data0 other);
          (r1, carry) = f_mac_mini carry (data0 x) (data1 other);
          (r2, carry) = f_mac_mini carry (data0 x) (data2 other);
          (r3, carry_2) = f_mac_mini carry (data0 x) (data3 other);
          (r1, carry) = f_mac_mini r1 (data1 x) (data0 other);
          (r2, carry) = f_mac r2 (data1 x) (data1 other) carry;
          (r3, carry) = f_mac r3 (data1 x) (data2 other) carry;
          (r4, carry_2) = f_mac carry_2 (data1 x) (data3 other) carry;
          (r2, carry) = f_mac_mini r2 (data2 x) (data0 other);
          (r3, carry) = f_mac r3 (data2 x) (data1 other) carry;
          (r4, carry) = f_mac r4 (data2 x) (data2 other) carry;
          (r5, carry_2) = f_mac carry_2 (data2 x) (data3 other) carry;
          (r3, carry) = f_mac_mini r3 (data3 x) (data0 other);
          (r4, carry) = f_mac r4 (data3 x) (data1 other) carry;
          (r5, carry) = f_mac r5 (data3 x) (data2 other) carry;
          (r6, carry_2) = f_mac carry_2 (data3 x) (data3 other) carry
      in (Uint256 r0 r1 r2 r3, Uint256 r4 r5 r6 carry_2))"

section \<open>The limb primitives as equations on integers\<close>

abbreviation B128 :: int where
  "B128 \<equiv> 340282366920938463463374607431768211456"

lemma uint_w128 [simp]: "uint (w128 a) = uint a"
  unfolding w128_def by (simp add: uint_up_ucast is_up)

lemma lo_hi64: "uint (lo64 r) + B64 * uint (hi64 r) = uint r"
proof -
  have lo: "uint (lo64 r) = uint r mod B64"
    unfolding lo64_def by (simp add: unsigned_ucast_eq take_bit_eq_mod)
  have "uint (hi64 r) = take_bit 64 (uint r div 2 ^ 64)"
    unfolding hi64_def by (simp only: unsigned_ucast_eq uint_drop_bit) simp
  moreover have "0 \<le> uint r div 2 ^ 64" "uint r div 2 ^ 64 < 2 ^ 64"
    using uint_lt128 [of r] by (simp_all add: div_less_iff_less_mult pos_imp_zdiv_nonneg_iff)
  ultimately have hi: "uint (hi64 r) = uint r div B64"
    by (simp add: take_bit_int_eq_self)
  show ?thesis
    unfolding lo hi by (simp add: mult.commute)
qed

lemma uint_add128: "uint a + uint b < B128 \<Longrightarrow> uint (a + b :: u128) = uint a + uint b"
  by (simp add: uint_plus_if')

lemma uint_w128_mul: "uint (w128 a * w128 b) = uint a * uint b"
  using limb_prod_le [of a b] by (simp add: uint_word_ariths)

lemma f_mac_res: "uint (w128 a + (w128 b * w128 c) + w128 d) = uint a + uint b * uint c + uint d"
proof -
  have le: "uint a + uint b * uint c + uint d < B128"
    using limb_prod_le [of b c] uint_lt64 [of a] uint_lt64 [of d] by linarith
  then have "uint a + uint b * uint c < B128"
    using uint_range64 [of d] by linarith
  then have "uint (w128 a + (w128 b * w128 c)) = uint a + uint b * uint c"
    by (subst uint_add128) (simp_all add: uint_w128_mul)
  then show ?thesis
    using le by (subst uint_add128) simp_all
qed

lemma f_mac_eq:
  assumes "f_mac a b c d = (r, t)"
  shows "uint r + B64 * uint t = uint a + uint b * uint c + uint d"
  using assms lo_hi64 [of "w128 a + (w128 b * w128 c) + w128 d"] unfolding f_mac_res
  by (auto simp: f_mac_def Let_def)

lemma f_mac_mini_mac: "f_mac_mini a b c = f_mac a b c 0"
  by (simp add: f_mac_def f_mac_mini_def w128_def)

lemma f_mul_wide_mac: "f_mul_wide b c = f_mac 0 b c 0"
  by (simp add: f_mac_def f_mul_wide_def w128_def)

lemma f_mac_discard_lo_mac: "f_mac_discard_lo a b c = snd (f_mac a b c 0)"
  by (simp add: f_mac_def f_mac_discard_lo_def w128_def Let_def)

lemma f_mac_mini_eq: "f_mac_mini a b c = (r, t) \<Longrightarrow> uint r + B64 * uint t = uint a + uint b * uint c"
  unfolding f_mac_mini_mac by (drule f_mac_eq) simp

lemma f_mul_wide_eq: "f_mul_wide b c = (r, t) \<Longrightarrow> uint r + B64 * uint t = uint b * uint c"
  unfolding f_mul_wide_mac by (drule f_mac_eq) simp

lemma f_mac_discard_lo_eq:
  "\<exists>r. uint (r::u64) + B64 * uint (f_mac_discard_lo a b c) = uint a + uint b * uint c"
  unfolding f_mac_discard_lo_mac
  by (rule exI [of _ "fst (f_mac a b c 0)"]) (use f_mac_eq [of a b c 0] in \<open>simp add: prod_eq_iff\<close>)

lemma of_bool_bounds: "0 \<le> (of_bool p :: int) \<and> (of_bool p :: int) \<le> 1"
  by simp

text \<open>Carries are 0 or 1, borrows 0 or all ones.\<close>

lemma f_addc_eq:
  assumes "f_addc a b (b2w p) = (r, t)"
  obtains q where "t = b2w q" "uint r + B64 * of_bool q = uint a + uint b + of_bool p"
proof -
  have le: "uint a + uint b + of_bool p < B128"
    using uint_lt64 [of a] uint_lt64 [of b] by (cases p) simp_all
  have "uint (w128 a + w128 b + w128 (b2w p)) = uint a + uint b + of_bool p"
    using le by (subst uint_add128; subst uint_add128) (auto simp: of_bool_def split: if_splits)
  then have eq: "uint r + B64 * uint t = uint a + uint b + of_bool p"
    using assms lo_hi64 [of "w128 a + w128 b + w128 (b2w p)"] by (auto simp: f_addc_def Let_def)
  have "of_bool p \<le> (1::int)" by simp
  then have "uint t < 2"
    using eq uint_range64 [of r] uint_lt64 [of a] uint_lt64 [of b] by linarith
  then have "uint t = 0 \<or> uint t = 1"
    using uint_range64 [of t] by linarith
  then have "t = b2w (uint t = 1)"
    by (auto simp: b2w_def word_uint_eq_iff)
  moreover have "uint r + B64 * of_bool (uint t = 1) = uint a + uint b + of_bool p"
    using eq \<open>uint t = 0 \<or> uint t = 1\<close> by auto
  ultimately show ?thesis by (rule that)
qed

lemma drop_borrow: "drop_bit 63 (- b2w p :: u64) = b2w p"
  by (cases p) simp_all

lemma f_sbb_eq:
  assumes "f_sbb a b (0 - b2w p) = (r, t)"
  obtains q where "t = 0 - b2w q" "uint r = uint a - uint b - of_bool p + B64 * of_bool q"
proof -
  define d where "d = uint a - uint b - of_bool p"
  define res where "res = w128 a - (w128 b + w128 (b2w p))"
  have "uint (w128 b + w128 (b2w p)) = uint b + of_bool p"
    using uint_lt64 [of b] by (subst uint_add128) (auto simp: of_bool_def)
  then have res: "uint res = (if 0 \<le> d then d else d + B128)"
    unfolding res_def d_def using uint_range64 [of a] uint_range64 [of b]
    by (simp add: uint_sub_if' of_bool_def)
  have rt: "r = lo64 res" "t = hi64 res"
    using assms by (simp_all add: f_sbb_def Let_def drop_borrow res_def)
  have eq: "uint r + B64 * uint t = uint res"
    unfolding rt by (rule lo_hi64)
  have d: "- B64 \<le> d" "d < B64"
    unfolding d_def using uint_range64 [of a] uint_range64 [of b] of_bool_bounds [of p] by linarith+
  show ?thesis
  proof (cases "0 \<le> d")
    case True
    then have "uint res = d"
      using res by simp
    then have t: "uint t = 0"
      using eq d True uint_range64 [of r] uint_range64 [of t] by linarith
    then have "uint r = d"
      using eq \<open>uint res = d\<close> by simp
    with t show ?thesis
      by (intro that [of False]) (simp_all add: d_def unsigned_eq_0_iff)
  next
    case False
    then have "uint res = d + B128"
      using res by simp
    then have t: "uint t = B64 - 1"
      using eq d False uint_range64 [of r] uint_range64 [of t] by linarith
    moreover have "uint r = d + B64"
      using eq \<open>uint res = d + B128\<close> unfolding t by simp
    moreover have "uint (- 1 :: u64) = B64 - 1"
      by (simp add: unsigned_minus_1_eq_mask mask_eq_exp_minus_1)
    ultimately show ?thesis
      by (intro that [of True]) (simp_all only: word_uint_eq_iff d_def b2w_simps of_bool_eq, simp_all)
  qed
qed

lemma f_sbb_eq0:
  assumes "f_sbb a b 0 = (r, t)"
  obtains q where "t = 0 - b2w q" "uint r = uint a - uint b + B64 * of_bool q"
  using f_sbb_eq [of a b False r t] assms by auto

section \<open>Four limbs at a time\<close>

lemma f_sub4_eq:
  assumes "f_sub4 (data0 x) (data1 x) (data2 x) (data3 x) y = (r, b)"
  shows "b = 0 - b2w (ival x < ival y)" and "ival r = ival x - ival y + B256 * of_bool (ival x < ival y)"
proof -
  obtain r0 b0 where s0: "f_sbb (data0 x) (data0 y) 0 = (r0, b0)" by fastforce
  obtain q0 where q0: "b0 = 0 - b2w q0" "uint r0 = uint (data0 x) - uint (data0 y) + B64 * of_bool q0"
    by (rule f_sbb_eq0 [OF s0])
  obtain r1 b1 where s1: "f_sbb (data1 x) (data1 y) (0 - b2w q0) = (r1, b1)" by fastforce
  obtain q1 where q1: "b1 = 0 - b2w q1" "uint r1 = uint (data1 x) - uint (data1 y) - of_bool q0 + B64 * of_bool q1"
    by (rule f_sbb_eq [OF s1])
  obtain r2 b2 where s2: "f_sbb (data2 x) (data2 y) (0 - b2w q1) = (r2, b2)" by fastforce
  obtain q2 where q2: "b2 = 0 - b2w q2" "uint r2 = uint (data2 x) - uint (data2 y) - of_bool q1 + B64 * of_bool q2"
    by (rule f_sbb_eq [OF s2])
  obtain r3 b3 where s3: "f_sbb (data3 x) (data3 y) (0 - b2w q2) = (r3, b3)" by fastforce
  obtain q3 where q3: "b3 = 0 - b2w q3" "uint r3 = uint (data3 x) - uint (data3 y) - of_bool q2 + B64 * of_bool q3"
    by (rule f_sbb_eq [OF s3])
  have rb: "r = Uint256 r0 r1 r2 r3" "b = b3"
    using assms s0 s1 s2 s3 unfolding q0(1) q1(1) q2(1) f_sub4_def by (auto simp: q0(1) q1(1) q2(1))
  have eq: "ival r = ival x - ival y + B256 * of_bool q3"
    unfolding rb ival_def uint256_t.sel q0(2) q1(2) q2(2) q3(2) by (simp add: algebra_simps)
  have "q3 \<longleftrightarrow> ival x < ival y"
    using eq ival_range [of r] ival_range [of x] ival_range [of y] by (cases q3) auto
  then show "b = 0 - b2w (ival x < ival y)" "ival r = ival x - ival y + B256 * of_bool (ival x < ival y)"
    using rb q3(1) eq by simp_all
qed

definition masked :: "bool \<Rightarrow> uint256_t \<Rightarrow> uint256_t" where
  "masked p m = (if p then m else uint256_of_u64 0)"

lemma mask_limb: "w AND (0 - b2w p) = (if p then w else (0::u64))"
  by (cases p) simp_all

lemma masked_limbs:
  "data0 m AND (0 - b2w p) = data0 (masked p m)" "data1 m AND (0 - b2w p) = data1 (masked p m)"
  "data2 m AND (0 - b2w p) = data2 (masked p m)" "data3 m AND (0 - b2w p) = data3 (masked p m)"
  by (simp_all only: mask_limb) (simp_all add: masked_def uint256_of_u64_def)

lemma ival_masked: "ival (masked p m) = of_bool p * ival m"
  by (simp add: masked_def)

lemma carry_first: "uint (a + b :: u64) + B64 * of_bool (a + b < b) = uint a + uint b"
  using uint_add_carry [of b a] by (simp add: add.commute)

lemma f_add4_masked_eq:
  assumes "f_add4_masked x m (0 - b2w p) = (r, t)"
  obtains q where "t = b2w q" "ival r + B256 * of_bool q = ival x + of_bool p * ival m"
proof -
  define y where "y = masked p m"
  define q0 where "q0 = (data0 x + data0 y < data0 y)"
  obtain r1 c1 where s1: "f_addc (data1 x) (data1 y) (b2w q0) = (r1, c1)" by fastforce
  obtain q1 where q1: "c1 = b2w q1" "uint r1 + B64 * of_bool q1 = uint (data1 x) + uint (data1 y) + of_bool q0"
    by (rule f_addc_eq [OF s1])
  obtain r2 c2 where s2: "f_addc (data2 x) (data2 y) (b2w q1) = (r2, c2)" by fastforce
  obtain q2 where q2: "c2 = b2w q2" "uint r2 + B64 * of_bool q2 = uint (data2 x) + uint (data2 y) + of_bool q1"
    by (rule f_addc_eq [OF s2])
  obtain r3 c3 where s3: "f_addc (data3 x) (data3 y) (b2w q2) = (r3, c3)" by fastforce
  obtain q3 where q3: "c3 = b2w q3" "uint r3 + B64 * of_bool q3 = uint (data3 x) + uint (data3 y) + of_bool q2"
    by (rule f_addc_eq [OF s3])
  have rt: "r = Uint256 (data0 x + data0 y) r1 r2 r3" "t = c3"
    using assms s1 s2 s3 unfolding f_add4_masked_def masked_limbs y_def [symmetric] Let_def
      q0_def [symmetric] by (auto simp: q1(1) q2(1))
  have "ival r + B256 * of_bool q3 = ival x + ival y"
    using carry_first [of "data0 x" "data0 y", folded q0_def] q1(2) q2(2) q3(2)
    unfolding rt ival_def uint256_t.sel by linarith
  then show ?thesis
    by (intro that [of q3]) (simp_all only: rt q3(1) y_def ival_masked)
qed

lemma f_add4_masked_wrap_eq:
  "ival (f_add4_masked_wrap x m (0 - b2w p)) = (ival x + of_bool p * ival m) mod B256"
proof -
  obtain r t where rt: "f_add4_masked x m (0 - b2w p) = (r, t)" by fastforce
  obtain q where q: "ival r + B256 * of_bool q = ival x + of_bool p * ival m"
    by (rule f_add4_masked_eq [OF rt])
  have wrap: "fst (f_addc a b c) = a + (b + c)" for a b c
    unfolding f_addc_def Let_def fst_conv lo64_def w128_def
    by (rule word_uint_eqI) (simp add: unsigned_ucast_eq take_bit_eq_mod uint_up_ucast is_up uint_word_ariths mod_simps mod_mod_cancel add.assoc)
  have "f_add4_masked_wrap x m (0 - b2w p) = r"
    using rt unfolding f_add4_masked_wrap_def f_add4_masked_def Let_def wrap [symmetric]
    by (auto split: prod.splits)
  then have "ival (f_add4_masked_wrap x m (0 - b2w p)) = ival r" by simp
  also have "\<dots> = (ival r + B256 * of_bool q) mod B256"
    using ival_range [of r] by simp
  finally show ?thesis
    unfolding q .
qed

end
