(* ===== verification/Field_Montgomery.thy ===== *)
theory Field_Montgomery
  imports Field_Limbs
begin

text \<open>
  What the limb arithmetic of Field_Limbs computes: reduction, addition and subtraction are
  the operations modulo the modulus with results below twice the modulus, Montgomery
  multiplication and squaring add a multiple of the modulus and divide by 2^256 exactly.
\<close>

section \<open>Reduction, addition and subtraction are modular\<close>

text \<open>
  What the code needs of its parameters: an odd modulus, the number r_inv that cancels the
  low limb, and the square of the Montgomery radix.
\<close>

definition params_ok :: "field_params \<Rightarrow> bool" where
  "params_ok P \<longleftrightarrow> 1 < ival (modulus P) \<and> (uint (r_inv P) * uint (data0 (modulus P)) + 1) mod B64 = 0 \<and>
     ival (r_squared P) = B256 * B256 mod ival (modulus P)"

lemma select_limb_b2w: "select_limb (0 - b2w p) r t = (if p then t else r)"
  by (cases p) (simp_all add: select_limb_def)

lemma big_modulus_iff: "big_modulus P \<longleftrightarrow> 2 ^ 254 \<le> ival (modulus P)"
proof -
  have p: "(2::int) ^ 62 = 4611686018427387904"
    "(2::int) ^ 254 = 28948022309329048855892746252171976963317496166410141009864396001978282409984"
    by simp_all
  have "big_modulus P \<longleftrightarrow> 2 ^ 62 \<le> uint (data3 (modulus P))"
    unfolding big_modulus_def by (simp add: word_le_def)
  also have "\<dots> \<longleftrightarrow> 2 ^ 254 \<le> ival (modulus P)"
    using uint_range64 [of "data0 (modulus P)"] uint_range64 [of "data1 (modulus P)"]
      uint_range64 [of "data2 (modulus P)"] uint_range64 [of "data3 (modulus P)"]
    unfolding ival_def p by (intro iffI) linarith+
  finally show ?thesis .
qed

lemma ival_not_modulus: "0 < ival (modulus P) \<Longrightarrow> ival (not_modulus P) = B256 - ival (modulus P)"
  using ival_range [of "modulus P"] unfolding not_modulus_def ival_neg by (simp add: zmod_zminus1_eq_if)

lemma ival_twice_modulus: "2 * ival (modulus P) < B256 \<Longrightarrow> ival (twice_modulus P) = 2 * ival (modulus P)"
  using ival_range [of "modulus P"] unfolding twice_modulus_def ival_add by simp

lemma ival_twice_not_modulus:
  "0 < ival (modulus P) \<Longrightarrow> 2 * ival (modulus P) < B256 \<Longrightarrow>
    ival (twice_not_modulus P) = B256 - 2 * ival (modulus P)"
  using ival_twice_modulus [of P] unfolding twice_not_modulus_def ival_neg by (simp add: zmod_zminus1_eq_if)

text \<open>Four limbs added with the carry out of the top limb.\<close>

definition f_add4 :: "uint256_t \<Rightarrow> uint256_t \<Rightarrow> uint256_t \<times> u64" where
  "f_add4 x y =
     (let r0 = data0 x + data0 y;
          (r1, c) = f_addc (data1 x) (data1 y) (b2w (r0 < data0 y));
          (r2, c) = f_addc (data2 x) (data2 y) c;
          (r3, c) = f_addc (data3 x) (data3 y) c
      in (Uint256 r0 r1 r2 r3, c))"

lemma f_add4_eq:
  assumes "f_add4 x y = (r, t)"
  shows "t = b2w (B256 \<le> ival x + ival y)" and "ival r + B256 * of_bool (B256 \<le> ival x + ival y) = ival x + ival y"
proof -
  have "f_add4_masked x y (0 - b2w True) = (r, t)"
    using assms by (simp add: f_add4_def f_add4_masked_def)
  then obtain q where q: "t = b2w q" "ival r + B256 * of_bool q = ival x + of_bool True * ival y"
    by (rule f_add4_masked_eq)
  have "q \<longleftrightarrow> B256 \<le> ival x + ival y"
    using q(2) ival_range [of r] by (cases q) auto
  with q show "t = b2w (B256 \<le> ival x + ival y)"
      "ival r + B256 * of_bool (B256 \<le> ival x + ival y) = ival x + ival y"
    by simp_all
qed

lemma carry_sym: "(a + b < a) = (a + b < (b::u64))"
  using carry_first [of a b] uint_add_carry [of a b] by (cases "a + b < a"; cases "a + b < b") simp_all

lemma f_reduce_eq:
  assumes "0 < ival (modulus P)"
  shows "ival (f_reduce P x) = (if ival (modulus P) \<le> ival x then ival x - ival (modulus P) else ival x)"
proof (cases "big_modulus P")
  case True
  then show ?thesis
    using ival_range [of x] assms by (simp add: f_reduce_def u256_cmp_iffs ival_sub)
next
  case False
  obtain r t where rt: "f_add4 x (not_modulus P) = (r, t)" by fastforce
  note eq = f_add4_eq [OF rt]
  have "f_reduce P x = (if B256 \<le> ival x + ival (not_modulus P) then r else x)"
    using rt False eq(1) unfolding f_add4_def f_reduce_def Let_def carry_sym [of "data0 x"]
    by (auto simp: select_limb_b2w simp del: diff_0 b2w_simps split: prod.splits)
  then show ?thesis
    using eq(2) unfolding ival_not_modulus [OF assms] by auto
qed


lemma f_add_coarse:
  assumes "\<not> big_modulus P" "0 < ival (modulus P)"
    "ival x < 2 * ival (modulus P)" "ival y < 2 * ival (modulus P)"
  shows "ival (f_add P x y) = (if 2 * ival (modulus P) \<le> ival x + ival y
     then ival x + ival y - 2 * ival (modulus P) else ival x + ival y)"
proof -
  define m where "m = ival (modulus P)"
  have m: "4 * m < B256"
    using assms(1) unfolding big_modulus_iff m_def by simp
  have n: "ival (twice_not_modulus P) = B256 - 2 * m"
    using ival_twice_not_modulus [of P] assms(2) m unfolding m_def by simp
  obtain r t where rt: "f_add4 x y = (r, t)" by fastforce
  note eq = f_add4_eq [OF rt]
  have "\<not> B256 \<le> ival x + ival y"
    using assms(3,4) m unfolding m_def [symmetric] by linarith
  with eq have r: "ival r = ival x + ival y" by simp
  obtain s u where su: "f_add4 r (twice_not_modulus P) = (s, u)" by fastforce
  note eq2 = f_add4_eq [OF su]
  have top: "data3 x + data3 y + c = fst (f_addc (data3 x) (data3 y) c)" for c
    unfolding f_addc_def Let_def fst_conv lo64_def w128_def
    by (rule word_uint_eqI) (simp add: unsigned_ucast_eq take_bit_eq_mod uint_up_ucast is_up uint_word_ariths mod_simps mod_mod_cancel)
  have "f_add P x y = (if B256 \<le> ival r + ival (twice_not_modulus P) then s else r)"
    using rt su assms(1) eq2(1) unfolding f_add4_def f_add_def Let_def carry_sym [of "data0 x"] top
    by (auto simp: select_limb_b2w simp del: diff_0 b2w_simps split: prod.splits)
  then show ?thesis
    using eq2(2) r unfolding n m_def [symmetric] by (auto split: if_splits)
qed

lemma f_add_big:
  assumes "2 ^ 255 \<le> ival (modulus P)"
  shows "\<exists>k. ival (f_add P x y) = ival x + ival y + k * ival (modulus P)"
proof -
  define m where "m = ival (modulus P)"
  have m: "B256 \<le> 2 * m" and big: "big_modulus P"
    using assms unfolding m_def big_modulus_iff by simp_all
  obtain r t where rt: "f_add4 x y = (r, t)" by fastforce
  note eq = f_add4_eq [OF rt]
  define q where "q \<longleftrightarrow> ival r < m"
  obtain s b where sb: "f_sub4 (data0 r) (data1 r) (data2 r) (data3 r) (modulus P) = (s, b)" by fastforce
  note eq2 = f_sub4_eq [OF sb, folded m_def]
  obtain u d where ud: "f_sub4 (data0 s) (data1 s) (data2 s) (data3 s) (modulus P) = (u, d)" by fastforce
  note eq3 = f_sub4_eq [OF ud, folded m_def]
  have res: "f_add P x y = (if B256 \<le> ival x + ival y then if ival r < m then s else u else r)"
    using rt sb ud eq(1) eq2(1) big unfolding f_add4_def f_add_def Let_def carry_sym [of "data0 x"]
    by (auto split: prod.splits)
  consider "ival x + ival y < B256" | "B256 \<le> ival x + ival y" "ival r < m" | "B256 \<le> ival x + ival y" "m \<le> ival r"
    by linarith
  then show ?thesis
  proof cases
    case 1
    then show ?thesis
      using eq(2) unfolding res by (intro exI [of _ 0]) simp
  next
    case 2
    then show ?thesis
      using eq(2) eq2(2) unfolding res m_def by (intro exI [of _ "-1"]) simp
  next
    case 3
    then have "ival s < m"
      using eq2(2) m ival_range [of r] by auto
    with 3 show ?thesis
      using eq(2) eq2(2) eq3(2) unfolding res m_def by (intro exI [of _ "-2"]) simp
  qed
qed

lemma f_subtract_coarse_small:
  assumes "\<not> big_modulus P" "0 < ival (modulus P)" "ival y \<le> 2 * ival (modulus P)"
  shows "ival (f_subtract_coarse P x y) = (if ival x < ival y
     then ival x - ival y + 2 * ival (modulus P) else ival x - ival y)"
proof -
  define m where "m = ival (modulus P)"
  have m: "4 * m < B256"
    using assms(1) unfolding big_modulus_iff m_def by simp
  have tm: "ival (twice_modulus P) = 2 * m"
    using ival_twice_modulus [of P] assms(2) m unfolding m_def by simp
  obtain r b where rb: "f_sub4 (data0 x) (data1 x) (data2 x) (data3 x) y = (r, b)" by fastforce
  note eq = f_sub4_eq [OF rb]
  have "f_subtract_coarse P x y = f_add4_masked_wrap r (twice_modulus P) (0 - b2w (ival x < ival y))"
    using assms(1) rb eq(1) by (simp add: f_subtract_coarse_def)
  then have "ival (f_subtract_coarse P x y) = (ival r + of_bool (ival x < ival y) * (2 * m)) mod B256"
    by (simp only: f_add4_masked_wrap_eq tm)
  moreover have "(ival x - ival y + B256 + 2 * m) mod B256 = ival x - ival y + 2 * m" if "ival x < ival y"
  proof -
    have "(ival x - ival y + 2 * m + B256) mod B256 = (ival x - ival y + 2 * m) mod B256"
      by (rule mod_add_self2)
    also have "\<dots> = ival x - ival y + 2 * m"
      using that assms(3) m ival_range [of x] unfolding m_def by (intro mod_pos_pos_trivial) linarith+
    finally show ?thesis
      by (simp only: ac_simps)
  qed
  ultimately show ?thesis
    using eq(2) m ival_range [of x] ival_range [of y] unfolding m_def [symmetric]
    by (cases "ival x < ival y") simp_all
qed

lemma f_subtract_eq:
  assumes "2 ^ 255 \<le> ival (modulus P)"
  shows "\<exists>k. ival (f_subtract P x y) = ival x - ival y + k * ival (modulus P)"
proof -
  define m where "m = ival (modulus P)"
  have m: "2 * m \<ge> B256"
    using assms unfolding m_def by simp
  define q where "q = (ival x < ival y)"
  obtain r b where rb: "f_sub4 (data0 x) (data1 x) (data2 x) (data3 x) y = (r, b)" by fastforce
  note eq = f_sub4_eq [OF rb, folded q_def]
  obtain s c where sc: "f_add4_masked r (modulus P) (0 - b2w q) = (s, c)" by fastforce
  obtain q1 where q1: "c = b2w q1" "ival s + B256 * of_bool q1 = ival r + of_bool q * m"
    using f_add4_masked_eq [OF sc] unfolding m_def by blast
  obtain u d where ud: "f_add4_masked s (modulus P) (0 - b2w q) = (u, d)" by fastforce
  obtain q2 where q2: "d = b2w q2" "ival u + B256 * of_bool q2 = ival s + of_bool q * m"
    using f_add4_masked_eq [OF ud] unfolding m_def by blast
  have res: "f_subtract P x y = (if q1 then s else u)"
    using rb sc ud unfolding f_subtract_def eq(1) q1(1) by simp
  show ?thesis
  proof (cases q)
    case False
    then have "q1 = False" "q2 = False"
      using q1(2) q2(2) eq(2) ival_range [of s] ival_range [of u] ival_range [of r] ival_range [of x]
      by (auto split: if_splits)
    with False res show ?thesis
      using q1(2) q2(2) eq(2) by (intro exI [of _ 0]) simp
  next
    case True
    show ?thesis
    proof (cases q1)
      case q1': True
      with True res show ?thesis
        using q1(2) eq(2) unfolding m_def by (intro exI [of _ 1]) simp
    next
      case q1': False
      have "q2"
        using q2(2) q1(2) eq(2) m ival_range [of u] ival_range [of x] ival_range [of y] True q1'
        by (cases q2) auto
      with True q1' res show ?thesis
        using q1(2) q2(2) eq(2) unfolding m_def by (intro exI [of _ 2]) simp
    qed
  qed
qed


section \<open>Montgomery reduction\<close>

text \<open>The multiple k of the modulus clears the low limb exactly.\<close>

lemma redc_low:
  assumes "params_ok P"
  shows "B64 * uint (f_mac_discard_lo t (t * r_inv P) (data0 (modulus P))) =
    uint t + uint (t * r_inv P) * uint (data0 (modulus P))"
proof -
  define m0 where "m0 = uint (data0 (modulus P))"
  define k where "k = t * r_inv P"
  obtain r where r: "uint (r::u64) + B64 * uint (f_mac_discard_lo t k (data0 (modulus P))) = uint t + uint k * m0"
    using f_mac_discard_lo_eq [of t k "data0 (modulus P)"] unfolding m0_def by blast
  have "(uint (r_inv P) * m0 + 1) mod B64 = 0"
    using assms unfolding params_ok_def m0_def by simp
  then have "uint t * (uint (r_inv P) * m0 + 1) mod B64 = 0"
    by auto
  moreover have "(uint t + uint k * m0) mod B64 = uint t * (uint (r_inv P) * m0 + 1) mod B64"
  proof -
    have "(uint t + uint k * m0) mod B64 = (uint t + uint t * uint (r_inv P) * m0) mod B64"
      unfolding k_def uint_mul64 by (rule mod_add_cong [OF refl mod_mult_left_eq])
    then show ?thesis
      by (simp add: algebra_simps)
  qed
  ultimately have "(uint r + B64 * uint (f_mac_discard_lo t k (data0 (modulus P)))) mod B64 = 0"
    unfolding r by simp
  then have "uint r = 0"
    using uint_range64 [of r] by simp
  with r show ?thesis
    unfolding m0_def k_def by simp
qed

text \<open>
  The last limb of a round is the sum of two carries; it does not wrap around because the
  whole round fits four limbs.
\<close>

lemma last_limb:
  fixes c a :: u64
  assumes "s0 + B64 * (s1 + B64 * (s2 + B64 * (uint c + uint a))) < B256"
    "0 \<le> s0" "0 \<le> s1" "0 \<le> s2"
  shows "uint (c + a) = uint c + uint a"
proof -
  have "uint c + uint a < B64"
    using assms unfolding distrib_left by linarith
  then show ?thesis
    by (simp add: uint_plus_if')
qed

abbreviation ival4 :: "u64 \<times> u64 \<times> u64 \<times> u64 \<Rightarrow> int" where
  "ival4 t \<equiv> (case t of (t0, t1, t2, t3) \<Rightarrow> ival (Uint256 t0 t1 t2 t3))"

lemma scale_ival: "w * ival y = w * uint (data0 y) + B64 * (w * uint (data1 y)) +
    B128 * (w * uint (data2 y)) + 6277101735386680763835789423207666416102355444464034512896 * (w * uint (data3 y))"
  unfolding ival_def distrib_left by simp

lemma mont_round_eq:
  assumes P: "params_ok P" and fit: "ival4 t < ival y + ival (modulus P)"
    "ival y + ival (modulus P) \<le> B256"
  shows "\<exists>k::u64. B64 * ival4 (mont_round P y x t) = ival4 t + uint x * ival y + uint k * ival (modulus P)"
    and "ival4 (mont_round P y x t) < ival y + ival (modulus P)"
proof -
  obtain t0 t1 t2 t3 where t: "t = (t0, t1, t2, t3)" by (cases t)
  define m where "m = modulus P"
  obtain u0 a0 where e0: "f_mac_mini t0 x (data0 y) = (u0, a0)" by fastforce
  define k where "k = u0 * r_inv P"
  define c0 where "c0 = f_mac_discard_lo u0 k (data0 m)"
  obtain u1 a1 where e1: "f_mac t1 x (data1 y) a0 = (u1, a1)" by fastforce
  obtain s0 c1 where d1: "f_mac u1 k (data1 m) c0 = (s0, c1)" by fastforce
  obtain u2 a2 where e2: "f_mac t2 x (data2 y) a1 = (u2, a2)" by fastforce
  obtain s1 c2 where d2: "f_mac u2 k (data2 m) c1 = (s1, c2)" by fastforce
  obtain u3 a3 where e3: "f_mac t3 x (data3 y) a2 = (u3, a3)" by fastforce
  obtain s2 c3 where d3: "f_mac u3 k (data3 m) c2 = (s2, c3)" by fastforce
  have res: "mont_round P y x t = (s0, s1, s2, c3 + a3)"
    using e0 e1 d1 e2 d2 e3 d3 unfolding mont_round_def t m_def [symmetric] c0_def k_def Let_def by simp
  note eqs = f_mac_mini_eq [OF e0] f_mac_eq [OF e1] f_mac_eq [OF d1] f_mac_eq [OF e2] f_mac_eq [OF d2]
    f_mac_eq [OF e3] f_mac_eq [OF d3] redc_low [OF P, of u0, folded m_def k_def, folded c0_def]
  define T where "T = ival (Uint256 t0 t1 t2 t3)"
  define S where "S = uint s0 + B64 * (uint s1 + B64 * (uint s2 + B64 * (uint c3 + uint a3)))"
  have S: "B64 * S = T + uint x * ival y + uint k * ival m"
    using eqs unfolding scale_ival S_def T_def ival_horner [of "Uint256 t0 t1 t2 t3"] uint256_t.sel
      distrib_left by linarith
  have "uint x * ival y \<le> 18446744073709551615 * ival y"
    using uint_lt64 [of x] ival_range [of y] by (intro mult_right_mono) linarith+
  moreover have "uint k * ival m \<le> 18446744073709551615 * ival m"
    using uint_lt64 [of k] ival_range [of m] by (intro mult_right_mono) linarith+
  ultimately have bound: "S < ival y + ival m"
    using S fit(1) unfolding t T_def m_def by simp
  then have "uint (c3 + a3) = uint c3 + uint a3"
    using fit(2) unfolding S_def m_def by (intro last_limb [of "uint s0" "uint s1" "uint s2"]) (linarith, simp_all)
  then have "ival4 (mont_round P y x t) = S"
    unfolding res S_def by (simp add: ival_def)
  with S bound show "\<exists>k::u64. B64 * ival4 (mont_round P y x t) = ival4 t + uint x * ival y + uint k * ival (modulus P)"
    "ival4 (mont_round P y x t) < ival y + ival (modulus P)"
    unfolding t T_def m_def by auto
qed


lemma mont_first_round_eq:
  assumes P: "params_ok P" and fit: "ival y + ival (modulus P) \<le> B256"
  shows "\<exists>k::u64. B64 * ival4 (mont_first_round P y x) = uint x * ival y + uint k * ival (modulus P)"
    and "ival4 (mont_first_round P y x) < ival y + ival (modulus P)"
proof -
  define m where "m = modulus P"
  obtain u0 c0 where e0: "f_mul_wide x (data0 y) = (u0, c0)" by fastforce
  define k where "k = u0 * r_inv P"
  define a0 where "a0 = f_mac_discard_lo u0 k (data0 m)"
  obtain u1 a1 where e1: "f_mac_mini a0 x (data1 y) = (u1, a1)" by fastforce
  obtain s0 c1 where d1: "f_mac u1 k (data1 m) c0 = (s0, c1)" by fastforce
  obtain u2 a2 where e2: "f_mac_mini a1 x (data2 y) = (u2, a2)" by fastforce
  obtain s1 c2 where d2: "f_mac u2 k (data2 m) c1 = (s1, c2)" by fastforce
  obtain u3 a3 where e3: "f_mac_mini a2 x (data3 y) = (u3, a3)" by fastforce
  obtain s2 c3 where d3: "f_mac u3 k (data3 m) c2 = (s2, c3)" by fastforce
  have res: "mont_first_round P y x = (s0, s1, s2, c3 + a3)"
    using e0 e1 d1 e2 d2 e3 d3 unfolding mont_first_round_def m_def [symmetric] a0_def k_def Let_def by simp
  note eqs = f_mul_wide_eq [OF e0] f_mac_mini_eq [OF e1] f_mac_eq [OF d1] f_mac_mini_eq [OF e2] f_mac_eq [OF d2]
    f_mac_mini_eq [OF e3] f_mac_eq [OF d3] redc_low [OF P, of u0, folded m_def k_def, folded a0_def]
  define S where "S = uint s0 + B64 * (uint s1 + B64 * (uint s2 + B64 * (uint c3 + uint a3)))"
  have S: "B64 * S = uint x * ival y + uint k * ival m"
    using eqs unfolding scale_ival S_def distrib_left by linarith
  have "uint x * ival y \<le> 18446744073709551615 * ival y"
    using uint_lt64 [of x] ival_range [of y] by (intro mult_right_mono) linarith+
  moreover have "uint k * ival m \<le> 18446744073709551615 * ival m"
    using uint_lt64 [of k] ival_range [of m] by (intro mult_right_mono) linarith+
  moreover have "0 < ival m"
    using P unfolding params_ok_def m_def by simp
  ultimately have bound: "S < ival y + ival m"
    using S ival_range [of y] by linarith
  then have "uint (c3 + a3) = uint c3 + uint a3"
    using fit unfolding S_def m_def by (intro last_limb [of "uint s0" "uint s1" "uint s2"]) (linarith, simp_all)
  then have "ival4 (mont_first_round P y x) = S"
    unfolding res S_def by (simp add: ival_def)
  with S bound show "\<exists>k::u64. B64 * ival4 (mont_first_round P y x) = uint x * ival y + uint k * ival (modulus P)"
    "ival4 (mont_first_round P y x) < ival y + ival (modulus P)"
    unfolding m_def by auto
qed

text \<open>Four digits of multiples of the modulus make one multiple below the radix.\<close>

lemma four_rounds:
  fixes k0 k1 k2 k3 :: u64
  assumes "B64 * t1 = uint (data0 x) * y + uint k0 * m" "B64 * t2 = t1 + uint (data1 x) * y + uint k1 * m"
    "B64 * t3 = t2 + uint (data2 x) * y + uint k2 * m" "B64 * t4 = t3 + uint (data3 x) * y + uint k3 * m"
  shows "B256 * t4 = ival x * y + ival (Uint256 k0 k1 k2 k3) * m"
proof -
  have "ival x * y = uint (data0 x) * y + B64 * (uint (data1 x) * y) + B128 * (uint (data2 x) * y) +
      6277101735386680763835789423207666416102355444464034512896 * (uint (data3 x) * y)"
    and "ival (Uint256 k0 k1 k2 k3) * m = uint k0 * m + B64 * (uint k1 * m) + B128 * (uint k2 * m) +
      6277101735386680763835789423207666416102355444464034512896 * (uint k3 * m)"
    unfolding ival_def distrib_right by simp_all
  with assms show ?thesis by linarith
qed

lemma montgomery_mul_eq:
  assumes P: "params_ok P" and small: "\<not> big_modulus P" and y: "ival y < 2 * ival (modulus P)"
  shows "\<exists>K. B256 * ival (f_montgomery_mul P x y) = ival x * ival y + ival K * ival (modulus P)"
proof -
  have fit: "ival y + ival (modulus P) \<le> B256"
    using small y unfolding big_modulus_iff by simp
  define t1 where "t1 = mont_first_round P y (data0 x)"
  define t2 where "t2 = mont_round P y (data1 x) t1"
  define t3 where "t3 = mont_round P y (data2 x) t2"
  define t4 where "t4 = mont_round P y (data3 x) t3"
  note b1 = mont_first_round_eq [OF P fit, of "data0 x", folded t1_def]
  note b2 = mont_round_eq [OF P b1(2) fit, of "data1 x", folded t2_def]
  note b3 = mont_round_eq [OF P b2(2) fit, of "data2 x", folded t3_def]
  note b4 = mont_round_eq [OF P b3(2) fit, of "data3 x", folded t4_def]
  have res: "ival (f_montgomery_mul P x y) = ival4 t4"
    using small unfolding f_montgomery_mul_def t1_def t2_def t3_def t4_def Let_def
    by (simp split: prod.splits)
  from b1(1) b2(1) b3(1) b4(1) obtain k0 k1 k2 k3 :: u64 where
    "B64 * ival4 t1 = uint (data0 x) * ival y + uint k0 * ival (modulus P)"
    "B64 * ival4 t2 = ival4 t1 + uint (data1 x) * ival y + uint k1 * ival (modulus P)"
    "B64 * ival4 t3 = ival4 t2 + uint (data2 x) * ival y + uint k2 * ival (modulus P)"
    "B64 * ival4 t4 = ival4 t3 + uint (data3 x) * ival y + uint k3 * ival (modulus P)" by blast
  from four_rounds [OF this] show ?thesis
    unfolding res by blast
qed

text \<open>The size of a result of Montgomery reduction.\<close>

lemma redc_bound:
  assumes "B256 * c = xy + ival K * m" "xy < B256 * m" "0 < m"
  shows "c < 2 * m"
proof -
  have "(ival K + 1) * m \<le> B256 * m"
    using ival_range [of K] assms(3) by (intro mult_right_mono) auto
  then show ?thesis
    using assms unfolding distrib_right by linarith
qed


section \<open>Montgomery squaring\<close>

lemma double_carry: "uint (r + r :: u64) + B64 * of_bool (r + r < r) = 2 * uint r"
  using uint_add_carry [of r r] by simp

lemma f_square_accumulate_eq:
  assumes "f_square_accumulate a b c cl ch = (out, lo, hi)" "uint ch \<le> 4"
  shows "uint out + B64 * uint lo + B128 * uint hi = uint a + 2 * (uint b * uint c) + uint cl + B64 * uint ch"
    and "uint hi \<le> 2"
proof -
  define product where "product = w128 b * w128 c"
  define r0 where "r0 = lo64 product"
  define r1 where "r1 = hi64 product"
  have prod: "uint r0 + B64 * uint r1 = uint b * uint c"
    using lo_hi64 [of product] unfolding r0_def r1_def product_def uint_w128_mul .
  define o1 where "o1 = r0 + r0"
  define p1 where "p1 = (o1 < r0)"
  define o2 where "o2 = o1 + a"
  define p2 where "p2 = (o2 < a)"
  define o3 where "o3 = o2 + cl"
  define p3 where "p3 = (o3 < cl)"
  define l1 where "l1 = (b2w p1 + b2w p2 + b2w p3 :: u64)"
  define l2 where "l2 = l1 + r1"
  define q1 where "q1 = (l2 < r1)"
  define l3 where "l3 = l2 + r1"
  define q2 where "q2 = (l3 < r1)"
  define l4 where "l4 = l3 + ch"
  define q3 where "q3 = (l4 < ch)"
  have res: "out = o3" "lo = l4" "hi = b2w q1 + b2w q2 + b2w q3"
    using assms(1) unfolding f_square_accumulate_def product_def [symmetric] r0_def [symmetric]
      r1_def [symmetric] o1_def [symmetric] o2_def [symmetric] o3_def [symmetric] p1_def [symmetric]
      p2_def [symmetric] p3_def [symmetric] l1_def [symmetric] l2_def [symmetric] l3_def [symmetric]
      l4_def [symmetric] q1_def [symmetric] q2_def [symmetric] q3_def [symmetric] Let_def by simp_all
  have e1: "uint o1 + B64 * of_bool p1 = 2 * uint r0"
    unfolding o1_def p1_def by (rule double_carry)
  have e2: "uint o2 + B64 * of_bool p2 = uint o1 + uint a"
    unfolding o2_def p2_def by (rule carry_first)
  have e3: "uint o3 + B64 * of_bool p3 = uint o2 + uint cl"
    unfolding o3_def p3_def by (rule carry_first)
  have l1: "uint l1 = of_bool p1 + of_bool p2 + of_bool p3"
    unfolding l1_def by (cases p1; cases p2; cases p3) simp_all
  have f1: "uint l2 + B64 * of_bool q1 = uint l1 + uint r1"
    unfolding l2_def q1_def by (rule carry_first)
  have f2: "uint l3 + B64 * of_bool q2 = uint l2 + uint r1"
    unfolding l3_def q2_def by (rule carry_first)
  have f3: "uint l4 + B64 * of_bool q3 = uint l3 + uint ch"
    unfolding l4_def q3_def by (rule carry_first)
  have hi: "uint hi = of_bool q1 + of_bool q2 + of_bool q3"
    unfolding res by (cases q1; cases q2; cases q3) simp_all
  show "uint out + B64 * uint lo + B128 * uint hi = uint a + 2 * (uint b * uint c) + uint cl + B64 * uint ch"
    using prod e1 e2 e3 l1 f1 f2 f3 hi unfolding res(1,2) by linarith
  have "uint r1 \<le> B64 - 2"
    using prod limb_prod_le [of b c] uint_range64 [of r0] uint_range64 [of r1] by linarith
  have "of_bool q1 + of_bool q2 + of_bool q3 < (3::int)"
    using f1 f2 f3 l1 assms(2) uint_range64 [of l4] uint_lt64 [of r1]
      of_bool_bounds [of p1] of_bool_bounds [of p2] of_bool_bounds [of p3] by linarith
  then show "uint hi \<le> 2"
    unfolding hi by simp
qed

lemma mont_reduce_step_eq:
  assumes P: "params_ok P"
    and fit: "ival (Uint256 t0 t1 t2 t3) + B256 * uint rc + 18446744073709551615 * ival (modulus P) < B64 * B256"
  shows "\<exists>k::u64. B64 * ival4 (mont_reduce_step P (t0, t1, t2, t3) rc) =
    ival (Uint256 t0 t1 t2 t3) + B256 * uint rc + uint k * ival (modulus P)"
proof -
  define m where "m = modulus P"
  define k where "k = t0 * r_inv P"
  define c0 where "c0 = f_mac_discard_lo t0 k (data0 m)"
  obtain s0 c1 where d1: "f_mac t1 k (data1 m) c0 = (s0, c1)" by fastforce
  obtain s1 c2 where d2: "f_mac t2 k (data2 m) c1 = (s1, c2)" by fastforce
  obtain s2 c3 where d3: "f_mac t3 k (data3 m) c2 = (s2, c3)" by fastforce
  have res: "mont_reduce_step P (t0, t1, t2, t3) rc = (s0, s1, s2, c3 + rc)"
    using d1 d2 d3 unfolding mont_reduce_step_def m_def [symmetric] c0_def k_def Let_def by simp
  note eqs = f_mac_eq [OF d1] f_mac_eq [OF d2] f_mac_eq [OF d3]
    redc_low [OF P, of t0, folded m_def k_def, folded c0_def]
  define S where "S = uint s0 + B64 * (uint s1 + B64 * (uint s2 + B64 * (uint c3 + uint rc)))"
  have S: "B64 * S = ival (Uint256 t0 t1 t2 t3) + B256 * uint rc + uint k * ival m"
    using eqs unfolding scale_ival S_def distrib_left ival_def [of "Uint256 t0 t1 t2 t3"] uint256_t.sel by linarith
  have "uint k * ival m \<le> 18446744073709551615 * ival m"
    using uint_lt64 [of k] ival_range [of m] by (intro mult_right_mono) linarith+
  then have "S < B256"
    using S fit unfolding m_def by linarith
  then have "uint (c3 + rc) = uint c3 + uint rc"
    unfolding S_def by (intro last_limb [of "uint s0" "uint s1" "uint s2"]) simp_all
  then have "ival4 (mont_reduce_step P (t0, t1, t2, t3) rc) = S"
    unfolding res S_def by (simp add: ival_def)
  with S show ?thesis
    unfolding m_def by auto
qed


text \<open>
  One block of the squaring: the digit a times the part Z of the number, at most twice the
  operand, is added to what is left, then one limb is reduced away. The high carry is zero.
\<close>

lemma square_block:
  assumes P: "params_ok P" and X: "X + ival (modulus P) \<le> B256"
    and sum: "ival (Uint256 t0 t1 t2 t3) + B256 * uint lo + B256 * B64 * uint (hi::u64) = S + uint (a::u64) * Z"
    and Z: "0 \<le> Z" "Z \<le> X" and S: "S < X + ival (modulus P)"
  shows "hi = 0" and "ival4 (mont_reduce_step P (t0, t1, t2, t3) lo) < X + ival (modulus P)"
    and "\<exists>k::u64. B64 * ival4 (mont_reduce_step P (t0, t1, t2, t3) lo) = S + uint a * Z + uint k * ival (modulus P)"
proof -
  define m where "m = ival (modulus P)"
  have m: "0 < m"
    using P unfolding params_ok_def m_def by simp
  have "uint a * Z \<le> 18446744073709551615 * X"
    using uint_lt64 [of a] Z by (intro mult_mono) linarith+
  then have total: "S + uint a * Z + 18446744073709551615 * m < B64 * (X + m)"
    using S unfolding m_def distrib_left by linarith
  have "B64 * (X + m) \<le> B64 * B256"
    using X unfolding m_def by simp
  with total have bound: "S + uint a * Z + 18446744073709551615 * m < B64 * B256"
    by linarith
  have "uint hi < 1"
    using sum bound m ival_range [of "Uint256 t0 t1 t2 t3"] uint_range64 [of lo] by linarith
  then have "uint hi = 0"
    using uint_range64 [of hi] by linarith
  then show hi: "hi = 0"
    by (simp only: unsigned_eq_0_iff)
  have sum0: "ival (Uint256 t0 t1 t2 t3) + B256 * uint lo = S + uint a * Z"
    using sum unfolding hi by simp
  obtain k :: u64 where k: "B64 * ival4 (mont_reduce_step P (t0, t1, t2, t3) lo) = S + uint a * Z + uint k * m"
    using mont_reduce_step_eq [OF P, of t0 t1 t2 t3 lo] bound unfolding sum0 m_def by blast
  then show "\<exists>k::u64. B64 * ival4 (mont_reduce_step P (t0, t1, t2, t3) lo) = S + uint a * Z + uint k * ival (modulus P)"
    unfolding m_def by blast
  have "uint k * m \<le> 18446744073709551615 * m"
    using uint_lt64 [of k] m by (intro mult_right_mono) linarith+
  then show "ival4 (mont_reduce_step P (t0, t1, t2, t3) lo) < X + ival (modulus P)"
    using k total unfolding m_def [symmetric] distrib_left by linarith
qed

lemma montgomery_square_eq:
  assumes P: "params_ok P" and small: "\<not> big_modulus P"
    and fit: "2 * ival x + ival (modulus P) \<le> B256"
  shows "\<exists>K. B256 * ival (f_montgomery_square P x) = ival x * ival x + ival K * ival (modulus P)"
proof -
  define a0 a1 a2 a3 where a: "a0 = data0 x" "a1 = data1 x" "a2 = data2 x" "a3 = data3 x"
  have m: "0 < ival (modulus P)"
    using P unfolding params_ok_def by simp
  have x: "ival x = uint a0 + B64 * uint a1 + B128 * uint a2 + 6277101735386680763835789423207666416102355444464034512896 * uint a3"
    unfolding ival_def a ..
  obtain t0 l0 where e0: "f_mul_wide a0 a0 = (t0, l0)" by fastforce
  obtain t1 l1 h1 where e1: "f_square_accumulate 0 a1 a0 l0 0 = (t1, l1, h1)" by (metis prod_cases3)
  obtain t2 l2 h2 where e2: "f_square_accumulate 0 a2 a0 l1 h1 = (t2, l2, h2)" by (metis prod_cases3)
  obtain t3 l3 h3 where e3: "f_square_accumulate 0 a3 a0 l2 h2 = (t3, l3, h3)" by (metis prod_cases3)
  obtain s0 s1 s2 s3 where s: "mont_reduce_step P (t0, t1, t2, t3) l3 = (s0, s1, s2, s3)" by (metis prod_cases4)
  obtain u1 m1 where f1: "f_mac_mini s1 a1 a1 = (u1, m1)" by fastforce
  obtain u2 m2 g2 where f2: "f_square_accumulate s2 a2 a1 m1 0 = (u2, m2, g2)" by (metis prod_cases3)
  obtain u3 m3 g3 where f3: "f_square_accumulate s3 a3 a1 m2 g2 = (u3, m3, g3)" by (metis prod_cases3)
  obtain v0 v1 v2 v3 where v: "mont_reduce_step P (s0, u1, u2, u3) m3 = (v0, v1, v2, v3)" by (metis prod_cases4)
  obtain w2 n2 where d2: "f_mac_mini v2 a2 a2 = (w2, n2)" by fastforce
  obtain w3 n3 i3 where d3: "f_square_accumulate v3 a3 a2 n2 0 = (w3, n3, i3)" by (metis prod_cases3)
  obtain y0 y1 y2 y3 where y: "mont_reduce_step P (v0, v1, w2, w3) n3 = (y0, y1, y2, y3)" by (metis prod_cases4)
  obtain z3 o3 where c3: "f_mac_mini y3 a3 a3 = (z3, o3)" by fastforce
  have res: "ival (f_montgomery_square P x) = ival4 (mont_reduce_step P (y0, y1, y2, z3) o3)"
    using small e0 e1 e2 e3 s f1 f2 f3 v d2 d3 y c3 unfolding f_montgomery_square_def a [symmetric] Let_def
    by (simp split: prod.splits)
  note acc1 = f_square_accumulate_eq [OF e1, simplified]
  note acc2 = f_square_accumulate_eq [OF e2 order_trans [OF acc1(2)], simplified]
  note acc3 = f_square_accumulate_eq [OF e3 order_trans [OF acc2(2)], simplified]
  note acc5 = f_square_accumulate_eq [OF f2, simplified]
  note acc6 = f_square_accumulate_eq [OF f3 order_trans [OF acc5(2)], simplified]
  note acc7 = f_square_accumulate_eq [OF d3, simplified]
  note block = square_block [OF P fit]
  define W :: int where "W = 6277101735386680763835789423207666416102355444464034512896"
  define Z0 where "Z0 = uint a0 + 2 * (B64 * uint a1 + B128 * uint a2 + W * uint a3)"
  define Z1 where "Z1 = B64 * uint a1 + 2 * (B128 * uint a2 + W * uint a3)"
  define Z2 where "Z2 = B128 * uint a2 + 2 * (W * uint a3)"
  define Z3 where "Z3 = W * uint a3"
  have Z: "0 \<le> Z0" "Z0 \<le> 2 * ival x" "0 \<le> Z1" "Z1 \<le> 2 * ival x" "0 \<le> Z2" "Z2 \<le> 2 * ival x"
      "0 \<le> Z3" "Z3 \<le> 2 * ival x"
    unfolding x Z0_def Z1_def Z2_def Z3_def W_def by simp_all
  have prods: "uint a0 * Z0 = uint a0 * uint a0 + 2 * (B64 * (uint a1 * uint a0) + B128 * (uint a2 * uint a0) + W * (uint a3 * uint a0))"
      "uint a1 * Z1 = B64 * (uint a1 * uint a1) + 2 * (B128 * (uint a2 * uint a1) + W * (uint a3 * uint a1))"
      "uint a2 * Z2 = B128 * (uint a2 * uint a2) + 2 * (W * (uint a3 * uint a2))"
      "uint a3 * Z3 = W * (uint a3 * uint a3)"
    unfolding Z0_def Z1_def Z2_def Z3_def distrib_left by (simp_all add: mult.commute mult.left_commute)
  have "ival (Uint256 t0 t1 t2 t3) + B256 * uint l3 + B256 * B64 * uint h3 = 0 + uint a0 * Z0"
    using f_mul_wide_eq [OF e0] acc1(1) acc2(1) acc3(1) unfolding prods W_def ival_def uint256_t.sel distrib_left by linarith
  note b0 = block [OF this Z(1,2), unfolded s prod.case]
  have S0: "ival (Uint256 s0 s1 s2 s3) < 2 * ival x + ival (modulus P)"
    using b0(2) m ival_range [of x] by simp
  have "ival (Uint256 s0 u1 u2 u3) + B256 * uint m3 + B256 * B64 * uint g3 = ival (Uint256 s0 s1 s2 s3) + uint a1 * Z1"
    using f_mac_mini_eq [OF f1] acc5(1) acc6(1) unfolding prods W_def ival_def uint256_t.sel distrib_left by linarith
  note b1 = block [OF this Z(3,4) S0, unfolded v prod.case]
  have "ival (Uint256 v0 v1 w2 w3) + B256 * uint n3 + B256 * B64 * uint i3 = ival (Uint256 v0 v1 v2 v3) + uint a2 * Z2"
    using f_mac_mini_eq [OF d2] acc7(1) unfolding prods W_def ival_def uint256_t.sel distrib_left by linarith
  note b2 = block [OF this Z(5,6) b1(2), unfolded y prod.case]
  have "ival (Uint256 y0 y1 y2 z3) + B256 * uint o3 + B256 * B64 * uint (0::u64) = ival (Uint256 y0 y1 y2 y3) + uint a3 * Z3"
    using f_mac_mini_eq [OF c3] unfolding prods W_def ival_def uint256_t.sel by (simp add: distrib_left)
  note b3 = block [OF this Z(7,8) b2(2)]
  obtain k0 k1 k2 k3 :: u64 where k:
    "B64 * ival (Uint256 s0 s1 s2 s3) = 0 + uint a0 * Z0 + uint k0 * ival (modulus P)"
    "B64 * ival (Uint256 v0 v1 v2 v3) = ival (Uint256 s0 s1 s2 s3) + uint a1 * Z1 + uint k1 * ival (modulus P)"
    "B64 * ival (Uint256 y0 y1 y2 y3) = ival (Uint256 v0 v1 v2 v3) + uint a2 * Z2 + uint k2 * ival (modulus P)"
    "B64 * ival4 (mont_reduce_step P (y0, y1, y2, z3) o3) = ival (Uint256 y0 y1 y2 y3) + uint a3 * Z3 + uint k3 * ival (modulus P)"
    using b0(3) b1(3) b2(3) b3(3) m ival_range [of x] by auto
  have "ival x * ival x = uint a0 * Z0 + B64 * (uint a1 * Z1) + B128 * (uint a2 * Z2) + W * (uint a3 * Z3)"
    unfolding prods unfolding x W_def by (simp add: algebra_simps)
  moreover have "ival (Uint256 k0 k1 k2 k3) * ival (modulus P) = uint k0 * ival (modulus P) + B64 * (uint k1 * ival (modulus P)) +
      B128 * (uint k2 * ival (modulus P)) + W * (uint k3 * ival (modulus P))"
    unfolding ival_def [of "Uint256 k0 k1 k2 k3"] W_def uint256_t.sel distrib_right by simp
  ultimately have "B256 * ival (f_montgomery_square P x) = ival x * ival x + ival (Uint256 k0 k1 k2 k3) * ival (modulus P)"
    using k unfolding res W_def by linarith
  then show ?thesis by blast
qed


section \<open>The full product and the path for big moduli\<close>

lemma f_mul_512_exact:
  assumes "f_mul_512 x y = (lo, hi)"
  shows "ival lo + B256 * ival hi = ival x * ival y"
proof -
  obtain r0 c0 where e0: "f_mul_wide (data0 x) (data0 y) = (r0, c0)" by fastforce
  obtain r1 c1 where e1: "f_mac_mini c0 (data0 x) (data1 y) = (r1, c1)" by fastforce
  obtain r2 c2 where e2: "f_mac_mini c1 (data0 x) (data2 y) = (r2, c2)" by fastforce
  obtain r3 z3 where e3: "f_mac_mini c2 (data0 x) (data3 y) = (r3, z3)" by fastforce
  obtain s1 d1 where f1: "f_mac_mini r1 (data1 x) (data0 y) = (s1, d1)" by fastforce
  obtain s2 d2 where f2: "f_mac r2 (data1 x) (data1 y) d1 = (s2, d2)" by fastforce
  obtain s3 d3 where f3: "f_mac r3 (data1 x) (data2 y) d2 = (s3, d3)" by fastforce
  obtain s4 z4 where f4: "f_mac z3 (data1 x) (data3 y) d3 = (s4, z4)" by fastforce
  obtain t2 g2 where g2: "f_mac_mini s2 (data2 x) (data0 y) = (t2, g2)" by fastforce
  obtain t3 g3 where g3: "f_mac s3 (data2 x) (data1 y) g2 = (t3, g3)" by fastforce
  obtain t4 g4 where g4: "f_mac s4 (data2 x) (data2 y) g3 = (t4, g4)" by fastforce
  obtain t5 z5 where g5: "f_mac z4 (data2 x) (data3 y) g4 = (t5, z5)" by fastforce
  obtain u3 h3 where h3: "f_mac_mini t3 (data3 x) (data0 y) = (u3, h3)" by fastforce
  obtain u4 h4 where h4: "f_mac t4 (data3 x) (data1 y) h3 = (u4, h4)" by fastforce
  obtain u5 h5 where h5: "f_mac t5 (data3 x) (data2 y) h4 = (u5, h5)" by fastforce
  obtain u6 z6 where h6: "f_mac z5 (data3 x) (data3 y) h5 = (u6, z6)" by fastforce
  have res: "lo = Uint256 r0 s1 t2 u3" "hi = Uint256 u4 u5 u6 z6"
    using assms e0 e1 e2 e3 f1 f2 f3 f4 g2 g3 g4 g5 h3 h4 h5 h6 unfolding f_mul_512_def Let_def
    by simp_all
  have "ival x * ival y = uint (data0 x) * ival y + B64 * (uint (data1 x) * ival y) +
      B128 * (uint (data2 x) * ival y) +
      6277101735386680763835789423207666416102355444464034512896 * (uint (data3 x) * ival y)"
    unfolding ival_def [of x] distrib_right by simp
  then show ?thesis
    using f_mul_wide_eq [OF e0] f_mac_mini_eq [OF e1] f_mac_mini_eq [OF e2] f_mac_mini_eq [OF e3]
      f_mac_mini_eq [OF f1] f_mac_eq [OF f2] f_mac_eq [OF f3] f_mac_eq [OF f4]
      f_mac_mini_eq [OF g2] f_mac_eq [OF g3] f_mac_eq [OF g4] f_mac_eq [OF g5]
      f_mac_mini_eq [OF h3] f_mac_eq [OF h4] f_mac_eq [OF h5] f_mac_eq [OF h6]
    unfolding scale_ival res ival_def [of "Uint256 r0 s1 t2 u3"] ival_def [of "Uint256 u4 u5 u6 z6"]
      uint256_t.sel distrib_left by linarith
qed

abbreviation ival5 :: "u64 \<times> u64 \<times> u64 \<times> u64 \<times> u64 \<Rightarrow> int" where
  "ival5 t \<equiv> (case t of (t0, t1, t2, t3, t4) \<Rightarrow> ival (Uint256 t0 t1 t2 t3) + B256 * uint t4)"

lemma f_addc_any:
  assumes "f_addc a b c = (r, t)"
  shows "uint r + B64 * uint t = uint a + uint b + uint c"
proof -
  have le: "uint a + uint b + uint c < B128"
    using uint_lt64 [of a] uint_lt64 [of b] uint_lt64 [of c] by linarith
  moreover have "uint a + uint b < B128"
    using uint_lt64 [of a] uint_lt64 [of b] by linarith
  ultimately have "uint (w128 a + w128 b + w128 c) = uint a + uint b + uint c"
    by (subst uint_add128; subst uint_add128) simp_all
  then show ?thesis
    using assms lo_hi64 [of "w128 a + w128 b + w128 c"] by (auto simp: f_addc_def Let_def)
qed

lemma mont_big_round_eq:
  assumes P: "params_ok P" and fit: "ival5 t < ival y + ival (modulus P)"
  shows "\<exists>k::u64. B64 * ival5 (mont_big_round P y x t) = ival5 t + uint x * ival y + uint k * ival (modulus P)"
    and "ival5 (mont_big_round P y x t) < ival y + ival (modulus P)"
proof -
  obtain t0 t1 t2 t3 t4 where t: "t = (t0, t1, t2, t3, t4)" by (cases t)
  define m where "m = modulus P"
  obtain u0 a0 where e0: "f_mac t0 x (data0 y) 0 = (u0, a0)" by fastforce
  obtain u1 a1 where e1: "f_mac t1 x (data1 y) a0 = (u1, a1)" by fastforce
  obtain u2 a2 where e2: "f_mac t2 x (data2 y) a1 = (u2, a2)" by fastforce
  obtain u3 a3 where e3: "f_mac t3 x (data3 y) a2 = (u3, a3)" by fastforce
  obtain u4 t5 where e4: "f_addc t4 a3 0 = (u4, t5)" by fastforce
  define k where "k = u0 * r_inv P"
  define c0 where "c0 = f_mac_discard_lo u0 k (data0 m)"
  obtain s0 c1 where d1: "f_mac u1 k (data1 m) c0 = (s0, c1)" by fastforce
  obtain s1 c2 where d2: "f_mac u2 k (data2 m) c1 = (s1, c2)" by fastforce
  obtain s2 c3 where d3: "f_mac u3 k (data3 m) c2 = (s2, c3)" by fastforce
  obtain s3 c4 where d4: "f_addc c3 u4 0 = (s3, c4)" by fastforce
  have res: "mont_big_round P y x t = (s0, s1, s2, s3, t5 + c4)"
    using e0 e1 e2 e3 e4 d1 d2 d3 d4 unfolding mont_big_round_def t m_def [symmetric] c0_def k_def Let_def by simp
  note eqs = f_mac_eq [OF e0] f_mac_eq [OF e1] f_mac_eq [OF e2] f_mac_eq [OF e3] f_addc_any [OF e4]
    f_mac_eq [OF d1] f_mac_eq [OF d2] f_mac_eq [OF d3] f_addc_any [OF d4]
    redc_low [OF P, of u0, folded m_def k_def, folded c0_def]
  define T where "T = ival (Uint256 t0 t1 t2 t3) + B256 * uint t4"
  define S where "S = ival (Uint256 s0 s1 s2 s3) + B256 * (uint t5 + uint c4)"
  have S: "B64 * S = T + uint x * ival y + uint k * ival m"
    using eqs unfolding scale_ival S_def T_def ival_def [of "Uint256 t0 t1 t2 t3"] ival_def [of "Uint256 s0 s1 s2 s3"]
      uint256_t.sel distrib_left by (simp only: unsigned_0 add_0_right)
  have "uint x * ival y \<le> 18446744073709551615 * ival y"
    using uint_lt64 [of x] ival_range [of y] by (intro mult_right_mono) linarith+
  moreover have "uint k * ival m \<le> 18446744073709551615 * ival m"
    using uint_lt64 [of k] ival_range [of m] by (intro mult_right_mono) linarith+
  ultimately have bound: "S < ival y + ival m"
    using S fit(1) unfolding t T_def m_def by simp
  then have "uint t5 + uint c4 < 2"
    using ival_range [of "Uint256 s0 s1 s2 s3"] ival_range [of y] ival_range [of m] unfolding S_def distrib_left by linarith
  then have "uint (t5 + c4) = uint t5 + uint c4"
    by (simp add: uint_plus_if')
  then have "ival5 (mont_big_round P y x t) = S"
    unfolding res S_def by simp
  with S bound show "\<exists>k::u64. B64 * ival5 (mont_big_round P y x t) = ival5 t + uint x * ival y + uint k * ival (modulus P)"
    "ival5 (mont_big_round P y x t) < ival y + ival (modulus P)"
    unfolding t T_def m_def by auto
qed

lemma montgomery_mul_big_eq:
  assumes P: "params_ok P"
  shows "\<exists>K c. B256 * ival (f_montgomery_mul_big P x y) = ival x * ival y + K * ival (modulus P) \<and>
    (K = ival c \<or> K = ival c - B256)"
proof -
  define t0 where "t0 = (0::u64, 0::u64, 0::u64, 0::u64, 0::u64)"
  define t1 where "t1 = mont_big_round P y (data0 x) t0"
  define t2 where "t2 = mont_big_round P y (data1 x) t1"
  define t3 where "t3 = mont_big_round P y (data2 x) t2"
  define t4 where "t4 = mont_big_round P y (data3 x) t3"
  define m where "m = ival (modulus P)"
  have m: "0 < m"
    using P unfolding params_ok_def m_def by simp
  have start: "ival5 t0 < ival y + ival (modulus P)" "ival5 t0 = 0"
    using m ival_range [of y] unfolding t0_def m_def by simp_all
  note b1 = mont_big_round_eq [OF P start(1), of "data0 x", folded t1_def]
  note b2 = mont_big_round_eq [OF P b1(2), of "data1 x", folded t2_def]
  note b3 = mont_big_round_eq [OF P b2(2), of "data2 x", folded t3_def]
  note b4 = mont_big_round_eq [OF P b3(2), of "data3 x", folded t4_def]
  from b1(1) b2(1) b3(1) b4(1) obtain k0 k1 k2 k3 :: u64 where
    "B64 * ival5 t1 = uint (data0 x) * ival y + uint k0 * ival (modulus P)"
    "B64 * ival5 t2 = ival5 t1 + uint (data1 x) * ival y + uint k1 * ival (modulus P)"
    "B64 * ival5 t3 = ival5 t2 + uint (data2 x) * ival y + uint k2 * ival (modulus P)"
    "B64 * ival5 t4 = ival5 t3 + uint (data3 x) * ival y + uint k3 * ival (modulus P)"
    unfolding start(2) add_0 by blast
  note total = four_rounds [OF this]
  define K where "K = Uint256 k0 k1 k2 k3"
  obtain l0 l1 l2 l3 l4 where l: "t4 = (l0, l1, l2, l3, l4)" by (cases t4)
  define L where "L = Uint256 l0 l1 l2 l3"
  obtain r b where rb: "f_sub4 l0 l1 l2 l3 (modulus P) = (r, b)" by fastforce
  have rb': "f_sub4 (data0 L) (data1 L) (data2 L) (data3 L) (modulus P) = (r, b)"
    using rb unfolding L_def by simp
  note eq = f_sub4_eq [OF rb', folded m_def]
  have T: "B256 * (ival L + B256 * uint l4) = ival x * ival y + ival K * m"
    using total unfolding l L_def K_def m_def by simp
  have "ival x * ival y \<le> 115792089237316195423570985008687907853269984665640564039457584007913129639935 * 115792089237316195423570985008687907853269984665640564039457584007913129639935"
    using ival_range [of x] ival_range [of y] by (intro mult_mono) auto
  moreover have "ival K * m \<le> 115792089237316195423570985008687907853269984665640564039457584007913129639935 * m"
    using ival_range [of K] m by (intro mult_right_mono) auto
  ultimately have bound: "ival L + B256 * uint l4 < B256 + m"
    using T m unfolding distrib_left by linarith
  have "uint l4 < 2"
    using bound ival_range [of L] ival_range [of "modulus P"] unfolding m_def by linarith
  then have "uint l4 = 0 \<or> uint l4 = 1"
    using uint_range64 [of l4] by linarith
  have run: "f_montgomery_mul_big P x y = f_add4_masked_wrap r (modulus P) (b XOR (0 - l4))"
    using rb l unfolding f_montgomery_mul_big_def t4_def t3_def t2_def t1_def t0_def Let_def by simp
  from \<open>uint l4 = 0 \<or> uint l4 = 1\<close> show ?thesis
  proof
    assume "uint l4 = 0"
    then have l4: "l4 = 0" "b XOR (0 - l4) = 0 - b2w (ival L < m)"
      using eq(1) by (simp_all add: unsigned_eq_0_iff)
    have "ival (f_montgomery_mul_big P x y) = (ival r + of_bool (ival L < m) * m) mod B256"
      unfolding run l4(2) f_add4_masked_wrap_eq m_def ..
    then have "ival (f_montgomery_mul_big P x y) = (if ival L < m then ival L else ival L - m)"
      using eq(2) ival_range [of L] ival_range [of r] m by (auto split: if_splits)
    moreover have "B256 * ival L = ival x * ival y + ival K * m"
      using T l4(1) by simp
    ultimately show ?thesis
      unfolding m_def by (auto simp: left_diff_distrib right_diff_distrib intro: exI [of _ "ival K"] exI [of _ "ival K - B256"])
  next
    assume one: "uint l4 = 1"
    then have q: "ival L < m" and l4: "l4 = 1"
      using bound by (simp_all add: word_uint_eq_iff)
    have "ival (f_montgomery_mul_big P x y) = (ival r + of_bool False * m) mod B256"
      using f_add4_masked_wrap_eq [of r "modulus P" False] unfolding run l4 eq(1) m_def
      using q unfolding m_def by simp
    then have "ival (f_montgomery_mul_big P x y) = ival r"
      using ival_range [of r] by simp
    then have "ival (f_montgomery_mul_big P x y) = ival L - m + B256"
      using eq(2) q by simp
    moreover have "B256 * (ival L + B256) = ival x * ival y + ival K * m"
      using T one by simp
    ultimately have "B256 * ival (f_montgomery_mul_big P x y) = ival x * ival y + (ival K - B256) * m"
      by (simp add: left_diff_distrib)
    then show ?thesis
      unfolding m_def by blast
  qed
qed

end
