(* ===== verification/Primality.thy ===== *)
theory Primality
  imports Prelude
begin

text \<open>
  Primality of the moduli the field code is instantiated with, checked in the kernel: a
  definition of prime numbers, the theorem of Fermat, and the criterion of Pocklington, which
  turns a known prime factor of n - 1 and two modular powers into a proof that n is prime.
\<close>

section \<open>Prime numbers\<close>

definition is_prime :: "int \<Rightarrow> bool" where
  "is_prime p \<longleftrightarrow> 1 < p \<and> (\<forall>d. 0 < d \<and> d dvd p \<longrightarrow> d = 1 \<or> d = p)"

lemma is_primeI: "1 < p \<Longrightarrow> (\<And>d. 0 < d \<Longrightarrow> d dvd p \<Longrightarrow> d = 1 \<or> d = p) \<Longrightarrow> is_prime p"
  by (auto simp: is_prime_def)

lemma prime_gt_1: "is_prime p \<Longrightarrow> 1 < p"
  by (simp add: is_prime_def)

lemma prime_coprime:
  assumes "is_prime p" "\<not> p dvd a"
  shows "coprime p a"
proof -
  have "0 < gcd p a"
    using assms(1) by (simp add: is_prime_def)
  then have "gcd p a = 1 \<or> gcd p a = p"
    using assms(1) by (simp add: is_prime_def)
  moreover have "gcd p a \<noteq> p"
    using assms(2) by (metis gcd_dvd2)
  ultimately show ?thesis
    by (simp add: coprime_iff_gcd_eq_1)
qed

lemma prime_dvd_mult: "is_prime p \<Longrightarrow> p dvd a * b \<Longrightarrow> p dvd a \<or> p dvd b"
  using prime_coprime coprime_dvd_mult_right_iff by blast

lemma prime_mod_mult_eq_0:
  "is_prime p \<Longrightarrow> (a * b) mod p = 0 \<longleftrightarrow> a mod p = 0 \<or> b mod p = 0"
  using prime_dvd_mult [of p a b] by (auto simp: mod_eq_0_iff_dvd)

text \<open>A number that is not prime has a prime divisor below its square root.\<close>

lemma small_prime_divisor:
  assumes "1 < n" "\<not> is_prime n"
  obtains p where "is_prime p" "p dvd n" "p * p \<le> n"
proof -
  define P where "P d \<longleftrightarrow> 1 < d \<and> int d dvd n" for d :: nat
  define d where "d = (LEAST d. P d)"
  have "P (nat n)"
    using assms(1) by (simp add: P_def)
  then have d: "P d" and least: "\<And>e. P e \<Longrightarrow> d \<le> e"
    unfolding d_def by (auto intro: LeastI Least_le)
  have prime: "is_prime (int d)"
  proof (rule is_primeI)
    show "1 < int d" using d by (simp add: P_def)
  next
    fix e assume e: "0 < e" "e dvd int d"
    show "e = 1 \<or> e = int d"
    proof (rule ccontr)
      assume ne: "\<not> (e = 1 \<or> e = int d)"
      then have "P (nat e)"
        using e d dvd_trans [of e "int d" n] by (simp add: P_def)
      then have "int d \<le> e" using least e by fastforce
      moreover have "e \<le> int d"
        using e d by (simp add: P_def zdvd_imp_le)
      ultimately show False using ne by simp
    qed
  qed
  have "int d \<noteq> n" using prime assms(2) by auto
  from d obtain c where c: "n = int d * c" by (auto simp: P_def)
  have "c \<noteq> 1" using c \<open>int d \<noteq> n\<close> by auto
  moreover have "0 < c"
    using c assms(1) d by (simp add: P_def) (metis mult_le_0_iff not_less of_nat_0_le_iff zero_less_one order.strict_trans)
  ultimately have "P (nat c)"
    using c by (simp add: P_def)
  then have "int d \<le> c"
    using least \<open>0 < c\<close> by fastforce
  then have "int d * int d \<le> n"
    using c d by (simp add: P_def mult_left_mono)
  with that prime d show ?thesis
    by (simp add: P_def)
qed

section \<open>The theorem of Fermat\<close>

lemma prod_mod_cong: "(\<And>i. i \<in> S \<Longrightarrow> f i mod p = g i mod p) \<Longrightarrow> prod f S mod p = prod g S mod (p::int)"
proof (induction S rule: infinite_finite_induct)
  case (insert x S)
  then show ?case
    by simp (metis mod_mult_cong)
qed simp_all

lemma prime_not_dvd_prod:
  assumes "is_prime p" "finite S" "\<And>i. i \<in> S \<Longrightarrow> \<not> p dvd f i"
  shows "\<not> p dvd prod f S"
  using assms(2,3)
proof (induction S)
  case empty
  show ?case
    using prime_gt_1 [OF assms(1)] by simp
next
  case (insert x S)
  then show ?case
    using prime_dvd_mult [OF assms(1)] by auto
qed

theorem fermat:
  assumes p: "is_prime p" and a: "\<not> p dvd a"
  shows "a ^ nat (p - 1) mod p = 1"
proof -
  define S where "S = {1..<p}"
  define f where "f i = (a * i) mod p" for i
  have p1: "1 < p" by (rule prime_gt_1 [OF p])
  have not_dvd: "\<not> p dvd i" if "i \<in> S" for i
    using that zdvd_imp_le [of p i] unfolding S_def by auto
  have inj: "inj_on f S"
  proof (rule inj_onI)
    fix i j assume ij: "i \<in> S" "j \<in> S" "f i = f j"
    then have "p dvd a * (i - j)"
      unfolding f_def right_diff_distrib by (simp add: mod_eq_dvd_iff)
    then have "p dvd i - j"
      using prime_dvd_mult [OF p] a by blast
    then have "(i - j) mod p = 0" by simp
    then have "i mod p = j mod p"
      by (simp add: mod_eq_dvd_iff dvd_eq_mod_eq_0)
    then show "i = j"
      using ij unfolding S_def by simp
  qed
  have "f ` S \<subseteq> S"
  proof
    fix y assume "y \<in> f ` S"
    then obtain i where i: "i \<in> S" "y = f i" by blast
    have "\<not> p dvd a * i"
      using prime_dvd_mult [OF p] a not_dvd [OF i(1)] by blast
    then have "y \<noteq> 0"
      unfolding i(2) f_def by (simp add: mod_eq_0_iff_dvd)
    moreover have "0 \<le> y" "y < p"
      unfolding i(2) f_def using p1 by simp_all
    ultimately show "y \<in> S"
      unfolding S_def by simp
  qed
  then have image: "f ` S = S"
    using inj by (intro card_subset_eq) (simp_all add: S_def card_image)
  define Q where "Q = prod (\<lambda>i. i) S"
  have "Q = prod f S"
    unfolding Q_def using prod.reindex [OF inj, of "\<lambda>i. i"] image by (simp add: comp_def)
  then have "Q mod p = prod (\<lambda>i. a * i) S mod p"
    by (simp only:) (rule prod_mod_cong, simp add: f_def)
  also have "prod (\<lambda>i. a * i) S = a ^ card S * Q"
    unfolding Q_def by (simp add: prod.distrib)
  finally have "p dvd Q * (a ^ card S - 1)"
    by (simp add: mod_eq_dvd_iff algebra_simps) (metis dvd_minus_iff minus_diff_eq)
  moreover have "\<not> p dvd Q"
    unfolding Q_def by (rule prime_not_dvd_prod [OF p]) (auto simp: S_def not_dvd [unfolded S_def])
  ultimately have "p dvd a ^ card S - 1"
    using prime_dvd_mult [OF p] by blast
  then have "a ^ card S mod p = 1 mod p"
    by (simp add: mod_eq_dvd_iff)
  moreover have "card S = nat (p - 1)"
    unfolding S_def by simp
  ultimately show ?thesis
    using p1 by simp
qed

section \<open>The criterion of Pocklington\<close>

lemma power_mod_one: "x mod p = 1 \<Longrightarrow> 1 < p \<Longrightarrow> x ^ k mod (p::int) = 1"
  by (metis power_mod power_one mod_pos_pos_trivial zero_le_one)

text \<open>
  If x to the prime q is 1 modulo p, and x is not, then q divides p - 1.
\<close>

lemma order_divides:
  assumes p: "is_prime p" and q: "is_prime q" and xq: "x ^ nat q mod p = 1" and x: "x mod p \<noteq> 1"
  shows "q dvd p - 1"
proof (rule ccontr)
  assume "\<not> q dvd p - 1"
  then have "coprime (int (nat q)) (int (nat (p - 1)))"
    using prime_coprime [OF q] prime_gt_1 [OF p] prime_gt_1 [OF q] by simp
  then have cop: "coprime (nat q) (nat (p - 1))"
    by (simp only: coprime_int_iff)
  have p1: "1 < p" by (rule prime_gt_1 [OF p])
  have "\<not> p dvd x"
  proof
    assume "p dvd x"
    moreover have "x dvd x ^ nat q"
      using prime_gt_1 [OF q] by (intro dvd_power) simp
    ultimately have "p dvd x ^ nat q"
      by (rule dvd_trans)
    then show False
      using xq by simp
  qed
  then have xp: "x ^ nat (p - 1) mod p = 1"
    by (rule fermat [OF p])
  have "nat q \<noteq> 0" "nat (p - 1) \<noteq> 0"
    using p1 prime_gt_1 [OF q] by simp_all
  then obtain u v where uv: "nat q * u = nat (p - 1) * v + 1"
    using bezout_nat [of "nat q" "nat (p - 1)"] cop by auto
  have "(x ^ nat q) ^ u mod p = 1"
    by (rule power_mod_one [OF xq p1])
  moreover have "(x ^ nat q) ^ u = (x ^ nat (p - 1)) ^ v * x"
    unfolding power_mult [symmetric] uv by simp
  moreover have "((x ^ nat (p - 1)) ^ v * x) mod p = x mod p"
    using power_mod_one [OF xp p1, of v] by (metis mod_mult_left_eq mult_1)
  ultimately show False
    using x by simp
qed

text \<open>
  With q above the cube root of n: when n is not prime, it is a product of a * q + 1 and
  b * q + 1, the sum of a and b is (n - 1) / q modulo q, and their product the rest. The sum
  is too large for that when the last condition holds.
\<close>

lemma divisors_are_1:
  assumes all: "\<And>p. is_prime p \<Longrightarrow> p dvd n \<Longrightarrow> q dvd p - 1" and n: "0 < n"
  shows "0 < d \<Longrightarrow> d dvd n \<Longrightarrow> q dvd d - 1"
proof (induction "nat d" arbitrary: d rule: less_induct)
  case less
  show ?case
  proof (cases "d = 1 \<or> is_prime d")
    case True
    then show ?thesis
      using less.prems all by auto
  next
    case False
    then obtain p where p: "is_prime p" "p dvd d" "p * p \<le> d"
      using less.prems small_prime_divisor [of d] by fastforce
    then obtain c where c: "d = p * c" by (elim dvdE)
    have "1 < p" by (rule prime_gt_1 [OF p(1)])
    then have "0 < c" "c < d"
      using c less.prems(1) by (simp_all add: zero_less_mult_iff)
    then have "q dvd c - 1"
      using less.hyps [of c] less.prems c dvd_trans [of c d n] by simp
    moreover have "q dvd p - 1"
      using all [OF p(1)] p(2) less.prems(2) dvd_trans by blast
    moreover have "d - 1 = p * (c - 1) + (p - 1)"
      unfolding c by (simp add: algebra_simps)
    ultimately show ?thesis
      by (metis dvd_add dvd_mult)
  qed
qed

lemma pocklington_cube:
  assumes q: "is_prime q" and n: "1 < n" "n - 1 = q * e" "e < q * q" "e div q + 1 < e mod q"
    and x: "x ^ nat q mod n = 1" and unit: "(x - 1) * u = k * n + 1"
  shows "is_prime n"
proof (rule ccontr)
  assume "\<not> is_prime n"
  with n(1) obtain p where p: "is_prime p" "p dvd n" "p * p \<le> n"
    by (rule small_prime_divisor)
  have inv: "((x - 1) * u) mod n = 1"
    unfolding unit using n(1) by simp
  have q1: "1 < q" by (rule prime_gt_1 [OF q])
  have order: "q dvd p - 1" if p: "is_prime p" "p dvd n" for p
  proof (rule order_divides [OF p(1) q])
    have p1: "1 < p" by (rule prime_gt_1 [OF p(1)])
    have down: "y mod n = 1 \<Longrightarrow> y mod p = 1" for y
      using p(2) p1 by (metis mod_mod_cancel mod_pos_pos_trivial zero_le_one)
    show "x ^ nat q mod p = 1"
      by (rule down [OF x])
    show "x mod p \<noteq> 1"
    proof
      assume "x mod p = 1"
      then have "p dvd x - 1"
        using p1 by (metis mod_eq_dvd_iff mod_pos_pos_trivial zero_le_one)
      then have "((x - 1) * u) mod p = 0" by simp
      with down [OF inv] show False by simp
    qed
  qed
  from p(2) obtain c where c: "n = p * c" by (elim dvdE)
  have p1: "1 < p" by (rule prime_gt_1 [OF p(1)])
  then have c1: "1 < c"
    using c p(3) n(1) by (metis mult_le_cancel_left_pos less_le_trans zero_less_one less_trans)
  have "q dvd p - 1" "q dvd c - 1"
    using divisors_are_1 [of n q] order n(1) p1 c1 c by auto
  then obtain a b where ab: "p = a * q + 1" "c = b * q + 1"
    by (metis diff_add_cancel dvdE mult.commute)
  have pos: "1 \<le> a" "1 \<le> b"
    using p1 c1 q1 unfolding ab by (simp_all add: zero_less_mult_iff)
  have "q * e = q * (a * b * q + (a + b))"
    using n(2) unfolding c ab by (simp add: algebra_simps)
  then have e: "e = a * b * q + (a + b)"
    using q1 by simp
  have sum: "a + b \<le> a * b + 1"
  proof -
    have "0 \<le> (a - 1) * (b - 1)"
      using pos by simp
    then show ?thesis by (simp add: algebra_simps)
  qed
  have "a + b < q"
  proof (rule ccontr)
    assume "\<not> a + b < q"
    then have "q * q \<le> (a * b + 1) * q"
      using sum q1 by (intro mult_right_mono) simp_all
    also have "\<dots> \<le> e"
      using \<open>\<not> a + b < q\<close> unfolding e by (simp add: distrib_right)
    finally show False
      using n(3) by simp
  qed
  then have "e mod q = a + b" "e div q = a * b"
    using pos unfolding e by simp_all
  with n(4) sum show False by simp
qed

section \<open>Certified powers\<close>

text \<open>
  A power modulo n as a chain of squarings and of multiplications by known powers; every
  step carries the quotient, so that only products are compared.
\<close>

datatype power_step = Sq int int | Mul nat int int int

fun chain_ok :: "int \<Rightarrow> int \<Rightarrow> power_step list \<Rightarrow> int \<Rightarrow> bool" where
  "chain_ok n v [] w \<longleftrightarrow> v = w"
| "chain_ok n v (Sq q z # l) w \<longleftrightarrow> v * v = q * n + z \<and> chain_ok n z l w"
| "chain_ok n v (Mul j m q z # l) w \<longleftrightarrow> v * m = q * n + z \<and> chain_ok n z l w"

fun chain_exp :: "nat \<Rightarrow> power_step list \<Rightarrow> nat" where
  "chain_exp e [] = e"
| "chain_exp e (Sq q z # l) = chain_exp (2 * e) l"
| "chain_exp e (Mul j m q z # l) = chain_exp (e + j) l"

text \<open>The number v is the power e of x, modulo n.\<close>

definition is_pow :: "int \<Rightarrow> int \<Rightarrow> int \<Rightarrow> nat \<Rightarrow> bool" where
  "is_pow n x v e \<longleftrightarrow> v mod n = x ^ e mod n"

fun chain_powers :: "int \<Rightarrow> int \<Rightarrow> power_step list \<Rightarrow> bool" where
  "chain_powers n x [] \<longleftrightarrow> True"
| "chain_powers n x (Sq q z # l) \<longleftrightarrow> chain_powers n x l"
| "chain_powers n x (Mul j m q z # l) \<longleftrightarrow> is_pow n x m j \<and> chain_powers n x l"

lemma is_pow_1: "is_pow n x x 1"
  by (simp add: is_pow_def)

lemma is_pow_mult:
  assumes "is_pow n x a i" "is_pow n x b j" "a * b = q * n + z" "i + j = k"
  shows "is_pow n x z k"
proof -
  have "z mod n = a * b mod n"
    using assms(3) by simp
  also have "\<dots> = x ^ i * x ^ j mod n"
    using assms(1,2) unfolding is_pow_def by (metis mod_mult_eq)
  finally show ?thesis
    using assms(4) unfolding is_pow_def by (simp add: power_add [symmetric])
qed

lemma chain_power:
  "chain_ok n v l w \<Longrightarrow> chain_powers n x l \<Longrightarrow> is_pow n x v e \<Longrightarrow> is_pow n x w (chain_exp e l)"
proof (induction l arbitrary: v e)
  case (Cons s l)
  show ?case
  proof (cases s)
    case (Sq q z)
    have "is_pow n x z (e + e)"
      by (rule is_pow_mult [of n x v e v e q]) (use Cons.prems Sq in simp_all)
    then show ?thesis
      using Cons.IH [of z "2 * e"] Cons.prems by (simp add: Sq mult_2)
  next
    case (Mul j m q z)
    have "is_pow n x z (e + j)"
      by (rule is_pow_mult [of n x v e m j q]) (use Cons.prems Mul in simp_all)
    then show ?thesis
      using Cons.IH [of z "e + j"] Cons.prems by (simp add: Mul)
  qed
qed simp

text \<open>The criterion over a certified power.\<close>

lemma prime_certificate:
  assumes "is_prime q" "1 < n" "n - 1 = q * e" "e < q * q" "e div q + 1 < e mod q"
    "is_pow n x 1 (nat q)" "(x - 1) * u = k * n + 1"
  shows "is_prime n"
  by (rule pocklington_cube [OF assms(1-5) _ assms(7)]) (use assms(2,6) in \<open>simp add: is_pow_def\<close>)

text \<open>Small primes by trial division.\<close>

lemma prime_by_trial:
  assumes "1 < n" "list_all (\<lambda>d. n mod int d \<noteq> 0) [2..<k]" "n < int k * int k"
  shows "is_prime n"
proof (rule ccontr)
  assume "\<not> is_prime n"
  with assms(1) obtain p where p: "is_prime p" "p dvd n" "p * p \<le> n"
    by (rule small_prime_divisor)
  have "p < int k"
  proof (rule ccontr)
    assume "\<not> p < int k"
    then have "int k * int k \<le> p * p"
      by (intro mult_mono) simp_all
    with p(3) assms(3) show False by simp
  qed
  then have "nat p \<in> set [2..<k]"
    using prime_gt_1 [OF p(1)] by auto
  have trial: "n mod int d \<noteq> 0" if "d \<in> set [2..<k]" for d
    using assms(2) that unfolding list_all_iff by (elim bspec)
  show False
    using trial [OF \<open>nat p \<in> set [2..<k]\<close>] p(2) prime_gt_1 [OF p(1)] by simp
qed

end
