(* ===== verification/Prime_Certificates.thy ===== *)
theory Prime_Certificates
  imports Primality
begin

text \<open>
  The order of the scalar field of the curve bn254, the modulus of the field fr, is prime:
  a chain of certificates from the modulus down to a number small enough for trial
  division. Each step certifies an element whose order is a prime factor of n - 1.
\<close>

lemma prime_1637: "is_prime 1637"
  by (rule prime_by_trial [where k = 41]) (simp_all add: upt_rec_numeral upt_rec)

abbreviation c30_n :: int where "c30_n \<equiv> 639533339"

abbreviation c30_x :: int where "c30_x \<equiv> 248876995"

lemma c30_pow1: "is_pow c30_n c30_x c30_x 1"
  by (rule is_pow_1)

definition c30_steps0 :: "power_step list" where
  "c30_steps0 =
    [Sq 96851492
       574338237,
     Mul 1 c30_x 223506056
       257756831,
     Sq 103886036
       448608357,
     Sq 314681730
       461042979,
     Sq 332368330
       622440571,
     Mul 1 c30_x 242225274
       605154259,
     Sq 572623278
       217373839,
     Mul 1 c30_x 84591911
       547712976,
     Sq 469075630
       181348006,
     Sq 51423588
       343175704,
     Sq 184149217
       193650053,
     Mul 1 c30_x 75359704
       147059079,
     Sq 33815864
       301238345,
     Sq 141891806
       30418791,
     Mul 1 c30_x 11837596
       1]"

lemma c30_chain0: "chain_ok c30_n 248876995 c30_steps0 1"
  unfolding c30_steps0_def by simp

lemma c30_upto0: "is_pow c30_n c30_x 1 1637"
  using chain_power [OF c30_chain0 _ c30_pow1] by (simp add: c30_steps0_def c30_pow1 [simplified])

lemma c30_prime: "is_prime c30_n"
  by (rule prime_certificate [OF prime_1637, where e = 390674 and x = c30_x
        and u = 296391531
        and k = 115341967])
    (simp_all add: c30_upto0)

abbreviation c56_n :: int where "c56_n \<equiv> 65865678001877903"

abbreviation c56_x :: int where "c56_x \<equiv> 8595199928015311"

lemma c56_pow1: "is_pow c56_n c56_x c56_x 1"
  by (rule is_pow_1)

lemma c56_pow2: "is_pow c56_n c56_x 19226070235069677 2"
proof -
  have "c56_x * c56_x = 1121638219535948 * c56_n + 19226070235069677"
    by code_simp
  then show ?thesis
    by (rule is_pow_mult [OF c56_pow1 c56_pow1]) simp
qed

lemma c56_pow3: "is_pow c56_n c56_x 42312100533392901 3"
proof -
  have "8595199928015311 * 19226070235069677 = 2508923046321282 * c56_n + 42312100533392901"
    by code_simp
  then show ?thesis
    by (rule is_pow_mult [OF c56_pow1 c56_pow2]) simp
qed

definition c56_steps0 :: "power_step list" where
  "c56_steps0 =
    [Sq 1121638219535948
       19226070235069677,
     Sq 5612054531243013
       56968334197042590,
     Sq 49272871693409161
       3268076130238717,
     Sq 162153065405803
       101688652134980,
     Mul 3 42312100533392901 65324773125660
       43734149829486000,
     Sq 29039037011862199
       48447415136911303,
     Sq 35635434184421551
       64820389105270256,
     Sq 63791688952762989
       51329992322973469,
     Sq 40002140595916967
       61286237417813760,
     Sq 57025191431651969
       32725522517796593,
     Sq 16259755559371568
       35619089176745745,
     Mul 3 42312100533392901 22881696930401040
       25160803760737125,
     Sq 9611470876657096
       40998948362715937,
     Sq 25520328915474355
       25312356916110404,
     Mul 3 42312100533392901 16260653849810072
       17564606142202988,
     Sq 4684008398454788
       55317398354378580,
     Sq 46458408286782710
       13529503851359270,
     Mul 1 c56_x 1765544575825524
       1018752242786798,
     Sq 15757161600212
       12272844760177368,
     Sq 2286816488902135
       60491326033384519]"

lemma c56_chain0: "chain_ok c56_n 8595199928015311 c56_steps0 60491326033384519"
  unfolding c56_steps0_def by code_simp

lemma c56_upto0: "is_pow c56_n c56_x 60491326033384519 78068"
  using chain_power [OF c56_chain0 _ c56_pow1] by (simp add: c56_steps0_def c56_pow1 [simplified] c56_pow3)

definition c56_steps1 :: "power_step list" where
  "c56_steps1 =
    [Sq 55555497738486739
       51365274646233044,
     Sq 40057151456145759
       35194706668242559,
     Sq 18805961086870182
       41777112883480135,
     Sq 26498279738793255
       38459179869673960,
     Sq 22456438028403256
       28700056142429432,
     Mul 1 c56_x 3745239219771056
       34048583907657784,
     Sq 17601064792557961
       64143099883154873,
     Sq 62465572167997396
       7159896889705541,
     Sq 778313152257439
       33061215984632264,
     Sq 16595046700215247
       44006274996778655,
     Sq 29401538067168958
       16366152275873951,
     Mul 3 42312100533392901 10513613485036198
       60626625102889057,
     Sq 55804294176725281
       57018535114983506,
     Sq 49359749193896012
       22822025749429200,
     Sq 7907682348502653
       52855091635063341,
     Mul 3 42312100533392901 33954102027170080
       1]"

lemma c56_chain1: "chain_ok c56_n 60491326033384519 c56_steps1 1"
  unfolding c56_steps1_def by code_simp

lemma c56_upto1: "is_pow c56_n c56_x 1 639533339"
  using chain_power [OF c56_chain1 _ c56_upto0] by (simp add: c56_steps1_def c56_pow1 [simplified] c56_pow3)

lemma c56_prime: "is_prime c56_n"
  by (rule prime_certificate [OF c30_prime, where e = 102990218 and x = c56_x
        and u = 39033286818209505
        and k = 5093683299525283])
    (simp_all add: c56_upto1)

abbreviation c94_n :: int where "c94_n \<equiv> 13818364434197438864469338081"

abbreviation c94_x :: int where "c94_x \<equiv> 7935281130018080704632618576"

lemma c94_pow1: "is_pow c94_n c94_x c94_x 1"
  by (rule is_pow_1)

lemma c94_pow2: "is_pow c94_n c94_x 8737664600113107555932973207 2"
proof -
  have "c94_x * c94_x = 4556884203790953644048480649 * c94_n + 8737664600113107555932973207"
    by code_simp
  then show ?thesis
    by (rule is_pow_mult [OF c94_pow1 c94_pow1]) simp
qed

lemma c94_pow3: "is_pow c94_n c94_x 6024626098376368604520791548 3"
proof -
  have "7935281130018080704632618576 * 8737664600113107555932973207 = 5017657867678860257462704564 * c94_n + 6024626098376368604520791548"
    by code_simp
  then show ?thesis
    by (rule is_pow_mult [OF c94_pow1 c94_pow2]) simp
qed

lemma c94_pow5: "is_pow c94_n c94_x 2384966333946355386839231413 5"
proof -
  have "6024626098376368604520791548 * 8737664600113107555932973207 = 3809507444920568617676498383 * c94_n + 2384966333946355386839231413"
    by code_simp
  then show ?thesis
    by (rule is_pow_mult [OF c94_pow3 c94_pow2]) simp
qed

lemma c94_pow7: "is_pow c94_n c94_x 12956526157738010221657952029 7"
proof -
  have "2384966333946355386839231413 * 8737664600113107555932973207 = 1508068194887995251991379302 * c94_n + 12956526157738010221657952029"
    by code_simp
  then show ?thesis
    by (rule is_pow_mult [OF c94_pow5 c94_pow2]) simp
qed

definition c94_steps0 :: "power_step list" where
  "c94_steps0 =
    [Sq 12148439916717187945993007246
       13033178315209579486208481915,
     Sq 12292607985911379118920501901
       5621062163834556471109875244,
     Sq 2286547007799155641389411425
       8703830611247228685315084111,
     Sq 5482317945082058608677281895
       9650206243070433354109316826,
     Mul 5 2384966333946355386839231413 1665567377019221190117182351
       8970463893610592358603246707,
     Sq 5823353613936214452629922993
       13047074007182443388793947416,
     Sq 12318834183271586178204503029
       1735893499133178782183529707,
     Sq 218066780238875881708645688
       2277860932176299701036661121,
     Sq 375489476416926927519801274
       10456841577218911324352461447,
     Sq 7913059196821277262825356721
       11582084072275290222046741408,
     Sq 9707709772458610131767890683
       4440869139873206848644823141,
     Sq 1427181835548658164227207531
       8368951715619670804580817870,
     Sq 5068570390649222222447822820
       9262168650417991593144528480,
     Sq 6208243277799203197439006991
       10413093752592839881829586129,
     Sq 7846986668837679889618568807
       11541844625233648289585365274,
     Sq 9640372273245219505906826722
       7370261739600282849502094594,
     Sq 3931055543432025568708892948
       5719984043248239057475272048,
     Sq 2367734445767258734894372339
       2847454599382845644324372845,
     Mul 7 12956526157738010221657952029 2669861558186497009382251229
       3995911146589813549241500956,
     Sq 1155513444986667017935628325
       12938755124550705220164169611]"

lemma c94_chain0: "chain_ok c94_n 12956526157738010221657952029 c94_steps0 12938755124550705220164169611"
  unfolding c94_steps0_def by code_simp

lemma c94_upto0: "is_pow c94_n c94_x 12938755124550705220164169611 1916942"
  using chain_power [OF c94_chain0 _ c94_pow7] by (simp add: c94_steps0_def c94_pow1 [simplified] c94_pow3 c94_pow5 c94_pow7)

definition c94_steps1 :: "power_step list" where
  "c94_steps1 =
    [Sq 12115137429635338301697268372
       3161738455937886112519417189,
     Mul 3 6024626098376368604520791548 1378476599643241539393474193
       3274665168306567780251474939,
     Sq 776027583842131564554195909
       7783209883449169180516943092,
     Sq 4383902044145152776301274455
       12137052172119357729802499609,
     Sq 10660309049614580476033707195
       753190004820108438227960086,
     Sq 41053714139785103145534241
       9480013504884722808418395875,
     Sq 6503711526842239666776851284
       10028815540989260895362069621,
     Sq 7278512709237949194883994649
       6582610110993648198275155072,
     Mul 3 6024626098376368604520791548 2869931883688360200684408413
       3138503201478530464709256003,
     Sq 712834170252007700279149200
       12483562629543047011950850809,
     Sq 11277697636925491626123609344
       12006506795127311564669325617,
     Mul 1 c94_x 6894810689246460346796757791
       2281409498763660828057122321,
     Sq 376660300561203939319250238
       8432267785655359550494713763,
     Sq 5145553972584220841260386703
       9286782187083334098797683226,
     Sq 6241283026006494625360125555
       7349931621413274043139007121,
     Sq 3909398619257669835214187983
       11241010701785258861774228018,
     Sq 9144376109008709814932628929
       7175543025635722158034263075,
     Sq 3726086249782705635448551890
       8676002100422643780026932535,
     Mul 3 6024626098376368604520791548 3782623401827384058518543213
       1878424754868214010089219927,
     Sq 255347119878347713289285475
       7214738950431482892676211854]"

lemma c94_chain1: "chain_ok c94_n 12938755124550705220164169611 c94_steps1 7214738950431482892676211854"
  unfolding c94_steps1_def by code_simp

lemma c94_upto1: "is_pow c94_n c94_x 7214738950431482892676211854 125628810886"
  using chain_power [OF c94_chain1 _ c94_upto0] by (simp add: c94_steps1_def c94_pow1 [simplified] c94_pow3 c94_pow5 c94_pow7)

definition c94_steps2 :: "power_step list" where
  "c94_steps2 =
    [Sq 3766904424235236668690114342
       8378849114816027470545259614,
     Sq 5080565997746519261641650059
       12903809095485579282294832217,
     Sq 12049782734103079186712343744
       6551789205294103496359819825,
     Mul 1 c94_x 3762405420424563936962765370
       10620567016425678254099014230,
     Sq 8162792658097975055380754810
       2552326705477704630885573290,
     Sq 471428557447292700283853517
       93879213923488799007543223,
     Sq 637796668980676221542498
       9571304684961031895341961391,
     Sq 6629574274770358282107933941
       3119550451830992108190947660,
     Mul 3 6024626098376368604520791548 1360083181826600717623204767
       5715998367833451257024545553,
     Sq 2364435928482029727391501744
       9315829236175563345934962545,
     Sq 6280386855539157330383867780
       6932638189365131593329946845,
     Sq 3478086896138170026909664475
       11671882327502556405475081550,
     Sq 9858825023453566427077957044
       13618907643226405166719009936,
     Sq 13422329847932023935230878027
       5824620594767664126929477909,
     Mul 7 12956526157738010221657952029 5461344535699374902661218655
       3057894684126085342478126306,
     Sq 676687891952362932159807334
       3859583265371772333019919582,
     Sq 1078013469197015318761326081
       6246147404744190337875264163,
     Sq 2823370130928126115010642214
       7624688656232388209735739235,
     Sq 4207146032464250442699538742
       11741887193342201391162951123,
     Sq 9977440927811302570735645830
       9022642505296805362339108899]"

lemma c94_chain2: "chain_ok c94_n 7214738950431482892676211854 c94_steps2 9022642505296805362339108899"
  unfolding c94_steps2_def by code_simp

lemma c94_upto2: "is_pow c94_n c94_x 9022642505296805362339108899 16466419500469472"
  using chain_power [OF c94_chain2 _ c94_upto1] by (simp add: c94_steps2_def c94_pow1 [simplified] c94_pow3 c94_pow5 c94_pow7)

definition c94_steps3 :: "power_step list" where
  "c94_steps3 =
    [Sq 5891296192545144561678375656
       2648433931833617967796836065,
     Mul 7 12956526157738010221657952029 2483253620806401921365223685
       7213377970993644489293477400,
     Sq 3765483389889942359474483577
       11146709082772323365815564263,
     Mul 1 c94_x 6401066542102789263873037327
       1]"

lemma c94_chain3: "chain_ok c94_n 9022642505296805362339108899 c94_steps3 1"
  unfolding c94_steps3_def by code_simp

lemma c94_upto3: "is_pow c94_n c94_x 1 65865678001877903"
  using chain_power [OF c94_chain3 _ c94_upto2] by (simp add: c94_steps3_def c94_pow1 [simplified] c94_pow3 c94_pow5 c94_pow7)

lemma c94_prime: "is_prime c94_n"
  by (rule prime_certificate [OF c56_prime, where e = 209796131360 and x = c94_x
        and u = 12281824895882260584345986666
        and k = 7052913809197938965814028629])
    (simp_all add: c94_upto3)

abbreviation bn254_r_n :: int where "bn254_r_n \<equiv> 21888242871839275222246405745257275088548364400416034343698204186575808495617"

abbreviation bn254_r_x :: int where "bn254_r_x \<equiv> 18810536960267738281623319138564098156538132287104634306360290224932305588168"

lemma bn254_r_pow1: "is_pow bn254_r_n bn254_r_x bn254_r_x 1"
  by (rule is_pow_1)

lemma bn254_r_pow2: "is_pow bn254_r_n bn254_r_x 9085659581505268874132837132958025132643965648321324883040022263071236657138 2"
proof -
  have "bn254_r_x * bn254_r_x = 16165587288362616707920763639162090134193059927275503713066419440776747514958 * bn254_r_n + 9085659581505268874132837132958025132643965648321324883040022263071236657138"
    by code_simp
  then show ?thesis
    by (rule is_pow_mult [OF bn254_r_pow1 bn254_r_pow1]) simp
qed

lemma bn254_r_pow3: "is_pow bn254_r_n bn254_r_x 21456843915329240196565359224050818949114580143862077965297401232472511861831 3"
proof -
  have "18810536960267738281623319138564098156538132287104634306360290224932305588168 * 9085659581505268874132837132958025132643965648321324883040022263071236657138 = 7808124953976914672060489159718707197240195875235354921666472834875496222409 * bn254_r_n + 21456843915329240196565359224050818949114580143862077965297401232472511861831"
    by code_simp
  then show ?thesis
    by (rule is_pow_mult [OF bn254_r_pow1 bn254_r_pow2]) simp
qed

lemma bn254_r_pow5: "is_pow bn254_r_n bn254_r_x 4466280092714551160179349833555971636873726671584238519253083836756174798464 5"
proof -
  have "21456843915329240196565359224050818949114580143862077965297401232472511861831 * 9085659581505268874132837132958025132643965648321324883040022263071236657138 = 8906588831714314360402018905574828782989210171251047214187304730423543190942 * bn254_r_n + 4466280092714551160179349833555971636873726671584238519253083836756174798464"
    by code_simp
  then show ?thesis
    by (rule is_pow_mult [OF bn254_r_pow3 bn254_r_pow2]) simp
qed

lemma bn254_r_pow7: "is_pow bn254_r_n bn254_r_x 4040261221033263005784464538279185810153527623290874801026969136536432087697 7"
proof -
  have "4466280092714551160179349833555971636873726671584238519253083836756174798464 * 9085659581505268874132837132958025132643965648321324883040022263071236657138 = 1853922252035406490281966653168174170896338979609539939707841799979939398255 * bn254_r_n + 4040261221033263005784464538279185810153527623290874801026969136536432087697"
    by code_simp
  then show ?thesis
    by (rule is_pow_mult [OF bn254_r_pow5 bn254_r_pow2]) simp
qed

definition bn254_r_steps0 :: "power_step list" where
  "bn254_r_steps0 =
    [Sq 911341215618652005137420345027206622979839573017459824326505336229837275880
       3742841333116782961551778034960088861952408539850274735714179586898816941336,
     Mul 1 bn254_r_x 3216560399354472255912688325387478303424380436284573302904162918481323257956
       7288300720531034751599205128989304360084109032148697596779139568504645333596,
     Sq 2426842926767541311626789636639200531515174708218646150036372641114102423189
       16310377356767332269622268890191016455300440121513193467241937482505740628603,
     Sq 12153940865779239510031226977251839677690878650351456811375368740009898863110
       18590281345771589829705208461446723116458331097009764652595938196069863742739,
     Sq 15789232719067613696551283370135861429302168974356987293062113843438204733063
       9872141674924427083135189902537340981909746124591452201514724271246084737250,
     Sq 4452581315934116828054274535457709561513638484491499252454993049628975376165
       8000832048641458224794805788302262395223990349021758499644329354696208793695,
     Sq 2924552411327900098491461234376474925784287861972326565283177940687430183918
       2987059999656496270759347921960112724293105379371371183497220706705864865619,
     Mul 5 4466280092714551160179349833555971636873726671584238519253083836756174798464 609507427815227427211424556856785409987718600124049274861387041152673010473
       8975024199830631580403817344790028304586817291245569138346096813489152012375,
     Sq 3680106249697180029076657033249580364464634904213392239054211851518805910644
       12477635325971618052354191063038058034114302262450087294479249184382785493277,
     Sq 7113014244201506168504204569478467019710498849538043398615622540046940827769
       18447615490292918398641929924136432563808024318567103194638030164631623810256]"

lemma bn254_r_chain0: "chain_ok bn254_r_n 4466280092714551160179349833555971636873726671584238519253083836756174798464 bn254_r_steps0 18447615490292918398641929924136432563808024318567103194638030164631623810256"
  unfolding bn254_r_steps0_def by code_simp

lemma bn254_r_upto0: "is_pow bn254_r_n bn254_r_x 18447615490292918398641929924136432563808024318567103194638030164631623810256 1428"
  using chain_power [OF bn254_r_chain0 _ bn254_r_pow5] by (simp add: bn254_r_steps0_def bn254_r_pow1 [simplified] bn254_r_pow3 bn254_r_pow5 bn254_r_pow7)

definition bn254_r_steps1 :: "power_step list" where
  "bn254_r_steps1 =
    [Sq 15547822603683422451051869491161387902086375451316154145199059268047079546375
       15477125601316648876509856588515200340237686846535057098013604771787955047161,
     Sq 10943839497830028749256889290327696147177755614122203800072989310353362375886
       18219637373732649564837730671725940610339331572907522619509795475927196668259,
     Mul 3 21456843915329240196565359224050818949114580143862077965297401232472511861831 17860543562637751579909301334360083278434286131375484708289573774647184532843
       21666684803943752702775475012001422476902168933601203773733752216641393273098,
     Sq 21447369400191579579991368237037903734061533038263226048078092457283566232694
       12325038706389038246381761560710519680448258137532050165000737203053309415406,
     Sq 6940099303696332963636943761681770646062289649791083469354465070920694381209
       13443253219486778743446513032716218517821584510808286422351206975950466483883,
     Sq 8256535628803336664417254433324988240522602832708060024891683897762001988462
       2364290201934196781262287532984773222792572069569367347522604820446287186635,
     Mul 1 bn254_r_x 2031847347851771920487702869889095631793837876092946143172544216571752371127
       18921630943640514451582930610101292463930579998447765112770252449495126884321,
     Sq 16357097262839765889303433318050677465945563063911755349047410329040147195258
       16045663229630279971696615233775199517783775118985254723521461749669979446855,
     Sq 11762630284496405185508292194685564354881853556668286914760706256663766070298
       2547026407088552763619132692430582443971622840468111866157668238232522507159,
     Sq 296384847170753674941240559321564754865381022830422149383608925688325747738
       7758310957791008692752768378401896923455068623417135565170521727042785586935]"

lemma bn254_r_chain1: "chain_ok bn254_r_n 18447615490292918398641929924136432563808024318567103194638030164631623810256 bn254_r_steps1 7758310957791008692752768378401896923455068623417135565170521727042785586935"
  unfolding bn254_r_steps1_def by code_simp

lemma bn254_r_upto1: "is_pow bn254_r_n bn254_r_x 7758310957791008692752768378401896923455068623417135565170521727042785586935 365768"
  using chain_power [OF bn254_r_chain1 _ bn254_r_upto0] by (simp add: bn254_r_steps1_def bn254_r_pow1 [simplified] bn254_r_pow3 bn254_r_pow5 bn254_r_pow7)

definition bn254_r_steps2 :: "power_step list" where
  "bn254_r_steps2 =
    [Mul 1 bn254_r_x 6667414825177090833808853446819389043799720513958804015240941996717063336377
       13743062694132755015284737287163746786210844211481797444674124733201070225471,
     Sq 8628914313531304047534734275065139648607415286848936412766034625815795393669
       9244098531050843115431558922832011640495424303933370476466228638133601123068,
     Sq 3904075724676737642219686105299520169828401213899959479170237814808089629553
       13300055229528809341410542150878921047948950419169675759511858840419127563423,
     Sq 8081574667471349621926412993758431402780796641124328093204937921154345156027
       15966198756527207259064101724824575278782181261157583397480959684222876843270,
     Sq 11646412378807362054253403256438198174365215823680990224085140686966649342621
       19085664414308518687655841784555943066259154078927359148592852094240134500743,
     Sq 16641929106344635685984984078360757688310234858492233260867896983389257761519
       5751302187856208520721902333042260041149574272426851881472322018593524789826,
     Sq 1511198365703263102329951534223563479704829238522396281779173467739443579404
       4241792232149293866895005795012699035919032395070264008129779540730547638008,
     Sq 822030413591173240766038418145379070084998859811641707325200701919700597144
       7073537236198800004684989024468271248511882537060171129613674478524599490216,
     Mul 7 4040261221033263005784464538279185810153527623290874801026969136536432087697 1305675305152867210423136262691569177214144879382889234436572945451150883505
       11352974430176251988274592823686855960615703494006315686385524761056335374967,
     Sq 5888550724099541576883547767475487789513303685080660720472950489395461768094
       4199077179635521734631689470769442089784730168333507498852996289427420807091]"

lemma bn254_r_chain2: "chain_ok bn254_r_n 7758310957791008692752768378401896923455068623417135565170521727042785586935 bn254_r_steps2 4199077179635521734631689470769442089784730168333507498852996289427420807091"
  unfolding bn254_r_steps2_def by code_simp

lemma bn254_r_upto2: "is_pow bn254_r_n bn254_r_x 4199077179635521734631689470769442089784730168333507498852996289427420807091 93636878"
  using chain_power [OF bn254_r_chain2 _ bn254_r_upto1] by (simp add: bn254_r_steps2_def bn254_r_pow1 [simplified] bn254_r_pow3 bn254_r_pow5 bn254_r_pow7)

definition bn254_r_steps3 :: "power_step list" where
  "bn254_r_steps3 =
    [Sq 805558000419526814052147573577354268481677543118136719163843860478577480106
       4070736767759770616295466636644178436004211568169394664112052740311230186879,
     Mul 3 21456843915329240196565359224050818949114580143862077965297401232472511861831 3990505951420558857448550957289016718667343983368704652162076072720873281627
       5235611639036356051571388123590467036095675066045520218683930058073520986590,
     Sq 1252344895627958267363493706156095119909780195743128733412896367489175899115
       550906938159101855976358275668510927189310574626814122764122518665448149145,
     Sq 13865820855922064058356895157517978689816666554941036873654389120032443565
       4083747225853724754498470886113141075487032758838686420768356563111061876420,
     Sq 761915495104638361879212621355096783759787922601730437354472840174162603345
       20068919682125335586970082261255635915896034997433201603232178239106609977535,
     Sq 18400816345371332002552170606427139402859866269569086195397542432117126918821
       20088455823838207708742329824520471291443041475189188195786828867438711368668,
     Sq 18436658426587950015733522344435422625449466853730681990862808846814977383718
       8217229254208254438941090606689893456282163770266670009784570500009681930218,
     Mul 7 4040261221033263005784464538279185810153527623290874801026969136536432087697 1516784736651083524292323580829507227642563959563987923574265773729559964642
       7869451465732257446455653160922000624677206634823476245857754131876678353832,
     Sq 2829293641071140280370524532298254256667029220277697137143992924284249520684
       12742436956089890981287166757362071462036393308720345101251609844678024242196,
     Sq 7418123991525384358400681016320961264900417565057310038257533388148339226503
       18619925397010180528390760764586416074448266128091601997783539045778221165065]"

lemma bn254_r_chain3: "chain_ok bn254_r_n 4199077179635521734631689470769442089784730168333507498852996289427420807091 bn254_r_steps3 18619925397010180528390760764586416074448266128091601997783539045778221165065"
  unfolding bn254_r_steps3_def by code_simp

lemma bn254_r_upto3: "is_pow bn254_r_n bn254_r_x 18619925397010180528390760764586416074448266128091601997783539045778221165065 23971041180"
  using chain_power [OF bn254_r_chain3 _ bn254_r_upto2] by (simp add: bn254_r_steps3_def bn254_r_pow1 [simplified] bn254_r_pow3 bn254_r_pow5 bn254_r_pow7)

definition bn254_r_steps4 :: "power_step list" where
  "bn254_r_steps4 =
    [Sq 15839627868725823120342828366931092543552296059007297977462878611993552351257
       10939868924311495722651772755639564529896087732260452320190913122099647513656,
     Mul 7 4040261221033263005784464538279185810153527623290874801026969136536432087697 2019345656793165909546462441641468019149674079566109465397933490916410870778
       14160780287424993058179533925391007393737551198520438908212350126558230710206,
     Sq 9161434269660672399031902016002724177848930836628092323816924321041857221204
       16758323904918100124189908074645916123283625670993575052236993155911919099568,
     Sq 12830697363262136353817184232089687902146710326771542286018517374749058858176
       21888083174864775917490206954690418891250255562899195060460029488001577172032,
     Sq 21887923479055428325165119310323208245807268505016009575706837542570065452798
       2186650580378228589415837883419981301773467744475425165304650082778219622658,
     Sq 218447903226626528802953179234092459925762328706872269605184182375640959261
       20139288649524490740894694084310219183158593001175464149155644517756712925927,
     Mul 3 21456843915329240196565359224050818949114580143862077965297401232472511861831 19742360117657866903859988073739273401496104468075164040855678141013648666662
       11551868642195457728186667163980936391958467963780365631879832845526240571883,
     Sq 6096682584705130830368985332043033808394824174104281898430550164656090274937
       5053970183329303734083970995299862021285121654002285241243662095329000714560,
     Sq 1166955920744280506288609444211575475255546565829550055758509173435723670462
       10043929758383899681616128244034083068187774991268069636043536714548916628546,
     Sq 4608890973205499819439699593595483892934261178214530139690097527181129924817
       1345496511981180363289441087959550444463686182607103680739468141210258047027]"

lemma bn254_r_chain4: "chain_ok bn254_r_n 18619925397010180528390760764586416074448266128091601997783539045778221165065 bn254_r_steps4 1345496511981180363289441087959550444463686182607103680739468141210258047027"
  unfolding bn254_r_steps4_def by code_simp

lemma bn254_r_upto4: "is_pow bn254_r_n bn254_r_x 1345496511981180363289441087959550444463686182607103680739468141210258047027 6136586543000"
  using chain_power [OF bn254_r_chain4 _ bn254_r_upto3] by (simp add: bn254_r_steps4_def bn254_r_pow1 [simplified] bn254_r_pow3 bn254_r_pow5 bn254_r_pow7)

definition bn254_r_steps5 :: "power_step list" where
  "bn254_r_steps5 =
    [Sq 82709282529146091245486527189506409350572012816982253872182696004255208458
       19658114543397069200142223003100598942391924578347629452833346152870429210143,
     Mul 5 4466280092714551160179349833555971636873726671584238519253083836756174798464 4011224023762807590588382393292822331297903798890829534916056305352552283001
       15566378383776961216865706945531494628949601736459385930311934560917077513735,
     Sq 11070424309786411015739733790173224298728408343921146789174980981515355445204
       13523179301040663986187241463191207341211999303407343774404201566424595979357,
     Sq 8355004989613746354344381808258541705966540395737443709589335325673003359205
       16606439935112808912306138045640754532392053493045621716368437346111451028964,
     Sq 12599177052869395491300288221061340614692591411886519394640770788641727378490
       6921436465595949394796618392799752018089923154485371157715839204566301834966,
     Mul 7 4040261221033263005784464538279185810153527623290874801026969136536432087697 1277599646053405903327785528571757535150433172139349868903482165143270741504
       15869482716685516133991480243448479096484095417313353154755341481103009025334,
     Sq 11505742291410259869167850136400207352309151629235686211718190071152185158199
       520670192713106747870622642634890534021981560750617004091071789459310697773,
     Sq 12385528211069385124017167275177156398893732455794125582117560967301842335
       21169335698798681466873714656872295820719543653841725774388801410251274613834,
     Sq 20474040632333995284581804604997899166529881873729586611353604277090575348961
       17731803988972204945410472736537306309070338053376755168626383357207610175619,
     Sq 14364646561366945427386031712720448191783289187384734368285966316051744689179
       8285359752698372516162753611600725451787113505817556246342159088222773204718]"

lemma bn254_r_chain5: "chain_ok bn254_r_n 1345496511981180363289441087959550444463686182607103680739468141210258047027 bn254_r_steps5 8285359752698372516162753611600725451787113505817556246342159088222773204718"
  unfolding bn254_r_steps5_def by code_simp

lemma bn254_r_upto5: "is_pow bn254_r_n bn254_r_x 8285359752698372516162753611600725451787113505817556246342159088222773204718 1570966155008752"
  using chain_power [OF bn254_r_chain5 _ bn254_r_upto4] by (simp add: bn254_r_steps5_def bn254_r_pow1 [simplified] bn254_r_pow3 bn254_r_pow5 bn254_r_pow7)

definition bn254_r_steps6 :: "power_step list" where
  "bn254_r_steps6 =
    [Sq 3136258430317097178558480521013135965664118005647908141401749963155638727880
       14834790542494663783098120410514749466918555567642162374559835497001501757564,
     Mul 5 4466280092714551160179349833555971636873726671584238519253083836756174798464 3027028257475035756162925063668452188143641990360214589128747460300004795540
       18608707035443471719479351587612093902144147197957025806185680077526416433516,
     Sq 15820547111000921634681616064056013888094066478756192614549600691753798797301
       11052742353096130583380847994547880482106796542005414620605658134912518192539,
     Sq 5581220668978239862858952676201552271443220671179692548489085738292038165585
       4579933951723183961770539263764868831711968008513620013259970222396282525576,
     Sq 958313334010631708135466884891829269508281724824755979046020695254585702852
       4597596644120664762515099866750578896198416878586230422656692969086387732092,
     Sq 965719131763881751906424303812401798309828395204693129612599927386889007039
       17497800550224391628270827967057300872537220636746154395065700225117653048401,
     Mul 7 4040261221033263005784464538279185810153527623290874801026969136536432087697 3229847431353247015246270799099199464805671223639063304191003661014576552338
       18674051693854597106953944099734278061281140733400162433184210360638373519951,
     Sq 15931850204084047155344343519310809226446584634842888077779395214063563482963
       16039761501608908770686581238880408710467247646744097422266082037527955369230,
     Sq 11753979089819761005512940438039718655814945549109063268955777637449039020573
       20969506700822836167454545775674403264142545190170975278037596402315387464359,
     Sq 20089333522590980537398075919372186794872313278692424374012394790770537168302
       11738209922957240733215651100559686073134144853244498946959130011841736948547]"

lemma bn254_r_chain6: "chain_ok bn254_r_n 8285359752698372516162753611600725451787113505817556246342159088222773204718 bn254_r_steps6 11738209922957240733215651100559686073134144853244498946959130011841736948547"
  unfolding bn254_r_steps6_def by code_simp

lemma bn254_r_upto6: "is_pow bn254_r_n bn254_r_x 11738209922957240733215651100559686073134144853244498946959130011841736948547 402167335682241208"
  using chain_power [OF bn254_r_chain6 _ bn254_r_upto5] by (simp add: bn254_r_steps6_def bn254_r_pow1 [simplified] bn254_r_pow3 bn254_r_pow5 bn254_r_pow7)

definition bn254_r_steps7 :: "power_step list" where
  "bn254_r_steps7 =
    [Mul 5 4466280092714551160179349833555971636873726671584238519253083836756174798464 2395173226557082094561754135746035809293099629277457674394977680548051653524
       5370056676400179391675205731231878538336019273886123820064678663166306027500,
     Sq 1317488520051628841112233621611967593070996214153997133751244271251000657264
       10946981634193614234692100782334946631921196237632139169335881613768693038112,
     Sq 5474921289983950448834336394183595870957566037436124138343799133193731348430
       18823848328123256721503209829416631858259967179654229784785471819525529693234,
     Sq 16188474696434765338971484987368579472880186979335508564218022207255658696696
       17224479003740889929597626164679110020845864689862344246795218051695496997324,
     Sq 13554430964945722527787893210104601763525937814436829012505358887084181981579
       21291155865226103802629101271706834739945129555934787824546176190638066921733,
     Sq 20710356730396599206496257084562054730393422130554858629091839835385338594914
       10071983599491435122969773105556695380105943533582030903187821310227440231351,
     Sq 4634673245468241925382640045038643185572740014723480416650672009130768021046
       15506161728777923496494292194728977622846574637656180498893117874686948529819,
     Sq 10984940772398000703534440443328737460946084018977498386304848124028045264686
       17020245193738988360674657337106373995455139934561226845143502460459296291499,
     Mul 7 4040261221033263005784464538279185810153527623290874801026969136536432087697 3141697441470456642637070013247206956384477819735013354752499852288155782489
       20748328098757622418291772732695551281914218386325608670585682747967881737090,
     Sq 19667778789477614948389879650687839790769064437748288135991768227163632969798
       10580595985966062540693123397969065611390141476572025263395239792627505292734]"

lemma bn254_r_chain7: "chain_ok bn254_r_n 11738209922957240733215651100559686073134144853244498946959130011841736948547 bn254_r_steps7 10580595985966062540693123397969065611390141476572025263395239792627505292734"
  unfolding bn254_r_steps7_def by code_simp

lemma bn254_r_upto7: "is_pow bn254_r_n bn254_r_x 10580595985966062540693123397969065611390141476572025263395239792627505292734 102954837934653750542"
  using chain_power [OF bn254_r_chain7 _ bn254_r_upto6] by (simp add: bn254_r_steps7_def bn254_r_pow1 [simplified] bn254_r_pow3 bn254_r_pow5 bn254_r_pow7)

definition bn254_r_steps8 :: "power_step list" where
  "bn254_r_steps8 =
    [Sq 5114572790229371577651991347645218832896418562480838851512501039536811240387
       1362416418440406086413331222786475724659009543357076720037856262648810310977,
     Sq 84802535685680121793939041974074006322247128113790685347690616557374614660
       18195481015011625360270215244914144909264490285917749531450360383591772749309,
     Sq 15125724404017823206579799971034962846412154989142187973245228792737814406792
       3803242212097830738972828717674581630535706927681028025108197923281772946817,
     Sq 660841137800630234216556846660417603194088435000655873911651415918976136675
       6786349403094533322396886639058338532256382071811073181766979368181579978014,
     Mul 5 4466280092714551160179349833555971636873726671584238519253083836756174798464 1384749676742756986859438875546959473094594153487097302770979846793002983522
       20174154710870813814265407418747916173625165239618664068877462700238540747422,
     Sq 18594298349173563291024338133736443978120459572249153369470657640866191067997
       748198730681821824699967142710170379147745904555839701630231878411276176935,
     Sq 25575435354571661081566239045145436101040718725026000341992420830491836011
       17942202728760664196627408924523642857629682365796286306431541672575249730438,
     Sq 14707559699738262923285110895770166514566680483213106287543280675298318579403
       11972511953283644423924361153074122276264766764352068818379222187349671695193,
     Sq 6548768821271524866425623859246972953394411256911851089980970781006164357376
       15189457051791956006518923576140311465074520397781986176127756441026181686257,
     Sq 10540800688257574444927497681487327362307955195624073131806926225726607783287
       14971345435394922101628587220395100084583666086634791327125313564169357316970]"

lemma bn254_r_chain8: "chain_ok bn254_r_n 10580595985966062540693123397969065611390141476572025263395239792627505292734 bn254_r_steps8 14971345435394922101628587220395100084583666086634791327125313564169357316970"
  unfolding bn254_r_steps8_def by code_simp

lemma bn254_r_upto8: "is_pow bn254_r_n bn254_r_x 14971345435394922101628587220395100084583666086634791327125313564169357316970 52712877022542720277664"
  using chain_power [OF bn254_r_chain8 _ bn254_r_upto7] by (simp add: bn254_r_steps8_def bn254_r_pow1 [simplified] bn254_r_pow3 bn254_r_pow5 bn254_r_pow7)

definition bn254_r_steps9 :: "power_step list" where
  "bn254_r_steps9 =
    [Mul 5 4466280092714551160179349833555971636873726671584238519253083836756174798464 3054892184392068447900737553511258832837153059904723770272079646344975060800
       35480399837086862129637879782351874411581913777821865934806477562408620480,
     Sq 57513011892752776962328868284857583012770508564194364207145979607338296
       17175509830176973298447596888286323829251817668743841726917036029623323181768,
     Sq 13477470057957058177421965011213507988751787845236011456181322912393103369405
       18626641432505603176079030815504010325359015070333587586634361680316293207939,
     Mul 1 bn254_r_x 16007549311442685490580757715774910965444354983283477742306090332490172985004
       14337504746119573765144800791177244516868470958644802944561545161865381338284,
     Sq 9391527842076055093935820154573845197121055110231824512060247572633298342374
       12692764321998828706809875524196793369535460966763219826109912811094099689898,
     Sq 7360401978227345062479407227191430739038117809217953605470938385213643392913
       9760920215680297146059253198399333521919235335198974561423145160153593888083,
     Sq 4352819183099198957555369587581414792136223782067670113302348946629336429537
       15212094931238375578520744286824026695267088488064372318347064723779035575560,
     Mul 1 bn254_r_x 13073122206411076468252622847766218861604958836508904199667315634396877448612
       3750251973921904028226731446145283868899241553610421048991270740673261240476,
     Sq 642554541735277395697236792577142911445915097991100602623205107955250463968
       7926872813574266968519796821085798303575980410316129517763023745426956278320,
     Sq 2870733524408428056177735199473157241037482568717490934753628613294960145905
       10181608100256976783400575136818910847176704356209688589930474965336429024015]"

lemma bn254_r_chain9: "chain_ok bn254_r_n 14971345435394922101628587220395100084583666086634791327125313564169357316970 bn254_r_steps9 10181608100256976783400575136818910847176704356209688589930474965336429024015"
  unfolding bn254_r_steps9_def by code_simp

lemma bn254_r_upto9: "is_pow bn254_r_n bn254_r_x 10181608100256976783400575136818910847176704356209688589930474965336429024015 6747248258885468195541668"
  using chain_power [OF bn254_r_chain9 _ bn254_r_upto8] by (simp add: bn254_r_steps9_def bn254_r_pow1 [simplified] bn254_r_pow3 bn254_r_pow5 bn254_r_pow7)

definition bn254_r_steps10 :: "power_step list" where
  "bn254_r_steps10 =
    [Sq 4736110802233047067357934937341934211238535857768661318549689569749260912562
       6962231578746131139051045931915838446525010351672299731220754657739649479471,
     Sq 2214552755098183613539541821580041954910148622066696266182503965364768059244
       18425070833004181980002342132006503418302530198975135992698681144300880106293,
     Sq 15509844129059344106092147340187330330930857816723233396406204674390144428680
       14785365078467895483034950351349679440964509746177122851661671857302229106289,
     Mul 7 4040261221033263005784464538279185810153527623290874801026969136536432087697 2729170062445198508735550289899552727420756532813062307572950093044800043989
       14974999839874456328590897189858885730068432349123283257802303814525268530220,
     Sq 10245254565077664903228153999007247418994447751291042262059173913129255300177
       6227901897037876807877405378367532322476488790531543785272066811036929424191,
     Sq 1772036351489402225462927230605238078107683076432496116939774163970293734560
       13107739596467035157662203834959199019640532371832737867963444838484494580961,
     Sq 7849549108843213072961593511076808291639047565574937104448467063125538080739
       1082182567108945341224413355151088109686923618484181668966027878605910062558,
     Mul 7 4040261221033263005784464538279185810153527623290874801026969136536432087697 199755653551969791591837641278512595166536215740595390091233698478877652641
       9026562671030384065355994875961796251803161736020766309469949024793315174429,
     Sq 3722493127069020511451937664586127890516367301343543155603530534662067981773
       5904975488750705822419790192543269790937947462625134358776240734420189087100,
     Sq 1593034933270393094089505262047765471362562134506684932607242725009065065248
       6589593602330189343484392963668212739216527920466298982792625681810559391984]"

lemma bn254_r_chain10: "chain_ok bn254_r_n 10181608100256976783400575136818910847176704356209688589930474965336429024015 bn254_r_steps10 6589593602330189343484392963668212739216527920466298982792625681810559391984"
  unfolding bn254_r_steps10_def by code_simp

lemma bn254_r_upto10: "is_pow bn254_r_n bn254_r_x 6589593602330189343484392963668212739216527920466298982792625681810559391984 1727295554274679858058667260"
  using chain_power [OF bn254_r_chain10 _ bn254_r_upto9] by (simp add: bn254_r_steps10_def bn254_r_pow1 [simplified] bn254_r_pow3 bn254_r_pow5 bn254_r_pow7)

definition bn254_r_steps11 :: "power_step list" where
  "bn254_r_steps11 =
    [Sq 1983838725571585187814529848561581238862665888399718445442553752470577648485
       1696488863363841938624296900991001125297705731460619987529339102338474266011,
     Sq 131489516100919203375034960463920269589835809010794528461264380810026069584
       17017973199593569700719181191601816059183602212458927032704359373970788838793,
     Sq 13231368708663678652623418735523578136013185743167822885014883102895407703403
       36096204967100083876413821156399256418219978344510254763311550706980212198,
     Mul 1 bn254_r_x 31020717452500581225536528621486575053039252315858113139694046186227422639
       1]"

lemma bn254_r_chain11: "chain_ok bn254_r_n 6589593602330189343484392963668212739216527920466298982792625681810559391984 bn254_r_steps11 1"
  unfolding bn254_r_steps11_def by code_simp

lemma bn254_r_upto11: "is_pow bn254_r_n bn254_r_x 1 13818364434197438864469338081"
  using chain_power [OF bn254_r_chain11 _ bn254_r_upto10] by (simp add: bn254_r_steps11_def bn254_r_pow1 [simplified] bn254_r_pow3 bn254_r_pow5 bn254_r_pow7)

lemma bn254_r_prime: "is_prime bn254_r_n"
  by (rule prime_certificate [OF c94_prime, where e = 1583996642733683218748855262055434666238317428736 and x = bn254_r_x
        and u = 18830771696733986827343121108258373716716634563029220880262390084180817631389
        and k = 16182976818459130185777021246784971380378737693564323278560854903669132907786])
    (simp_all add: bn254_r_upto11)

end
