(* ===== verification/Scalar_Field.thy ===== *)
theory Scalar_Field
  imports Prime_Certificates
begin

text \<open>
  The abstract scalar field of the curve bn254, the mathematical object that the class fr of
  ecc/curves/bn254/fr.hpp and the name FF of the virtual machine stand for: integers modulo
  the prime order of the curve, as an instance of the library's class of fields.
\<close>

section \<open>The type\<close>

abbreviation fr_order :: int where
  "fr_order \<equiv> 21888242871839275222246405745257275088548364400416034343698204186575808495617"

lemma fr_order_prime: "is_prime fr_order"
  by (rule bn254_r_prime)

typedef ff = "{0..<fr_order}"
  morphisms ff_int Abs_ff
  by (rule exI [of _ 0]) simp

setup_lifting type_definition_ff

lemma ff_int_range: "0 \<le> ff_int x \<and> ff_int x < fr_order"
  using ff_int [of x] by simp

lemma ff_eq_iff: "x = y \<longleftrightarrow> ff_int x = ff_int y"
  by (simp add: ff_int_inject)

instantiation ff :: comm_ring_1
begin

lift_definition zero_ff :: ff is 0 by simp
lift_definition one_ff :: ff is 1 by simp
lift_definition plus_ff :: "ff \<Rightarrow> ff \<Rightarrow> ff" is "\<lambda>a b. (a + b) mod fr_order" by simp
lift_definition minus_ff :: "ff \<Rightarrow> ff \<Rightarrow> ff" is "\<lambda>a b. (a - b) mod fr_order" by simp
lift_definition uminus_ff :: "ff \<Rightarrow> ff" is "\<lambda>a. (- a) mod fr_order" by simp
lift_definition times_ff :: "ff \<Rightarrow> ff \<Rightarrow> ff" is "\<lambda>a b. (a * b) mod fr_order" by simp

instance
proof
  fix a b c :: ff
  show "a * b * c = a * (b * c)"
    by transfer (simp add: mod_mult_left_eq mod_mult_right_eq mult.assoc)
  show "a * b = b * a"
    by transfer (simp add: mult.commute)
  show "1 * a = a"
    by transfer simp
  show "a + b + c = a + (b + c)"
    by transfer (simp add: mod_add_left_eq mod_add_right_eq add.assoc)
  show "a + b = b + a"
    by transfer (simp add: add.commute)
  show "0 + a = a"
    by transfer simp
  show "- a + a = 0"
    by transfer (simp add: mod_add_left_eq)
  show "a - b = a + - b"
    by transfer (simp add: mod_add_right_eq)
  show "(a + b) * c = a * c + b * c"
    by transfer (simp add: mod_mult_left_eq mod_add_eq distrib_right)
  show "(0::ff) \<noteq> 1"
    by transfer simp
qed

end

instantiation ff :: equal
begin

definition equal_ff :: "ff \<Rightarrow> ff \<Rightarrow> bool" where
  "equal_ff x y \<longleftrightarrow> ff_int x = ff_int y"

instance
  by standard (simp add: equal_ff_def ff_eq_iff)

end

lemma ff_int_of_nat: "ff_int (of_nat n) = int n mod fr_order"
proof (induction n)
  case 0
  then show ?case
    by (simp add: zero_ff.rep_eq)
next
  case (Suc n)
  have "ff_int (of_nat (Suc n)) = (1 + int n mod fr_order) mod fr_order"
    by (simp add: plus_ff.rep_eq one_ff.rep_eq Suc)
  then show ?case
    by (simp add: mod_add_right_eq)
qed

lemma ff_int_of_int [simp]: "ff_int (of_int z) = z mod fr_order"
proof (cases z rule: int_cases2)
  case (nonneg n)
  then show ?thesis
    by (simp add: ff_int_of_nat)
next
  case (nonpos n)
  then show ?thesis
    by (simp add: uminus_ff.rep_eq ff_int_of_nat mod_minus_eq)
qed

lemma of_ff_int [simp]: "of_int (ff_int x) = x"
  using ff_int_range [of x] by (simp add: ff_eq_iff)

lemma of_int_ff_eq_iff: "(of_int a :: ff) = of_int b \<longleftrightarrow> a mod fr_order = b mod fr_order"
  by (simp add: ff_eq_iff)

lemma of_int_ff_eq_0_iff: "(of_int a :: ff) = 0 \<longleftrightarrow> a mod fr_order = 0"
  using of_int_ff_eq_iff [of a 0] by simp

lemma of_nat_ff_eq_0_iff: "(of_nat n :: ff) = 0 \<longleftrightarrow> int n mod fr_order = 0"
  using of_int_ff_eq_0_iff [of "int n"] by simp

lemma ff_int_0 [simp]: "ff_int 0 = 0"
  by (rule zero_ff.rep_eq)

lemma ff_int_1 [simp]: "ff_int 1 = 1"
  by (rule one_ff.rep_eq)

lemma ff_int_numeral [simp]: "ff_int (numeral n) = numeral n mod fr_order"
  using ff_int_of_int [of "numeral n"] by (simp del: ff_int_of_int)

lemma of_int_mod_order [simp]: "(of_int (a mod fr_order) :: ff) = of_int a"
  by (simp add: of_int_ff_eq_iff)

section \<open>Inverses\<close>

text \<open>The theorem of Fermat for the order of the curve.\<close>

lemma ff_fermat:
  assumes "(x::ff) \<noteq> 0"
  shows "x ^ nat (fr_order - 1) = 1"
proof -
  have "\<not> fr_order dvd ff_int x"
  proof
    assume "fr_order dvd ff_int x"
    then have "ff_int x = 0"
      using ff_int_range [of x] by (auto dest: zdvd_imp_le)
    with assms show False
      by (simp add: ff_eq_iff)
  qed
  then have "ff_int x ^ nat (fr_order - 1) mod fr_order = 1"
    by (rule fermat [OF fr_order_prime])
  then have "(of_int (ff_int x ^ nat (fr_order - 1)) :: ff) = of_int 1"
    unfolding of_int_ff_eq_iff by simp
  then show ?thesis
    by simp
qed

instantiation ff :: field
begin

definition inverse_ff :: "ff \<Rightarrow> ff" where
  "inverse_ff x = x ^ nat (fr_order - 2)"

definition divide_ff :: "ff \<Rightarrow> ff \<Rightarrow> ff" where
  "divide_ff x y = x * inverse y"

instance
proof
  fix a :: ff
  assume "a \<noteq> 0"
  have "nat (fr_order - 1) = Suc (nat (fr_order - 2))"
    by simp
  then have "inverse a * a = a ^ nat (fr_order - 1)"
    by (simp only: inverse_ff_def power_Suc2)
  also have "\<dots> = 1"
    by (rule ff_fermat) fact
  finally show "inverse a * a = 1" .
next
  fix a b :: ff
  show "a div b = a * inverse b"
    by (simp add: divide_ff_def)
next
  show "inverse (0::ff) = 0"
    by (simp add: inverse_ff_def)
qed

end


lemma ff_inverse_power: "x \<noteq> 0 \<Longrightarrow> x * x ^ nat (fr_order - 2) = (1::ff)"
  using right_inverse [of x] by (simp only: inverse_ff_def not_False_eq_True)

text \<open>Small numbers stay apart in the field.\<close>

lemma of_nat_ff_inject:
  assumes "m < 2 ^ 253" "n < 2 ^ 253"
  shows "(of_nat m :: ff) = of_nat n \<longleftrightarrow> m = n"
proof -
  have "int m < fr_order" "int n < fr_order"
    using assms by simp_all
  then show ?thesis
    using of_int_ff_eq_iff [of "int m" "int n"] by simp
qed

end
