(* ===== verification/Field_Ops.thy ===== *)
theory Field_Ops
  imports Field_Montgomery Scalar_Field
begin

text \<open>
  The class field of ecc/fields/field_impl.hpp and field_declarations.hpp over the limb
  arithmetic of Field_Limbs, on the path without hand-written assembly: operators,
  comparison, the conversions to and from Montgomery form, powers, inverses, batch
  inversion, roots of unity. An element is a uint256_t in Montgomery form, below twice the
  modulus. The interface field_repr states what the operations promise to the algorithms
  built on them; it is interpreted on the scalar field fr of the curve bn254.
\<close>

section \<open>Operators\<close>

definition fe_mul :: "field_params \<Rightarrow> uint256_t \<Rightarrow> uint256_t \<Rightarrow> uint256_t" where
  "fe_mul P x y = f_montgomery_mul P x y"

definition fe_sqr :: "field_params \<Rightarrow> uint256_t \<Rightarrow> uint256_t" where
  "fe_sqr P x = f_montgomery_square P x"

definition fe_add :: "field_params \<Rightarrow> uint256_t \<Rightarrow> uint256_t \<Rightarrow> uint256_t" where
  "fe_add P x y = f_add P x y"

definition fe_sub :: "field_params \<Rightarrow> uint256_t \<Rightarrow> uint256_t \<Rightarrow> uint256_t" where
  "fe_sub P x y = f_subtract_coarse P x y"

definition fe_reduce_once :: "field_params \<Rightarrow> uint256_t \<Rightarrow> uint256_t" where
  "fe_reduce_once P x = f_reduce P x"

text \<open>A modulus of one limb takes the same branch of the negation as a big one.\<close>

definition fe_neg :: "field_params \<Rightarrow> uint256_t \<Rightarrow> uint256_t" where
  "fe_neg P x =
     (if big_modulus P \<or> (data1 (modulus P) = 0 \<and> data2 (modulus P) = 0 \<and> data3 (modulus P) = 0)
      then fe_sub P (modulus P) x
      else fe_reduce_once P (fe_sub P (twice_modulus P) x))"

definition fe_conditional_negate :: "field_params \<Rightarrow> uint256_t \<Rightarrow> u64 \<Rightarrow> uint256_t" where
  "fe_conditional_negate P x predicate = (if predicate \<noteq> 0 then fe_neg P x else x)"

definition fe_gt :: "field_params \<Rightarrow> uint256_t \<Rightarrow> uint256_t \<Rightarrow> bool" where
  "fe_gt P x y =
     (let left = fe_reduce_once P x;
          right = fe_reduce_once P y;
          t0 = data3 left > data3 right;
          t1 = data3 left = data3 right \<and> data2 left > data2 right;
          t2 = data3 left = data3 right \<and> data2 left = data2 right \<and> data1 left > data1 right;
          t3 = data3 left = data3 right \<and> data2 left = data2 right \<and> data1 left = data1 right \<and>
            data0 left > data0 right
      in t0 \<or> t1 \<or> t2 \<or> t3)"

definition fe_lt :: "field_params \<Rightarrow> uint256_t \<Rightarrow> uint256_t \<Rightarrow> bool" where
  "fe_lt P x y = fe_gt P y x"

definition fe_eq :: "field_params \<Rightarrow> uint256_t \<Rightarrow> uint256_t \<Rightarrow> bool" where
  "fe_eq P x y =
     (let left = fe_reduce_once P x;
          right = fe_reduce_once P y
      in data0 left = data0 right \<and> data1 left = data1 right \<and> data2 left = data2 right \<and>
         data3 left = data3 right)"

definition fe_ne :: "field_params \<Rightarrow> uint256_t \<Rightarrow> uint256_t \<Rightarrow> bool" where
  "fe_ne P x y = (\<not> fe_eq P x y)"

section \<open>Montgomery form\<close>

definition fe_to_montgomery_form :: "field_params \<Rightarrow> uint256_t \<Rightarrow> uint256_t" where
  "fe_to_montgomery_form P x =
     (let result = fe_reduce_once P x;
          result = fe_reduce_once P result;
          result = fe_reduce_once P result
      in fe_reduce_once P (fe_mul P result (r_squared P)))"

definition fe_from_montgomery_form :: "field_params \<Rightarrow> uint256_t \<Rightarrow> uint256_t" where
  "fe_from_montgomery_form P x = fe_reduce_once P (fe_mul P x (Uint256 1 0 0 0))"

definition fe_zero :: uint256_t where
  "fe_zero = Uint256 0 0 0 0"

text \<open>The constructors from integers; the last one takes a signed 32-bit integer.\<close>

definition fe_of_uint256 :: "field_params \<Rightarrow> uint256_t \<Rightarrow> uint256_t" where
  "fe_of_uint256 P x = fe_to_montgomery_form P x"

definition fe_of_u64 :: "field_params \<Rightarrow> u64 \<Rightarrow> uint256_t" where
  "fe_of_u64 P a = fe_to_montgomery_form P (Uint256 a 0 0 0)"

definition fe_of_int :: "field_params \<Rightarrow> 32 word \<Rightarrow> uint256_t" where
  "fe_of_int P a =
     (if a <s 0
      then fe_reduce_once P (fe_neg P (fe_to_montgomery_form P (Uint256 (scast (- a)) 0 0 0)))
      else fe_to_montgomery_form P (Uint256 (scast a) 0 0 0))"

definition fe_one :: "field_params \<Rightarrow> uint256_t" where
  "fe_one P = fe_of_int P 1"

definition fe_neg_one :: "field_params \<Rightarrow> uint256_t" where
  "fe_neg_one P = fe_neg P (fe_of_int P 1)"

definition fe_to_uint256 :: "field_params \<Rightarrow> uint256_t \<Rightarrow> uint256_t" where
  "fe_to_uint256 P x =
     (let out = fe_from_montgomery_form P x in Uint256 (data0 out) (data1 out) (data2 out) (data3 out))"

definition fe_to_u64 :: "field_params \<Rightarrow> uint256_t \<Rightarrow> u64" where
  "fe_to_u64 P x = data0 (fe_from_montgomery_form P x)"

definition fe_to_u32 :: "field_params \<Rightarrow> uint256_t \<Rightarrow> u32" where
  "fe_to_u32 P x = ucast (data0 (fe_from_montgomery_form P x))"

definition fe_to_u128 :: "field_params \<Rightarrow> uint256_t \<Rightarrow> u128" where
  "fe_to_u128 P x =
     (let out = fe_from_montgomery_form P x in push_bit 64 (ucast (data1 out)) OR ucast (data0 out))"

definition fe_is_zero :: "field_params \<Rightarrow> uint256_t \<Rightarrow> bool" where
  "fe_is_zero P x \<longleftrightarrow>
     (data0 x OR data1 x OR data2 x OR data3 x) = 0 \<or>
     (data0 x = data0 (modulus P) \<and> data1 x = data1 (modulus P) \<and> data2 x = data2 (modulus P) \<and>
      data3 x = data3 (modulus P))"

definition fe_set_msb :: "uint256_t \<Rightarrow> uint256_t" where
  "fe_set_msb x = Uint256 (data0 x) (data1 x) (data2 x) (0 OR push_bit 63 1)"

definition fe_is_msb_set :: "uint256_t \<Rightarrow> bool" where
  "fe_is_msb_set x \<longleftrightarrow> drop_bit 63 (data3 x) = 1"

definition fe_is_msb_set_word :: "uint256_t \<Rightarrow> u64" where
  "fe_is_msb_set_word x = drop_bit 63 (data3 x)"

section \<open>Powers and inverses\<close>

fun fe_pow_loop :: "field_params \<Rightarrow> uint256_t \<Rightarrow> uint256_t \<Rightarrow> nat \<Rightarrow> uint256_t \<Rightarrow> uint256_t" where
  "fe_pow_loop P to_mul exponent 0 acc = acc"
| "fe_pow_loop P to_mul exponent (Suc i) acc =
     (let acc = fe_sqr P acc;
          acc = (if u256_get_bit exponent (of_nat i) = Some True then fe_mul P acc to_mul else acc)
      in fe_pow_loop P to_mul exponent i acc)"

definition fe_pow :: "field_params \<Rightarrow> uint256_t \<Rightarrow> uint256_t \<Rightarrow> uint256_t" where
  "fe_pow P x exponent =
     (let maximum_set_bit = u256_get_msb exponent;
          acc = fe_pow_loop P x exponent (unat maximum_set_bit) x
      in if u256_eq exponent (uint256_of_u64 0) then fe_one P
         else if fe_eq P x fe_zero then fe_zero
         else acc)"

definition fe_pow64 :: "field_params \<Rightarrow> uint256_t \<Rightarrow> u64 \<Rightarrow> uint256_t" where
  "fe_pow64 P x exponent = fe_pow P x (Uint256 exponent 0 0 0)"

datatype field_error = InvertZero

definition fe_invert :: "field_params \<Rightarrow> uint256_t \<Rightarrow> field_error + uint256_t" where
  "fe_invert P x = (if fe_eq P x fe_zero then Inl InvertZero else Inr (fe_pow P x (modulus_minus_two P)))"

definition fe_div :: "field_params \<Rightarrow> uint256_t \<Rightarrow> uint256_t \<Rightarrow> field_error + uint256_t" where
  "fe_div P x y = ebind (fe_invert P y) (\<lambda>i. Inr (fe_mul P x i))"

text \<open>
  Batch inversion: the first loop stores the product of the elements before each one and
  marks the zeros, which it leaves out of the product; the second goes back from the end.
\<close>

fun batch_products :: "field_params \<Rightarrow> uint256_t \<Rightarrow> uint256_t list \<Rightarrow> (uint256_t \<times> bool) list \<times> uint256_t" where
  "batch_products P acc [] = ([], acc)"
| "batch_products P acc (c # coeffs) =
     (if fe_is_zero P c
      then let (ts, a) = batch_products P acc coeffs in ((acc, True) # ts, a)
      else let (ts, a) = batch_products P (fe_mul P acc c) coeffs in ((acc, False) # ts, a))"

fun batch_back :: "field_params \<Rightarrow> uint256_t \<Rightarrow> (uint256_t \<times> uint256_t \<times> bool) list \<Rightarrow> uint256_t list" where
  "batch_back P acc [] = []"
| "batch_back P acc ((c, temporary, skipped) # rest) =
     (if skipped then c # batch_back P acc rest
      else fe_mul P acc temporary # batch_back P (fe_mul P acc c) rest)"

definition fe_batch_invert :: "field_params \<Rightarrow> uint256_t list \<Rightarrow> field_error + uint256_t list" where
  "fe_batch_invert P coeffs =
     (let (ts, acc) = batch_products P (fe_one P) coeffs
      in ebind (fe_invert P acc) (\<lambda>acc.
           Inr (rev (batch_back P acc (rev (zip coeffs ts))))))"

section \<open>Roots\<close>

text \<open>The loop counts the trailing zero bits of the modulus less one; None is the failed assertion of get_bit.\<close>

definition fe_primitive_root_log_size :: "field_params \<Rightarrow> nat option" where
  "fe_primitive_root_log_size P =
     (let target = u256_sub (modulus P) (uint256_of_u64 1)
      in Option.bind (while_option (\<lambda>result. u256_get_bit target (of_nat result) = Some False) Suc 0) (\<lambda>result.
         map_option (\<lambda>_. result) (u256_get_bit target (of_nat result))))"

fun fe_sqr_times :: "field_params \<Rightarrow> nat \<Rightarrow> uint256_t \<Rightarrow> uint256_t" where
  "fe_sqr_times P 0 r = r"
| "fe_sqr_times P (Suc n) r = fe_sqr_times P n (fe_sqr P r)"

definition fe_get_root_of_unity :: "field_params \<Rightarrow> nat \<Rightarrow> uint256_t option" where
  "fe_get_root_of_unity P subgroup_size =
     map_option (\<lambda>log_size. fe_sqr_times P (log_size - subgroup_size) (primitive_root P))
       (fe_primitive_root_log_size P)"

section \<open>The interface\<close>

text \<open>
  What an algorithm over field elements relies on: a set ok of limb values on which the
  operations stay, and the element val each stands for.
\<close>

locale field_repr =
  fixes P :: field_params
    and val :: "uint256_t \<Rightarrow> 'f::field"
    and ok :: "uint256_t \<Rightarrow> bool"
    and order :: int
  assumes mul: "ok x \<Longrightarrow> ok y \<Longrightarrow> ok (fe_mul P x y) \<and> val (fe_mul P x y) = val x * val y"
    and sqr: "ok x \<Longrightarrow> ok (fe_sqr P x) \<and> val (fe_sqr P x) = val x * val x"
    and one: "ok (fe_one P) \<and> val (fe_one P) = 1"
    and zero: "ok fe_zero \<and> val fe_zero = 0"
    and eq: "ok x \<Longrightarrow> ok y \<Longrightarrow> fe_eq P x y \<longleftrightarrow> val x = val y"
    and is_zero: "ok x \<Longrightarrow> fe_is_zero P x \<longleftrightarrow> val x = 0"
    and exponent: "ival (modulus_minus_two P) = order - 2" "2 < order"
    and fermat: "a \<noteq> 0 \<Longrightarrow> a ^ nat (order - 1) = (1::'f)"
begin

sublocale pow: square_multiply "fe_pow_loop P to_mul exponent" val "\<lambda>acc. ok acc \<and> ok to_mul"
    "val to_mul" "nat (ival exponent)" 256 for to_mul exponent
proof (unfold_locales, goal_cases)
  case (2 acc i)
  have "u256_get_bit exponent (of_nat i) = Some (odd (nat (ival exponent) div 2 ^ i))"
    using 2(2) u256_get_bit_eq [of "of_nat i" exponent]
    by (simp add: word_less_nat_alt unat_of_nat ival_odd_div)
  then show ?case
    using 2(1) sqr [of acc] mul [of "fe_sqr P acc" to_mul] by (auto simp: Let_def)
qed simp

lemma pow_val:
  assumes "ok x"
  shows "ok (fe_pow P x e)" and "val (fe_pow P x e) = val x ^ nat (ival e)"
proof -
  have "ok (fe_pow P x e) \<and> val (fe_pow P x e) = val x ^ nat (ival e)"
  proof (cases "ival e = 0 \<or> val x = 0")
    case True
    then show ?thesis
      using one zero eq [OF assms] ival_range [of e] by (auto simp: fe_pow_def u256_cmp_iffs zero_power)
  next
    case False
    define n where "n = unat (u256_get_msb e)"
    have "nat (ival e) div 2 ^ n = 1"
    proof (rule div_eq_one_between)
      show "2 ^ n \<le> nat (ival e)" "nat (ival e) < 2 ^ Suc n"
        using u256_get_msb_spec [of e] False ival_range [of e] unfolding n_def
        by (simp_all add: le_nat_iff nat_less_iff)
    qed
    moreover have "n \<le> 256"
      using u256_get_msb_spec(3) [of e] False unfolding n_def by simp
    ultimately show ?thesis
      using pow.loop_power [of x x n e] assms zero eq [OF assms] False
      by (auto simp: fe_pow_def Let_def u256_cmp_iffs n_def)
  qed
  then show "ok (fe_pow P x e)" "val (fe_pow P x e) = val x ^ nat (ival e)"
    by simp_all
qed

lemma fermat_inverse:
  assumes "(a::'f) \<noteq> 0"
  shows "a ^ nat (order - 2) = inverse a"
proof -
  have "nat (order - 1) = Suc (nat (order - 2))"
    using exponent(2) by simp
  then have "a * a ^ nat (order - 2) = 1"
    using fermat [OF assms] by simp
  then show ?thesis
    by (rule inverse_unique [symmetric])
qed

lemma invert_val:
  assumes "ok x"
  shows "val x = 0 \<Longrightarrow> fe_invert P x = Inl InvertZero"
    and "val x \<noteq> 0 \<Longrightarrow> \<exists>y. fe_invert P x = Inr y \<and> ok y \<and> val y = inverse (val x)"
  using assms eq [of x fe_zero] zero pow_val [of x "modulus_minus_two P"] fermat_inverse [of "val x"]
  by (auto simp: fe_invert_def exponent(1))

lemma div_val:
  assumes "ok x" "ok y"
  shows "val y = 0 \<Longrightarrow> fe_div P x y = Inl InvertZero"
    and "val y \<noteq> 0 \<Longrightarrow> \<exists>z. fe_div P x y = Inr z \<and> ok z \<and> val z = val x / val y"
  using invert_val [OF assms(2)] mul [OF assms(1)] by (auto simp: fe_div_def divide_inverse)

text \<open>The product of the elements that are not zero.\<close>

definition live :: "uint256_t list \<Rightarrow> 'f" where
  "live cs = (\<Prod>c\<leftarrow>filter (\<lambda>c. val c \<noteq> 0) cs. val c)"

lemma live_nonzero: "live cs \<noteq> 0"
  by (induction cs) (auto simp: live_def)

lemma live_simps [simp]:
  "live [] = 1" "live (c # cs) = (if val c = 0 then live cs else val c * live cs)"
  by (simp_all add: live_def)

lemma live_snoc: "live (cs @ [c]) = (if val c = 0 then live cs else live cs * val c)"
  by (induction cs) auto

lemma batch_products_val:
  assumes "ok acc" "\<forall>c\<in>set cs. ok c" "batch_products P acc cs = (ts, a)"
  shows "ok a \<and> val a = val acc * live cs \<and> length ts = length cs \<and>
    (\<forall>i<length cs. ok (fst (ts ! i)) \<and> val (fst (ts ! i)) = val acc * live (take i cs) \<and>
      snd (ts ! i) = (val (cs ! i) = 0))"
  using assms
proof (induction cs arbitrary: acc ts a)
  case (Cons c cs)
  define acc' where "acc' = (if val c = 0 then acc else fe_mul P acc c)"
  obtain us where us: "batch_products P acc' cs = (us, a)" "ts = (acc, val c = 0) # us"
    using Cons.prems(3) is_zero [of c] Cons.prems(2)
    by (auto simp: acc'_def Let_def split: prod.splits if_splits)
  have acc': "ok acc'" "val acc' * x = val acc * (if val c = 0 then x else val c * x)" for x
    using Cons.prems(1,2) mul [of acc c] by (auto simp: acc'_def)
  note IH = Cons.IH [OF acc'(1) _ us(1)]
  show ?case
    using IH Cons.prems(1,2) us(2) acc'(2) by (auto simp: nth_Cons split: nat.split)
qed simp

lemma batch_back_val:
  assumes "ok acc" "val acc = inverse (live cs)" "\<forall>c\<in>set cs. ok c" "length ts = length cs"
    "\<forall>i<length cs. ok (fst (ts ! i)) \<and> val (fst (ts ! i)) = live (take i cs) \<and>
      snd (ts ! i) = (val (cs ! i) = 0)"
  shows "map val (rev (batch_back P acc (rev (zip cs ts)))) = map (inverse \<circ> val) cs"
  using assms
proof (induction cs arbitrary: acc ts rule: rev_induct)
  case (snoc c cs)
  obtain us t z where ts: "ts = us @ [(t, z)]" "length us = length cs"
    using snoc.prems(4) by (cases ts rule: rev_cases) auto
  have last: "ok t" "val t = live cs" "z = (val c = 0)"
    using snoc.prems(5) [rule_format, of "length cs"] ts by (simp_all add: nth_append)
  have rest: "\<forall>i<length cs. ok (fst (us ! i)) \<and> val (fst (us ! i)) = live (take i cs) \<and>
      snd (us ! i) = (val (cs ! i) = 0)"
  proof (intro allI impI)
    fix i assume "i < length cs"
    then show "ok (fst (us ! i)) \<and> val (fst (us ! i)) = live (take i cs) \<and> snd (us ! i) = (val (cs ! i) = 0)"
      using snoc.prems(5) [rule_format, of i] ts by (simp add: nth_append)
  qed
  have ok: "ok c" "\<forall>c\<in>set cs. ok c"
    using snoc.prems(3) by auto
  show ?case
  proof (cases "val c = 0")
    case True
    then show ?thesis
      using snoc.IH [OF snoc.prems(1) _ ok(2) ts(2) rest] snoc.prems(2) ts last
      by (simp add: live_snoc)
  next
    case False
    have "val (fe_mul P acc c) = inverse (live cs)"
      using mul [OF snoc.prems(1) ok(1)] snoc.prems(2) False by (simp add: live_snoc)
    moreover have "val (fe_mul P acc t) = inverse (val c)"
      using mul [OF snoc.prems(1) last(1)] snoc.prems(2) False last(2) live_nonzero [of cs]
      by (simp add: live_snoc)
    moreover have "ok (fe_mul P acc c)"
      using mul [OF snoc.prems(1) ok(1)] by simp
    ultimately show ?thesis
      using snoc.IH [OF _ _ ok(2) ts(2) rest] ts last False by simp
  qed
qed simp

lemma batch_invert_val:
  assumes "\<forall>c\<in>set cs. ok c"
  shows "\<exists>ds. fe_batch_invert P cs = Inr ds \<and> map val ds = map (inverse \<circ> val) cs"
proof -
  obtain ts a where run: "batch_products P (fe_one P) cs = (ts, a)" by fastforce
  note products = batch_products_val [OF conjunct1 [OF one] assms run]
  then have "val a = live cs"
    using one by simp
  with products obtain b where b: "fe_invert P a = Inr b" "ok b" "val b = inverse (live cs)"
    using invert_val [of a] live_nonzero [of cs] by auto
  show ?thesis
    using batch_back_val [OF b(2,3) assms] products one run b(1)
    by (simp add: fe_batch_invert_def)
qed

lemma sqr_times_val:
  "ok r \<Longrightarrow> ok (fe_sqr_times P n r) \<and> val (fe_sqr_times P n r) = val r ^ 2 ^ n"
proof (induction n arbitrary: r)
  case (Suc n)
  then show ?case
    using sqr [of r] by (simp add: power_mult flip: power2_eq_square)
qed simp

end

end
