(* ===== verification/Fr.thy ===== *)
theory Fr
  imports Field_Ops
begin

text \<open>
  The scalar field of the curve bn254, ecc/curves/bn254/fr.hpp: the parameters of the class
  field, and the proof that the limb arithmetic with these parameters is the arithmetic of
  the abstract field ff. An element below twice the modulus stands for its value divided by
  the Montgomery radix.
\<close>

definition fr_params :: field_params where
  "fr_params = \<lparr>
     modulus = Uint256 0x43E1F593F0000001 0x2833E84879B97091 0xB85045B68181585D 0x30644E72E131A029,
     r_squared = Uint256 0x1BB8E645AE216DA7 0x53FE3AB1E35C59E3 0x8C49833D53BB8085 0x216D0B17F4E44A5,
     r_inv = 0xc2e1f593efffffff,
     primitive_root = Uint256 0x636e735580d13d9c 0xa22bf3742445ffd6 0x56452ac01eb203d8 0x1860ef942963f9e7\<rparr>"

lemma fr_modulus: "ival (modulus fr_params) = fr_order"
  by (simp add: fr_params_def ival_def)

lemma fr_params_ok: "params_ok fr_params"
  by (simp add: params_ok_def fr_modulus) (simp add: fr_params_def ival_def)

lemma fr_small: "\<not> big_modulus fr_params"
  unfolding big_modulus_iff fr_modulus by simp

definition fr_ok :: "uint256_t \<Rightarrow> bool" where
  "fr_ok x \<longleftrightarrow> ival x < 2 * fr_order"

definition fr_radix :: ff where
  "fr_radix = of_int B256"

definition fr_val :: "uint256_t \<Rightarrow> ff" where
  "fr_val x = of_int (ival x) / fr_radix"

lemma fr_radix_nonzero: "fr_radix \<noteq> 0"
  unfolding fr_radix_def of_int_ff_eq_0_iff by simp

lemma fr_order_0 [simp]: "(of_int fr_order :: ff) = 0" "(21888242871839275222246405745257275088548364400416034343698204186575808495617 :: ff) = 0"
  using of_int_ff_eq_0_iff [of fr_order] by simp_all

text \<open>What Montgomery reduction means for the values.\<close>

lemma redc_val:
  assumes "B256 * c = ab + k * fr_order"
  shows "of_int c * fr_radix = (of_int ab :: ff)"
proof -
  have "of_int (B256 * c) = (of_int (ab + k * fr_order) :: ff)"
    using assms by simp
  then have "of_int B256 * of_int c = (of_int ab + of_int k * of_int fr_order :: ff)"
    by (simp only: of_int_mult of_int_add)
  then show ?thesis
    unfolding fr_radix_def fr_order_0 by (simp add: mult.commute)
qed

lemma redc_product:
  assumes "B256 * ival c = ival a * ival b + k * fr_order"
  shows "fr_val c = fr_val a * fr_val b"
  using redc_val [OF assms] fr_radix_nonzero unfolding fr_val_def
  by (simp add: field_simps)

lemma fr_mul:
  assumes "fr_ok x" "fr_ok y"
  shows "fr_ok (fe_mul fr_params x y)" "fr_val (fe_mul fr_params x y) = fr_val x * fr_val y"
proof -
  obtain K where K: "B256 * ival (fe_mul fr_params x y) = ival x * ival y + ival K * fr_order"
    using montgomery_mul_eq [OF fr_params_ok fr_small, of y x] assms(2)
    unfolding fe_mul_def fr_modulus fr_ok_def by blast
  then show "fr_val (fe_mul fr_params x y) = fr_val x * fr_val y"
    by (rule redc_product)
  have "ival x * ival y \<le> (2 * fr_order) * (2 * fr_order)"
    using assms ival_range [of x] ival_range [of y] unfolding fr_ok_def by (intro mult_mono) auto
  then have "ival x * ival y < B256 * fr_order"
    by simp
  then show "fr_ok (fe_mul fr_params x y)"
    unfolding fr_ok_def by (intro redc_bound [OF K]) simp_all
qed

lemma fr_sqr:
  assumes "fr_ok x"
  shows "fr_ok (fe_sqr fr_params x)" "fr_val (fe_sqr fr_params x) = fr_val x * fr_val x"
proof -
  obtain K where K: "B256 * ival (fe_sqr fr_params x) = ival x * ival x + ival K * fr_order"
    using montgomery_square_eq [OF fr_params_ok fr_small, of x] assms
    unfolding fe_sqr_def fr_modulus fr_ok_def by auto
  then show "fr_val (fe_sqr fr_params x) = fr_val x * fr_val x"
    by (rule redc_product)
  have "ival x * ival x \<le> (2 * fr_order) * (2 * fr_order)"
    using assms ival_range [of x] unfolding fr_ok_def by (intro mult_mono) auto
  then have "ival x * ival x < B256 * fr_order"
    by simp
  then show "fr_ok (fe_sqr fr_params x)"
    unfolding fr_ok_def by (intro redc_bound [OF K]) simp_all
qed

lemma fr_val_cong: "ival x = ival y + k * fr_order \<Longrightarrow> fr_val x = fr_val y"
  unfolding fr_val_def by simp

lemma fr_reduce:
  shows "fr_val (fe_reduce_once fr_params x) = fr_val x"
    and "fr_ok x \<Longrightarrow> ival (fe_reduce_once fr_params x) < fr_order"
proof -
  note eq = f_reduce_eq [of fr_params x, unfolded fr_modulus, folded fe_reduce_once_def]
  show "fr_val (fe_reduce_once fr_params x) = fr_val x"
    by (rule fr_val_cong [of _ _ "if fr_order \<le> ival x then - 1 else 0"]) (use eq in simp)
  show "fr_ok x \<Longrightarrow> ival (fe_reduce_once fr_params x) < fr_order"
    using eq unfolding fr_ok_def by auto
qed

lemma fr_add:
  assumes "fr_ok x" "fr_ok y"
  shows "fr_ok (fe_add fr_params x y)" "fr_val (fe_add fr_params x y) = fr_val x + fr_val y"
proof -
  note eq = f_add_coarse [OF fr_small, unfolded fr_modulus, folded fe_add_def, of x y]
  show "fr_ok (fe_add fr_params x y)"
    using eq assms unfolding fr_ok_def by auto
  have "of_int (ival (fe_add fr_params x y)) = (of_int (ival x + ival y) :: ff)"
    using eq assms unfolding fr_ok_def of_int_ff_eq_iff by (auto simp: mod_eq_dvd_iff)
  then show "fr_val (fe_add fr_params x y) = fr_val x + fr_val y"
    unfolding fr_val_def by (simp add: add_divide_distrib)
qed

lemma fr_sub_le:
  assumes "ival y \<le> 2 * fr_order"
  shows "fr_val (fe_sub fr_params x y) = fr_val x - fr_val y"
    and "ival (fe_sub fr_params x y) = (if ival x < ival y then ival x - ival y + 2 * fr_order else ival x - ival y)"
proof -
  note eq = f_subtract_coarse_small [OF fr_small, unfolded fr_modulus, folded fe_sub_def, of y x]
  show "ival (fe_sub fr_params x y) = (if ival x < ival y then ival x - ival y + 2 * fr_order else ival x - ival y)"
    using eq assms by simp
  have "of_int (ival (fe_sub fr_params x y)) = (of_int (ival x - ival y) :: ff)"
    using eq assms unfolding of_int_ff_eq_iff by (auto simp: mod_eq_dvd_iff)
  then show "fr_val (fe_sub fr_params x y) = fr_val x - fr_val y"
    unfolding fr_val_def by (simp add: diff_divide_distrib)
qed

lemma fr_sub:
  assumes "fr_ok x" "fr_ok y"
  shows "fr_ok (fe_sub fr_params x y)" "fr_val (fe_sub fr_params x y) = fr_val x - fr_val y"
  using fr_sub_le [of y x] assms ival_range [of y] unfolding fr_ok_def by auto

lemma fr_neg:
  assumes "fr_ok x"
  shows "fr_ok (fe_neg fr_params x)" "fr_val (fe_neg fr_params x) = - fr_val x"
proof -
  have tm: "ival (twice_modulus fr_params) = 2 * fr_order"
    using ival_twice_modulus [of fr_params] unfolding fr_modulus by simp
  have neg: "fe_neg fr_params x = fe_reduce_once fr_params (fe_sub fr_params (twice_modulus fr_params) x)"
    using fr_small by (simp add: fe_neg_def) (simp add: fr_params_def)
  have val: "fr_val (twice_modulus fr_params) = 0"
    unfolding fr_val_def tm of_int_mult fr_order_0 by simp
  show "fr_val (fe_neg fr_params x) = - fr_val x"
    using fr_sub_le(1) [of x "twice_modulus fr_params"] assms
    unfolding neg fr_reduce val fr_ok_def by simp
  have "ival (fe_sub fr_params (twice_modulus fr_params) x) \<le> 2 * fr_order"
    using fr_sub_le(2) [of x "twice_modulus fr_params"] assms ival_range [of x] unfolding tm fr_ok_def by simp
  then show "fr_ok (fe_neg fr_params x)"
    using f_reduce_eq [of fr_params "fe_sub fr_params (twice_modulus fr_params) x"]
    unfolding neg fe_reduce_once_def fr_modulus fr_ok_def by simp
qed

lemma fr_val_reduced:
  assumes "ival x < fr_order" "ival y < fr_order"
  shows "fr_val x = fr_val y \<longleftrightarrow> x = y"
proof
  assume "fr_val x = fr_val y"
  then have "(of_int (ival x) :: ff) = of_int (ival y)"
    using fr_radix_nonzero unfolding fr_val_def by simp
  then have "ival x = ival y"
    using assms ival_range [of x] ival_range [of y] unfolding of_int_ff_eq_iff by simp
  then show "x = y"
    by (simp only: ival_inject)
qed simp

lemma fr_eq:
  assumes "fr_ok x" "fr_ok y"
  shows "fe_eq fr_params x y \<longleftrightarrow> fr_val x = fr_val y"
proof -
  have "fe_eq fr_params x y \<longleftrightarrow> fe_reduce_once fr_params x = fe_reduce_once fr_params y"
    unfolding fe_eq_def Let_def by (auto intro: uint256_t.expand)
  then show ?thesis
    using fr_val_reduced [OF fr_reduce(2) [OF assms(1)] fr_reduce(2) [OF assms(2)]]
    unfolding fr_reduce(1) by simp
qed

lemma fr_zero: "fr_ok fe_zero" "fr_val fe_zero = 0"
  by (simp_all add: fr_ok_def fe_zero_def fr_val_def)

lemma small_multiple:
  assumes "0 \<le> x" "x < 2 * m"
  shows "x = 0 \<or> x = m \<longleftrightarrow> x mod m = (0::int)"
proof (cases "x < m")
  case True
  then show ?thesis
    using assms by simp
next
  case False
  then have "(x - m) mod m = x - m"
    using assms by (intro mod_pos_pos_trivial) simp_all
  then show ?thesis
    using assms False by auto
qed

lemma fr_is_zero:
  assumes "fr_ok x"
  shows "fe_is_zero fr_params x \<longleftrightarrow> fr_val x = 0"
proof -
  have "fe_is_zero fr_params x \<longleftrightarrow> x = Uint256 0 0 0 0 \<or> x = modulus fr_params"
    unfolding fe_is_zero_def by (cases x; cases "modulus fr_params") (simp add: or_eq_0_iff)
  also have "\<dots> \<longleftrightarrow> ival x = 0 \<or> ival x = fr_order"
    unfolding ival_eq_0_iff fr_modulus [symmetric] ival_inject ..
  also have "\<dots> \<longleftrightarrow> ival x mod fr_order = 0"
    using assms ival_range [of x] unfolding fr_ok_def by (intro small_multiple) auto
  also have "\<dots> \<longleftrightarrow> fr_val x = 0"
    using fr_radix_nonzero unfolding fr_val_def by (simp add: of_int_ff_eq_0_iff)
  finally show ?thesis .
qed

section \<open>Conversions\<close>

lemma fr_to_montgomery:
  "ival (fe_to_montgomery_form fr_params x) < fr_order" "fr_val (fe_to_montgomery_form fr_params x) = of_int (ival x)"
proof -
  define y where "y = fe_reduce_once fr_params (fe_reduce_once fr_params (fe_reduce_once fr_params x))"
  have y: "fr_val y = fr_val x"
    unfolding y_def fr_reduce(1) ..
  define c where "c = fe_mul fr_params y (r_squared fr_params)"
  have r2: "ival (r_squared fr_params) = B256 * B256 mod fr_order"
    using fr_params_ok unfolding params_ok_def fr_modulus by (elim conjE)
  have r2_lt: "ival (r_squared fr_params) < fr_order"
    unfolding r2 by (rule pos_mod_bound) simp
  obtain K where K: "B256 * ival c = ival y * ival (r_squared fr_params) + ival K * fr_order"
    using montgomery_mul_eq [OF fr_params_ok fr_small, of "r_squared fr_params" y] r2_lt
    unfolding c_def fe_mul_def fr_modulus by auto
  have "fr_val c = fr_val y * fr_val (r_squared fr_params)"
    by (rule redc_product [OF K])
  moreover have "fr_val (r_squared fr_params) = fr_radix"
  proof -
    have "(of_int (ival (r_squared fr_params)) :: ff) = of_int (B256 * B256)"
      unfolding r2 by (rule of_int_mod_order)
    also have "\<dots> = fr_radix * fr_radix"
      unfolding fr_radix_def by (rule of_int_mult)
    finally show ?thesis
      using fr_radix_nonzero unfolding fr_val_def by simp
  qed
  ultimately have "fr_val c = fr_val x * fr_radix"
    unfolding y by (simp only:)
  then have c: "fr_val c = of_int (ival x)"
    using fr_radix_nonzero unfolding fr_val_def [of x] by simp
  have "ival y * ival (r_squared fr_params) < B256 * fr_order"
    using ival_range [of y] ival_range [of "r_squared fr_params"] r2_lt by (intro mult_strict_mono) auto
  then have "fr_ok c"
    unfolding fr_ok_def by (intro redc_bound [OF K]) simp_all
  moreover have "fe_to_montgomery_form fr_params x = fe_reduce_once fr_params c"
    unfolding fe_to_montgomery_form_def y_def c_def Let_def ..
  ultimately show "ival (fe_to_montgomery_form fr_params x) < fr_order"
      "fr_val (fe_to_montgomery_form fr_params x) = of_int (ival x)"
    using fr_reduce [of c] c by simp_all
qed

lemma fr_from_montgomery:
  assumes "fr_ok x"
  shows "ival (fe_from_montgomery_form fr_params x) = ff_int (fr_val x)"
proof -
  define u where "u = Uint256 1 0 0 0"
  have u: "ival u = 1" by (simp add: u_def ival_def)
  define c where "c = fe_mul fr_params x u"
  obtain K where K: "B256 * ival c = ival x * ival u + ival K * fr_order"
    using montgomery_mul_eq [OF fr_params_ok fr_small, of u x] u
    unfolding c_def fe_mul_def fr_modulus by auto
  have "fr_val c = fr_val x * fr_val u"
    by (rule redc_product [OF K])
  then have val: "of_int (ival c) = fr_val x"
    using fr_radix_nonzero unfolding fr_val_def u by (simp add: field_simps)
  define d where "d = fe_from_montgomery_form fr_params x"
  have d: "d = fe_reduce_once fr_params c"
    unfolding d_def fe_from_montgomery_form_def c_def u_def ..
  have "ival c < 2 * fr_order"
    by (rule redc_bound [OF K]) (use assms in \<open>simp_all add: u fr_ok_def\<close>)
  then have lt: "ival d < fr_order"
    unfolding d using fr_reduce(2) [of c] by (simp add: fr_ok_def)
  have "fr_val d = fr_val c"
    unfolding d by (rule fr_reduce(1))
  then have "(of_int (ival d) :: ff) = of_int (ival c)"
    using fr_radix_nonzero unfolding fr_val_def by simp
  then have "of_int (ival d) = fr_val x"
    unfolding val .
  then have "ff_int (fr_val x) = ival d mod fr_order"
    using ff_int_of_int [of "ival d"] by simp
  then show ?thesis
    using lt ival_range [of d] unfolding d_def [symmetric] by simp
qed

lemma fe_one_eq: "fe_one P = fe_to_montgomery_form P (Uint256 1 0 0 0)"
proof -
  have "\<not> (1::32 word) <s 0"
    by (simp add: word_sless_alt)
  moreover have "scast (1::32 word) = (1::u64)"
    by simp
  ultimately show ?thesis
    by (simp add: fe_one_def fe_of_int_def)
qed

lemma fr_one: "fr_ok (fe_one fr_params)" "fr_val (fe_one fr_params) = 1"
proof -
  have "ival (Uint256 1 0 0 0) = 1"
    by (simp add: ival_def)
  then show "fr_ok (fe_one fr_params)" "fr_val (fe_one fr_params) = 1"
    using fr_to_montgomery [of "Uint256 1 0 0 0"] unfolding fe_one_eq fr_ok_def by simp_all
qed

text \<open>The interface of the algorithms, on the field fr.\<close>

interpretation fr: field_repr fr_params fr_val fr_ok fr_order
proof unfold_locales
  show "ival (modulus_minus_two fr_params) = fr_order - 2"
    by (simp add: modulus_minus_two_def fr_params_def ival_def)
  show "a \<noteq> 0 \<Longrightarrow> a ^ nat (fr_order - 1) = 1" for a :: ff
    by (rule ff_fermat)
qed (simp_all add: fr_mul fr_sqr fr_one fr_zero fr_eq fr_is_zero)

section \<open>What the field arithmetic promises\<close>

text \<open>
  Montgomery multiplication for a modulus below 2^254, with any left operand and a right
  operand below twice the modulus: the result times 2^256 is the product plus a multiple of
  the modulus less than 2^256 times it, so no carry is lost; and the result is below twice
  the modulus again when the product is below 2^256 times the modulus.
\<close>

theorem montgomery_mul_exact:
  assumes "params_ok P" and "\<not> big_modulus P" and "ival y < 2 * ival (modulus P)"
  shows "\<exists>K. B256 * ival (f_montgomery_mul P x y) = ival x * ival y + ival K * ival (modulus P)"
  using assms by (rule montgomery_mul_eq)

theorem montgomery_mul_exact_witness:
  "\<exists>K. B256 * ival (f_montgomery_mul fr_params (Uint256 5 6 7 8) (modulus fr_params)) =
     ival (Uint256 5 6 7 8) * ival (modulus fr_params) + ival K * ival (modulus fr_params)"
proof (rule montgomery_mul_exact [OF fr_params_ok fr_small])
  show "ival (modulus fr_params) < 2 * ival (modulus fr_params)"
    by (simp add: fr_modulus)
qed

text \<open>
  Squaring with its own carry chain (doubled cross products, a carry of two limbs) gives
  the same residue as multiplying the number by itself, as long as twice the number and the
  modulus fit into 256 bits together.
\<close>

theorem montgomery_square_is_mul:
  assumes "params_ok P" and "\<not> big_modulus P"
    and "2 * ival x + ival (modulus P) \<le> B256" and "ival x < 2 * ival (modulus P)"
  shows "(B256 * ival (f_montgomery_square P x)) mod ival (modulus P) =
    (B256 * ival (f_montgomery_mul P x x)) mod ival (modulus P)"
  using montgomery_square_eq [OF assms(1-3)] montgomery_mul_eq [OF assms(1,2,4), of x] by auto

theorem montgomery_square_is_mul_witness:
  "(B256 * ival (f_montgomery_square fr_params (Uint256 5 6 7 8))) mod ival (modulus fr_params) =
   (B256 * ival (f_montgomery_mul fr_params (Uint256 5 6 7 8) (Uint256 5 6 7 8))) mod ival (modulus fr_params)"
proof (rule montgomery_square_is_mul [OF fr_params_ok fr_small])
  show "2 * ival (Uint256 5 6 7 8) + ival (modulus fr_params) \<le> B256"
    "ival (Uint256 5 6 7 8) < 2 * ival (modulus fr_params)"
    unfolding fr_modulus by (simp_all add: ival_def)
qed

text \<open>
  C32: The operators of the class on the field fr are the operations of the field of integers
  modulo the prime order of bn254: on elements below twice the modulus, which is where every
  operator puts its result, although they never reduce below the modulus itself.
\<close>

theorem fr_operators:
  assumes "fr_ok x" and "fr_ok y"
  shows "fr_ok (fe_mul fr_params x y) \<and> fr_val (fe_mul fr_params x y) = fr_val x * fr_val y \<and>
    fr_ok (fe_sqr fr_params x) \<and> fr_val (fe_sqr fr_params x) = (fr_val x)\<^sup>2 \<and>
    fr_ok (fe_add fr_params x y) \<and> fr_val (fe_add fr_params x y) = fr_val x + fr_val y \<and>
    fr_ok (fe_sub fr_params x y) \<and> fr_val (fe_sub fr_params x y) = fr_val x - fr_val y \<and>
    fr_ok (fe_neg fr_params x) \<and> fr_val (fe_neg fr_params x) = - fr_val x \<and>
    (fe_eq fr_params x y \<longleftrightarrow> fr_val x = fr_val y) \<and>
    (fe_is_zero fr_params x \<longleftrightarrow> fr_val x = 0)"
  using assms by (simp add: fr_mul fr_sqr fr_add fr_sub fr_neg fr_eq fr_is_zero power2_eq_square)

theorem fr_operators_witness:
  "fr_val (fe_mul fr_params (Uint256 1 2 3 4) (modulus fr_params)) = 0 \<and>
   fr_val (fe_sub fr_params (Uint256 1 2 3 4) (Uint256 1 2 3 4)) = 0"
proof -
  have ok: "fr_ok (Uint256 1 2 3 4)" "fr_ok (modulus fr_params)"
    unfolding fr_ok_def fr_modulus by (simp_all add: ival_def)
  have "fr_val (modulus fr_params) = 0"
    unfolding fr_val_def fr_modulus by simp
  then show ?thesis
    using fr_operators [OF ok] fr_operators [OF ok(1) ok(1)] by simp
qed

text \<open>
  C33: Into Montgomery form and back is the identity modulo the order, for every 256-bit
  number, those above the modulus included.
\<close>

theorem fr_montgomery_roundtrip:
  "ival (fe_from_montgomery_form fr_params (fe_to_montgomery_form fr_params x)) = ival x mod fr_order"
proof -
  have "fr_ok (fe_to_montgomery_form fr_params x)"
    using fr_to_montgomery(1) [of x] unfolding fr_ok_def by simp
  then show ?thesis
    using fr_from_montgomery fr_to_montgomery(2) [of x] by simp
qed

text \<open>
  C34: pow is exponentiation in the field, for every exponent of 256 bits, and invert is the
  inverse of the field; the only error is the inversion of zero, in whichever of its two
  representations.
\<close>

theorem fr_pow_and_invert:
  assumes "fr_ok x"
  shows "fr_val (fe_pow fr_params x e) = fr_val x ^ nat (ival e) \<and>
    map_sum id fr_val (fe_invert fr_params x) =
      (if fr_val x = 0 then Inl InvertZero else Inr (inverse (fr_val x)))"
  using fr.pow_val [OF assms] fr.invert_val [OF assms] by auto

theorem fr_pow_and_invert_witness:
  "fe_invert fr_params (modulus fr_params) = Inl InvertZero \<and>
   fr_val (fe_pow fr_params (modulus fr_params) (uint256_of_u64 0)) = 1"
proof -
  have ok: "fr_ok (modulus fr_params)"
    unfolding fr_ok_def fr_modulus by simp
  have zero: "fr_val (modulus fr_params) = 0"
    unfolding fr_val_def fr_modulus by simp
  show ?thesis
    using fr_pow_and_invert [OF ok, of "uint256_of_u64 0"]
    by (cases "fe_invert fr_params (modulus fr_params)") (simp_all add: zero)
qed

text \<open>
  Batch inversion, one inversion and three multiplications per element, always succeeds:
  it replaces every element by its inverse and leaves the zeros, wherever they stand.
\<close>

theorem fr_batch_invert:
  assumes "\<forall>c\<in>set coeffs. fr_ok c"
  shows "\<exists>ds. fe_batch_invert fr_params coeffs = Inr ds \<and>
    map fr_val ds = map (\<lambda>c. inverse (fr_val c)) coeffs"
  using fr.batch_invert_val [OF assms] by (simp add: comp_def)

theorem fr_batch_invert_witness:
  "\<exists>ds. fe_batch_invert fr_params [fe_one fr_params, modulus fr_params, fe_one fr_params] = Inr ds \<and>
     map fr_val ds = [1, 0, 1]"
proof -
  have ok: "fr_ok (modulus fr_params)" "fr_ok (fe_one fr_params)"
    using fr_one(1) unfolding fr_ok_def fr_modulus by simp_all
  have "fr_val (modulus fr_params) = 0"
    unfolding fr_val_def fr_modulus by simp
  with ok show ?thesis
    using fr_batch_invert [of "[fe_one fr_params, modulus fr_params, fe_one fr_params]"] fr_one(2) by simp
qed

text \<open>
  The product of two elements into eight limbs is exact, for any two numbers of 256 bits.
\<close>

theorem mul_512_exact:
  "(case f_mul_512 x y of (lo, hi) \<Rightarrow> ival lo + 2 ^ 256 * ival hi) = ival x * ival y"
  using f_mul_512_exact [of x y] unfolding B256_eq [symmetric] by (simp add: split_def)

text \<open>
  The path for moduli of 255 bits and more, with a fifth limb and a conditional
  correction, works for operands anywhere below 2^256: the result times 2^256 is congruent
  to the product.
\<close>

theorem montgomery_mul_big_exact:
  assumes "params_ok P"
  shows "(B256 * ival (f_montgomery_mul_big P x y)) mod ival (modulus P) = (ival x * ival y) mod ival (modulus P)"
  using montgomery_mul_big_eq [OF assms, of x y] by auto

theorem montgomery_mul_big_exact_witness:
  "(B256 * ival (f_montgomery_mul_big fr_params (Uint256 1 2 3 (- 1)) (Uint256 4 5 6 (- 1)))) mod fr_order =
   (ival (Uint256 1 2 3 (- 1)) * ival (Uint256 4 5 6 (- 1))) mod fr_order"
  using montgomery_mul_big_exact [OF fr_params_ok] unfolding fr_modulus .

end
