(* ===== verification/Serialize_Fields.thy ===== *)
theory Serialize_Fields
  imports Serialize Fr
begin

text \<open>
  Field elements as bytes, the read and write of ecc/fields/field_declarations.hpp: the limbs of
  the value out of Montgomery form, the most significant first.
\<close>

definition read_field :: "field_params \<Rightarrow> uint256_t reader" where
  "read_field P it =
     Option.bind (read_u64 it) (\<lambda>(d3, it). Option.bind (read_u64 it) (\<lambda>(d2, it).
     Option.bind (read_u64 it) (\<lambda>(d1, it). Option.bind (read_u64 it) (\<lambda>(d0, it).
       Some (fe_to_montgomery_form P (Uint256 d0 d1 d2 d3), it)))))"

definition write_field :: "field_params \<Rightarrow> uint256_t writer" where
  "write_field P x =
     (let input = fe_from_montgomery_form P x
      in write_u64 (data3 input) @ write_u64 (data2 input) @ write_u64 (data1 input) @ write_u64 (data0 input))"

lemma read_field_limbs: "read_field P it = map_option (\<lambda>(x, it). (fe_to_montgomery_form P x, it)) (read_uint256 it)"
  by (simp add: read_field_def read_uint256_def split: bind_splits)

lemma write_field_limbs: "write_field P x = write_uint256 (fe_from_montgomery_form P x)"
  by (simp add: write_field_def write_uint256_def Let_def)

text \<open>
  C37: A field element is written as the 32 bytes of its value below the order, whichever of its
  two representations it has, so equal elements have equal bytes, and what is read back is an
  element of the same value.
\<close>

theorem serialize_fields:
  assumes "fr_ok x" and "fr_ok y"
  shows "length (write_field fr_params x) = 32 \<and>
    (write_field fr_params x = write_field fr_params y \<longleftrightarrow> fr_val x = fr_val y) \<and>
    map_option (\<lambda>(z, it). (fr_val z, it)) (read_field fr_params (write_field fr_params x @ rest)) = Some (fr_val x, rest)"
proof (intro conjI)
  show "length (write_field fr_params x) = 32"
    by (simp add: write_field_limbs length_writes)
  have "write_field fr_params x = write_field fr_params y \<longleftrightarrow>
      fe_from_montgomery_form fr_params x = fe_from_montgomery_form fr_params y"
    unfolding write_field_limbs using uint256_codec.prefix_free [OF TrueI TrueI] by (metis append.right_neutral)
  also have "\<dots> \<longleftrightarrow> ff_int (fr_val x) = ff_int (fr_val y)"
    using fr_from_montgomery [OF assms(1)] fr_from_montgomery [OF assms(2)] ival_inject by metis
  also have "\<dots> \<longleftrightarrow> fr_val x = fr_val y"
    by (simp add: ff_eq_iff)
  finally show "write_field fr_params x = write_field fr_params y \<longleftrightarrow> fr_val x = fr_val y" .
  show "map_option (\<lambda>(z, it). (fr_val z, it)) (read_field fr_params (write_field fr_params x @ rest)) = Some (fr_val x, rest)"
    unfolding read_field_limbs write_field_limbs uint256_codec.rd_wr [OF TrueI]
    by (simp add: fr_to_montgomery(2) fr_from_montgomery [OF assms(1)])
qed

lemma serialize_fields_witness:
  "map_option (\<lambda>(z, it). (fr_val z, it)) (read_field fr_params (write_field fr_params (fe_one fr_params))) = Some (1, [])"
  using serialize_fields [of "fe_one fr_params" "fe_one fr_params" "[]"] fr_one by simp

text \<open>
  Any 32 bytes are accepted: the element that is read has their number modulo the order as
  its value, so an element has several encodings that are read, one of which is written.
\<close>

theorem serialize_field_any_bytes:
  "fr_ok (fe_to_montgomery_form fr_params v) \<and>
   read_field fr_params (write_uint256 v @ rest) = Some (fe_to_montgomery_form fr_params v, rest) \<and>
   fr_val (fe_to_montgomery_form fr_params v) = of_int (ival v)"
  using fr_to_montgomery [of v] by (simp add: read_field_limbs uint256_codec.rd_wr fr_ok_def)

end
