(* ===== verification/Avm_Common.thy ===== *)
theory Avm_Common
  imports Scalar_Field Uint256_Algos
begin

text \<open>
  The vocabulary of the virtual machine (vm/avm_trace/avm_common.hpp): the memory tags, the
  intermediate registers, the ways the code fails, and the conversions between the field
  elements of the trace, which are elements of the scalar field of bn254, and the machine
  integers of the code.
\<close>

section \<open>Tags, registers, errors\<close>

datatype AvmMemoryTag = U0 | U8 | U16 | U32 | U64 | U128 | FF

datatype IntermRegister = IA | IB | IC

definition AVM_TRACE_SIZE :: nat where
  "AVM_TRACE_SIZE = 256"

definition MAX_MEM_TAG :: u8 where
  "MAX_MEM_TAG = 6"

fun tag_num :: "AvmMemoryTag \<Rightarrow> u32" where
  "tag_num U0 = 0"
| "tag_num U8 = 1"
| "tag_num U16 = 2"
| "tag_num U32 = 3"
| "tag_num U64 = 4"
| "tag_num U128 = 5"
| "tag_num FF = 6"

text \<open>The cast of a byte to a tag; the parser casts only values up to the largest tag.\<close>

definition tag_of_u8 :: "u8 \<Rightarrow> AvmMemoryTag" where
  "tag_of_u8 b =
     (if b = 0 then U0 else if b = 1 then U8 else if b = 2 then U16 else if b = 3 then U32
      else if b = 4 then U64 else if b = 5 then U128 else FF)"

text \<open>
  What the code throws or violates: an index out of range in the at of a container, std::get
  on the wrong alternative of a variant, the inversion of zero, a failed assert, the top of
  an empty stack (undefined behaviour in C++), and the messages of the parser.
\<close>

datatype avm_error =
    Out_of_range
  | Bad_variant_access
  | Zero_inverted
  | Assertion_failed
  | Empty_stack
  | Invalid_opcode u8 nat
  | Set_operand_missing nat
  | Set_tag_invalid nat u8
  | Operand_missing nat
  | Tag_invalid nat u8

section \<open>Field elements and machine integers\<close>

definition ff_of_word :: "'a::len word \<Rightarrow> ff" where
  "ff_of_word w = of_int (uint w)"

definition tag_ff :: "AvmMemoryTag \<Rightarrow> ff" where
  "tag_ff t = ff_of_word (tag_num t)"

definition ff_to_u128 :: "ff \<Rightarrow> u128" where
  "ff_to_u128 a = word_of_int (ff_int a)"

text \<open>The conversion to uint256_t: the limbs of the representative below the order.\<close>

definition ff_to_u256 :: "ff \<Rightarrow> uint256_t" where
  "ff_to_u256 a = Uint256 (word_of_int (ff_int a)) (word_of_int (ff_int a div B64))
     (word_of_int (ff_int a div (B64 * B64))) (word_of_int (ff_int a div (B64 * B64 * B64)))"

definition ff_of_u256 :: "uint256_t \<Rightarrow> ff" where
  "ff_of_u256 x = of_int (ival x)"

definition ff_invert :: "ff \<Rightarrow> avm_error + ff" where
  "ff_invert a = (if a = 0 then Inl Zero_inverted else Inr (inverse a))"

lemma ff_of_word_0 [simp]: "ff_of_word 0 = 0"
  and ff_of_word_1 [simp]: "ff_of_word 1 = 1"
  by (simp_all add: ff_of_word_def)

lemma ff_of_word_inject:
  assumes "LENGTH('a::len) \<le> 128"
  shows "ff_of_word (v :: 'a word) = ff_of_word w \<longleftrightarrow> v = w"
proof -
  have range: "0 \<le> uint x \<and> uint x < fr_order" for x :: "'a word"
  proof -
    have "uint x < 2 ^ LENGTH('a)" by (rule uint_lt2p)
    also have "(2::int) ^ LENGTH('a) \<le> 2 ^ 128" using assms by (rule power_increasing) simp
    finally show ?thesis by simp
  qed
  have "uint v mod fr_order = uint w mod fr_order \<longleftrightarrow> uint v = uint w"
    using range [of v] range [of w] by simp
  then show ?thesis
    by (simp only: ff_of_word_def of_int_ff_eq_iff uint_word_eq)
qed

lemma tag_num_inject [simp]: "tag_num s = tag_num t \<longleftrightarrow> s = t"
  by (cases s; cases t) simp_all

lemma tag_ff_inject [simp]: "tag_ff s = tag_ff t \<longleftrightarrow> s = t"
  by (simp add: tag_ff_def ff_of_word_inject)

lemma ff_invert_diff: "s \<noteq> t \<Longrightarrow> ff_invert (tag_ff s - tag_ff t) = Inr (inverse (tag_ff s - tag_ff t))"
  by (simp add: ff_invert_def)

lemma ff_to_u128_of_word [simp]: "ff_to_u128 (ff_of_word (w :: u128)) = w"
proof -
  have "uint w < fr_order"
    using uint_lt128 [of w] by linarith
  then show ?thesis
    by (simp only: ff_to_u128_def ff_of_word_def ff_int_of_int uint_lt128 mod_pos_pos_trivial
      unsigned_greater_eq word_of_int_uint)
qed

text \<open>A field element within 128 bits is the image of its machine integer.\<close>

lemma ff_of_u128:
  assumes "ff_int a < 2 ^ 128"
  shows "ff_of_word (ff_to_u128 a) = a"
proof -
  have "uint (ff_to_u128 a) = ff_int a"
    using assms ff_int_range [of a] unfolding ff_to_u128_def by (simp add: uint_word_of_int)
  then show ?thesis
    by (simp add: ff_of_word_def del: of_int_uint)
qed

lemma uint_ff_to_u128: "ff_int a < 2 ^ 128 \<Longrightarrow> uint (ff_to_u128 a) = ff_int a"
  using ff_int_range [of a] by (simp add: ff_to_u128_def uint_word_of_int)

lemma digits_of_int:
  fixes z b :: int
  assumes "0 < b"
  shows "z mod b + b * (z div b mod b) + b * b * (z div (b * b) mod b) +
    b * b * b * (z div (b * b * b) mod b) = z mod (b * b * b * b)"
  using assms by (simp add: zmod_zmult2_eq zdiv_zmult2_eq algebra_simps)

lemma ival_ff_to_u256 [simp]: "ival (ff_to_u256 a) = ff_int a"
proof -
  have "uint (word_of_int z :: u64) = z mod B64" for z
    by (simp add: uint_word_of_int)
  note limb = this
  have base: "B64 * B64 = 340282366920938463463374607431768211456"
    "340282366920938463463374607431768211456 * B64 = 6277101735386680763835789423207666416102355444464034512896"
    "6277101735386680763835789423207666416102355444464034512896 * B64 = B256"
    by simp_all
  have pos: "0 < B64" by simp
  have "ival (ff_to_u256 a) = ff_int a mod B256"
    unfolding ival_def ff_to_u256_def uint256_t.sel limb base by (rule digits_of_int [OF pos, unfolded base])
  moreover have "ff_int a mod B256 = ff_int a"
    using ff_int_range [of a] by (intro mod_pos_pos_trivial) linarith+
  ultimately show ?thesis
    by (simp only:)
qed

lemma ff_of_u256_to [simp]: "ff_of_u256 (ff_to_u256 a) = a"
  by (simp add: ff_of_u256_def)

end
