(* ===== verification/Avm_Row.thy ===== *)
theory Avm_Row
  imports Avm_Common
begin

text \<open>
  The rows of the execution trace and the relations of the circuit:
  proof_system/circuit_builder/generated/avm_circuit_builder.hpp and
  relations/generated/avm/avm_mem.hpp, avm_alu.hpp, avm_main.hpp. The columns of a row are
  grouped by their prefix. A subrelation is a polynomial over the columns of a row, r, and
  the shifted columns, which are those of the next row, s.
\<close>

section \<open>Rows\<close>

record avm_mem_cols =
  avm_mem_m_clk :: ff
  avm_mem_m_sub_clk :: ff
  avm_mem_m_addr :: ff
  avm_mem_m_tag :: ff
  avm_mem_m_val :: ff
  avm_mem_m_lastAccess :: ff
  avm_mem_m_last :: ff
  avm_mem_m_rw :: ff
  avm_mem_m_in_tag :: ff
  avm_mem_m_tag_err :: ff
  avm_mem_m_one_min_inv :: ff

record avm_alu_cols =
  avm_alu_alu_clk :: ff
  avm_alu_alu_ia :: ff
  avm_alu_alu_ib :: ff
  avm_alu_alu_ic :: ff
  avm_alu_alu_op_add :: ff
  avm_alu_alu_op_sub :: ff
  avm_alu_alu_op_mul :: ff
  avm_alu_alu_op_div :: ff
  avm_alu_alu_op_not :: ff
  avm_alu_alu_op_eq :: ff
  avm_alu_alu_ff_tag :: ff
  avm_alu_alu_u8_tag :: ff
  avm_alu_alu_u16_tag :: ff
  avm_alu_alu_u32_tag :: ff
  avm_alu_alu_u64_tag :: ff
  avm_alu_alu_u128_tag :: ff
  avm_alu_alu_u8_r0 :: ff
  avm_alu_alu_u8_r1 :: ff
  avm_alu_alu_u16_r0 :: ff
  avm_alu_alu_u16_r1 :: ff
  avm_alu_alu_u16_r2 :: ff
  avm_alu_alu_u16_r3 :: ff
  avm_alu_alu_u16_r4 :: ff
  avm_alu_alu_u16_r5 :: ff
  avm_alu_alu_u16_r6 :: ff
  avm_alu_alu_u16_r7 :: ff
  avm_alu_alu_u64_r0 :: ff
  avm_alu_alu_cf :: ff
  avm_alu_alu_op_eq_diff_inv :: ff

record avm_main_cols =
  avm_main_clk :: ff
  avm_main_first :: ff
  avm_main_pc :: ff
  avm_main_internal_return_ptr :: ff
  avm_main_sel_internal_call :: ff
  avm_main_sel_internal_return :: ff
  avm_main_sel_jump :: ff
  avm_main_sel_halt :: ff
  avm_main_sel_op_add :: ff
  avm_main_sel_op_sub :: ff
  avm_main_sel_op_mul :: ff
  avm_main_sel_op_div :: ff
  avm_main_sel_op_not :: ff
  avm_main_sel_op_eq :: ff
  avm_main_in_tag :: ff
  avm_main_op_err :: ff
  avm_main_tag_err :: ff
  avm_main_inv :: ff
  avm_main_ia :: ff
  avm_main_ib :: ff
  avm_main_ic :: ff
  avm_main_mem_op_a :: ff
  avm_main_mem_op_b :: ff
  avm_main_mem_op_c :: ff
  avm_main_rwa :: ff
  avm_main_rwb :: ff
  avm_main_rwc :: ff
  avm_main_mem_idx_a :: ff
  avm_main_mem_idx_b :: ff
  avm_main_mem_idx_c :: ff
  avm_main_last :: ff

record AvmFullRow =
  main_cols :: avm_main_cols
  mem_cols :: avm_mem_cols
  alu_cols :: avm_alu_cols
  equiv_tag_err :: ff
  equiv_tag_err_counts :: ff

text \<open>Columns are zero unless they are set.\<close>

definition mem_zero :: avm_mem_cols where
  "mem_zero = \<lparr>avm_mem_m_clk = 0, avm_mem_m_sub_clk = 0, avm_mem_m_addr = 0, avm_mem_m_tag = 0,
     avm_mem_m_val = 0, avm_mem_m_lastAccess = 0, avm_mem_m_last = 0, avm_mem_m_rw = 0,
     avm_mem_m_in_tag = 0, avm_mem_m_tag_err = 0, avm_mem_m_one_min_inv = 0\<rparr>"

definition alu_zero :: avm_alu_cols where
  "alu_zero = \<lparr>avm_alu_alu_clk = 0, avm_alu_alu_ia = 0, avm_alu_alu_ib = 0, avm_alu_alu_ic = 0,
     avm_alu_alu_op_add = 0, avm_alu_alu_op_sub = 0, avm_alu_alu_op_mul = 0,
     avm_alu_alu_op_div = 0, avm_alu_alu_op_not = 0, avm_alu_alu_op_eq = 0,
     avm_alu_alu_ff_tag = 0, avm_alu_alu_u8_tag = 0, avm_alu_alu_u16_tag = 0,
     avm_alu_alu_u32_tag = 0, avm_alu_alu_u64_tag = 0, avm_alu_alu_u128_tag = 0,
     avm_alu_alu_u8_r0 = 0, avm_alu_alu_u8_r1 = 0, avm_alu_alu_u16_r0 = 0,
     avm_alu_alu_u16_r1 = 0, avm_alu_alu_u16_r2 = 0, avm_alu_alu_u16_r3 = 0,
     avm_alu_alu_u16_r4 = 0, avm_alu_alu_u16_r5 = 0, avm_alu_alu_u16_r6 = 0,
     avm_alu_alu_u16_r7 = 0, avm_alu_alu_u64_r0 = 0, avm_alu_alu_cf = 0,
     avm_alu_alu_op_eq_diff_inv = 0\<rparr>"

definition main_zero :: avm_main_cols where
  "main_zero = \<lparr>avm_main_clk = 0, avm_main_first = 0, avm_main_pc = 0, avm_main_internal_return_ptr = 0,
     avm_main_sel_internal_call = 0, avm_main_sel_internal_return = 0, avm_main_sel_jump = 0,
     avm_main_sel_halt = 0, avm_main_sel_op_add = 0, avm_main_sel_op_sub = 0,
     avm_main_sel_op_mul = 0, avm_main_sel_op_div = 0, avm_main_sel_op_not = 0,
     avm_main_sel_op_eq = 0, avm_main_in_tag = 0, avm_main_op_err = 0, avm_main_tag_err = 0,
     avm_main_inv = 0, avm_main_ia = 0, avm_main_ib = 0, avm_main_ic = 0,
     avm_main_mem_op_a = 0, avm_main_mem_op_b = 0, avm_main_mem_op_c = 0, avm_main_rwa = 0,
     avm_main_rwb = 0, avm_main_rwc = 0, avm_main_mem_idx_a = 0, avm_main_mem_idx_b = 0,
     avm_main_mem_idx_c = 0, avm_main_last = 0\<rparr>"

definition row_zero :: AvmFullRow where
  "row_zero = \<lparr>main_cols = main_zero, mem_cols = mem_zero, alu_cols = alu_zero, equiv_tag_err = 0,
     equiv_tag_err_counts = 0\<rparr>"

section \<open>The relations\<close>

text \<open>The memory table: flags, one address at a time, reads see the last access, tag errors.\<close>

definition avm_mem_relation :: "avm_mem_cols \<Rightarrow> avm_mem_cols \<Rightarrow> ff list" where
  "avm_mem_relation r s =
     [avm_mem_m_lastAccess r * (- avm_mem_m_lastAccess r + 1),
      avm_mem_m_last r * (- avm_mem_m_last r + 1),
      avm_mem_m_rw r * (- avm_mem_m_rw r + 1),
      avm_mem_m_tag_err r * (- avm_mem_m_tag_err r + 1),
      (- avm_mem_m_lastAccess r + 1) * (avm_mem_m_addr s - avm_mem_m_addr r),
      ((- avm_mem_m_lastAccess r + 1) * (- avm_mem_m_rw s + 1)) * (avm_mem_m_val s -
        avm_mem_m_val r),
      ((- avm_mem_m_lastAccess r + 1) * (- avm_mem_m_rw s + 1)) * (avm_mem_m_tag s -
        avm_mem_m_tag r),
      (avm_mem_m_lastAccess r * (- avm_mem_m_rw s + 1)) * avm_mem_m_val s,
      ((avm_mem_m_in_tag r - avm_mem_m_tag r) * (- avm_mem_m_one_min_inv r + 1)) -
        avm_mem_m_tag_err r,
      (- avm_mem_m_tag_err r + 1) * avm_mem_m_one_min_inv r]"

text \<open>The arithmetic unit: tags and the sums of addition and subtraction.\<close>

definition avm_alu_relation_add_sub :: "avm_alu_cols \<Rightarrow> avm_alu_cols \<Rightarrow> ff list" where
  "avm_alu_relation_add_sub r s =
     [avm_alu_alu_ff_tag r * (- avm_alu_alu_ff_tag r + 1),
      avm_alu_alu_u8_tag r * (- avm_alu_alu_u8_tag r + 1),
      avm_alu_alu_u16_tag r * (- avm_alu_alu_u16_tag r + 1),
      avm_alu_alu_u32_tag r * (- avm_alu_alu_u32_tag r + 1),
      avm_alu_alu_u64_tag r * (- avm_alu_alu_u64_tag r + 1),
      avm_alu_alu_u128_tag r * (- avm_alu_alu_u128_tag r + 1),
      ((avm_alu_alu_op_add r + avm_alu_alu_op_sub r) * ((((((((((avm_alu_alu_u8_r0 r +
        (avm_alu_alu_u8_r1 r * 256)) + (avm_alu_alu_u16_r0 r * 65536)) + (avm_alu_alu_u16_r1 r *
        4294967296)) + (avm_alu_alu_u16_r2 r * 281474976710656)) + (avm_alu_alu_u16_r3 r * 2 ^
        64)) + (avm_alu_alu_u16_r4 r * 2 ^ 80)) + (avm_alu_alu_u16_r5 r * 2 ^ 96)) +
        (avm_alu_alu_u16_r6 r * 2 ^ 112)) - avm_alu_alu_ia r) + (avm_alu_alu_ff_tag r *
        avm_alu_alu_ic r))) + ((avm_alu_alu_op_add r - avm_alu_alu_op_sub r) * ((avm_alu_alu_cf
        r * 2 ^ 128) - avm_alu_alu_ib r)),
      ((avm_alu_alu_op_add r + avm_alu_alu_op_sub r) * (((((((avm_alu_alu_u8_tag r *
        avm_alu_alu_u8_r0 r) + (avm_alu_alu_u16_tag r * (avm_alu_alu_u8_r0 r +
        (avm_alu_alu_u8_r1 r * 256)))) + (avm_alu_alu_u32_tag r * ((avm_alu_alu_u8_r0 r +
        (avm_alu_alu_u8_r1 r * 256)) + (avm_alu_alu_u16_r0 r * 65536)))) + (avm_alu_alu_u64_tag
        r * ((((avm_alu_alu_u8_r0 r + (avm_alu_alu_u8_r1 r * 256)) + (avm_alu_alu_u16_r0 r *
        65536)) + (avm_alu_alu_u16_r1 r * 4294967296)) + (avm_alu_alu_u16_r2 r *
        281474976710656)))) + (avm_alu_alu_u128_tag r * ((((((((avm_alu_alu_u8_r0 r +
        (avm_alu_alu_u8_r1 r * 256)) + (avm_alu_alu_u16_r0 r * 65536)) + (avm_alu_alu_u16_r1 r *
        4294967296)) + (avm_alu_alu_u16_r2 r * 281474976710656)) + (avm_alu_alu_u16_r3 r * 2 ^
        64)) + (avm_alu_alu_u16_r4 r * 2 ^ 80)) + (avm_alu_alu_u16_r5 r * 2 ^ 96)) +
        (avm_alu_alu_u16_r6 r * 2 ^ 112)))) + (avm_alu_alu_ff_tag r * avm_alu_alu_ia r)) -
        avm_alu_alu_ic r)) + ((avm_alu_alu_ff_tag r * (avm_alu_alu_op_add r - avm_alu_alu_op_sub
        r)) * avm_alu_alu_ib r)]"

text \<open>Multiplication, for field elements, small integers and 128 bits.\<close>

definition avm_alu_relation_mul :: "avm_alu_cols \<Rightarrow> avm_alu_cols \<Rightarrow> ff list" where
  "avm_alu_relation_mul r s =
     [(avm_alu_alu_ff_tag r * avm_alu_alu_op_mul r) * ((avm_alu_alu_ia r * avm_alu_alu_ib r) -
        avm_alu_alu_ic r),
      (((- avm_alu_alu_ff_tag r + 1) - avm_alu_alu_u128_tag r) * avm_alu_alu_op_mul r) *
        (((((((((avm_alu_alu_u8_r0 r + (avm_alu_alu_u8_r1 r * 256)) + (avm_alu_alu_u16_r0 r *
        65536)) + (avm_alu_alu_u16_r1 r * 4294967296)) + (avm_alu_alu_u16_r2 r *
        281474976710656)) + (avm_alu_alu_u16_r3 r * 2 ^ 64)) + (avm_alu_alu_u16_r4 r * 2 ^ 80))
        + (avm_alu_alu_u16_r5 r * 2 ^ 96)) + (avm_alu_alu_u16_r6 r * 2 ^ 112)) - (avm_alu_alu_ia
        r * avm_alu_alu_ib r)),
      avm_alu_alu_op_mul r * (((((avm_alu_alu_u8_tag r * avm_alu_alu_u8_r0 r) +
        (avm_alu_alu_u16_tag r * (avm_alu_alu_u8_r0 r + (avm_alu_alu_u8_r1 r * 256)))) +
        (avm_alu_alu_u32_tag r * ((avm_alu_alu_u8_r0 r + (avm_alu_alu_u8_r1 r * 256)) +
        (avm_alu_alu_u16_r0 r * 65536)))) + (avm_alu_alu_u64_tag r * ((((avm_alu_alu_u8_r0 r +
        (avm_alu_alu_u8_r1 r * 256)) + (avm_alu_alu_u16_r0 r * 65536)) + (avm_alu_alu_u16_r1 r *
        4294967296)) + (avm_alu_alu_u16_r2 r * 281474976710656)))) - (((- avm_alu_alu_ff_tag r +
        1) - avm_alu_alu_u128_tag r) * avm_alu_alu_ic r)),
      (avm_alu_alu_u128_tag r * avm_alu_alu_op_mul r) * (((((avm_alu_alu_u16_r0 r +
        (avm_alu_alu_u16_r1 r * 65536)) + (avm_alu_alu_u16_r2 r * 4294967296)) +
        (avm_alu_alu_u16_r3 r * 281474976710656)) + ((((avm_alu_alu_u16_r4 r +
        (avm_alu_alu_u16_r5 r * 65536)) + (avm_alu_alu_u16_r6 r * 4294967296)) +
        (avm_alu_alu_u16_r7 r * 281474976710656)) * 2 ^ 64)) - avm_alu_alu_ia r),
      (avm_alu_alu_u128_tag r * avm_alu_alu_op_mul r) * (((((avm_alu_alu_u16_r0 s +
        (avm_alu_alu_u16_r1 s * 65536)) + (avm_alu_alu_u16_r2 s * 4294967296)) +
        (avm_alu_alu_u16_r3 s * 281474976710656)) + ((((avm_alu_alu_u16_r4 s +
        (avm_alu_alu_u16_r5 s * 65536)) + (avm_alu_alu_u16_r6 s * 4294967296)) +
        (avm_alu_alu_u16_r7 s * 281474976710656)) * 2 ^ 64)) - avm_alu_alu_ib r),
      (avm_alu_alu_u128_tag r * avm_alu_alu_op_mul r) * ((((avm_alu_alu_ia r *
        (((avm_alu_alu_u16_r0 s + (avm_alu_alu_u16_r1 s * 65536)) + (avm_alu_alu_u16_r2 s *
        4294967296)) + (avm_alu_alu_u16_r3 s * 281474976710656))) + (((((avm_alu_alu_u16_r0 r +
        (avm_alu_alu_u16_r1 r * 65536)) + (avm_alu_alu_u16_r2 r * 4294967296)) +
        (avm_alu_alu_u16_r3 r * 281474976710656)) * (((avm_alu_alu_u16_r4 s +
        (avm_alu_alu_u16_r5 s * 65536)) + (avm_alu_alu_u16_r6 s * 4294967296)) +
        (avm_alu_alu_u16_r7 s * 281474976710656))) * 2 ^ 64)) - (((avm_alu_alu_cf r * 2 ^ 64) +
        avm_alu_alu_u64_r0 r) * 2 ^ 128)) - avm_alu_alu_ic r)]"

text \<open>Negation and equality.\<close>

definition avm_alu_relation_not_eq :: "avm_alu_cols \<Rightarrow> avm_alu_cols \<Rightarrow> ff list" where
  "avm_alu_relation_not_eq r s =
     [avm_alu_alu_op_not r * avm_alu_alu_ff_tag r,
      avm_alu_alu_op_not r * ((avm_alu_alu_ia r + avm_alu_alu_ic r) - ((((((avm_alu_alu_u8_tag r
        * 256) + (avm_alu_alu_u16_tag r * 65536)) + (avm_alu_alu_u32_tag r * 4294967296)) +
        (avm_alu_alu_u64_tag r * 2 ^ 64)) + (avm_alu_alu_u128_tag r * 2 ^ 128)) - 1)),
      avm_alu_alu_op_eq r * (avm_alu_alu_ic r * (- avm_alu_alu_ic r + 1)),
      avm_alu_alu_op_eq r * ((((avm_alu_alu_ia r - avm_alu_alu_ib r) * ((avm_alu_alu_ic r * (-
        avm_alu_alu_op_eq_diff_inv r + 1)) + avm_alu_alu_op_eq_diff_inv r)) - 1) +
        avm_alu_alu_ic r)]"

definition avm_alu_relation :: "avm_alu_cols \<Rightarrow> avm_alu_cols \<Rightarrow> ff list" where
  "avm_alu_relation r s =
     avm_alu_relation_add_sub r s @ avm_alu_relation_mul r s @ avm_alu_relation_not_eq r s"

text \<open>The main trace: selectors and flags are bits.\<close>

definition avm_main_relation_bits :: "avm_main_cols \<Rightarrow> avm_main_cols \<Rightarrow> ff list" where
  "avm_main_relation_bits r s =
     [avm_main_sel_op_add r * (- avm_main_sel_op_add r + 1),
      avm_main_sel_op_sub r * (- avm_main_sel_op_sub r + 1),
      avm_main_sel_op_mul r * (- avm_main_sel_op_mul r + 1),
      avm_main_sel_op_div r * (- avm_main_sel_op_div r + 1),
      avm_main_sel_op_not r * (- avm_main_sel_op_not r + 1),
      avm_main_sel_op_eq r * (- avm_main_sel_op_eq r + 1),
      avm_main_sel_internal_call r * (- avm_main_sel_internal_call r + 1),
      avm_main_sel_internal_return r * (- avm_main_sel_internal_return r + 1),
      avm_main_sel_jump r * (- avm_main_sel_jump r + 1),
      avm_main_sel_halt r * (- avm_main_sel_halt r + 1),
      avm_main_op_err r * (- avm_main_op_err r + 1),
      avm_main_tag_err r * (- avm_main_tag_err r + 1),
      avm_main_mem_op_a r * (- avm_main_mem_op_a r + 1),
      avm_main_mem_op_b r * (- avm_main_mem_op_b r + 1),
      avm_main_mem_op_c r * (- avm_main_mem_op_c r + 1),
      avm_main_rwa r * (- avm_main_rwa r + 1),
      avm_main_rwb r * (- avm_main_rwb r + 1),
      avm_main_rwc r * (- avm_main_rwc r + 1)]"

text \<open>Tag errors clear the registers; division.\<close>

definition avm_main_relation_ops :: "avm_main_cols \<Rightarrow> avm_main_cols \<Rightarrow> ff list" where
  "avm_main_relation_ops r s =
     [avm_main_tag_err r * avm_main_ia r,
      avm_main_tag_err r * avm_main_ib r,
      avm_main_tag_err r * avm_main_ic r,
      (avm_main_sel_op_div r * (- avm_main_op_err r + 1)) * ((avm_main_ic r * avm_main_ib r) -
        avm_main_ia r),
      avm_main_sel_op_div r * (((avm_main_ib r * avm_main_inv r) - 1) + avm_main_op_err r),
      (avm_main_sel_op_div r * avm_main_op_err r) * (- avm_main_inv r + 1),
      avm_main_op_err r * (avm_main_sel_op_div r - 1)]"

text \<open>Control flow: jumps, internal calls and returns, the program counter.\<close>

definition avm_main_relation_flow :: "avm_main_cols \<Rightarrow> avm_main_cols \<Rightarrow> ff list" where
  "avm_main_relation_flow r s =
     [avm_main_sel_jump r * (avm_main_pc s - avm_main_ia r),
      avm_main_sel_internal_call r * (avm_main_internal_return_ptr s -
        (avm_main_internal_return_ptr r + 1)),
      avm_main_sel_internal_call r * (avm_main_internal_return_ptr r - avm_main_mem_idx_b r),
      avm_main_sel_internal_call r * (avm_main_pc s - avm_main_ia r),
      avm_main_sel_internal_call r * ((avm_main_pc r + 1) - avm_main_ib r),
      avm_main_sel_internal_call r * (avm_main_rwb r - 1),
      avm_main_sel_internal_call r * (avm_main_mem_op_b r - 1),
      avm_main_sel_internal_return r * (avm_main_internal_return_ptr s -
        (avm_main_internal_return_ptr r - 1)),
      avm_main_sel_internal_return r * ((avm_main_internal_return_ptr r - 1) -
        avm_main_mem_idx_a r),
      avm_main_sel_internal_return r * (avm_main_pc s - avm_main_ia r),
      avm_main_sel_internal_return r * avm_main_rwa r,
      avm_main_sel_internal_return r * (avm_main_mem_op_a r - 1),
      (((- avm_main_first r + 1) * (- avm_main_sel_halt r + 1)) * (((((avm_main_sel_op_add r +
        avm_main_sel_op_sub r) + avm_main_sel_op_div r) + avm_main_sel_op_mul r) +
        avm_main_sel_op_not r) + avm_main_sel_op_eq r)) * (avm_main_pc s - (avm_main_pc r + 1)),
      (- (((avm_main_first r + avm_main_sel_internal_call r) + avm_main_sel_internal_return r) +
        avm_main_sel_halt r) + 1) * (avm_main_internal_return_ptr s -
        avm_main_internal_return_ptr r)]"

definition avm_main_relation :: "avm_main_cols \<Rightarrow> avm_main_cols \<Rightarrow> ff list" where
  "avm_main_relation r s =
     avm_main_relation_bits r s @ avm_main_relation_ops r s @ avm_main_relation_flow r s"

definition all_zero :: "ff list \<Rightarrow> bool" where
  "all_zero vs \<longleftrightarrow> list_all (\<lambda>v. v = 0) vs"

lemma all_zero_simps [simp]:
  "all_zero []" "all_zero (v # vs) \<longleftrightarrow> v = 0 \<and> all_zero vs" "all_zero (us @ vs) \<longleftrightarrow> all_zero us \<and> all_zero vs"
  by (simp_all add: all_zero_def)

end
