(* ===== verification/Avm_Alu.thy ===== *)
theory Avm_Alu
  imports Avm_Row
begin

text \<open>
  The arithmetic unit of the virtual machine, class AvmAluTraceBuilder of
  vm/avm_trace/avm_alu_trace.cpp: every operation computes its result and appends the row
  (two for a multiplication of 128 bits) with the limbs the circuit needs. The unit keeps
  nothing but the list of its rows.
\<close>

section \<open>Rows of the unit\<close>

record AluTraceEntry =
  alu_clk :: u32
  alu_op_add :: bool
  alu_op_sub :: bool
  alu_op_mul :: bool
  alu_op_not :: bool
  alu_op_eq :: bool
  alu_ff_tag :: bool
  alu_u8_tag :: bool
  alu_u16_tag :: bool
  alu_u32_tag :: bool
  alu_u64_tag :: bool
  alu_u128_tag :: bool
  alu_ia :: ff
  alu_ib :: ff
  alu_ic :: ff
  alu_cf :: bool
  alu_u8_r0 :: u8
  alu_u8_r1 :: u8
  alu_u16_reg :: "u16 list"
  alu_u64_r0 :: u64
  alu_op_eq_diff_inv :: ff

text \<open>Fields that are not named in an initializer.\<close>

definition alu_entry :: AluTraceEntry where
  "alu_entry = \<lparr>alu_clk = 0, alu_op_add = False, alu_op_sub = False, alu_op_mul = False,
     alu_op_not = False, alu_op_eq = False, alu_ff_tag = False, alu_u8_tag = False,
     alu_u16_tag = False, alu_u32_tag = False, alu_u64_tag = False, alu_u128_tag = False,
     alu_ia = 0, alu_ib = 0, alu_ic = 0, alu_cf = False, alu_u8_r0 = 0, alu_u8_r1 = 0,
     alu_u16_reg = replicate 8 0, alu_u64_r0 = 0, alu_op_eq_diff_inv = 0\<rparr>"

section \<open>Operations\<close>

text \<open>
  The loops that take 16-bit registers off the low end of a number; n registers are filled
  and an array of eight keeps zeros in the others.
\<close>

fun u16_regs :: "nat \<Rightarrow> u128 \<Rightarrow> u16 list" where
  "u16_regs 0 c = []"
| "u16_regs (Suc n) c = ucast c # u16_regs n (drop_bit 16 c)"

text \<open>The switch on the tag: the result cast to the width of the tag.\<close>

definition alu_cast :: "AvmMemoryTag \<Rightarrow> ff \<Rightarrow> u128 \<Rightarrow> ff" where
  "alu_cast in_tag c_ff c_u128 =
     (case in_tag of
        FF \<Rightarrow> c_ff
      | U8 \<Rightarrow> ff_of_word (ucast c_u128 :: u8)
      | U16 \<Rightarrow> ff_of_word (ucast c_u128 :: u16)
      | U32 \<Rightarrow> ff_of_word (ucast c_u128 :: u32)
      | U64 \<Rightarrow> ff_of_word (ucast c_u128 :: u64)
      | U128 \<Rightarrow> ff_of_u256 (uint256_from_uint128 c_u128)
      | U0 \<Rightarrow> 0)"

definition tag_flags :: "AvmMemoryTag \<Rightarrow> AluTraceEntry \<Rightarrow> AluTraceEntry" where
  "tag_flags in_tag e = e\<lparr>alu_ff_tag := in_tag = FF, alu_u8_tag := in_tag = U8,
     alu_u16_tag := in_tag = U16, alu_u32_tag := in_tag = U32, alu_u64_tag := in_tag = U64,
     alu_u128_tag := in_tag = U128\<rparr>"

text \<open>The registers of a result, which stay zero for field elements.\<close>

definition alu_regs :: "AvmMemoryTag \<Rightarrow> u128 \<Rightarrow> u8 \<times> u8 \<times> u16 list" where
  "alu_regs in_tag c_u128 =
     (if in_tag \<noteq> FF
      then let c_trunc_128 = c_u128;
               r0 = ucast c_trunc_128;
               c_trunc_128 = drop_bit 8 c_trunc_128;
               r1 = ucast c_trunc_128;
               c_trunc_128 = drop_bit 8 c_trunc_128
           in (r0, r1, u16_regs 7 c_trunc_128 @ [0])
      else (0, 0, replicate 8 0))"

definition alu_add ::
  "ff \<Rightarrow> ff \<Rightarrow> AvmMemoryTag \<Rightarrow> u32 \<Rightarrow> AluTraceEntry list \<Rightarrow> ff \<times> AluTraceEntry list" where
  "alu_add a b in_tag clk alu_trace =
     (let a_u128 = ff_to_u128 a;
          b_u128 = ff_to_u128 b;
          c_u128 = a_u128 + b_u128;
          c = alu_cast in_tag (a + b) c_u128
      in if in_tag = U0 then (0, alu_trace)
         else let carry = in_tag \<noteq> FF \<and> c_u128 < a_u128;
                  (r0, r1, regs) = alu_regs in_tag c_u128
              in (c, alu_trace @
                   [(tag_flags in_tag alu_entry)
                     \<lparr>alu_clk := clk, alu_op_add := True, alu_ia := a, alu_ib := b, alu_ic := c,
                      alu_cf := carry, alu_u8_r0 := r0, alu_u8_r1 := r1, alu_u16_reg := regs\<rparr>]))"

definition alu_sub ::
  "ff \<Rightarrow> ff \<Rightarrow> AvmMemoryTag \<Rightarrow> u32 \<Rightarrow> AluTraceEntry list \<Rightarrow> ff \<times> AluTraceEntry list" where
  "alu_sub a b in_tag clk alu_trace =
     (let a_u128 = ff_to_u128 a;
          b_u128 = ff_to_u128 b;
          c_u128 = a_u128 - b_u128;
          c = alu_cast in_tag (a - b) c_u128
      in if in_tag = U0 then (0, alu_trace)
         else let carry = in_tag \<noteq> FF \<and> a_u128 < b_u128;
                  (r0, r1, regs) = alu_regs in_tag c_u128
              in (c, alu_trace @
                   [(tag_flags in_tag alu_entry)
                     \<lparr>alu_clk := clk, alu_op_sub := True, alu_ia := a, alu_ib := b, alu_ic := c,
                      alu_cf := carry, alu_u8_r0 := r0, alu_u8_r1 := r1, alu_u16_reg := regs\<rparr>]))"

text \<open>
  The branch of a 128-bit multiplication: the product of 256 bits without its part from the
  two high limbs gives the carry and the 64-bit register of the relation.
\<close>

definition alu_mul_u128 ::
  "ff \<Rightarrow> ff \<Rightarrow> u32 \<Rightarrow> AluTraceEntry list \<Rightarrow> ff \<times> AluTraceEntry list" where
  "alu_mul_u128 a b clk alu_trace =
     (let a_u256 = ff_to_u256 a;
          b_u256 = ff_to_u256 b;
          c_u256 = u256_mul a_u256 b_u256;
          a_u128 = uint256_to_uint128 a_u256;
          b_u128 = uint256_to_uint128 b_u256;
          c_u128 = a_u128 * b_u128;
          alu_u16_reg_a = u16_regs 8 a_u128;
          alu_u16_reg_b = u16_regs 8 b_u128;
          c_high = u256_shl (u256_mul (u256_shr a_u256 (uint256_of_u64 64)) (u256_shr b_u256 (uint256_of_u64 64)))
            (uint256_of_u64 128);
          carry = u256_gt (u256_shr (u256_sub c_u256 c_high) (uint256_of_u64 192)) (uint256_of_u64 0);
          r0 = data0 (u256_and (u256_shr (u256_sub c_u256 c_high) (uint256_of_u64 128))
            (uint256_of_u64 0xffffffffffffffff));
          c = ff_of_u256 (uint256_from_uint128 c_u128)
      in (c, alu_trace @
           [alu_entry
             \<lparr>alu_clk := clk, alu_op_mul := True, alu_u128_tag := True, alu_ia := a, alu_ib := b,
              alu_ic := c, alu_cf := carry, alu_u16_reg := alu_u16_reg_a, alu_u64_r0 := r0\<rparr>,
            alu_entry\<lparr>alu_u16_reg := alu_u16_reg_b\<rparr>]))"

definition alu_mul ::
  "ff \<Rightarrow> ff \<Rightarrow> AvmMemoryTag \<Rightarrow> u32 \<Rightarrow> AluTraceEntry list \<Rightarrow> ff \<times> AluTraceEntry list" where
  "alu_mul a b in_tag clk alu_trace =
     (let a_u128 = ff_to_u128 a;
          b_u128 = ff_to_u128 b;
          c_u128 = a_u128 * b_u128;
          c = alu_cast in_tag (a * b) c_u128
      in if in_tag = U128 then alu_mul_u128 a b clk alu_trace
         else if in_tag = U0 then (0, alu_trace)
         else let (r0, r1, regs) = alu_regs in_tag c_u128
              in (c, alu_trace @
                   [(tag_flags in_tag alu_entry)
                     \<lparr>alu_clk := clk, alu_op_mul := True, alu_ia := a, alu_ib := b, alu_ic := c,
                      alu_u8_r0 := r0, alu_u8_r1 := r1, alu_u16_reg := regs\<rparr>]))"

definition alu_not ::
  "ff \<Rightarrow> AvmMemoryTag \<Rightarrow> u32 \<Rightarrow> AluTraceEntry list \<Rightarrow> ff \<times> AluTraceEntry list" where
  "alu_not a in_tag clk alu_trace =
     (let a_u128 = ff_to_u128 a;
          c_u128 = NOT a_u128;
          c = alu_cast in_tag 0 c_u128
      in if in_tag = FF \<or> in_tag = U0 then (0, alu_trace)
         else (c, alu_trace @
                [(tag_flags in_tag alu_entry)
                  \<lparr>alu_clk := clk, alu_op_not := True, alu_ia := a, alu_ic := c\<rparr>]))"

text \<open>The inverse is taken of a difference that is not zero, so it cannot fail.\<close>

definition alu_eq ::
  "ff \<Rightarrow> ff \<Rightarrow> AvmMemoryTag \<Rightarrow> u32 \<Rightarrow> AluTraceEntry list \<Rightarrow> ff \<times> AluTraceEntry list" where
  "alu_eq a b in_tag clk alu_trace =
     (let c = a - b;
          inv_c = (if c \<noteq> 0 then inverse c else 0);
          res = (if c = 0 then 1 else 0)
      in (res, alu_trace @
           [(tag_flags in_tag alu_entry)
             \<lparr>alu_clk := clk, alu_op_eq := True, alu_ia := a, alu_ib := b, alu_ic := res,
              alu_op_eq_diff_inv := inv_c\<rparr>]))"

section \<open>The columns\<close>

definition alu_fill :: "AluTraceEntry \<Rightarrow> avm_alu_cols \<Rightarrow> avm_alu_cols" where
  "alu_fill src dest = dest
     \<lparr>avm_alu_alu_clk := ff_of_word (alu_clk src),
      avm_alu_alu_op_add := of_bool (alu_op_add src),
      avm_alu_alu_op_sub := of_bool (alu_op_sub src),
      avm_alu_alu_op_mul := of_bool (alu_op_mul src),
      avm_alu_alu_op_not := of_bool (alu_op_not src),
      avm_alu_alu_op_eq := of_bool (alu_op_eq src),
      avm_alu_alu_ff_tag := of_bool (alu_ff_tag src),
      avm_alu_alu_u8_tag := of_bool (alu_u8_tag src),
      avm_alu_alu_u16_tag := of_bool (alu_u16_tag src),
      avm_alu_alu_u32_tag := of_bool (alu_u32_tag src),
      avm_alu_alu_u64_tag := of_bool (alu_u64_tag src),
      avm_alu_alu_u128_tag := of_bool (alu_u128_tag src),
      avm_alu_alu_ia := alu_ia src,
      avm_alu_alu_ib := alu_ib src,
      avm_alu_alu_ic := alu_ic src,
      avm_alu_alu_cf := of_bool (alu_cf src),
      avm_alu_alu_u8_r0 := ff_of_word (alu_u8_r0 src),
      avm_alu_alu_u8_r1 := ff_of_word (alu_u8_r1 src),
      avm_alu_alu_u16_r0 := ff_of_word (alu_u16_reg src ! 0),
      avm_alu_alu_u16_r1 := ff_of_word (alu_u16_reg src ! 1),
      avm_alu_alu_u16_r2 := ff_of_word (alu_u16_reg src ! 2),
      avm_alu_alu_u16_r3 := ff_of_word (alu_u16_reg src ! 3),
      avm_alu_alu_u16_r4 := ff_of_word (alu_u16_reg src ! 4),
      avm_alu_alu_u16_r5 := ff_of_word (alu_u16_reg src ! 5),
      avm_alu_alu_u16_r6 := ff_of_word (alu_u16_reg src ! 6),
      avm_alu_alu_u16_r7 := ff_of_word (alu_u16_reg src ! 7),
      avm_alu_alu_u64_r0 := ff_of_word (alu_u64_r0 src),
      avm_alu_alu_op_eq_diff_inv := alu_op_eq_diff_inv src\<rparr>"

fun alu_fill_all :: "AluTraceEntry list \<Rightarrow> avm_alu_cols list \<Rightarrow> avm_error + avm_alu_cols list" where
  "alu_fill_all [] dests = Inr dests"
| "alu_fill_all (src # srcs) [] = Inl Out_of_range"
| "alu_fill_all (src # srcs) (dest # dests) =
     ebind (alu_fill_all srcs dests) (\<lambda>filled. Inr (alu_fill src dest # filled))"

end
