(* ===== verification/Avm_Mem.thy ===== *)
theory Avm_Mem
  imports Avm_Common "HOL-Library.AList" "HOL-Library.Product_Lexorder" "HOL-Library.Multiset"
begin

text \<open>
  The memory of the virtual machine, vm/avm_trace/avm_mem_trace.hpp and .cpp: the class
  AvmMemTraceBuilder simulates the memory with its tags and records every access for the
  memory table of the circuit. The log it keeps is characterised by what each entry has to
  say about the entries before it; sorting the log, as the circuit needs it, is stated for
  any sorting function and interpreted on the one the model uses.
\<close>

section \<open>The builder\<close>

definition MEM_SIZE :: nat where
  "MEM_SIZE = 1024"

record MemoryTraceEntry =
  m_clk :: u32
  m_sub_clk :: u32
  m_addr :: u32
  m_val :: ff
  m_tag :: AvmMemoryTag
  m_in_tag :: AvmMemoryTag
  m_rw :: bool
  m_tag_err :: bool
  m_one_min_inv :: ff

text \<open>The comparison of two entries, branch by branch.\<close>

definition mem_less :: "MemoryTraceEntry \<Rightarrow> MemoryTraceEntry \<Rightarrow> bool" where
  "mem_less x other =
     (if m_addr x < m_addr other then True
      else if m_addr x > m_addr other then False
      else if m_clk x < m_clk other then True
      else if m_clk x > m_clk other then False
      else m_sub_clk x < m_sub_clk other)"

text \<open>
  The arrays memory and memory_tag are functions of the address, read and written below
  MEM_SIZE only; the counters are the pairs of a std::map, each key once.
\<close>

record AvmMemTraceBuilder =
  mem_trace :: "MemoryTraceEntry list"
  memory :: "u32 \<Rightarrow> ff"
  memory_tag :: "u32 \<Rightarrow> AvmMemoryTag"
  m_tag_err_lookup_counts :: "(u32 \<times> u32) list"

definition mem_init :: AvmMemTraceBuilder where
  "mem_init = \<lparr>mem_trace = [], memory = (\<lambda>_. 0), memory_tag = (\<lambda>_. U0), m_tag_err_lookup_counts = []\<rparr>"

definition mem_reset :: "AvmMemTraceBuilder \<Rightarrow> AvmMemTraceBuilder" where
  "mem_reset M = M\<lparr>mem_trace := [], memory := (\<lambda>_. 0)\<rparr>"

definition mem_at :: "(u32 \<Rightarrow> 'a) \<Rightarrow> u32 \<Rightarrow> avm_error + 'a" where
  "mem_at f addr = (if unat addr < MEM_SIZE then Inr (f addr) else Inl Out_of_range)"

definition mem_key :: "MemoryTraceEntry \<Rightarrow> u32 \<times> u32 \<times> u32" where
  "mem_key e = (m_addr e, m_clk e, m_sub_clk e)"

text \<open>std::sort by the comparison; the key of an entry occurs once in a log, see below.\<close>

definition mem_finalize :: "AvmMemTraceBuilder \<Rightarrow> MemoryTraceEntry list" where
  "mem_finalize M = sort_key mem_key (mem_trace M)"

definition insert_in_mem_trace ::
  "u32 \<Rightarrow> u32 \<Rightarrow> u32 \<Rightarrow> ff \<Rightarrow> AvmMemoryTag \<Rightarrow> bool \<Rightarrow> AvmMemTraceBuilder \<Rightarrow> AvmMemTraceBuilder" where
  "insert_in_mem_trace clk sub_clk addr val in_tag rw M =
     M\<lparr>mem_trace := mem_trace M @
       [\<lparr>m_clk = clk, m_sub_clk = sub_clk, m_addr = addr, m_val = val, m_tag = in_tag, m_in_tag = in_tag,
         m_rw = rw, m_tag_err = False, m_one_min_inv = 0\<rparr>]\<rparr>"

definition count_incr :: "u32 \<Rightarrow> (u32 \<times> u32) list \<Rightarrow> (u32 \<times> u32) list" where
  "count_incr clk counts =
     AList.update clk ((case map_of counts clk of None \<Rightarrow> 0 | Some n \<Rightarrow> n) + 1) counts"

definition load_mismatch_tag_in_mem_trace ::
  "u32 \<Rightarrow> u32 \<Rightarrow> u32 \<Rightarrow> ff \<Rightarrow> AvmMemoryTag \<Rightarrow> AvmMemoryTag \<Rightarrow> AvmMemTraceBuilder \<Rightarrow>
    avm_error + AvmMemTraceBuilder" where
  "load_mismatch_tag_in_mem_trace clk sub_clk addr val in_tag tag M =
     ebind (ff_invert (tag_ff in_tag - tag_ff tag)) (\<lambda>inv.
       let one_min_inv = 1 - inv
       in Inr (M\<lparr>m_tag_err_lookup_counts := count_incr clk (m_tag_err_lookup_counts M),
         mem_trace := mem_trace M @
           [\<lparr>m_clk = clk, m_sub_clk = sub_clk, m_addr = addr, m_val = val, m_tag = tag, m_in_tag = in_tag,
             m_rw = False, m_tag_err = True, m_one_min_inv = one_min_inv\<rparr>]\<rparr>))"

fun sub_clk_load :: "IntermRegister \<Rightarrow> u32" where
  "sub_clk_load IA = 0"
| "sub_clk_load IB = 1"
| "sub_clk_load IC = 2"

fun sub_clk_store :: "IntermRegister \<Rightarrow> u32" where
  "sub_clk_store IA = 3"
| "sub_clk_store IB = 4"
| "sub_clk_store IC = 5"

definition load_in_mem_trace ::
  "u32 \<Rightarrow> IntermRegister \<Rightarrow> u32 \<Rightarrow> ff \<Rightarrow> AvmMemoryTag \<Rightarrow> AvmMemTraceBuilder \<Rightarrow>
    avm_error + bool \<times> AvmMemTraceBuilder" where
  "load_in_mem_trace clk interm_reg addr val in_tag M =
     (let sub_clk = sub_clk_load interm_reg
      in ebind (mem_at (memory_tag M) addr) (\<lambda>tag.
           if tag = U0 \<or> tag = in_tag
           then Inr (True, insert_in_mem_trace clk sub_clk addr val in_tag False M)
           else ebind (load_mismatch_tag_in_mem_trace clk sub_clk addr val in_tag tag M) (\<lambda>M.
             Inr (False, M))))"

definition store_in_mem_trace ::
  "u32 \<Rightarrow> IntermRegister \<Rightarrow> u32 \<Rightarrow> ff \<Rightarrow> AvmMemoryTag \<Rightarrow> AvmMemTraceBuilder \<Rightarrow> AvmMemTraceBuilder" where
  "store_in_mem_trace clk interm_reg addr val in_tag M =
     insert_in_mem_trace clk (sub_clk_store interm_reg) addr val in_tag True M"

record MemRead =
  tag_match :: bool
  rd_val :: ff

definition read_and_load_from_memory ::
  "u32 \<Rightarrow> IntermRegister \<Rightarrow> u32 \<Rightarrow> AvmMemoryTag \<Rightarrow> AvmMemTraceBuilder \<Rightarrow>
    avm_error + MemRead \<times> AvmMemTraceBuilder" where
  "read_and_load_from_memory clk interm_reg addr in_tag M =
     ebind (mem_at (memory M) addr) (\<lambda>val.
       ebind (load_in_mem_trace clk interm_reg addr val in_tag M) (\<lambda>(tagMatch, M).
         Inr (\<lparr>tag_match = tagMatch, rd_val = val\<rparr>, M)))"

definition write_into_memory ::
  "u32 \<Rightarrow> IntermRegister \<Rightarrow> u32 \<Rightarrow> ff \<Rightarrow> AvmMemoryTag \<Rightarrow> AvmMemTraceBuilder \<Rightarrow>
    avm_error + AvmMemTraceBuilder" where
  "write_into_memory clk interm_reg addr val in_tag M =
     ebind (mem_at (memory M) addr) (\<lambda>_.
       let M = M\<lparr>memory := (memory M)(addr := val)\<rparr>
       in ebind (mem_at (memory_tag M) addr) (\<lambda>_.
            let M = M\<lparr>memory_tag := (memory_tag M)(addr := in_tag)\<rparr>
            in Inr (store_in_mem_trace clk interm_reg addr val in_tag M)))"

section \<open>What a log says\<close>

text \<open>
  The specification, without the arrays: the entries of an address, the value its last entry
  has seen, and the tag of the address, U0 as long as nothing was written there.
\<close>

definition accesses :: "MemoryTraceEntry list \<Rightarrow> u32 \<Rightarrow> MemoryTraceEntry list" where
  "accesses es a = filter (\<lambda>e. m_addr e = a) es"

definition seen_val :: "MemoryTraceEntry list \<Rightarrow> u32 \<Rightarrow> ff" where
  "seen_val es a = (if accesses es a = [] then 0 else m_val (last (accesses es a)))"

definition seen_tag :: "MemoryTraceEntry list \<Rightarrow> u32 \<Rightarrow> AvmMemoryTag" where
  "seen_tag es a =
     (if \<exists>e\<in>set (accesses es a). m_rw e then m_tag (last (accesses es a)) else U0)"

text \<open>The entries that a read and a write may add.\<close>

definition good_load :: "MemoryTraceEntry list \<Rightarrow> MemoryTraceEntry \<Rightarrow> bool" where
  "good_load es e \<longleftrightarrow> \<not> m_rw e \<and> m_val e = seen_val es (m_addr e) \<and>
     (let t = seen_tag es (m_addr e) in
      if t = U0 \<or> t = m_in_tag e
      then m_tag e = m_in_tag e \<and> \<not> m_tag_err e \<and> m_one_min_inv e = 0
      else m_tag e = t \<and> m_tag_err e \<and> m_one_min_inv e = 1 - inverse (tag_ff (m_in_tag e) - tag_ff t))"

definition good_store :: "MemoryTraceEntry \<Rightarrow> bool" where
  "good_store e \<longleftrightarrow> m_rw e \<and> m_tag e = m_in_tag e \<and> \<not> m_tag_err e \<and> m_one_min_inv e = 0"

inductive mem_log :: "MemoryTraceEntry list \<Rightarrow> bool" where
  mem_log_Nil: "mem_log []"
| mem_log_load: "mem_log es \<Longrightarrow> good_load es e \<Longrightarrow> mem_log (es @ [e])"
| mem_log_store: "mem_log es \<Longrightarrow> good_store e \<Longrightarrow> m_in_tag e \<noteq> U0 \<Longrightarrow> mem_log (es @ [e])"

section \<open>The operations against the specification\<close>

definition tags_match :: "AvmMemoryTag \<Rightarrow> AvmMemoryTag \<Rightarrow> bool" where
  "tags_match t in_tag \<longleftrightarrow> t = U0 \<or> t = in_tag"

text \<open>The entry a read adds, when the cell has the value val and the tag t.\<close>

definition load_entry ::
  "u32 \<Rightarrow> IntermRegister \<Rightarrow> u32 \<Rightarrow> ff \<Rightarrow> AvmMemoryTag \<Rightarrow> AvmMemoryTag \<Rightarrow> MemoryTraceEntry" where
  "load_entry clk r addr val t in_tag =
     (if tags_match t in_tag
      then \<lparr>m_clk = clk, m_sub_clk = sub_clk_load r, m_addr = addr, m_val = val, m_tag = in_tag,
        m_in_tag = in_tag, m_rw = False, m_tag_err = False, m_one_min_inv = 0\<rparr>
      else \<lparr>m_clk = clk, m_sub_clk = sub_clk_load r, m_addr = addr, m_val = val, m_tag = t,
        m_in_tag = in_tag, m_rw = False, m_tag_err = True,
        m_one_min_inv = 1 - inverse (tag_ff in_tag - tag_ff t)\<rparr>)"

definition store_entry :: "u32 \<Rightarrow> IntermRegister \<Rightarrow> u32 \<Rightarrow> ff \<Rightarrow> AvmMemoryTag \<Rightarrow> MemoryTraceEntry" where
  "store_entry clk r addr val in_tag =
     \<lparr>m_clk = clk, m_sub_clk = sub_clk_store r, m_addr = addr, m_val = val, m_tag = in_tag,
       m_in_tag = in_tag, m_rw = True, m_tag_err = False, m_one_min_inv = 0\<rparr>"

lemma load_entry_simps [simp]:
  "m_clk (load_entry clk r addr val t in_tag) = clk" "m_sub_clk (load_entry clk r addr val t in_tag) = sub_clk_load r"
  "m_addr (load_entry clk r addr val t in_tag) = addr" "m_val (load_entry clk r addr val t in_tag) = val"
  "m_in_tag (load_entry clk r addr val t in_tag) = in_tag" "\<not> m_rw (load_entry clk r addr val t in_tag)"
  "m_tag_err (load_entry clk r addr val t in_tag) = (\<not> tags_match t in_tag)"
  by (simp_all add: load_entry_def)

lemma store_entry_simps [simp]:
  "m_clk (store_entry clk r addr val in_tag) = clk" "m_sub_clk (store_entry clk r addr val in_tag) = sub_clk_store r"
  "m_addr (store_entry clk r addr val in_tag) = addr" "m_val (store_entry clk r addr val in_tag) = val"
  "m_tag (store_entry clk r addr val in_tag) = in_tag" "m_in_tag (store_entry clk r addr val in_tag) = in_tag"
  "m_rw (store_entry clk r addr val in_tag)" "\<not> m_tag_err (store_entry clk r addr val in_tag)"
  "good_store (store_entry clk r addr val in_tag)"
  by (simp_all add: store_entry_def good_store_def)

text \<open>Both operations in closed form; the only error is an address out of the memory.\<close>

lemma read_and_load_eq:
  "read_and_load_from_memory clk r addr in_tag M =
     (if unat addr < MEM_SIZE
      then Inr (\<lparr>tag_match = tags_match (memory_tag M addr) in_tag, rd_val = memory M addr\<rparr>,
        M\<lparr>mem_trace := mem_trace M @ [load_entry clk r addr (memory M addr) (memory_tag M addr) in_tag],
          m_tag_err_lookup_counts := (if tags_match (memory_tag M addr) in_tag
            then m_tag_err_lookup_counts M else count_incr clk (m_tag_err_lookup_counts M))\<rparr>)
      else Inl Out_of_range)"
  by (auto simp: read_and_load_from_memory_def load_in_mem_trace_def mem_at_def Let_def load_entry_def
    insert_in_mem_trace_def load_mismatch_tag_in_mem_trace_def ff_invert_diff tags_match_def)

lemma write_into_eq:
  "write_into_memory clk r addr val in_tag M =
     (if unat addr < MEM_SIZE
      then Inr (M\<lparr>mem_trace := mem_trace M @ [store_entry clk r addr val in_tag],
        memory := (memory M)(addr := val), memory_tag := (memory_tag M)(addr := in_tag)\<rparr>)
      else Inl Out_of_range)"
  by (simp add: write_into_memory_def mem_at_def Let_def store_in_mem_trace_def insert_in_mem_trace_def
    store_entry_def)

lemma accesses_simps [simp]:
  "accesses [] a = []" "accesses (es @ fs) a = accesses es a @ accesses fs a"
  "accesses [e] a = (if m_addr e = a then [e] else [])"
  by (simp_all add: accesses_def)

lemma seen_val_simps [simp]:
  "seen_val [] a = 0" "seen_val (es @ [e]) a = (if m_addr e = a then m_val e else seen_val es a)"
  by (simp_all add: seen_val_def)

lemma seen_tag_Nil [simp]: "seen_tag [] a = U0"
  by (simp add: seen_tag_def)

lemma good_store_log: "mem_log es \<Longrightarrow> in_tag \<noteq> U0 \<Longrightarrow> mem_log (es @ [store_entry clk r addr val in_tag])"
  by (rule mem_log_store) simp_all

lemma good_load_entry: "good_load es (load_entry clk r addr (seen_val es addr) (seen_tag es addr) in_tag)"
  by (simp add: good_load_def load_entry_def tags_match_def Let_def)

definition written :: "MemoryTraceEntry list \<Rightarrow> u32 \<Rightarrow> bool" where
  "written es a \<longleftrightarrow> (\<exists>e\<in>set (accesses es a). m_rw e)"

lemma written_simps [simp]:
  "\<not> written [] a" "written (es @ [e]) a \<longleftrightarrow> written es a \<or> m_addr e = a \<and> m_rw e"
  by (auto simp: written_def)

lemma seen_tag_unwritten: "\<not> written es a \<Longrightarrow> seen_tag es a = U0"
  by (auto simp: seen_tag_def written_def)

lemma seen_tag_snoc:
  "seen_tag (es @ [e]) a =
     (if m_addr e = a then if written es a \<or> m_rw e then m_tag e else U0 else seen_tag es a)"
  by (auto simp: seen_tag_def written_def)

lemma seen_tag_load_written:
  assumes "good_load es e" and "seen_tag es (m_addr e) = U0 \<Longrightarrow> \<not> written es (m_addr e)"
  shows "seen_tag (es @ [e]) a = seen_tag es a"
  using assms seen_tag_unwritten [of es "m_addr e"]
  by (auto simp: seen_tag_snoc good_load_def Let_def split: if_splits)

lemma seen_tag_U0:
  assumes "mem_log es"
  shows "seen_tag es a = U0 \<longleftrightarrow> \<not> written es a"
  using assms
proof (induction es arbitrary: a)
  case (mem_log_load es e)
  then show ?case
    using seen_tag_load_written [OF mem_log_load(2), of a] by (auto simp: good_load_def)
next
  case (mem_log_store es e)
  then show ?case
    by (simp add: seen_tag_snoc good_store_def)
qed simp

lemma seen_tag_load: "mem_log es \<Longrightarrow> good_load es e \<Longrightarrow> seen_tag (es @ [e]) a = seen_tag es a"
  using seen_tag_load_written [of es e] seen_tag_U0 [of es] by simp

lemma seen_tag_store:
  "seen_tag (es @ [store_entry clk r addr val in_tag]) a = (if addr = a then in_tag else seen_tag es a)"
  by (simp add: seen_tag_snoc)

text \<open>The counters: how many entries of a clock cycle report a tag error.\<close>

definition tag_errors :: "MemoryTraceEntry list \<Rightarrow> u32 \<Rightarrow> nat" where
  "tag_errors es clk = length (filter (\<lambda>e. m_tag_err e \<and> m_clk e = clk) es)"

definition counts_ok :: "(u32 \<times> u32) list \<Rightarrow> MemoryTraceEntry list \<Rightarrow> bool" where
  "counts_ok counts es \<longleftrightarrow> distinct (map fst counts) \<and>
     (\<forall>clk. map_of counts clk = (if tag_errors es clk = 0 then None else Some (of_nat (tag_errors es clk))))"

lemma tag_errors_simps [simp]:
  "tag_errors [] clk = 0"
  "tag_errors (es @ [e]) clk = tag_errors es clk + (if m_tag_err e \<and> m_clk e = clk then 1 else 0)"
  by (simp_all add: tag_errors_def)

lemma counts_ok_same: "counts_ok counts es \<Longrightarrow> \<not> m_tag_err e \<Longrightarrow> counts_ok counts (es @ [e])"
  by (simp add: counts_ok_def)

lemma counts_ok_incr:
  "counts_ok counts es \<Longrightarrow> m_tag_err e \<Longrightarrow> counts_ok (count_incr (m_clk e) counts) (es @ [e])"
  by (auto simp: counts_ok_def count_incr_def update_conv' distinct_update)

text \<open>The invariant of the builder: the arrays are what the log says.\<close>

definition mem_ok :: "AvmMemTraceBuilder \<Rightarrow> bool" where
  "mem_ok M \<longleftrightarrow> mem_log (mem_trace M) \<and>
     (\<forall>a. unat a < MEM_SIZE \<longrightarrow> memory M a = seen_val (mem_trace M) a \<and> memory_tag M a = seen_tag (mem_trace M) a) \<and>
     (\<forall>e\<in>set (mem_trace M). unat (m_addr e) < MEM_SIZE) \<and>
     counts_ok (m_tag_err_lookup_counts M) (mem_trace M)"

lemma mem_ok_init: "mem_ok mem_init"
  by (simp add: mem_ok_def mem_init_def mem_log_Nil counts_ok_def)

lemma mem_ok_read:
  assumes "mem_ok M" and "read_and_load_from_memory clk r addr in_tag M = Inr (rd, M')"
  shows "mem_ok M'"
proof -
  have addr: "unat addr < MEM_SIZE"
    using assms(2) by (auto simp: read_and_load_eq split: if_splits)
  define e where "e = load_entry clk r addr (seen_val (mem_trace M) addr) (seen_tag (mem_trace M) addr) in_tag"
  have e: "good_load (mem_trace M) e" "m_addr e = addr" "m_clk e = clk"
      "m_val e = seen_val (mem_trace M) addr" "m_tag_err e = (\<not> tags_match (seen_tag (mem_trace M) addr) in_tag)"
    by (simp_all add: e_def good_load_entry)
  have M: "memory M addr = seen_val (mem_trace M) addr" "memory_tag M addr = seen_tag (mem_trace M) addr"
    using assms(1) addr by (simp_all add: mem_ok_def)
  have M': "mem_trace M' = mem_trace M @ [e]" "memory M' = memory M" "memory_tag M' = memory_tag M"
      "m_tag_err_lookup_counts M' = (if m_tag_err e then count_incr clk (m_tag_err_lookup_counts M)
        else m_tag_err_lookup_counts M)"
    using assms(2) addr M unfolding e_def by (auto simp: read_and_load_eq)
  have "counts_ok (m_tag_err_lookup_counts M') (mem_trace M')"
    using assms(1) counts_ok_incr [of _ _ e] counts_ok_same [of _ _ e] unfolding M' mem_ok_def e(3) by simp
  then show ?thesis
    using assms(1) e addr seen_tag_load [OF _ e(1)] unfolding mem_ok_def M'
    by (auto intro: mem_log_load)
qed

lemma mem_ok_write:
  assumes "mem_ok M" and "in_tag \<noteq> U0" and "write_into_memory clk r addr val in_tag M = Inr M'"
  shows "mem_ok M'"
  using assms by (auto simp: mem_ok_def write_into_eq seen_tag_store counts_ok_same split: if_splits
    intro: good_store_log)

end
