(* ===== verification/Avm_Mem_Table.thy ===== *)
theory Avm_Mem_Table
  imports Avm_Mem Avm_Row
begin

text \<open>
  The memory table of the circuit: the log of the memory builder, sorted by address and time
  and written into the columns of the trace by AvmTraceBuilder::finalize. The interface
  std_sort is what the code relies on std::sort for; the lemmas that lead to the relations of
  the table hold for any such function.
\<close>

section \<open>Sorting the log\<close>

text \<open>Entries are logged in the order of the clock and, within a cycle, of the sub-clock.\<close>

definition chronological :: "MemoryTraceEntry list \<Rightarrow> bool" where
  "chronological es \<longleftrightarrow> sorted_wrt (<) (map (\<lambda>e. (m_clk e, m_sub_clk e)) es)"

lemma mem_less_key: "mem_less x y \<longleftrightarrow> mem_key x < mem_key y"
  by (auto simp: mem_less_def mem_key_def)

locale std_sort =
  fixes srt :: "MemoryTraceEntry list \<Rightarrow> MemoryTraceEntry list"
  assumes perm: "mset (srt xs) = mset xs"
    and ordered: "sorted_wrt (\<lambda>x y. \<not> mem_less y x) (srt xs)"
begin

lemma set_srt [simp]: "set (srt xs) = set xs"
  using perm [of xs] by (rule mset_eq_setD)

lemma sorted_keys: "sorted (map mem_key (srt xs))"
  using ordered [of xs] by (simp add: sorted_wrt_map mem_less_key not_less)

text \<open>With the keys of a log, which differ, every sorting function gives the same table.\<close>

lemma srt_unique:
  assumes "inj_on mem_key (set xs)"
  shows "srt xs = sort_key mem_key xs"
  using sort_key_inj_key_eq [OF perm [symmetric] assms sorted_keys] by simp

lemma chronological_inj: "chronological xs \<Longrightarrow> inj_on mem_key (set xs)"
proof (induction xs)
  case (Cons x xs)
  then have "mem_key x \<noteq> mem_key y" if "y \<in> set xs" for y
    using that by (auto simp: chronological_def mem_key_def)
  with Cons show ?case
    by (auto simp: chronological_def)
qed simp

lemma chronological_accesses:
  assumes "chronological xs"
  shows "sorted (map mem_key (accesses xs a))"
proof -
  have "sorted_wrt (\<lambda>e f. m_addr e = m_addr f \<and> (m_clk e, m_sub_clk e) < (m_clk f, m_sub_clk f)) (accesses xs a)"
    using assms unfolding accesses_def chronological_def sorted_wrt_map
    by (auto simp: sorted_wrt_filter intro!: sorted_wrt_mono_rel [of "filter _ xs", rotated, OF sorted_wrt_filter])
  then show ?thesis
    unfolding sorted_wrt_map by (rule sorted_wrt_mono_rel [rotated]) (auto simp: mem_key_def)
qed

text \<open>The entries of one address keep their order.\<close>

lemma accesses_srt:
  assumes "chronological xs"
  shows "accesses (srt xs) a = accesses xs a"
proof -
  have "accesses (srt xs) a = sort_key mem_key (accesses xs a)"
    unfolding srt_unique [OF chronological_inj [OF assms]] accesses_def by (rule filter_sort)
  also have "\<dots> = accesses xs a"
    using chronological_accesses [OF assms] by (intro properties_for_sort_key) simp_all
  finally show ?thesis .
qed

end

interpretation mem_sort: std_sort "sort_key mem_key"
proof
  show "mset (sort_key mem_key xs) = mset xs" for xs
    by simp
  show "sorted_wrt (\<lambda>x y. \<not> mem_less y x) (sort_key mem_key xs)" for xs
    using sorted_sort_key [of mem_key xs] by (simp add: sorted_wrt_map mem_less_key not_less)
qed

section \<open>Neighbours in the sorted table\<close>

text \<open>
  What a log promises for an entry by itself, and for an entry and the next one of the table.
  The tag of a cell that was only read so far is the one of the reading instruction, so it is
  only the same for two such reads if their instructions have the same tag.
\<close>

definition entry_ok :: "MemoryTraceEntry \<Rightarrow> bool" where
  "entry_ok e \<longleftrightarrow>
     (if m_tag_err e
      then m_in_tag e \<noteq> m_tag e \<and> m_one_min_inv e = 1 - inverse (tag_ff (m_in_tag e) - tag_ff (m_tag e))
      else m_in_tag e = m_tag e \<and> m_one_min_inv e = 0)"

definition value_link :: "MemoryTraceEntry \<Rightarrow> MemoryTraceEntry \<Rightarrow> bool" where
  "value_link e f \<longleftrightarrow> (\<not> m_rw f \<longrightarrow> m_val f = (if m_addr e = m_addr f then m_val e else 0))"

definition tag_link :: "MemoryTraceEntry \<Rightarrow> MemoryTraceEntry \<Rightarrow> bool" where
  "tag_link e f \<longleftrightarrow> (\<not> m_rw f \<and> m_addr e = m_addr f \<longrightarrow> m_tag f = m_tag e)"

text \<open>Consecutive reads of a cell that was not written yet carry the same instruction tag.\<close>

definition fresh_reads :: "MemoryTraceEntry list \<Rightarrow> u32 \<Rightarrow> MemoryTraceEntry list" where
  "fresh_reads es a = takeWhile (\<lambda>e. \<not> m_rw e) (accesses es a)"

definition uniform_fresh_reads :: "MemoryTraceEntry list \<Rightarrow> bool" where
  "uniform_fresh_reads es \<longleftrightarrow>
     (\<forall>e\<in>set es. successively (\<lambda>x y. m_in_tag x = m_in_tag y) (fresh_reads es (m_addr e)))"

lemma mem_log_nth:
  assumes "mem_log es" and "es = ps @ f # qs"
  shows "good_load ps f \<or> good_store f"
  using assms
proof (induction es arbitrary: qs)
  case (mem_log_load es e)
  then show ?case
    by (cases qs rule: rev_cases) auto
next
  case (mem_log_store es e)
  then show ?case
    by (cases qs rule: rev_cases) auto
qed simp

lemma mem_log_take: "mem_log (ps @ qs) \<Longrightarrow> mem_log ps"
proof (induction qs rule: rev_induct)
  case (snoc q qs)
  from snoc.prems have "mem_log ((ps @ qs) @ [q])" by simp
  then have "mem_log (ps @ qs)"
    by (rule mem_log.cases) auto
  then show ?case
    by (rule snoc.IH)
qed simp

lemma mem_log_entry_ok:
  assumes "mem_log es" and "e \<in> set es"
  shows "entry_ok e"
proof -
  obtain ps qs where es: "es = ps @ e # qs"
    using assms(2) by (auto simp: in_set_conv_decomp)
  show ?thesis
    using mem_log_nth [OF assms(1) es]
    by (auto simp: entry_ok_def good_load_def good_store_def Let_def split: if_splits)
qed

text \<open>An access and the one before it at the same address, and the first access.\<close>

lemma accesses_split:
  assumes "accesses es a = us @ f # vs"
  obtains ps qs where "es = ps @ f # qs" "accesses ps a = us" "m_addr f = a"
proof -
  have "\<exists>ps qs. es = ps @ f # qs \<and> accesses ps a = us \<and> m_addr f = a"
    using assms
  proof (induction us arbitrary: es)
    case Nil
    then obtain ps qs where "es = ps @ f # qs" "\<forall>e\<in>set ps. m_addr e \<noteq> a" "m_addr f = a"
      unfolding accesses_def by (auto simp: filter_eq_Cons_iff)
    then show ?case
      by (auto simp: accesses_def filter_empty_conv)
  next
    case (Cons u us)
    then obtain ps es' where "es = ps @ u # es'" "\<forall>e\<in>set ps. m_addr e \<noteq> a" "m_addr u = a"
        "accesses es' a = us @ f # vs"
      unfolding accesses_def by (auto simp: filter_eq_Cons_iff)
    moreover from this obtain ps' qs where "es' = ps' @ f # qs" "accesses ps' a = us" "m_addr f = a"
      using Cons.IH by blast
    ultimately have "es = (ps @ u # ps') @ f # qs" "accesses (ps @ u # ps') a = u # us"
      by (auto simp: accesses_def filter_empty_conv)
    then show ?case
      using \<open>m_addr f = a\<close> by blast
  qed
  then show ?thesis
    using that by blast
qed

lemma mem_log_first_access:
  assumes "mem_log es" and "accesses es a = f # vs" and "\<not> m_rw f"
  shows "m_val f = 0"
proof -
  obtain ps qs where ps: "es = ps @ f # qs" "accesses ps a = []" "m_addr f = a"
    using accesses_split [of es a "[]" f vs] assms(2) by auto
  then show ?thesis
    using mem_log_nth [OF assms(1) ps(1)] assms(3) by (auto simp: good_load_def good_store_def seen_val_def)
qed

lemma mem_log_next_access:
  assumes "mem_log es" and "accesses es a = us @ e # f # vs"
  shows "value_link e f" and "written (us @ [e]) a \<Longrightarrow> tag_link e f"
    and "\<not> written (us @ [e]) a \<Longrightarrow> tag_link e f \<longleftrightarrow> (\<not> m_rw f \<longrightarrow> m_in_tag e = m_in_tag f)"
proof -
  obtain ps qs where ps: "es = ps @ f # qs" "accesses ps a = us @ [e]" "m_addr f = a"
    using accesses_split [of es a "us @ [e]" f vs] assms(2) by auto
  have e: "m_addr e = a"
  proof -
    have "e \<in> set (accesses ps a)" unfolding ps(2) by simp
    then show ?thesis by (simp add: accesses_def)
  qed
  note f = mem_log_nth [OF assms(1) ps(1)]
  have val: "seen_val ps a = m_val e"
    by (simp add: seen_val_def ps(2))
  then show "value_link e f"
    using f ps(3) e by (auto simp: value_link_def good_load_def good_store_def)
  have us: "accesses (us @ [e]) a = us @ [e]"
    unfolding ps(2) [symmetric] by (simp add: accesses_def)
  have written: "written ps a \<longleftrightarrow> written (us @ [e]) a"
    unfolding written_def ps(2) us ..
  have log: "mem_log ps"
    using assms(1) unfolding ps(1) by (rule mem_log_take)
  have tag: "seen_tag ps a = (if written ps a then m_tag e else U0)"
    by (simp add: seen_tag_def written_def ps(2))
  show "tag_link e f" if "written (us @ [e]) a"
    using f that log tag seen_tag_U0 [OF log, of a] ps(3) unfolding written [symmetric]
    by (auto simp: tag_link_def good_load_def good_store_def Let_def split: if_splits)
  show "tag_link e f \<longleftrightarrow> (\<not> m_rw f \<longrightarrow> m_in_tag e = m_in_tag f)" if "\<not> written (us @ [e]) a"
  proof -
    from ps(2) have "accesses ps a = us @ e # []" by simp
    then obtain rs qs' where rs: "ps = rs @ e # qs'" "accesses rs a = us" "m_addr e = a"
      by (rule accesses_split)
    have "\<not> m_rw e" "\<not> written us a"
      using that e by simp_all
    then have "\<not> written rs a"
      using rs(2) us by (auto simp: written_def accesses_def)
    moreover have "good_load rs e"
      using mem_log_nth [OF log rs(1)] \<open>\<not> m_rw e\<close> by (simp add: good_store_def)
    ultimately have "m_tag e = m_in_tag e"
      using e seen_tag_unwritten [of rs a] by (simp add: good_load_def)
    then show ?thesis
      using f tag that e ps(3) unfolding written by (auto simp: tag_link_def good_load_def good_store_def)
  qed
qed

section \<open>The columns\<close>

text \<open>
  The loop of finalize over the sorted log: entry i goes into row i. A row says whether the
  next entry of the table is at another address, and whether there is none.
\<close>

definition mem_fill :: "MemoryTraceEntry \<Rightarrow> MemoryTraceEntry option \<Rightarrow> avm_mem_cols \<Rightarrow> avm_mem_cols" where
  "mem_fill src next_src dest =
     (let dest = dest
        \<lparr>avm_mem_m_clk := ff_of_word (m_clk src),
         avm_mem_m_sub_clk := ff_of_word (m_sub_clk src),
         avm_mem_m_addr := ff_of_word (m_addr src),
         avm_mem_m_val := m_val src,
         avm_mem_m_rw := of_bool (m_rw src),
         avm_mem_m_in_tag := tag_ff (m_in_tag src),
         avm_mem_m_tag := tag_ff (m_tag src),
         avm_mem_m_tag_err := of_bool (m_tag_err src),
         avm_mem_m_one_min_inv := m_one_min_inv src\<rparr>
      in case next_src of
           Some nxt \<Rightarrow> dest\<lparr>avm_mem_m_lastAccess := of_bool (m_addr src \<noteq> m_addr nxt)\<rparr>
         | None \<Rightarrow> dest\<lparr>avm_mem_m_lastAccess := 1, avm_mem_m_last := 1\<rparr>)"

fun mem_fill_all :: "MemoryTraceEntry list \<Rightarrow> avm_mem_cols list \<Rightarrow> avm_error + avm_mem_cols list" where
  "mem_fill_all [] dests = Inr dests"
| "mem_fill_all (src # srcs) [] = Inl Out_of_range"
| "mem_fill_all (src # srcs) (dest # dests) =
     ebind (mem_fill_all srcs dests) (\<lambda>filled.
       Inr (mem_fill src (case srcs of [] \<Rightarrow> None | nxt # _ \<Rightarrow> Some nxt) dest # filled))"

text \<open>A table of rows satisfies a relation if every row does, with zeros after the last.\<close>

definition rows_ok :: "('c \<Rightarrow> 'c \<Rightarrow> ff list) \<Rightarrow> 'c \<Rightarrow> 'c list \<Rightarrow> bool" where
  "rows_ok rel zero rs \<longleftrightarrow> successively (\<lambda>r s. all_zero (rel r s)) (rs @ [zero])"

text \<open>The row on top of the table, for the shifted columns.\<close>

definition mem_first :: avm_mem_cols where
  "mem_first = mem_zero\<lparr>avm_mem_m_lastAccess := 1\<rparr>"

fun mem_columns :: "MemoryTraceEntry list \<Rightarrow> avm_mem_cols list" where
  "mem_columns [] = []"
| "mem_columns (e # es) = mem_fill e (case es of [] \<Rightarrow> None | f # _ \<Rightarrow> Some f) mem_zero # mem_columns es"

lemma mem_fill_all_zero:
  "mem_fill_all es (replicate n mem_zero) =
     (if length es \<le> n then Inr (mem_columns es @ replicate (n - length es) mem_zero) else Inl Out_of_range)"
proof (induction es arbitrary: n)
  case (Cons e es)
  show ?case
    by (cases n) (simp_all add: Cons.IH)
qed simp

lemma entry_ok_columns:
  "(tag_ff (m_in_tag e) - tag_ff (m_tag e)) * (- m_one_min_inv e + 1) - of_bool (m_tag_err e) = 0 \<and>
   (- of_bool (m_tag_err e) + 1) * m_one_min_inv e = 0" if "entry_ok e"
  using that by (auto simp: entry_ok_def)

lemma mem_relation_next:
  assumes "entry_ok e"
  shows "all_zero (avm_mem_relation (mem_fill e (Some f) mem_zero) (mem_fill f n mem_zero)) \<longleftrightarrow>
    value_link e f \<and> tag_link e f"
  using entry_ok_columns [OF assms]
  by (cases n) (auto simp: avm_mem_relation_def mem_fill_def mem_zero_def value_link_def tag_link_def ff_of_word_inject)

lemma mem_relation_last:
  "entry_ok e \<Longrightarrow> all_zero (avm_mem_relation (mem_fill e None mem_zero) mem_zero)"
  using entry_ok_columns [of e] by (auto simp: avm_mem_relation_def mem_fill_def mem_zero_def)

lemma mem_relation_first:
  "all_zero (avm_mem_relation mem_first (mem_fill f n mem_zero)) \<longleftrightarrow> (\<not> m_rw f \<longrightarrow> m_val f = 0)"
  by (cases n) (auto simp: avm_mem_relation_def mem_fill_def mem_zero_def mem_first_def)

lemma mem_relation_zero: "all_zero (avm_mem_relation mem_zero mem_zero)" "all_zero (avm_mem_relation mem_first mem_zero)"
  by (simp_all add: avm_mem_relation_def mem_zero_def mem_first_def)

lemma successively_replicate: "R x x \<Longrightarrow> successively R (replicate n x)"
  by (induction n rule: induct_nat_012) auto

text \<open>The relations of the whole table, entry by entry.\<close>

lemma mem_columns_ok:
  assumes "\<forall>e\<in>set es. entry_ok e" and "es \<noteq> []"
  shows "successively (\<lambda>r s. all_zero (avm_mem_relation r s)) (mem_columns es @ mem_zero # replicate n mem_zero) \<longleftrightarrow>
    successively (\<lambda>e f. value_link e f \<and> tag_link e f) es"
  using assms
proof (induction es rule: induct_list012)
  case (2 e)
  then show ?case
    using successively_replicate [of "\<lambda>r s. all_zero (avm_mem_relation r s)" mem_zero "Suc n"]
    by (simp add: mem_relation_last mem_relation_zero)
next
  case (3 e f es)
  then show ?case
    by (simp add: mem_relation_next)
qed simp

lemma mem_table_ok:
  assumes "\<forall>e\<in>set es. entry_ok e"
  shows "rows_ok avm_mem_relation mem_zero (mem_first # mem_columns es @ replicate n mem_zero) \<longleftrightarrow>
    (es \<noteq> [] \<longrightarrow> \<not> m_rw (hd es) \<longrightarrow> m_val (hd es) = 0) \<and>
    successively (\<lambda>e f. value_link e f \<and> tag_link e f) es"
proof (cases es)
  case Nil
  then show ?thesis
    using successively_replicate [of "\<lambda>r s. all_zero (avm_mem_relation r s)" mem_zero "Suc n"]
    by (simp add: rows_ok_def mem_relation_zero replicate_append_same)
next
  case (Cons e es')
  then show ?thesis
    using mem_columns_ok [OF assms, of n]
    by (simp add: rows_ok_def mem_relation_first replicate_append_same)
qed

section \<open>The sorted log satisfies the memory relations\<close>

lemma adjacent_accesses:
  assumes "es = us @ e # f # vs" and "m_addr e = m_addr f"
  shows "accesses es (m_addr f) = accesses us (m_addr f) @ e # f # accesses vs (m_addr f)"
  using assms by (simp add: accesses_def)

lemma sorted_first_access:
  assumes "sorted (map mem_key (us @ f # vs))" and "us \<noteq> [] \<Longrightarrow> m_addr (last us) \<noteq> m_addr f"
  shows "accesses us (m_addr f) = []"
proof (cases us rule: rev_cases)
  case (snoc ws e)
  have "m_addr e \<le> m_addr f" "m_addr e \<noteq> m_addr f" "\<forall>w\<in>set ws. m_addr w \<le> m_addr e"
    using assms unfolding snoc by (auto simp: sorted_append mem_key_def)
  then show ?thesis
    unfolding snoc accesses_def by (auto simp: filter_empty_conv)
qed simp

context std_sort
begin

lemma srt_links:
  assumes "mem_log es" and "chronological es" and "srt es = us @ e # f # vs"
  shows "value_link e f"
proof (cases "m_addr e = m_addr f")
  case True
  have "accesses es (m_addr f) = accesses us (m_addr f) @ e # f # accesses vs (m_addr f)"
    using adjacent_accesses [OF assms(3) True] unfolding accesses_srt [OF assms(2)] .
  then show ?thesis
    by (rule mem_log_next_access(1) [OF assms(1)])
next
  case False
  have "sorted (map mem_key ((us @ [e]) @ f # vs))"
    using sorted_keys [of es] unfolding assms(3) by simp
  then have "accesses (us @ [e]) (m_addr f) = []"
    by (rule sorted_first_access) (use False in simp)
  then have "accesses (srt es) (m_addr f) = f # accesses vs (m_addr f)"
    unfolding assms(3) by (simp add: accesses_def split: if_splits)
  then have "accesses es (m_addr f) = f # accesses vs (m_addr f)"
    unfolding accesses_srt [OF assms(2)] .
  then show ?thesis
    using mem_log_first_access [OF assms(1)] False by (auto simp: value_link_def)
qed

lemma srt_first:
  assumes "mem_log es" and "chronological es" and "srt es = f # vs" and "\<not> m_rw f"
  shows "m_val f = 0"
proof -
  have "accesses (srt es) (m_addr f) = f # accesses vs (m_addr f)"
    unfolding assms(3) by (simp add: accesses_def)
  then show ?thesis
    using mem_log_first_access [OF assms(1) _ assms(4)] unfolding accesses_srt [OF assms(2)] by blast
qed

end

lemma successively_split:
  "successively P xs \<longleftrightarrow> (\<forall>us x y vs. xs = us @ x # y # vs \<longrightarrow> P x y)"
proof
  assume "successively P xs"
  then show "\<forall>us x y vs. xs = us @ x # y # vs \<longrightarrow> P x y"
    by (auto simp: successively_append_iff)
next
  assume "\<forall>us x y vs. xs = us @ x # y # vs \<longrightarrow> P x y"
  then show "successively P xs"
  proof (induction xs rule: induct_list012)
    case (3 x y xs)
    have "P x y"
      using 3(3) by (metis append_Nil)
    moreover have "\<forall>us a b vs. y # xs = us @ a # b # vs \<longrightarrow> P a b"
      using 3(3) by (metis append_Cons)
    ultimately show ?case
      using 3 by simp
  qed simp_all
qed

text \<open>In a list sorted by address, a relation within addresses is checked address by address.\<close>

lemma successively_accesses:
  assumes "sorted (map m_addr es)" and "\<And>e f. m_addr e \<noteq> m_addr f \<Longrightarrow> R e f"
  shows "successively R es \<longleftrightarrow> (\<forall>a. successively R (accesses es a))"
  using assms(1)
proof (induction es rule: induct_list012)
  case (3 e f es)
  have IH: "successively R (f # es) \<longleftrightarrow> (\<forall>a. successively R (accesses (f # es) a))"
    by (rule 3) (use 3(3) in simp)
  have Cons: "accesses (e # es) a = (if m_addr e = a then e # accesses es a else accesses es a)" for e es a
    by (simp add: accesses_def)
  have head: "successively R (accesses (e # f # es) a) \<longleftrightarrow> successively R (accesses (f # es) a) \<and>
      (m_addr e = a \<and> m_addr f = a \<longrightarrow> R e f)" for a
  proof (cases "m_addr e = a \<and> m_addr f \<noteq> a")
    case True
    then have "m_addr e < m_addr f"
      using 3(3) by auto
    then have "accesses (f # es) a = []"
      using 3(3) True by (auto simp: accesses_def filter_empty_conv)
    then show ?thesis
      using True unfolding Cons [of e] by simp
  qed (auto simp: Cons)
  have "(\<forall>a. m_addr e = a \<and> m_addr f = a \<longrightarrow> R e f) \<longleftrightarrow> R e f"
    using assms(2) [of e f] by auto
  then show ?case
    using IH unfolding head by auto
qed (auto simp: accesses_def)

lemma takeWhile_split:
  assumes "takeWhile P xs = us @ x # y # vs"
  shows "\<exists>ws. xs = us @ x # y # ws \<and> (\<forall>z\<in>set (us @ [x, y]). P z)"
proof -
  have "xs = us @ x # y # (vs @ dropWhile P xs)"
    using takeWhile_dropWhile_id [of P xs] unfolding assms by simp
  moreover have "\<forall>z\<in>set (us @ [x, y]). P z"
    using set_takeWhileD [of _ P xs] unfolding assms by auto
  ultimately show ?thesis
    by blast
qed

lemma fresh_reads_links:
  assumes "mem_log es"
  shows "successively tag_link (accesses es a) \<longleftrightarrow>
    successively (\<lambda>x y. m_in_tag x = m_in_tag y) (fresh_reads es a)"
proof -
  have same: "tag_link e f \<longleftrightarrow> (\<not> m_rw f \<longrightarrow> m_in_tag e = m_in_tag f)"
      if "accesses es a = us @ e # f # vs" "\<not> written (us @ [e]) a" for us e f vs
    using mem_log_next_access(3) [OF assms that] .
  have addr: "m_addr x = a" if "x \<in> set (accesses es a)" for x
    using that by (simp add: accesses_def)
  have unwritten: "\<not> written (us @ [e]) a \<longleftrightarrow> (\<forall>x\<in>set (us @ [e]). \<not> m_rw x)"
      if "accesses es a = us @ e # f # vs" for us e f vs
  proof -
    have "\<forall>x\<in>set (us @ [e]). m_addr x = a"
      using addr unfolding that by simp
    then show ?thesis
      by (auto simp: written_def accesses_def)
  qed
  show ?thesis
    unfolding successively_split
  proof (intro iffI allI impI)
    fix us e f vs
    assume links: "\<forall>us x y vs. accesses es a = us @ x # y # vs \<longrightarrow> tag_link x y"
      and "fresh_reads es a = us @ e # f # vs"
    then obtain ws where ws: "accesses es a = us @ e # f # ws" "\<forall>z\<in>set (us @ [e, f]). \<not> m_rw z"
      using takeWhile_split [of "\<lambda>e. \<not> m_rw e" "accesses es a" us e f vs] unfolding fresh_reads_def by blast
    have "\<not> written (us @ [e]) a"
      unfolding unwritten [OF ws(1)] using ws(2) by simp
    then show "m_in_tag e = m_in_tag f"
      using same [OF ws(1)] links ws by simp
  next
    fix us e f vs
    assume fresh: "\<forall>us x y vs. fresh_reads es a = us @ x # y # vs \<longrightarrow> m_in_tag x = m_in_tag y"
      and eq: "accesses es a = us @ e # f # vs"
    show "tag_link e f"
    proof (cases "written (us @ [e]) a \<or> m_rw f")
      case True
      then show ?thesis
        using mem_log_next_access(2) [OF assms eq] by (auto simp: tag_link_def)
    next
      case False
      then have "fresh_reads es a = us @ e # f # takeWhile (\<lambda>e. \<not> m_rw e) vs"
        using unwritten [OF eq] unfolding fresh_reads_def eq by simp
      then show ?thesis
        using fresh same [OF eq] False by blast
    qed
  qed
qed

text \<open>
  The memory table of a log: the relations of the circuit hold for it exactly if no cell is
  read with two different instruction tags before it is written.
\<close>

context std_sort
begin

lemma srt_table:
  assumes "mem_log es" and "chronological es"
  shows "rows_ok avm_mem_relation mem_zero (mem_first # mem_columns (srt es) @ replicate n mem_zero) \<longleftrightarrow>
    uniform_fresh_reads es"
proof -
  have "\<forall>e\<in>set (srt es). entry_ok e"
    using mem_log_entry_ok [OF assms(1)] by simp
  then have "rows_ok avm_mem_relation mem_zero (mem_first # mem_columns (srt es) @ replicate n mem_zero) \<longleftrightarrow>
      (srt es \<noteq> [] \<longrightarrow> \<not> m_rw (hd (srt es)) \<longrightarrow> m_val (hd (srt es)) = 0) \<and>
      successively (\<lambda>e f. value_link e f \<and> tag_link e f) (srt es)"
    by (rule mem_table_ok)
  also have "\<dots> \<longleftrightarrow> successively tag_link (srt es)"
    using srt_first [OF assms] srt_links [OF assms] unfolding successively_split by (cases "srt es") auto
  also have "\<dots> \<longleftrightarrow> (\<forall>a. successively tag_link (accesses (srt es) a))"
  proof (rule successively_accesses)
    have "sorted (map mem_key (srt es))" by (rule sorted_keys)
    then show "sorted (map m_addr (srt es))"
      unfolding sorted_wrt_map by (rule sorted_wrt_mono_rel [rotated]) (auto simp: mem_key_def)
  qed (simp add: tag_link_def)
  also have "\<dots> \<longleftrightarrow> (\<forall>a. successively (\<lambda>x y. m_in_tag x = m_in_tag y) (fresh_reads es a))"
    unfolding accesses_srt [OF assms(2)] fresh_reads_links [OF assms(1)] ..
  also have "\<dots> \<longleftrightarrow> uniform_fresh_reads es"
  proof -
    have "fresh_reads es a = []" if "a \<notin> m_addr ` set es" for a
      using that by (auto simp: fresh_reads_def accesses_def takeWhile_eq_Nil_iff filter_empty_conv)
    then show ?thesis
      unfolding uniform_fresh_reads_def by (metis imageE successively.simps(1))
  qed
  finally show ?thesis .
qed

end

end
