(* ===== verification/Avm_Alu_Circuit.thy ===== *)
theory Avm_Alu_Circuit
  imports Avm_Alu Avm_Mem_Table
begin

text \<open>
  The rows of the arithmetic unit against relations/generated/avm/avm_alu.hpp: the values a
  tag allows, the number that the limbs of a row stand for, and for each kind of row the
  equation between its columns under which all relations hold, whatever row comes next.
\<close>

section \<open>Typed values\<close>

text \<open>The numbers of bits of a tag, and the values a cell with the tag may hold.\<close>

fun tag_bits :: "AvmMemoryTag \<Rightarrow> nat" where
  "tag_bits U0 = 0"
| "tag_bits U8 = 8"
| "tag_bits U16 = 16"
| "tag_bits U32 = 32"
| "tag_bits U64 = 64"
| "tag_bits U128 = 128"
| "tag_bits FF = 254"

definition has_type :: "AvmMemoryTag \<Rightarrow> ff \<Rightarrow> bool" where
  "has_type t a \<longleftrightarrow> ff_int a < 2 ^ tag_bits t"

lemma has_type_FF [simp]: "has_type FF a"
  using ff_int_range [of a] by (simp add: has_type_def)

lemma has_type_zero [simp]: "has_type t 0"
  by (simp add: has_type_def)

lemma has_type_U0: "has_type U0 a \<longleftrightarrow> a = 0"
  using ff_int_range [of a] by (auto simp: has_type_def ff_eq_iff)

lemma has_type_one: "t \<noteq> U0 \<Longrightarrow> has_type t 1"
  by (cases t) (simp_all add: has_type_def)

lemma has_type_128:
  assumes "has_type t a" and "t \<noteq> FF"
  shows "ff_int a < 2 ^ 128"
proof -
  have "(2::int) ^ tag_bits t \<le> 2 ^ 128"
    using assms(2) by (cases t) simp_all
  then show ?thesis
    using assms(1) unfolding has_type_def by linarith
qed

section \<open>Limbs\<close>

lemma ff_of_word_int: "ff_of_word w = of_int (uint w)"
  by (rule ff_of_word_def)

lemma mod_split: "0 \<le> (b::int) \<Longrightarrow> z mod (a * b) = z mod a + a * (z div a mod b)"
  by (simp add: zmod_zmult2_eq)

lemma ff_split_low:
  fixes c :: "'a::len word"
  assumes "LENGTH('b::len) \<le> LENGTH('a)"
  shows "ff_of_word c = ff_of_word (ucast c :: 'b word) + 2 ^ LENGTH('b) * ff_of_word (drop_bit LENGTH('b) c)"
proof -
  have "uint (ucast c :: 'b word) = uint c mod 2 ^ LENGTH('b)"
    by (simp add: unsigned_ucast_eq take_bit_eq_mod)
  then have "uint c = uint (ucast c :: 'b word) + 2 ^ LENGTH('b) * uint (drop_bit LENGTH('b) c)"
    by (simp add: uint_drop_bit)
  then have "(of_int (uint c) :: ff) = of_int (uint (ucast c :: 'b word) + 2 ^ LENGTH('b) * uint (drop_bit LENGTH('b) c))"
    by (rule arg_cong)
  then show ?thesis
    unfolding ff_of_word_def by (simp del: of_int_uint)
qed

lemma ff_split8: "ff_of_word (c :: u128) = ff_of_word (ucast c :: u8) + 2 ^ 8 * ff_of_word (drop_bit 8 c)"
  using ff_split_low [of c, where 'b = 8] by simp

lemma ff_split16: "ff_of_word (c :: u128) = ff_of_word (ucast c :: u16) + 2 ^ 16 * ff_of_word (drop_bit 16 c)"
  using ff_split_low [of c, where 'b = 16] by simp

lemma drop_bit_128 [simp]: "drop_bit 128 (c :: u128) = 0"
  using uint_lt128 [of c] by (simp add: word_uint_eq_iff uint_drop_bit)

text \<open>The registers of a result as a number in the field: two bytes and seven registers.\<close>

lemma regs_low:
  fixes c :: u128
  shows "ff_of_word (ucast c :: u16) = ff_of_word (ucast c :: u8) + ff_of_word (ucast (drop_bit 8 c) :: u8) * 256"
proof -
  have "uint c mod 65536 = uint c mod 256 + 256 * (uint c div 256 mod 256)"
    using mod_split [of 256 "uint c" 256] by simp
  then have "(of_int (uint c mod 65536) :: ff) = of_int (uint c mod 256 + 256 * (uint c div 256 mod 256))"
    by (rule arg_cong)
  then show ?thesis
    unfolding ff_of_word_def by (simp add: unsigned_ucast_eq take_bit_eq_mod uint_drop_bit del: of_int_uint)
qed

text \<open>Digit i of a number in base 2^16, and the number from its digits.\<close>

definition ff_digit :: "u128 \<Rightarrow> nat \<Rightarrow> ff" where
  "ff_digit c i = ff_of_word (ucast (drop_bit (16 * i) c) :: u16)"

lemma ff_digit_int: "ff_digit c i = of_int (uint c div 2 ^ (16 * i) mod 65536)"
  unfolding ff_digit_def ff_of_word_def
  by (simp add: unsigned_ucast_eq take_bit_eq_mod uint_drop_bit del: of_int_uint)

lemma ff_digits: "of_int (uint c mod 2 ^ (16 * n)) = (\<Sum>i<n. ff_digit c i * 2 ^ (16 * i))"
proof (induction n)
  case (Suc n)
  have "uint c mod 2 ^ (16 * Suc n) = uint c mod 2 ^ (16 * n) + 2 ^ (16 * n) * (uint c div 2 ^ (16 * n) mod 65536)"
    using mod_split [of 65536 "uint c" "2 ^ (16 * n)"] by (simp add: power_add mult.commute [of 65536])
  then have "(of_int (uint c mod 2 ^ (16 * Suc n)) :: ff) =
      of_int (uint c mod 2 ^ (16 * n)) + 2 ^ (16 * n) * ff_digit c n"
    unfolding ff_digit_int by (simp del: of_int_uint)
  then show ?case
    using Suc.IH by (simp add: mult.commute)
qed simp

lemma ff_digits_word:
  "ff_of_word (ucast c :: u32) = (\<Sum>i<2. ff_digit c i * 2 ^ (16 * i))"
  "ff_of_word (ucast c :: u64) = (\<Sum>i<4. ff_digit c i * 2 ^ (16 * i))"
  "ff_of_word c = (\<Sum>i<8. ff_digit c i * 2 ^ (16 * i))"
proof -
  show "ff_of_word (ucast c :: u32) = (\<Sum>i<2. ff_digit c i * 2 ^ (16 * i))"
    "ff_of_word (ucast c :: u64) = (\<Sum>i<4. ff_digit c i * 2 ^ (16 * i))"
    unfolding ff_digits [symmetric] ff_of_word_def
    by (simp_all add: unsigned_ucast_eq take_bit_eq_mod del: of_int_uint)
  have "uint c mod 2 ^ (16 * 8) = uint c"
    using uint_lt128 [of c] by simp
  then show "ff_of_word c = (\<Sum>i<8. ff_digit c i * 2 ^ (16 * i))"
    unfolding ff_digits [symmetric] ff_of_word_def by simp
qed

text \<open>The sums as the relations write them.\<close>

lemma ff_sums:
  "ff_of_word (ucast c :: u16) = ff_of_word (ucast c :: u8) + ff_of_word (ucast (drop_bit 8 c) :: u8) * 256"
  "ff_of_word (ucast c :: u32) = ff_of_word (ucast c :: u16) + ff_digit c 1 * 65536"
  "ff_of_word (ucast c :: u64) = ff_of_word (ucast c :: u16) + ff_digit c 1 * 65536 + ff_digit c 2 * 4294967296 +
     ff_digit c 3 * 281474976710656"
  "ff_of_word c = ff_of_word (ucast c :: u16) + ff_digit c 1 * 65536 + ff_digit c 2 * 4294967296 +
     ff_digit c 3 * 281474976710656 + ff_digit c 4 * 2 ^ 64 + ff_digit c 5 * 2 ^ 80 + ff_digit c 6 * 2 ^ 96 +
     ff_digit c 7 * 2 ^ 112"
proof -
  have digit0: "ff_digit c 0 = ff_of_word (ucast c :: u16)"
    by (simp add: ff_digit_def)
  show "ff_of_word (ucast c :: u16) = ff_of_word (ucast c :: u8) + ff_of_word (ucast (drop_bit 8 c) :: u8) * 256"
    by (rule regs_low)
  show "ff_of_word (ucast c :: u32) = ff_of_word (ucast c :: u16) + ff_digit c 1 * 65536"
    unfolding ff_digits_word digit0 [symmetric] by (simp add: numeral_eq_Suc)
  show "ff_of_word (ucast c :: u64) = ff_of_word (ucast c :: u16) + ff_digit c 1 * 65536 + ff_digit c 2 * 4294967296 +
     ff_digit c 3 * 281474976710656"
    unfolding ff_digits_word digit0 [symmetric] by (simp add: numeral_eq_Suc)
  show "ff_of_word c = ff_of_word (ucast c :: u16) + ff_digit c 1 * 65536 + ff_digit c 2 * 4294967296 +
     ff_digit c 3 * 281474976710656 + ff_digit c 4 * 2 ^ 64 + ff_digit c 5 * 2 ^ 80 + ff_digit c 6 * 2 ^ 96 +
     ff_digit c 7 * 2 ^ 112"
    unfolding ff_digits_word digit0 [symmetric] by (simp add: numeral_eq_Suc)
qed

section \<open>The columns of a row\<close>


lemma u16_regs_length [simp]: "length (u16_regs n c) = n"
  by (induction n arbitrary: c) simp_all

lemma u16_regs_nth: "i < n \<Longrightarrow> u16_regs n c ! i = ucast (drop_bit (16 * i) c)"
proof (induction n arbitrary: c i)
  case (Suc n)
  then show ?case
    by (cases i) (simp_all add: add.commute)
qed simp

lemma alu_regs_cases:
  "in_tag \<noteq> FF \<Longrightarrow> alu_regs in_tag c = (ucast c, ucast (drop_bit 8 c), u16_regs 7 (drop_bit 16 c) @ [0])"
  "alu_regs FF c = (0, 0, replicate 8 0)"
  by (simp_all add: alu_regs_def Let_def)

lemma reg_digit: "i < 7 \<Longrightarrow> ff_of_word ((u16_regs 7 (drop_bit 16 c) @ [0]) ! i) = ff_digit c (i + 1)"
  by (simp add: nth_append u16_regs_nth ff_digit_def add.commute)

lemma reg_digits:
  defines "regs c \<equiv> u16_regs 7 (drop_bit 16 c) @ [0]"
  shows "ff_of_word (regs c ! 0) = ff_digit c 1" "ff_of_word (regs c ! Suc 0) = ff_digit c 2"
    "ff_of_word (regs c ! 2) = ff_digit c 3" "ff_of_word (regs c ! 3) = ff_digit c 4"
    "ff_of_word (regs c ! 4) = ff_digit c 5" "ff_of_word (regs c ! 5) = ff_digit c 6"
    "ff_of_word (regs c ! 6) = ff_digit c 7" "ff_of_word (regs c ! 7) = 0"
  using reg_digit [of 0 c] reg_digit [of 1 c, unfolded one_add_one] reg_digit [of 2 c] reg_digit [of 3 c] reg_digit [of 4 c]
    reg_digit [of 5 c] reg_digit [of 6 c]
  by (simp_all add: regs_def nth_append)

text \<open>The sums of the relations folded back, from the inside out.\<close>

lemma ff_sums_fold:
  "ff_of_word (ucast c :: u8) + ff_of_word (ucast (drop_bit 8 c) :: u8) * 256 = ff_of_word (ucast c :: u16)"
  "ff_of_word (ucast c :: u16) + ff_digit c 1 * 65536 = ff_of_word (ucast c :: u32)"
  "ff_of_word (ucast c :: u32) + ff_digit c 2 * 4294967296 + ff_digit c 3 * 281474976710656 =
     ff_of_word (ucast c :: u64)"
  "ff_of_word (ucast c :: u64) + ff_digit c 4 * 2 ^ 64 + ff_digit c 5 * 2 ^ 80 + ff_digit c 6 * 2 ^ 96 +
     ff_digit c 7 * 2 ^ 112 = ff_of_word c"
  unfolding ff_sums by simp_all

lemma ival_from_uint128 [simp]: "ival (uint256_from_uint128 c) = uint c"
proof -
  have "uint c mod B64 + B64 * (uint c div B64) = uint c"
    by simp
  moreover have "uint c div B64 mod B64 = uint c div B64"
    using uint_lt128 [of c] by (intro mod_pos_pos_trivial) (simp_all add: div_less_iff_less_mult pos_imp_zdiv_nonneg_iff)
  ultimately show ?thesis
    by (simp add: ival_def uint256_from_uint128_def unsigned_ucast_eq take_bit_eq_mod uint_drop_bit)
qed

lemma ff_of_from_uint128 [simp]: "ff_of_u256 (uint256_from_uint128 c) = ff_of_word c"
  unfolding ff_of_u256_def ff_of_word_def by simp

lemmas alu_row_defs = avm_alu_relation_def avm_alu_relation_add_sub_def avm_alu_relation_mul_def
  avm_alu_relation_not_eq_def alu_fill_def alu_entry_def tag_flags_def alu_zero_def

lemmas ff_sums_folded = ff_sums_fold [unfolded One_nat_def, simplified]
lemmas alu_digits = reg_digits [unfolded One_nat_def] ff_sums_folded

section \<open>Addition and subtraction\<close>

lemma add_row:
  assumes "ff_of_word c = a + b - of_bool cf * 2 ^ 128" "in_tag \<notin> {U0, FF}"
  shows "all_zero (avm_alu_relation (alu_fill ((tag_flags in_tag alu_entry)
    \<lparr>alu_clk := clk, alu_op_add := True, alu_ia := a, alu_ib := b, alu_ic := alu_cast in_tag x c,
     alu_cf := cf, alu_u8_r0 := ucast c, alu_u8_r1 := ucast (drop_bit 8 c),
     alu_u16_reg := u16_regs 7 (drop_bit 16 c) @ [0]\<rparr>) alu_zero) s)"
  using assms by (cases in_tag) (simp_all add: alu_row_defs alu_digits alu_cast_def)

lemma sub_row:
  assumes "ff_of_word c = a - b + of_bool cf * 2 ^ 128" "in_tag \<notin> {U0, FF}"
  shows "all_zero (avm_alu_relation (alu_fill ((tag_flags in_tag alu_entry)
    \<lparr>alu_clk := clk, alu_op_sub := True, alu_ia := a, alu_ib := b, alu_ic := alu_cast in_tag x c,
     alu_cf := cf, alu_u8_r0 := ucast c, alu_u8_r1 := ucast (drop_bit 8 c),
     alu_u16_reg := u16_regs 7 (drop_bit 16 c) @ [0]\<rparr>) alu_zero) s)"
  using assms by (cases in_tag) (simp_all add: alu_row_defs alu_digits alu_cast_def)

lemma mul_row:
  assumes "ff_of_word c = a * b" "in_tag \<notin> {U0, FF, U128}"
  shows "all_zero (avm_alu_relation (alu_fill ((tag_flags in_tag alu_entry)
    \<lparr>alu_clk := clk, alu_op_mul := True, alu_ia := a, alu_ib := b, alu_ic := alu_cast in_tag x c,
     alu_u8_r0 := ucast c, alu_u8_r1 := ucast (drop_bit 8 c),
     alu_u16_reg := u16_regs 7 (drop_bit 16 c) @ [0]\<rparr>) alu_zero) s)"
  using assms by (cases in_tag) (simp_all add: alu_row_defs alu_digits alu_cast_def)

text \<open>Field elements: no registers.\<close>

lemma ff_rows:
  "all_zero (avm_alu_relation (alu_fill ((tag_flags FF alu_entry)
    \<lparr>alu_clk := clk, alu_op_add := True, alu_ia := a, alu_ib := b, alu_ic := a + b, alu_cf := False,
     alu_u8_r0 := 0, alu_u8_r1 := 0, alu_u16_reg := replicate 8 0\<rparr>) alu_zero) s)"
  "all_zero (avm_alu_relation (alu_fill ((tag_flags FF alu_entry)
    \<lparr>alu_clk := clk, alu_op_sub := True, alu_ia := a, alu_ib := b, alu_ic := a - b, alu_cf := False,
     alu_u8_r0 := 0, alu_u8_r1 := 0, alu_u16_reg := replicate 8 0\<rparr>) alu_zero) s)"
  "all_zero (avm_alu_relation (alu_fill ((tag_flags FF alu_entry)
    \<lparr>alu_clk := clk, alu_op_mul := True, alu_ia := a, alu_ib := b, alu_ic := a * b,
     alu_u8_r0 := 0, alu_u8_r1 := 0, alu_u16_reg := replicate 8 0\<rparr>) alu_zero) s)"
  by (simp_all add: alu_row_defs)

lemma not_row:
  assumes "a + ic = 2 ^ tag_bits in_tag - 1" "in_tag \<notin> {U0, FF}"
  shows "all_zero (avm_alu_relation (alu_fill ((tag_flags in_tag alu_entry)
    \<lparr>alu_clk := clk, alu_op_not := True, alu_ia := a, alu_ic := ic\<rparr>) alu_zero) s)"
  using assms by (cases in_tag) (simp_all add: alu_row_defs)

lemma eq_row:
  "all_zero (avm_alu_relation (alu_fill ((tag_flags in_tag alu_entry)
    \<lparr>alu_clk := clk, alu_op_eq := True, alu_ia := a, alu_ib := b, alu_ic := if a - b = 0 then 1 else 0,
     alu_op_eq_diff_inv := if a - b \<noteq> 0 then inverse (a - b) else 0\<rparr>) alu_zero) s)"
  by (cases in_tag) (simp_all add: alu_row_defs)

section \<open>Multiplication of 128 bits\<close>

lemma regs8:
  defines "regs c \<equiv> u16_regs 8 c"
  shows "ff_of_word (regs c ! 0) = ff_digit c 0" "ff_of_word (regs c ! Suc 0) = ff_digit c (Suc 0)"
    "ff_of_word (regs c ! 2) = ff_digit c 2" "ff_of_word (regs c ! 3) = ff_digit c 3"
    "ff_of_word (regs c ! 4) = ff_digit c 4" "ff_of_word (regs c ! 5) = ff_digit c 5"
    "ff_of_word (regs c ! 6) = ff_digit c 6" "ff_of_word (regs c ! 7) = ff_digit c 7"
  by (simp_all add: regs_def u16_regs_nth ff_digit_def)

lemma half_fold_low:
  "ff_digit c 0 + ff_digit c 1 * 65536 + ff_digit c 2 * 4294967296 + ff_digit c 3 * 281474976710656 =
    ff_of_word (ucast c :: u64)"
  unfolding ff_digits_word by (simp add: numeral_eq_Suc)

lemma half_fold_high:
  "ff_digit c 4 + ff_digit c 5 * 65536 + ff_digit c 6 * 4294967296 + ff_digit c 7 * 281474976710656 =
    ff_of_word (drop_bit 64 c)"
proof -
  define h where "h = drop_bit 64 c"
  have digit: "ff_digit c (i + 4) = ff_digit h i" for i
    by (simp add: ff_digit_def h_def algebra_simps)
  have "uint h < 2 ^ 64"
    using uint_lt128 [of c] unfolding h_def by (simp add: uint_drop_bit div_less_iff_less_mult)
  then have "ff_of_word (ucast h :: u64) = ff_of_word h"
    unfolding ff_of_word_def by (simp add: unsigned_ucast_eq take_bit_int_eq_self del: of_int_uint)
  then show ?thesis
    using half_fold_low [of h] digit [of 0] digit [of 1] digit [of 2] digit [of 3] by (simp add: h_def)
qed

lemma half_fold: "ff_of_word (ucast c :: u64) + ff_of_word (drop_bit 64 c) * 2 ^ 64 = ff_of_word (c :: u128)"
  using ff_split_low [of c, where 'b = 64] by (simp add: mult.commute)

lemmas half_folded = regs8 half_fold_low [unfolded One_nat_def] half_fold_high half_fold [simplified]

text \<open>The two rows, over the halves of the operands.\<close>

lemma mul_u128_rows:
  fixes clk :: u32
  assumes "ff_of_word x = a" "ff_of_word y = b"
    and "a * ff_of_word (ucast y :: u64) + ff_of_word (ucast x :: u64) * ff_of_word (drop_bit 64 y) * 2 ^ 64 =
      (of_bool cf * 2 ^ 64 + ff_of_word r0) * 2 ^ 128 + ic"
  defines "row1 \<equiv> alu_fill (alu_entry\<lparr>alu_clk := clk, alu_op_mul := True, alu_u128_tag := True, alu_ia := a,
      alu_ib := b, alu_ic := ic, alu_cf := cf, alu_u16_reg := u16_regs 8 x, alu_u64_r0 := r0\<rparr>) alu_zero"
    and "row2 \<equiv> alu_fill (alu_entry\<lparr>alu_u16_reg := u16_regs 8 y\<rparr>) alu_zero"
  shows "all_zero (avm_alu_relation row1 row2)" "all_zero (avm_alu_relation row2 s)"
  using assms(1-3) by (simp_all add: row1_def row2_def alu_row_defs half_folded)


end
