(* ===== verification/Avm_Alu_Ops.thy ===== *)
theory Avm_Alu_Ops
  imports Avm_Alu_Circuit
begin

text \<open>
  The operations of the arithmetic unit: their results as arithmetic modulo the width of the
  tag, and the relations of the circuit on the blocks of rows they append, the carry and the
  limbs of the 128-bit multiplication included.
\<close>

section \<open>What the operations compute\<close>

text \<open>An integer as a value of the tag: modulo the width, and for FF modulo the order.\<close>

definition typed :: "AvmMemoryTag \<Rightarrow> int \<Rightarrow> ff" where
  "typed t z = (if t = FF then of_int z else of_int (z mod 2 ^ tag_bits t))"

lemma tag_bits_le: "t \<noteq> FF \<Longrightarrow> tag_bits t \<le> 128"
  by (cases t) simp_all

lemma has_type_typed: "has_type t (typed t z)"
proof (cases "t = FF")
  case False
  have "z mod 2 ^ tag_bits t < 2 ^ tag_bits t" "0 \<le> z mod 2 ^ tag_bits t"
    by simp_all
  moreover have "(2::int) ^ tag_bits t < fr_order"
    using False by (cases t) simp_all
  ultimately have "ff_int (of_int (z mod 2 ^ tag_bits t)) = z mod 2 ^ tag_bits t"
    unfolding ff_int_of_int by (intro mod_pos_pos_trivial) (assumption, rule order_less_trans)
  then show ?thesis
    using False by (simp add: has_type_def typed_def)
qed simp

lemma alu_cast_typed:
  assumes "t \<noteq> U0" and "uint c = z mod 2 ^ 128"
  shows "alu_cast t (of_int z) c = typed t z"
proof (cases "t = FF")
  case False
  have "alu_cast t (of_int z) c = of_int (uint c mod 2 ^ tag_bits t)"
    using assms(1) False uint_lt128 [of c]
    by (cases t) (simp_all add: alu_cast_def ff_of_word_def unsigned_ucast_eq take_bit_eq_mod del: of_int_uint)
  also have "uint c mod 2 ^ tag_bits t = z mod 2 ^ tag_bits t"
    unfolding assms(2) using tag_bits_le [OF False] by (intro mod_mod_cancel le_imp_power_dvd)
  finally show ?thesis
    using False by (simp add: typed_def)
qed (simp add: alu_cast_def typed_def)

lemma uint_to_u128: "uint (ff_to_u128 a) = ff_int a mod 2 ^ 128"
  by (simp add: ff_to_u128_def uint_word_of_int)

lemma uint_u128_ops:
  "uint (ff_to_u128 a + ff_to_u128 b) = (ff_int a + ff_int b) mod 2 ^ 128"
  "uint (ff_to_u128 a - ff_to_u128 b) = (ff_int a - ff_int b) mod 2 ^ 128"
  "uint (ff_to_u128 a * ff_to_u128 b) = (ff_int a * ff_int b) mod 2 ^ 128"
  by (simp_all add: ff_to_u128_def uint_word_of_int uint_word_ariths mod_simps)

lemma uint_to_uint128: "uint (uint256_to_uint128 x) = ival x mod 2 ^ 128"
proof -
  have "uint (push_bit 64 (ucast (data1 x) :: u128)) = 18446744073709551616 * uint (data1 x)"
    using uint_lt64 [of "data1 x"]
    by (subst unsigned_push_bit_eq) (simp add: unsigned_ucast_eq take_bit_int_eq_self push_bit_eq_mult take_bit_eq_mod)
  moreover have "uint (ucast (data0 x) :: u128) = uint (data0 x)"
    using uint_lt64 [of "data0 x"] by (simp add: unsigned_ucast_eq take_bit_int_eq_self)
  ultimately have "uint (uint256_to_uint128 x) = (18446744073709551616 * uint (data1 x) + uint (data0 x)) mod 2 ^ 128"
    by (simp add: uint256_to_uint128_def uint_word_ariths)
  also have "\<dots> = ival x mod 2 ^ 128"
  proof -
    have "ival x = (18446744073709551616 * uint (data1 x) + uint (data0 x)) +
        2 ^ 128 * (uint (data2 x) + 18446744073709551616 * uint (data3 x))"
      by (simp add: ival_def)
    then show ?thesis
      by (simp only: mod_mult_self2)
  qed
  finally show ?thesis .
qed

lemma to_u128_of_u256: "uint256_to_uint128 (ff_to_u256 a) = ff_to_u128 a"
  by (simp add: word_uint_eq_iff uint_to_uint128 uint_to_u128)

lemma ff_ops_int: "a + b = of_int (ff_int a + ff_int b)" "a - b = of_int (ff_int a - ff_int b)"
  "a * b = of_int (ff_int a * ff_int b)"
  by simp_all

lemma alu_add_result:
  "in_tag \<noteq> U0 \<Longrightarrow> fst (alu_add a b in_tag clk tr) = typed in_tag (ff_int a + ff_int b)"
  using alu_cast_typed [OF _ uint_u128_ops(1) [of a b], of in_tag]
  by (simp add: alu_add_def Let_def split_def)

lemma alu_sub_result:
  "in_tag \<noteq> U0 \<Longrightarrow> fst (alu_sub a b in_tag clk tr) = typed in_tag (ff_int a - ff_int b)"
  using alu_cast_typed [OF _ uint_u128_ops(2) [of a b], of in_tag]
  by (simp add: alu_sub_def Let_def split_def)

lemma alu_mul_result:
  assumes "in_tag \<noteq> U0"
  shows "fst (alu_mul a b in_tag clk tr) = typed in_tag (ff_int a * ff_int b)"
proof -
  have "alu_cast in_tag (a * b) (ff_to_u128 a * ff_to_u128 b) = typed in_tag (ff_int a * ff_int b)"
    using alu_cast_typed [OF assms uint_u128_ops(3) [of a b]] by simp
  then show ?thesis
    using assms unfolding alu_mul_def alu_mul_u128_def Let_def split_def to_u128_of_u256
    by (cases "in_tag = U128") (simp_all add: alu_cast_def del: of_int_mult)
qed

lemma alu_not_result:
  assumes "in_tag \<noteq> U0" "in_tag \<noteq> FF"
  shows "fst (alu_not a in_tag clk tr) = typed in_tag (- ff_int a - 1)"
proof -
  have NOT: "uint (NOT (ff_to_u128 a)) = (- ff_int a - 1) mod 2 ^ 128"
    by (simp add: not_eq_complement uint_word_ariths uint_to_u128 mod_simps)
  have "alu_cast in_tag 0 c = alu_cast in_tag (of_int (- ff_int a - 1)) c" for c
    using assms by (cases in_tag) (simp_all add: alu_cast_def)
  then show ?thesis
    using assms unfolding alu_not_def Let_def by (simp only: fst_conv if_False simp_thms alu_cast_typed [OF assms(1) NOT])
qed

lemma alu_eq_result: "fst (alu_eq a b in_tag clk tr) = of_bool (a = b)"
  by (simp add: alu_eq_def Let_def)

section \<open>The rows satisfy the relations\<close>

text \<open>A block of rows that is right whatever row follows it, so blocks can be appended.\<close>

definition alu_block_ok :: "AluTraceEntry list \<Rightarrow> bool" where
  "alu_block_ok es \<longleftrightarrow>
     (\<forall>s. successively (\<lambda>r s. all_zero (avm_alu_relation r s)) (map (\<lambda>e. alu_fill e alu_zero) es @ [s]))"

lemma alu_block_Nil [simp]: "alu_block_ok []"
  by (simp add: alu_block_ok_def)

lemma alu_block_append: "alu_block_ok es \<Longrightarrow> alu_block_ok fs \<Longrightarrow> alu_block_ok (es @ fs)"
  by (cases fs) (auto simp: alu_block_ok_def successively_append_iff)

lemma alu_block_single: "(\<And>s. all_zero (avm_alu_relation (alu_fill e alu_zero) s)) \<Longrightarrow> alu_block_ok [e]"
  by (simp add: alu_block_ok_def)

lemma word_add_carry:
  "uint (x + y :: u128) = uint x + uint y - of_bool (x + y < x) * 2 ^ 128"
  using uint_lt128 [of x] uint_lt128 [of y] uint_lt2p [of x] unsigned_greater_eq [of x] unsigned_greater_eq [of y]
  by (simp add: uint_plus_if' word_less_def split: if_splits)

lemma word_sub_borrow:
  "uint (x - y :: u128) = uint x - uint y + of_bool (x < y) * 2 ^ 128"
  using uint_lt128 [of x] uint_lt128 [of y] unsigned_greater_eq [of x] unsigned_greater_eq [of y]
  by (simp add: uint_sub_if' word_less_def)

lemma ff_add_carry:
  "ff_of_word (x + y :: u128) = ff_of_word x + ff_of_word y - of_bool (x + y < x) * 2 ^ 128"
  unfolding ff_of_word_def word_add_carry by (simp del: of_int_uint)

lemma ff_sub_borrow:
  "ff_of_word (x - y :: u128) = ff_of_word x - ff_of_word y + of_bool (x < y) * 2 ^ 128"
  unfolding ff_of_word_def word_sub_borrow by (simp del: of_int_uint)

lemma alu_add_block:
  assumes "has_type in_tag a" "has_type in_tag b"
  shows "\<exists>es. snd (alu_add a b in_tag clk tr) = tr @ es \<and> alu_block_ok es \<and> length es \<le> 2"
proof -
  consider "in_tag = U0" | "in_tag = FF" | "in_tag \<notin> {U0, FF}" by blast
  then show ?thesis
  proof cases
    case 2
    then show ?thesis
      using ff_rows(1) by (simp add: alu_add_def Let_def alu_regs_cases alu_cast_def alu_block_single)
  next
    case 3
    have range: "ff_of_word (ff_to_u128 a) = a" "ff_of_word (ff_to_u128 b) = b"
      using assms 3 has_type_128 by (auto intro: ff_of_u128)
    have "ff_of_word (ff_to_u128 a + ff_to_u128 b) =
        a + b - of_bool (ff_to_u128 a + ff_to_u128 b < ff_to_u128 a) * 2 ^ 128"
      unfolding ff_add_carry range ..
    then show ?thesis
      using 3 by (simp add: alu_add_def Let_def alu_regs_cases alu_block_single add_row)
  qed (simp add: alu_add_def)
qed

lemma alu_sub_block:
  assumes "has_type in_tag a" "has_type in_tag b"
  shows "\<exists>es. snd (alu_sub a b in_tag clk tr) = tr @ es \<and> alu_block_ok es \<and> length es \<le> 2"
proof -
  consider "in_tag = U0" | "in_tag = FF" | "in_tag \<notin> {U0, FF}" by blast
  then show ?thesis
  proof cases
    case 2
    then show ?thesis
      using ff_rows(2) by (simp add: alu_sub_def Let_def alu_regs_cases alu_cast_def alu_block_single)
  next
    case 3
    have range: "ff_of_word (ff_to_u128 a) = a" "ff_of_word (ff_to_u128 b) = b"
      using assms 3 has_type_128 by (auto intro: ff_of_u128)
    have "ff_of_word (ff_to_u128 a - ff_to_u128 b) = a - b + of_bool (ff_to_u128 a < ff_to_u128 b) * 2 ^ 128"
      unfolding ff_sub_borrow range ..
    then show ?thesis
      using 3 by (simp add: alu_sub_def Let_def alu_regs_cases alu_block_single sub_row)
  qed (simp add: alu_sub_def)
qed

text \<open>Factors of at most 64 bits have a product below 2^128.\<close>

lemma mul_no_overflow:
  assumes "has_type in_tag a" "has_type in_tag b" "in_tag \<notin> {FF, U128}"
  shows "ff_of_word (ff_to_u128 a * ff_to_u128 b) = a * b"
proof -
  have "(2::int) ^ tag_bits in_tag \<le> 2 ^ 64"
    using assms(3) by (cases in_tag) simp_all
  then have "ff_int a < 2 ^ 64" "ff_int b < 2 ^ 64"
    using assms(1,2) unfolding has_type_def by linarith+
  then have "ff_int a * ff_int b < 2 ^ 64 * 2 ^ 64"
    using ff_int_range [of a] ff_int_range [of b] by (intro mult_strict_mono) auto
  then have "uint (ff_to_u128 a * ff_to_u128 b) = ff_int a * ff_int b"
    unfolding uint_u128_ops using ff_int_range [of a] ff_int_range [of b] by (intro mod_pos_pos_trivial) simp_all
  then show ?thesis
    by (simp add: ff_of_word_def del: of_int_uint)
qed

lemma split_product:
  fixes A B :: int
  assumes "0 \<le> A" "A < 2 ^ 128" "0 \<le> B" "B < 2 ^ 128"
  defines "D \<equiv> A * B - (A div 2 ^ 64) * (B div 2 ^ 64) * 2 ^ 128"
  shows "D = A * (B mod 2 ^ 64) + (A mod 2 ^ 64) * (B div 2 ^ 64) * 2 ^ 64" and "0 \<le> D" and "D < 2 ^ 193"
proof -
  have A: "A = A mod 2 ^ 64 + 2 ^ 64 * (A div 2 ^ 64)" and B: "B = B mod 2 ^ 64 + 2 ^ 64 * (B div 2 ^ 64)"
    by simp_all
  define a0 a1 b0 b1 where "a0 = A mod 2 ^ 64" and "a1 = A div 2 ^ 64" and "b0 = B mod 2 ^ 64" and "b1 = B div 2 ^ 64"
  have ab: "A = a0 + 2 ^ 64 * a1" "B = b0 + 2 ^ 64 * b1"
    by (simp_all add: a0_def a1_def b0_def b1_def)
  have "D = A * B - a1 * b1 * 2 ^ 128"
    unfolding D_def a1_def b1_def ..
  also have "\<dots> = A * b0 + a0 * b1 * 2 ^ 64"
    unfolding ab by (simp add: algebra_simps)
  finally show D: "D = A * (B mod 2 ^ 64) + (A mod 2 ^ 64) * (B div 2 ^ 64) * 2 ^ 64"
    unfolding a0_def b0_def b1_def .
  have b0: "0 \<le> b0" "b0 < 2 ^ 64" and a0: "0 \<le> a0" "a0 < 2 ^ 64" and b1: "0 \<le> b1" "b1 < 2 ^ 64"
    using assms(3,4) by (simp_all add: a0_def b0_def b1_def div_less_iff_less_mult)
  show "0 \<le> D"
    unfolding D a0_def [symmetric] b0_def [symmetric] b1_def [symmetric] using assms(1) a0 b0 b1 by simp
  have "A * b0 \<le> 2 ^ 128 * 2 ^ 64" "a0 * b1 \<le> 2 ^ 64 * 2 ^ 64"
    using assms(1,2) a0 b0 b1 by (intro mult_mono; simp)+
  moreover have "A * b0 \<noteq> 2 ^ 128 * 2 ^ 64"
    using mult_strict_mono [of A "2 ^ 128" b0 "2 ^ 64"] assms(1,2) b0 by simp
  ultimately show "D < 2 ^ 193"
    unfolding D a0_def [symmetric] b0_def [symmetric] b1_def [symmetric] by simp
qed

lemma split_digits:
  fixes D :: int
  assumes "0 \<le> D" "D < 2 ^ 193"
  shows "D = (of_bool (D div 2 ^ 192 > 0) * 2 ^ 64 + D div 2 ^ 128 mod 2 ^ 64) * 2 ^ 128 + D mod 2 ^ 128"
proof -
  define q where "q = D div 2 ^ 128"
  have "D div 2 ^ 192 = q div 2 ^ 64"
    unfolding q_def by (simp add: zdiv_zmult2_eq [symmetric])
  moreover have "0 \<le> q" "q < 2 ^ 65"
    using assms by (simp_all add: q_def div_less_iff_less_mult pos_imp_zdiv_nonneg_iff)
  then have "q div 2 ^ 64 = of_bool (q div 2 ^ 64 > 0)"
    by (cases "q div 2 ^ 64 > 0") (simp_all add: not_less div_less_iff_less_mult)
  ultimately have "q = of_bool (D div 2 ^ 192 > 0) * 2 ^ 64 + q mod 2 ^ 64"
    using mult_div_mod_eq [of "2 ^ 64" q] by simp
  moreover have "D = q * 2 ^ 128 + D mod 2 ^ 128"
    unfolding q_def by simp
  ultimately show ?thesis
    unfolding q_def by simp
qed

lemma uint_data0: "uint (data0 z) = ival z mod 2 ^ 64"
proof -
  have "ival z = uint (data0 z) + 2 ^ 64 * (uint (data1 z) + B64 * (uint (data2 z) + B64 * uint (data3 z)))"
    by (simp add: ival_def)
  then have "ival z mod 2 ^ 64 = uint (data0 z) mod 2 ^ 64"
    by (simp only: mod_mult_self2)
  then show ?thesis
    using uint_range64 [of "data0 z"] by simp
qed

lemma data0_low_mask: "data0 (u256_and z (uint256_of_u64 0xffffffffffffffff)) = data0 z"
proof -
  have "(0xffffffffffffffff :: u64) = - 1" by simp
  then show ?thesis
    by (simp only: u256_and_def uint256_of_u64_def uint256_t.sel and.right_neutral)
qed

text \<open>The carry and the register of the 128-bit branch, from 256-bit arithmetic.\<close>

lemma mul_u128_carry:
  fixes a b :: ff
  assumes "ff_int a < 2 ^ 128" "ff_int b < 2 ^ 128"
  defines "A \<equiv> ff_int a" and "B \<equiv> ff_int b"
    and "diff \<equiv> u256_sub (u256_mul (ff_to_u256 a) (ff_to_u256 b))
      (u256_shl (u256_mul (u256_shr (ff_to_u256 a) (uint256_of_u64 64)) (u256_shr (ff_to_u256 b) (uint256_of_u64 64)))
        (uint256_of_u64 128))"
  shows "ival diff = A * B - (A div 2 ^ 64) * (B div 2 ^ 64) * 2 ^ 128"
proof -
  note A = ff_int_range [of a, folded A_def] and B = ff_int_range [of b, folded B_def]
  have AB: "A < 2 ^ 128" "B < 2 ^ 128" "0 \<le> A" "0 \<le> B"
    using assms(1,2) A B by (simp_all add: A_def B_def)
  have "0 \<le> A div 2 ^ 64" "A div 2 ^ 64 < 2 ^ 64" "0 \<le> B div 2 ^ 64" "B div 2 ^ 64 < 2 ^ 64"
    using AB by (simp_all add: div_less_iff_less_mult pos_imp_zdiv_nonneg_iff)
  then have h: "0 \<le> (A div 2 ^ 64) * (B div 2 ^ 64)" "(A div 2 ^ 64) * (B div 2 ^ 64) < 2 ^ 64 * 2 ^ 64"
    by (simp, intro mult_strict_mono) simp_all
  have p: "0 \<le> A * B" "A * B < 2 ^ 128 * 2 ^ 128"
    using AB by (simp, intro mult_strict_mono) simp_all
  define H where "H = (A div 2 ^ 64) * (B div 2 ^ 64)"
  have "ival (u256_mul (ff_to_u256 a) (ff_to_u256 b)) = A * B"
    unfolding ival_mul ival_ff_to_u256 A_def [symmetric] B_def [symmetric] using p by (intro mod_pos_pos_trivial) simp_all
  moreover have "ival (u256_mul (u256_shr (ff_to_u256 a) (uint256_of_u64 64)) (u256_shr (ff_to_u256 b) (uint256_of_u64 64))) = H"
    unfolding ival_mul ival_shr ival_ff_to_u256 A_def [symmetric] B_def [symmetric] H_def
    using h by (simp only: ival_of_u64) simp
  then have "ival (u256_shl (u256_mul (u256_shr (ff_to_u256 a) (uint256_of_u64 64))
      (u256_shr (ff_to_u256 b) (uint256_of_u64 64))) (uint256_of_u64 128)) = H * 2 ^ 128"
    unfolding ival_shl using h by (simp add: H_def)
  ultimately have "ival diff = (A * B - H * 2 ^ 128) mod B256"
    unfolding diff_def ival_sub by simp
  also have "\<dots> = A * B - H * 2 ^ 128"
  proof (rule mod_pos_pos_trivial)
    show "0 \<le> A * B - H * 2 ^ 128"
      using split_product(2) [OF AB(3,1,4,2)] unfolding H_def .
    show "A * B - H * 2 ^ 128 < B256"
      using split_product(3) [OF AB(3,1,4,2)] unfolding H_def by simp
  qed
  finally show ?thesis
    unfolding H_def .
qed

lemma alu_mul_u128_block:
  assumes "has_type U128 a" "has_type U128 b"
  shows "\<exists>es. snd (alu_mul_u128 a b clk tr) = tr @ es \<and> alu_block_ok es \<and> length es \<le> 2"
proof -
  define A B where "A = ff_int a" and "B = ff_int b"
  have AB: "0 \<le> A" "A < 2 ^ 128" "0 \<le> B" "B < 2 ^ 128"
    using assms ff_int_range [of a] ff_int_range [of b] by (simp_all add: A_def B_def has_type_def)
  define diff where "diff = u256_sub (u256_mul (ff_to_u256 a) (ff_to_u256 b))
      (u256_shl (u256_mul (u256_shr (ff_to_u256 a) (uint256_of_u64 64)) (u256_shr (ff_to_u256 b) (uint256_of_u64 64)))
        (uint256_of_u64 128))"
  define D where "D = ival diff"
  have D: "D = A * B - (A div 2 ^ 64) * (B div 2 ^ 64) * 2 ^ 128"
    using mul_u128_carry [of a b] AB unfolding D_def diff_def A_def B_def by simp
  have D': "D = A * (B mod 2 ^ 64) + (A mod 2 ^ 64) * (B div 2 ^ 64) * 2 ^ 64" "0 \<le> D" "D < 2 ^ 193"
    using split_product [OF AB] unfolding D .
  define cf where "cf = u256_gt (u256_shr diff (uint256_of_u64 192)) (uint256_of_u64 0)"
  define r0 where "r0 = data0 (u256_shr diff (uint256_of_u64 128))"
  define x where "x = ff_to_u128 a"
  define y where "y = ff_to_u128 b"
  define c where "c = x * y"
  have cf: "cf \<longleftrightarrow> D div 2 ^ 192 > 0"
    by (simp add: cf_def u256_gt_iff ival_shr D_def)
  have r0: "uint r0 = D div 2 ^ 128 mod 2 ^ 64"
    by (simp add: r0_def uint_data0 ival_shr D_def)
  have c: "uint c = D mod 2 ^ 128"
  proof -
    have "A * B = D + 2 ^ 128 * ((A div 2 ^ 64) * (B div 2 ^ 64))"
      unfolding D by simp
    then show ?thesis
      unfolding c_def x_def y_def uint_u128_ops A_def [symmetric] B_def [symmetric] by (simp only: mod_mult_self2)
  qed
  have xy: "ff_of_word x = a" "ff_of_word y = b" "uint x = A" "uint y = B"
    using AB by (simp_all add: x_def y_def A_def B_def ff_of_u128 uint_ff_to_u128)
  have "a * ff_of_word (ucast y :: u64) + ff_of_word (ucast x :: u64) * ff_of_word (drop_bit 64 y) * 2 ^ 64 = of_int D"
    unfolding D'(1) ff_of_word_def
    by (simp add: unsigned_ucast_eq take_bit_eq_mod uint_drop_bit xy(3,4) A_def del: of_int_uint)
  also have "D = (of_bool cf * 2 ^ 64 + uint r0) * 2 ^ 128 + uint c"
    using split_digits [OF D'(2,3)] unfolding cf r0 c .
  also have "of_int \<dots> = (of_bool cf * 2 ^ 64 + ff_of_word r0) * 2 ^ 128 + ff_of_word c"
    unfolding ff_of_word_def by (simp del: of_int_uint)
  finally have "alu_block_ok [alu_entry\<lparr>alu_clk := clk, alu_op_mul := True, alu_u128_tag := True, alu_ia := a,
      alu_ib := b, alu_ic := ff_of_word c, alu_cf := cf, alu_u16_reg := u16_regs 8 x, alu_u64_r0 := r0\<rparr>,
      alu_entry\<lparr>alu_u16_reg := u16_regs 8 y\<rparr>]"
    using mul_u128_rows [OF xy(1,2)] by (simp add: alu_block_ok_def)
  then show ?thesis
    unfolding alu_mul_u128_def Let_def to_u128_of_u256 data0_low_mask
      diff_def [symmetric] cf_def [symmetric] r0_def [symmetric] x_def [symmetric] y_def [symmetric] c_def [symmetric]
    by simp
qed

lemma alu_mul_block:
  assumes "has_type in_tag a" "has_type in_tag b"
  shows "\<exists>es. snd (alu_mul a b in_tag clk tr) = tr @ es \<and> alu_block_ok es \<and> length es \<le> 2"
proof -
  consider "in_tag = U128" | "in_tag = U0" | "in_tag = FF" | "in_tag \<notin> {U0, FF, U128}" by blast
  then show ?thesis
  proof cases
    case 1
    then show ?thesis
      using alu_mul_u128_block [of a b clk tr] assms by (simp add: alu_mul_def)
  next
    case 3
    then show ?thesis
      using ff_rows(3) by (simp add: alu_mul_def Let_def alu_regs_cases alu_cast_def alu_block_single)
  next
    case 4
    then show ?thesis
      using mul_no_overflow [OF assms] by (simp add: alu_mul_def Let_def alu_regs_cases alu_block_single mul_row)
  qed (simp add: alu_mul_def)
qed

lemma not_result:
  assumes "has_type in_tag a" "in_tag \<notin> {U0, FF}"
  shows "a + typed in_tag (- ff_int a - 1) = 2 ^ tag_bits in_tag - 1"
proof -
  define p :: int where "p = 2 ^ tag_bits in_tag"
  have a: "0 \<le> ff_int a" "ff_int a < p"
    using assms ff_int_range [of a] by (simp_all add: has_type_def p_def)
  have "(- ff_int a - 1) mod p = (- ff_int a - 1 + p) mod p"
    by simp
  also have "\<dots> = p - 1 - ff_int a"
    using a by (subst mod_pos_pos_trivial) simp_all
  finally have "typed in_tag (- ff_int a - 1) = of_int p - 1 - a"
    using assms(2) by (simp add: typed_def p_def [symmetric])
  then show ?thesis
    by (simp add: p_def)
qed

lemma alu_not_block:
  assumes "has_type in_tag a"
  shows "\<exists>es. snd (alu_not a in_tag clk tr) = tr @ es \<and> alu_block_ok es \<and> length es \<le> 2"
proof (cases "in_tag \<in> {U0, FF}")
  case True
  then show ?thesis
    by (auto simp: alu_not_def)
next
  case False
  have "alu_cast in_tag 0 (NOT (ff_to_u128 a)) = typed in_tag (- ff_int a - 1)"
    using False alu_not_result [of in_tag a clk tr] by (simp add: alu_not_def Let_def)
  then show ?thesis
    using False not_result [OF assms] by (simp add: alu_not_def Let_def alu_block_single not_row)
qed

lemma alu_eq_block: "\<exists>es. snd (alu_eq a b in_tag clk tr) = tr @ es \<and> alu_block_ok es \<and> length es \<le> 2"
  using eq_row by (simp add: alu_eq_def Let_def alu_block_single)

text \<open>The table: a row of zeros on top, the rows of the operations, zeros up to the end.\<close>

lemma alu_relation_zero: "all_zero (avm_alu_relation alu_zero s)"
  by (simp add: alu_row_defs)

lemma alu_table_ok:
  assumes "alu_block_ok es"
  shows "rows_ok avm_alu_relation alu_zero (alu_zero # map (\<lambda>e. alu_fill e alu_zero) es @ replicate n alu_zero)"
proof -
  have "successively (\<lambda>r s. all_zero (avm_alu_relation r s)) (replicate n alu_zero @ [alu_zero])"
    using successively_replicate [of "\<lambda>r s. all_zero (avm_alu_relation r s)" alu_zero "Suc n"] alu_relation_zero
    by (simp add: replicate_append_same)
  moreover have "successively (\<lambda>r s. all_zero (avm_alu_relation r s)) (map (\<lambda>e. alu_fill e alu_zero) es @ [alu_zero])"
    using assms by (simp add: alu_block_ok_def)
  ultimately show ?thesis
    unfolding rows_ok_def using alu_relation_zero
    by (auto simp: successively_append_iff successively_Cons hd_append)
qed

lemma alu_fill_all_zero:
  "alu_fill_all es (replicate n alu_zero) =
     (if length es \<le> n then Inr (map (\<lambda>e. alu_fill e alu_zero) es @ replicate (n - length es) alu_zero)
      else Inl Out_of_range)"
proof (induction es arbitrary: n)
  case (Cons e es)
  show ?case
    by (cases n) (simp_all add: Cons.IH)
qed simp

end
