(* ===== verification/Avm_Trace.thy ===== *)
theory Avm_Trace
  imports Avm_Alu_Ops
begin

text \<open>
  The execution trace, class AvmTraceBuilder of vm/avm_trace/avm_trace.cpp: the builder keeps
  the main trace, the memory and arithmetic builders, the program counter and the internal
  call stack; there is one operation per opcode, and finalize puts the three traces side by
  side.
\<close>

section \<open>The builder\<close>

definition CALLSTACK_OFFSET :: u32 where
  "CALLSTACK_OFFSET = 896"

definition UINT32_MAX :: u32 where
  "UINT32_MAX = 0xffffffff"

record AvmTraceBuilder =
  main_trace :: "AvmFullRow list"
  mem_trace_builder :: AvmMemTraceBuilder
  alu_trace :: "AluTraceEntry list"
  pc :: u32
  internal_return_ptr :: u32
  internal_call_stack :: "u32 list"

definition trace_init :: AvmTraceBuilder where
  "trace_init = \<lparr>main_trace = [], mem_trace_builder = mem_init, alu_trace = [], pc = 0,
     internal_return_ptr = CALLSTACK_OFFSET, internal_call_stack = []\<rparr>"

definition trace_reset :: "AvmTraceBuilder \<Rightarrow> AvmTraceBuilder" where
  "trace_reset B = B\<lparr>main_trace := [], mem_trace_builder := mem_reset (mem_trace_builder B), alu_trace := []\<rparr>"

definition getPc :: "AvmTraceBuilder \<Rightarrow> u32" where
  "getPc B = pc B"

text \<open>The clock is the number of rows, cast to 32 bits.\<close>

definition clk_of :: "AvmTraceBuilder \<Rightarrow> u32" where
  "clk_of B = of_nat (length (main_trace B))"

definition push_row :: "avm_main_cols \<Rightarrow> AvmTraceBuilder \<Rightarrow> AvmTraceBuilder" where
  "push_row cols B = B\<lparr>main_trace := main_trace B @ [row_zero\<lparr>main_cols := cols\<rparr>]\<rparr>"

text \<open>The columns every row sets.\<close>

definition row_at :: "AvmTraceBuilder \<Rightarrow> avm_main_cols" where
  "row_at B = main_zero
     \<lparr>avm_main_clk := ff_of_word (clk_of B),
      avm_main_pc := ff_of_word (pc B),
      avm_main_internal_return_ptr := ff_of_word (internal_return_ptr B)\<rparr>"

section \<open>Arithmetic\<close>

text \<open>
  Addition, subtraction, multiplication and equality are the same code but for the operation
  of the arithmetic unit and the selector of the row: two operands are read, taken as zero if
  a tag does not match, and the result is written.
\<close>

definition op_binary ::
  "(ff \<Rightarrow> ff \<Rightarrow> AvmMemoryTag \<Rightarrow> u32 \<Rightarrow> AluTraceEntry list \<Rightarrow> ff \<times> AluTraceEntry list) \<Rightarrow>
    (avm_main_cols \<Rightarrow> avm_main_cols) \<Rightarrow> u32 \<Rightarrow> u32 \<Rightarrow> u32 \<Rightarrow> AvmMemoryTag \<Rightarrow> AvmTraceBuilder \<Rightarrow>
    avm_error + AvmTraceBuilder" where
  "op_binary alu_op select a_offset b_offset dst_offset in_tag B =
     (let clk = clk_of B
      in ebind (read_and_load_from_memory clk IA a_offset in_tag (mem_trace_builder B)) (\<lambda>(read_a, M).
         ebind (read_and_load_from_memory clk IB b_offset in_tag M) (\<lambda>(read_b, M).
         let matches = tag_match read_a \<and> tag_match read_b;
             a = (if matches then rd_val read_a else 0);
             b = (if matches then rd_val read_b else 0);
             (c, alu) = alu_op a b in_tag clk (alu_trace B)
         in ebind (write_into_memory clk IC dst_offset c in_tag M) (\<lambda>M.
         let row = select (row_at B)
               \<lparr>avm_main_in_tag := tag_ff in_tag,
                avm_main_tag_err := of_bool (\<not> matches),
                avm_main_ia := a, avm_main_ib := b, avm_main_ic := c,
                avm_main_mem_op_a := 1, avm_main_mem_op_b := 1, avm_main_mem_op_c := 1,
                avm_main_rwc := 1,
                avm_main_mem_idx_a := ff_of_word a_offset,
                avm_main_mem_idx_b := ff_of_word b_offset,
                avm_main_mem_idx_c := ff_of_word dst_offset\<rparr>
         in Inr (push_row row (B\<lparr>mem_trace_builder := M, alu_trace := alu, pc := pc B + 1\<rparr>))))))"

definition op_add :: "u32 \<Rightarrow> u32 \<Rightarrow> u32 \<Rightarrow> AvmMemoryTag \<Rightarrow> AvmTraceBuilder \<Rightarrow> avm_error + AvmTraceBuilder" where
  "op_add = op_binary alu_add (\<lambda>r. r\<lparr>avm_main_sel_op_add := 1\<rparr>)"

definition op_sub :: "u32 \<Rightarrow> u32 \<Rightarrow> u32 \<Rightarrow> AvmMemoryTag \<Rightarrow> AvmTraceBuilder \<Rightarrow> avm_error + AvmTraceBuilder" where
  "op_sub = op_binary alu_sub (\<lambda>r. r\<lparr>avm_main_sel_op_sub := 1\<rparr>)"

definition op_mul :: "u32 \<Rightarrow> u32 \<Rightarrow> u32 \<Rightarrow> AvmMemoryTag \<Rightarrow> AvmTraceBuilder \<Rightarrow> avm_error + AvmTraceBuilder" where
  "op_mul = op_binary alu_mul (\<lambda>r. r\<lparr>avm_main_sel_op_mul := 1\<rparr>)"

definition op_eq :: "u32 \<Rightarrow> u32 \<Rightarrow> u32 \<Rightarrow> AvmMemoryTag \<Rightarrow> AvmTraceBuilder \<Rightarrow> avm_error + AvmTraceBuilder" where
  "op_eq = op_binary alu_eq (\<lambda>r. r\<lparr>avm_main_sel_op_eq := 1\<rparr>)"

text \<open>
  Division computes in the field, whatever the tag is, and on the values that were read even
  if a tag does not match; only the row is cleared then.
\<close>

definition op_div :: "u32 \<Rightarrow> u32 \<Rightarrow> u32 \<Rightarrow> AvmMemoryTag \<Rightarrow> AvmTraceBuilder \<Rightarrow> avm_error + AvmTraceBuilder" where
  "op_div a_offset b_offset dst_offset in_tag B =
     (let clk = clk_of B
      in ebind (read_and_load_from_memory clk IA a_offset in_tag (mem_trace_builder B)) (\<lambda>(read_a, M).
         ebind (read_and_load_from_memory clk IB b_offset in_tag M) (\<lambda>(read_b, M).
         let matches = tag_match read_a \<and> tag_match read_b;
             a = rd_val read_a;
             b = rd_val read_b
         in ebind (if b \<noteq> 0 then ebind (ff_invert b) (\<lambda>inv. Inr (inv, a * inv, 0)) else Inr (1, 0, 1))
              (\<lambda>(inv, c, err).
            ebind (write_into_memory clk IC dst_offset c in_tag M) (\<lambda>M.
            let row = (row_at B)
                  \<lparr>avm_main_sel_op_div := 1,
                   avm_main_in_tag := tag_ff in_tag,
                   avm_main_op_err := (if matches then err else 1),
                   avm_main_tag_err := of_bool (\<not> matches),
                   avm_main_inv := (if matches then inv else 1),
                   avm_main_ia := (if matches then a else 0),
                   avm_main_ib := (if matches then b else 0),
                   avm_main_ic := (if matches then c else 0),
                   avm_main_mem_op_a := 1, avm_main_mem_op_b := 1, avm_main_mem_op_c := 1,
                   avm_main_rwc := 1,
                   avm_main_mem_idx_a := ff_of_word a_offset,
                   avm_main_mem_idx_b := ff_of_word b_offset,
                   avm_main_mem_idx_c := ff_of_word dst_offset\<rparr>
            in Inr (push_row row (B\<lparr>mem_trace_builder := M, pc := pc B + 1\<rparr>)))))))"

definition op_not :: "u32 \<Rightarrow> u32 \<Rightarrow> AvmMemoryTag \<Rightarrow> AvmTraceBuilder \<Rightarrow> avm_error + AvmTraceBuilder" where
  "op_not a_offset dst_offset in_tag B =
     (let clk = clk_of B
      in ebind (read_and_load_from_memory clk IA a_offset in_tag (mem_trace_builder B)) (\<lambda>(read_a, M).
         let a = (if tag_match read_a then rd_val read_a else 0);
             (c, alu) = alu_not a in_tag clk (alu_trace B)
         in ebind (write_into_memory clk IC dst_offset c in_tag M) (\<lambda>M.
         let row = (row_at B)
               \<lparr>avm_main_sel_op_not := 1,
                avm_main_in_tag := tag_ff in_tag,
                avm_main_tag_err := of_bool (\<not> tag_match read_a),
                avm_main_ia := a, avm_main_ic := c,
                avm_main_mem_op_a := 1, avm_main_mem_op_c := 1,
                avm_main_rwc := 1,
                avm_main_mem_idx_a := ff_of_word a_offset,
                avm_main_mem_idx_c := ff_of_word dst_offset\<rparr>
         in Inr (push_row row (B\<lparr>mem_trace_builder := M, alu_trace := alu, pc := pc B + 1\<rparr>)))))"

section \<open>Memory\<close>

definition op_set :: "u128 \<Rightarrow> u32 \<Rightarrow> AvmMemoryTag \<Rightarrow> AvmTraceBuilder \<Rightarrow> avm_error + AvmTraceBuilder" where
  "op_set val dst_offset in_tag B =
     (let clk = clk_of B;
          val_ff = ff_of_u256 (uint256_from_uint128 val)
      in ebind (write_into_memory clk IC dst_offset val_ff in_tag (mem_trace_builder B)) (\<lambda>M.
         let row = (row_at B)
               \<lparr>avm_main_in_tag := tag_ff in_tag, avm_main_ic := val_ff, avm_main_mem_op_c := 1,
                avm_main_rwc := 1, avm_main_mem_idx_c := ff_of_word dst_offset\<rparr>
         in Inr (push_row row (B\<lparr>mem_trace_builder := M, pc := pc B + 1\<rparr>))))"

definition vec_at :: "'a list \<Rightarrow> nat \<Rightarrow> avm_error + 'a" where
  "vec_at xs i = (if i < length xs then Inr (xs ! i) else Inl Out_of_range)"

text \<open>One word of the call data, stored from an intermediate register.\<close>

definition copy_word ::
  "u32 \<Rightarrow> IntermRegister \<Rightarrow> ff list \<Rightarrow> u32 \<Rightarrow> u32 \<Rightarrow> AvmMemTraceBuilder \<Rightarrow> avm_error + ff \<times> AvmMemTraceBuilder" where
  "copy_word clk r call_data_mem src dst M =
     ebind (vec_at call_data_mem (unat src)) (\<lambda>v.
       ebind (write_into_memory clk r dst v FF M) (\<lambda>M. Inr (v, M)))"

text \<open>The body of the loop: a row for up to three words, the first at position pos.\<close>

definition calldata_row ::
  "u32 \<Rightarrow> u32 \<Rightarrow> u32 \<Rightarrow> ff list \<Rightarrow> u32 \<Rightarrow> AvmTraceBuilder \<Rightarrow> avm_error + AvmTraceBuilder" where
  "calldata_row cd_offset copy_size dst_offset call_data_mem pos B =
     (let clk = clk_of B;
          two = copy_size - pos > 1;
          three = copy_size - pos > 2
      in ebind (copy_word clk IA call_data_mem (cd_offset + pos) (dst_offset + pos) (mem_trace_builder B)) (\<lambda>(ia, M).
         ebind (if two then copy_word clk IB call_data_mem (cd_offset + pos + 1) (dst_offset + pos + 1) M
                else Inr (0, M)) (\<lambda>(ib, M).
         ebind (if three then copy_word clk IC call_data_mem (cd_offset + pos + 2) (dst_offset + pos + 2) M
                else Inr (0, M)) (\<lambda>(ic, M).
         let row = (row_at B)
               \<lparr>avm_main_in_tag := tag_ff FF,
                avm_main_ia := ia, avm_main_ib := ib, avm_main_ic := ic,
                avm_main_mem_op_a := 1, avm_main_mem_op_b := of_bool two, avm_main_mem_op_c := of_bool three,
                avm_main_rwa := 1, avm_main_rwb := of_bool two, avm_main_rwc := of_bool three,
                avm_main_mem_idx_a := ff_of_word (dst_offset + pos),
                avm_main_mem_idx_b := (if two then ff_of_word (dst_offset + pos + 1) else 0),
                avm_main_mem_idx_c := (if three then ff_of_word (dst_offset + pos + 2) else 0)\<rparr>
         in Inr (push_row row (B\<lparr>mem_trace_builder := M, pc := pc B + 1\<rparr>))))))"

definition next_pos :: "u32 \<Rightarrow> u32 \<Rightarrow> u32" where
  "next_pos len pos = (if len - pos > 2 then pos + 3 else len)"

lemma next_pos_decreases:
  assumes "pos < len"
  shows "unat len - unat (next_pos len pos) < unat len - unat pos"
proof (cases "len - pos > 2")
  case True
  then have "2 < unat len - unat pos"
    using assms by (simp add: word_less_nat_alt unat_sub word_le_nat_alt)
  moreover have "unat len < 2 ^ LENGTH(32)"
    by (rule unsigned_less)
  ultimately have "unat (pos + 3) = unat pos + 3"
    by (simp add: unat_word_ariths)
  then show ?thesis
    using True \<open>2 < unat len - unat pos\<close> by (simp add: next_pos_def)
next
  case False
  then show ?thesis
    using assms by (simp add: next_pos_def word_less_nat_alt)
qed

function calldata_loop ::
  "u32 \<Rightarrow> u32 \<Rightarrow> u32 \<Rightarrow> ff list \<Rightarrow> u32 \<Rightarrow> AvmTraceBuilder \<Rightarrow> avm_error + AvmTraceBuilder" where
  "calldata_loop cd_offset copy_size dst_offset call_data_mem pos B =
     (if pos < copy_size
      then ebind (calldata_row cd_offset copy_size dst_offset call_data_mem pos B)
             (calldata_loop cd_offset copy_size dst_offset call_data_mem (next_pos copy_size pos))
      else Inr B)"
  by pat_completeness auto
termination
  by (relation "measure (\<lambda>(_, copy_size, _, _, pos, _). unat copy_size - unat pos)")
    (simp_all add: next_pos_decreases)

declare calldata_loop.simps [simp del]

definition calldata_copy ::
  "u32 \<Rightarrow> u32 \<Rightarrow> u32 \<Rightarrow> ff list \<Rightarrow> AvmTraceBuilder \<Rightarrow> avm_error + AvmTraceBuilder" where
  "calldata_copy cd_offset copy_size dst_offset call_data_mem B =
     calldata_loop cd_offset copy_size dst_offset call_data_mem 0 B"

text \<open>
  The loop of RETURN. The variables ib and ic of the row are those declared at the top of the
  body, which the branches below shadow by others of the same name: they stay zero.
\<close>

definition return_row ::
  "u32 \<Rightarrow> u32 \<Rightarrow> u32 \<Rightarrow> AvmTraceBuilder \<Rightarrow> avm_error + ff list \<times> AvmTraceBuilder" where
  "return_row ret_offset ret_size pos B =
     (let clk = clk_of B;
          ib = 0; ic = 0;
          two = ret_size - pos > 1;
          three = ret_size - pos > 2
      in ebind (read_and_load_from_memory clk IA (ret_offset + pos) FF (mem_trace_builder B)) (\<lambda>(read_a, M).
         let matches = tag_match read_a;
             ia = rd_val read_a;
             returnMem = [ia]
         in ebind (if two
                   then ebind (read_and_load_from_memory clk IB (ret_offset + pos + 1) FF M) (\<lambda>(read_b, M).
                     Inr (matches \<and> tag_match read_b, returnMem @ [rd_val read_b], M))
                   else Inr (matches, returnMem, M)) (\<lambda>(matches, returnMem, M).
            ebind (if three
                   then ebind (read_and_load_from_memory clk IC (ret_offset + pos + 2) FF M) (\<lambda>(read_c, M).
                     Inr (matches \<and> tag_match read_c, returnMem @ [rd_val read_c], M))
                   else Inr (matches, returnMem, M)) (\<lambda>(matches, returnMem, M).
            let row = (row_at B)
                  \<lparr>avm_main_sel_halt := 1,
                   avm_main_in_tag := tag_ff FF,
                   avm_main_tag_err := of_bool (\<not> matches),
                   avm_main_ia := (if matches then ia else 0),
                   avm_main_ib := (if matches then ib else 0),
                   avm_main_ic := (if matches then ic else 0),
                   avm_main_mem_op_a := 1, avm_main_mem_op_b := of_bool two, avm_main_mem_op_c := of_bool three,
                   avm_main_mem_idx_a := ff_of_word (ret_offset + pos),
                   avm_main_mem_idx_b := (if two then ff_of_word (ret_offset + pos + 1) else 0),
                   avm_main_mem_idx_c := (if three then ff_of_word (ret_offset + pos + 2) else 0)\<rparr>
            in Inr (returnMem, push_row row (B\<lparr>mem_trace_builder := M\<rparr>))))))"

function return_loop ::
  "u32 \<Rightarrow> u32 \<Rightarrow> u32 \<Rightarrow> ff list \<Rightarrow> AvmTraceBuilder \<Rightarrow> avm_error + ff list \<times> AvmTraceBuilder" where
  "return_loop ret_offset ret_size pos returnMem B =
     (if pos < ret_size
      then ebind (return_row ret_offset ret_size pos B) (\<lambda>(vals, B).
             return_loop ret_offset ret_size (next_pos ret_size pos) (returnMem @ vals) B)
      else Inr (returnMem, B))"
  by pat_completeness auto
termination
  by (relation "measure (\<lambda>(_, ret_size, pos, _). unat ret_size - unat pos)")
    (simp_all add: next_pos_decreases)

declare return_loop.simps [simp del]

section \<open>Control flow\<close>

definition op_halt :: "AvmTraceBuilder \<Rightarrow> AvmTraceBuilder" where
  "op_halt B =
     (let clk = of_nat (length (main_trace B)) :: u64;
          row = main_zero
            \<lparr>avm_main_clk := ff_of_word clk, avm_main_pc := ff_of_word (pc B),
             avm_main_internal_return_ptr := ff_of_word (internal_return_ptr B), avm_main_sel_halt := 1\<rparr>
      in push_row row (B\<lparr>pc := UINT32_MAX\<rparr>))"

definition return_op :: "u32 \<Rightarrow> u32 \<Rightarrow> AvmTraceBuilder \<Rightarrow> avm_error + ff list \<times> AvmTraceBuilder" where
  "return_op ret_offset ret_size B =
     (if ret_size = 0 then Inr ([], op_halt B)
      else ebind (return_loop ret_offset ret_size 0 [] B) (\<lambda>(returnMem, B).
             Inr (returnMem, B\<lparr>pc := UINT32_MAX\<rparr>)))"

definition op_jump :: "u32 \<Rightarrow> AvmTraceBuilder \<Rightarrow> AvmTraceBuilder" where
  "op_jump jmp_dest B =
     (let clk = of_nat (length (main_trace B)) :: u64;
          row = main_zero
            \<lparr>avm_main_clk := ff_of_word clk, avm_main_pc := ff_of_word (pc B),
             avm_main_internal_return_ptr := ff_of_word (internal_return_ptr B), avm_main_sel_jump := 1,
             avm_main_ia := ff_of_word jmp_dest\<rparr>
      in push_row row (B\<lparr>pc := jmp_dest\<rparr>))"

definition internal_call :: "u32 \<Rightarrow> AvmTraceBuilder \<Rightarrow> avm_error + AvmTraceBuilder" where
  "internal_call jmp_dest B =
     (let clk = clk_of B;
          stored_pc = pc B + 1;
          B = B\<lparr>internal_call_stack := stored_pc # internal_call_stack B\<rparr>
      in ebind (write_into_memory clk IB (internal_return_ptr B) (ff_of_word stored_pc) FF (mem_trace_builder B)) (\<lambda>M.
         let row = (row_at B)
               \<lparr>avm_main_sel_internal_call := 1,
                avm_main_ia := ff_of_word jmp_dest,
                avm_main_ib := ff_of_word stored_pc,
                avm_main_mem_op_b := 1,
                avm_main_rwb := 1,
                avm_main_mem_idx_b := ff_of_word (internal_return_ptr B)\<rparr>
         in Inr (push_row row (B\<lparr>mem_trace_builder := M, pc := jmp_dest,
              internal_return_ptr := internal_return_ptr B + 1\<rparr>))))"

definition internal_return :: "AvmTraceBuilder \<Rightarrow> avm_error + AvmTraceBuilder" where
  "internal_return B =
     (let clk = clk_of B
      in ebind (read_and_load_from_memory clk IA (internal_return_ptr B - 1) FF (mem_trace_builder B)) (\<lambda>(read_a, M).
         let row = (row_at B)
               \<lparr>avm_main_sel_internal_return := 1,
                avm_main_tag_err := of_bool (\<not> tag_match read_a),
                avm_main_ia := (if tag_match read_a then rd_val read_a else 0),
                avm_main_mem_op_a := 1,
                avm_main_rwa := 0,
                avm_main_mem_idx_a := ff_of_word (internal_return_ptr B - 1)\<rparr>;
             B = push_row row (B\<lparr>mem_trace_builder := M\<rparr>)
         in case internal_call_stack B of
              [] \<Rightarrow> Inl Empty_stack
            | top_pc # rest \<Rightarrow> Inr (B\<lparr>pc := top_pc, internal_call_stack := rest,
                internal_return_ptr := internal_return_ptr B - 1\<rparr>)))"

section \<open>The finished trace\<close>

fun finalise_mem_trace_lookup_counts ::
  "(u32 \<times> u32) list \<Rightarrow> AvmFullRow list \<Rightarrow> avm_error + AvmFullRow list" where
  "finalise_mem_trace_lookup_counts [] rows = Inr rows"
| "finalise_mem_trace_lookup_counts ((clk, n) # counts) rows =
     (if unat clk < length rows
      then finalise_mem_trace_lookup_counts counts
             (rows[unat clk := (rows ! unat clk)\<lparr>equiv_tag_err_counts := ff_of_word n\<rparr>])
      else Inl Out_of_range)"

definition first_row :: AvmFullRow where
  "first_row = row_zero
     \<lparr>main_cols := main_zero\<lparr>avm_main_first := 1\<rparr>, mem_cols := mem_zero\<lparr>avm_mem_m_lastAccess := 1\<rparr>\<rparr>"

definition set_mem_cols :: "AvmFullRow list \<Rightarrow> avm_mem_cols list \<Rightarrow> AvmFullRow list" where
  "set_mem_cols rows cs = map2 (\<lambda>r c. r\<lparr>mem_cols := c\<rparr>) rows cs"

definition set_alu_cols :: "AvmFullRow list \<Rightarrow> avm_alu_cols list \<Rightarrow> AvmFullRow list" where
  "set_alu_cols rows cs = map2 (\<lambda>r c. r\<lparr>alu_cols := c\<rparr>) rows cs"

text \<open>
  The asserts are those of the code. The last row is at index main_trace_size - 1, a wrap to
  the largest index if there is no row.
\<close>

definition finalize :: "AvmTraceBuilder \<Rightarrow> avm_error + AvmFullRow list \<times> AvmTraceBuilder" where
  "finalize B =
     (let mem_tr = mem_finalize (mem_trace_builder B);
          alu_tr = alu_trace B;
          main_trace_size = length (main_trace B)
      in ebind (finalise_mem_trace_lookup_counts (m_tag_err_lookup_counts (mem_trace_builder B)) (main_trace B)) (\<lambda>rows.
         if \<not> (length mem_tr < AVM_TRACE_SIZE \<and> main_trace_size < AVM_TRACE_SIZE \<and> length alu_tr < AVM_TRACE_SIZE)
         then Inl Assertion_failed
         else
         let rows = rows @ replicate (AVM_TRACE_SIZE - main_trace_size - 1) row_zero
         in if main_trace_size = 0 then Inl Out_of_range
            else
            let last = main_trace_size - 1;
                rows = rows[last := (rows ! last)
                  \<lparr>main_cols := (main_cols (rows ! last))\<lparr>avm_main_last := 1\<rparr>\<rparr>]
            in ebind (mem_fill_all mem_tr (map mem_cols rows)) (\<lambda>ms.
               let rows = set_mem_cols rows ms
               in ebind (alu_fill_all alu_tr (map alu_cols rows)) (\<lambda>cs.
                  let rows = set_alu_cols rows cs
                  in Inr (first_row # rows, trace_reset B)))))"

end
