(* ===== verification/Avm_Invariant.thy ===== *)
theory Avm_Invariant
  imports Avm_Trace
begin

text \<open>
  The invariant of the trace builder and its preservation by every operation. The commands
  are the calls of the public interface of AvmTraceBuilder; a state is reachable with a set
  of commands if some sequence of them, none of which throws, leads to it.
\<close>

section \<open>Memory accesses in order\<close>

text \<open>
  The memory builder before sub-clock s of cycle k: the log is well-formed and in order,
  nothing of a later time is in it, and, if values are typed, every cell holds a value of the
  width of its tag.
\<close>

definition mem_typed :: "AvmMemTraceBuilder \<Rightarrow> bool" where
  "mem_typed M \<longleftrightarrow> (\<forall>a. unat a < MEM_SIZE \<longrightarrow> has_type (memory_tag M a) (memory M a))"

definition mem_inv :: "bool \<Rightarrow> u32 \<Rightarrow> u32 \<Rightarrow> AvmMemTraceBuilder \<Rightarrow> bool" where
  "mem_inv typing k s M \<longleftrightarrow> mem_ok M \<and> chronological (mem_trace M) \<and>
     (\<forall>e\<in>set (mem_trace M). (m_clk e, m_sub_clk e) < (k, s)) \<and> (typing \<longrightarrow> mem_typed M)"

lemma mem_inv_init: "mem_inv typing 0 0 mem_init"
  using mem_ok_init by (simp add: mem_inv_def) (simp add: chronological_def mem_typed_def mem_init_def)

lemma mem_inv_later:
  assumes "mem_inv typing k s M" and "s \<le> s'"
  shows "mem_inv typing k s' M"
  using assms unfolding mem_inv_def by fastforce

lemma mem_inv_next_clk:
  assumes "mem_inv typing k s M" and "k < k + 1"
  shows "mem_inv typing (k + 1) 0 M"
proof -
  have "(m_clk e, m_sub_clk e) < (k + 1, 0)" if "(m_clk e, m_sub_clk e) < (k, s)" for e :: MemoryTraceEntry
    using that assms(2) by auto
  then show ?thesis
    using assms(1) unfolding mem_inv_def by blast
qed

lemma chronological_snoc:
  assumes "chronological es" and "\<forall>e\<in>set es. (m_clk e, m_sub_clk e) < (k, s)" and "s \<le> s'"
    and "m_clk e = k" "m_sub_clk e = s'"
  shows "chronological (es @ [e])" and "\<forall>f\<in>set (es @ [e]). (m_clk f, m_sub_clk f) \<le> (k, s')"
  using assms by (fastforce simp: chronological_def sorted_wrt_append)+

lemma less_sub_clk: "s < s + 1 \<Longrightarrow> x \<le> (k, s) \<Longrightarrow> x < (k :: u32, s + 1 :: u32)"
  by (cases x) auto

lemma sub_clk_less: "sub_clk_load r < sub_clk_load r + 1" "sub_clk_store r < sub_clk_store r + 1"
  by (cases r; simp)+

text \<open>A read, in order, keeps the invariant; with matching tags its value has the type asked for.\<close>

lemma mem_inv_read:
  assumes inv: "mem_inv typing k s M" and s: "s \<le> sub_clk_load r"
    and rd: "read_and_load_from_memory k r addr in_tag M = Inr (rd, M')"
  shows "mem_inv typing k (sub_clk_load r + 1) M'"
    and "typing \<Longrightarrow> tag_match rd \<Longrightarrow> has_type in_tag (rd_val rd)"
proof -
  have addr: "unat addr < MEM_SIZE"
    using rd by (auto simp: read_and_load_eq split: if_splits)
  define e where "e = load_entry k r addr (memory M addr) (memory_tag M addr) in_tag"
  have M': "mem_trace M' = mem_trace M @ [e]" "memory M' = memory M" "memory_tag M' = memory_tag M"
      "rd = \<lparr>tag_match = tags_match (memory_tag M addr) in_tag, rd_val = memory M addr\<rparr>"
    using rd addr by (auto simp: read_and_load_eq e_def)
  have "m_clk e = k" "m_sub_clk e = sub_clk_load r"
    by (simp_all add: e_def)
  note chron = chronological_snoc [OF _ _ s this, of "mem_trace M"]
  have "\<forall>f\<in>set (mem_trace M'). (m_clk f, m_sub_clk f) < (k, sub_clk_load r + 1)"
    using chron(2) inv less_sub_clk [OF sub_clk_less(1)] unfolding M' mem_inv_def by blast
  then show "mem_inv typing k (sub_clk_load r + 1) M'"
    using chron(1) inv mem_ok_read [OF _ rd] unfolding mem_inv_def M' mem_typed_def by blast
  show "has_type in_tag (rd_val rd)" if "typing" "tag_match rd"
    using inv that addr unfolding mem_inv_def mem_typed_def M' by (auto simp: tags_match_def has_type_U0)
qed

lemma mem_inv_write:
  assumes inv: "mem_inv typing k s M" and s: "s \<le> sub_clk_store r" and tag: "in_tag \<noteq> U0"
    and wr: "write_into_memory k r addr val in_tag M = Inr M'" and val: "typing \<Longrightarrow> has_type in_tag val"
  shows "mem_inv typing k (sub_clk_store r + 1) M'"
proof -
  define e where "e = store_entry k r addr val in_tag"
  have M': "mem_trace M' = mem_trace M @ [e]" "memory M' = (memory M)(addr := val)"
      "memory_tag M' = (memory_tag M)(addr := in_tag)"
    using wr by (auto simp: write_into_eq e_def split: if_splits)
  have "m_clk e = k" "m_sub_clk e = sub_clk_store r"
    by (simp_all add: e_def)
  note chron = chronological_snoc [OF _ _ s this, of "mem_trace M"]
  have "\<forall>f\<in>set (mem_trace M'). (m_clk f, m_sub_clk f) < (k, sub_clk_store r + 1)"
    using chron(2) inv less_sub_clk [OF sub_clk_less(2)] unfolding M' mem_inv_def by blast
  then show ?thesis
    using chron(1) inv mem_ok_write [OF _ tag wr] val unfolding mem_inv_def M' mem_typed_def by auto
qed

section \<open>The invariant of the builder\<close>

text \<open>The cycles are counted in 32 bits; the invariant speaks of traces that do not overflow them.\<close>

definition row_fresh :: "AvmFullRow \<Rightarrow> bool" where
  "row_fresh r \<longleftrightarrow> mem_cols r = mem_zero \<and> alu_cols r = alu_zero \<and> equiv_tag_err r = 0 \<and> equiv_tag_err_counts r = 0"

definition trace_inv :: "bool \<Rightarrow> AvmTraceBuilder \<Rightarrow> bool" where
  "trace_inv typing B \<longleftrightarrow>
     (length (main_trace B) < 2 ^ 32 \<longrightarrow> mem_inv typing (clk_of B) 0 (mem_trace_builder B)) \<and>
     (typing \<longrightarrow> length (main_trace B) < 2 ^ 32 \<longrightarrow> alu_block_ok (alu_trace B)) \<and>
     (\<forall>r\<in>set (main_trace B). row_fresh r)"

lemma trace_inv_init: "trace_inv typing trace_init"
  by (simp add: trace_inv_def trace_init_def clk_of_def mem_inv_init)

text \<open>A row ends the cycle.\<close>

lemma trace_inv_push:
  assumes inv: "trace_inv typing B" and rows: "main_trace B' = main_trace B"
    and mem: "mem_inv typing (clk_of B) 0 (mem_trace_builder B) \<Longrightarrow> length (main_trace B) < 2 ^ 32 \<Longrightarrow>
      \<exists>s. mem_inv typing (clk_of B) s (mem_trace_builder B')"
    and alu: "typing \<Longrightarrow> mem_inv typing (clk_of B) 0 (mem_trace_builder B) \<Longrightarrow> alu_block_ok (alu_trace B) \<Longrightarrow>
      alu_block_ok (alu_trace B')"
  shows "trace_inv typing (push_row row B')"
proof -
  have "mem_inv typing (clk_of (push_row row B')) 0 (mem_trace_builder (push_row row B'))"
    if n: "length (main_trace (push_row row B')) < 2 ^ 32"
  proof -
    have n: "Suc (length (main_trace B)) < 2 ^ 32"
      using n by (simp add: push_row_def rows)
    then obtain s where s: "mem_inv typing (clk_of B) s (mem_trace_builder B')"
      using inv mem unfolding trace_inv_def by auto
    have "clk_of B < clk_of B + 1"
      using n by (simp add: clk_of_def word_less_nat_alt unat_of_nat unat_word_ariths)
    moreover have "clk_of (push_row row B') = clk_of B + 1"
      by (simp add: clk_of_def push_row_def rows)
    ultimately show ?thesis
      using mem_inv_next_clk [OF s] by (simp add: push_row_def)
  qed
  then show ?thesis
    using inv alu unfolding trace_inv_def by (auto simp: push_row_def rows row_fresh_def row_zero_def)
qed

section \<open>Binary operations\<close>

text \<open>
  What an operation of the arithmetic unit promises to the handlers that use it: on typed
  operands its result is typed and the rows it appends satisfy the relations of the unit.
\<close>

locale alu_operation =
  fixes alu_op :: "ff \<Rightarrow> ff \<Rightarrow> AvmMemoryTag \<Rightarrow> u32 \<Rightarrow> AluTraceEntry list \<Rightarrow> ff \<times> AluTraceEntry list"
  assumes result: "t \<noteq> U0 \<Longrightarrow> has_type t a \<Longrightarrow> has_type t b \<Longrightarrow> has_type t (fst (alu_op a b t clk tr))"
    and rows: "has_type t a \<Longrightarrow> has_type t b \<Longrightarrow>
      \<exists>es. snd (alu_op a b t clk tr) = tr @ es \<and> alu_block_ok es \<and> length es \<le> 2"
begin

lemma op_binary_inv:
  assumes inv: "trace_inv typing B" and tag: "in_tag \<noteq> U0"
    and run: "op_binary alu_op sel a_offset b_offset dst_offset in_tag B = Inr B'"
  shows "trace_inv typing B'"
proof -
  define clk where "clk = clk_of B"
  obtain ra M1 where a: "read_and_load_from_memory clk IA a_offset in_tag (mem_trace_builder B) = Inr (ra, M1)"
    using run by (auto simp: op_binary_def clk_def ebind_Inr_iff Let_def)
  obtain rb M2 where b: "read_and_load_from_memory clk IB b_offset in_tag M1 = Inr (rb, M2)"
    using run a by (auto simp: op_binary_def clk_def [symmetric] ebind_Inr_iff Let_def)
  define x y where "x = (if tag_match ra \<and> tag_match rb then rd_val ra else 0)"
    and "y = (if tag_match ra \<and> tag_match rb then rd_val rb else 0)"
  obtain c alu where c: "alu_op x y in_tag clk (alu_trace B) = (c, alu)" by fastforce
  obtain M3 row where M3: "write_into_memory clk IC dst_offset c in_tag M2 = Inr M3"
      "B' = push_row row (B\<lparr>mem_trace_builder := M3, alu_trace := alu, pc := pc B + 1\<rparr>)"
    using run a b c unfolding x_def y_def
    by (auto simp: op_binary_def clk_def [symmetric] ebind_Inr_iff Let_def)
  have reads: "mem_inv typing clk 2 M2 \<and> (typing \<longrightarrow> has_type in_tag x \<and> has_type in_tag y)"
    if "mem_inv typing clk 0 (mem_trace_builder B)"
  proof -
    have 1: "mem_inv typing clk 1 M1" "typing \<Longrightarrow> tag_match ra \<Longrightarrow> has_type in_tag (rd_val ra)"
      using mem_inv_read [OF that _ a] by simp_all
    have 2: "mem_inv typing clk 2 M2" "typing \<Longrightarrow> tag_match rb \<Longrightarrow> has_type in_tag (rd_val rb)"
      using mem_inv_read [OF 1(1) _ b] by simp_all
    show ?thesis
      using 1 2 by (simp add: x_def y_def)
  qed
  show ?thesis
    unfolding M3(2)
  proof (rule trace_inv_push [OF inv])
    assume mem: "mem_inv typing (clk_of B) 0 (mem_trace_builder B)"
    have c_typed: "typing \<Longrightarrow> has_type in_tag c"
      using result [OF tag, of x y clk "alu_trace B"] reads mem c by (simp add: clk_def)
    have "mem_inv typing clk 2 M2"
      using reads mem by (simp add: clk_def)
    then have "mem_inv typing clk (sub_clk_store IC + 1) M3"
      by (rule mem_inv_write [OF _ _ tag M3(1) c_typed]) simp
    then show "\<exists>s. mem_inv typing (clk_of B) s (mem_trace_builder
        (B\<lparr>mem_trace_builder := M3, alu_trace := alu, pc := pc B + 1\<rparr>))"
      by (auto simp: clk_def)
  next
    assume "typing" "mem_inv typing (clk_of B) 0 (mem_trace_builder B)" "alu_block_ok (alu_trace B)"
    then show "alu_block_ok (alu_trace (B\<lparr>mem_trace_builder := M3, alu_trace := alu, pc := pc B + 1\<rparr>))"
      using rows [of in_tag x y clk "alu_trace B"] reads c by (auto simp: clk_def alu_block_append)
  qed simp
qed

end

interpretation add_op: alu_operation alu_add
  by unfold_locales (simp_all add: alu_add_result has_type_typed alu_add_block)

interpretation sub_op: alu_operation alu_sub
  by unfold_locales (simp_all add: alu_sub_result has_type_typed alu_sub_block)

interpretation mul_op: alu_operation alu_mul
  by unfold_locales (simp_all add: alu_mul_result has_type_typed alu_mul_block)

interpretation eq_op: alu_operation alu_eq
  by unfold_locales (simp_all add: alu_eq_result has_type_one alu_eq_block split: split_of_bool)

section \<open>The other operations\<close>

lemma op_not_inv:
  assumes inv: "trace_inv typing B" and tag: "in_tag \<noteq> U0"
    and run: "op_not a_offset dst_offset in_tag B = Inr B'"
  shows "trace_inv typing B'"
proof -
  define clk where "clk = clk_of B"
  obtain ra M1 where a: "read_and_load_from_memory clk IA a_offset in_tag (mem_trace_builder B) = Inr (ra, M1)"
    using run by (auto simp: op_not_def clk_def ebind_Inr_iff Let_def)
  define x where "x = (if tag_match ra then rd_val ra else 0)"
  obtain c alu where c: "alu_not x in_tag clk (alu_trace B) = (c, alu)" by fastforce
  obtain M2 row where M2: "write_into_memory clk IC dst_offset c in_tag M1 = Inr M2"
      "B' = push_row row (B\<lparr>mem_trace_builder := M2, alu_trace := alu, pc := pc B + 1\<rparr>)"
    using run a c unfolding x_def by (auto simp: op_not_def clk_def [symmetric] ebind_Inr_iff Let_def)
  have read: "mem_inv typing clk 1 M1" "typing \<Longrightarrow> has_type in_tag x"
    if "mem_inv typing clk 0 (mem_trace_builder B)"
    using mem_inv_read [OF that _ a] by (simp_all add: x_def)
  have c_typed: "has_type in_tag c"
    using alu_not_result [OF tag, of x clk "alu_trace B"] has_type_typed [of in_tag]
    by (cases "in_tag = FF") (auto simp: c)
  show ?thesis
    unfolding M2(2)
  proof (rule trace_inv_push [OF inv])
    assume "mem_inv typing (clk_of B) 0 (mem_trace_builder B)"
    then have "mem_inv typing clk (sub_clk_store IC + 1) M2"
      using mem_inv_write [OF _ _ tag M2(1)] read(1) c_typed by (simp add: clk_def)
    then show "\<exists>s. mem_inv typing (clk_of B) s (mem_trace_builder
        (B\<lparr>mem_trace_builder := M2, alu_trace := alu, pc := pc B + 1\<rparr>))"
      by (auto simp: clk_def)
  next
    assume "typing" "mem_inv typing (clk_of B) 0 (mem_trace_builder B)" "alu_block_ok (alu_trace B)"
    then show "alu_block_ok (alu_trace (B\<lparr>mem_trace_builder := M2, alu_trace := alu, pc := pc B + 1\<rparr>))"
      using alu_not_block [of in_tag x clk "alu_trace B"] read(2) c by (auto simp: clk_def alu_block_append)
  qed simp
qed

text \<open>Division writes an untyped value unless its instruction tag is FF.\<close>

lemma op_div_inv:
  assumes inv: "trace_inv typing B" and tag: "in_tag \<noteq> U0" and ff: "typing \<Longrightarrow> in_tag = FF"
    and run: "op_div a_offset b_offset dst_offset in_tag B = Inr B'"
  shows "trace_inv typing B'"
proof -
  define clk where "clk = clk_of B"
  obtain ra M1 where a: "read_and_load_from_memory clk IA a_offset in_tag (mem_trace_builder B) = Inr (ra, M1)"
    using run by (auto simp: op_div_def clk_def ebind_Inr_iff Let_def)
  obtain rb M2 where b: "read_and_load_from_memory clk IB b_offset in_tag M1 = Inr (rb, M2)"
    using run a by (auto simp: op_div_def clk_def [symmetric] ebind_Inr_iff Let_def)
  obtain c M3 row where M3: "write_into_memory clk IC dst_offset c in_tag M2 = Inr M3"
      "B' = push_row row (B\<lparr>mem_trace_builder := M3, pc := pc B + 1\<rparr>)"
    using run a b by (auto simp: op_div_def clk_def [symmetric] ebind_Inr_iff Let_def)
  show ?thesis
    unfolding M3(2)
  proof (rule trace_inv_push [OF inv])
    assume "mem_inv typing (clk_of B) 0 (mem_trace_builder B)"
    then have "mem_inv typing clk 2 M2"
      using mem_inv_read(1) [OF mem_inv_read(1) [OF _ _ a] _ b, of typing 0] by (simp add: clk_def)
    then have "mem_inv typing clk (sub_clk_store IC + 1) M3"
      using mem_inv_write [OF _ _ tag M3(1)] ff by simp
    then show "\<exists>s. mem_inv typing (clk_of B) s (mem_trace_builder (B\<lparr>mem_trace_builder := M3, pc := pc B + 1\<rparr>))"
      by (auto simp: clk_def)
  qed simp_all
qed

lemma op_set_inv:
  assumes inv: "trace_inv typing B" and tag: "in_tag \<noteq> U0" and val: "typing \<Longrightarrow> uint val < 2 ^ tag_bits in_tag"
    and run: "op_set val dst_offset in_tag B = Inr B'"
  shows "trace_inv typing B'"
proof -
  define clk where "clk = clk_of B"
  obtain M row where M: "write_into_memory clk IC dst_offset (ff_of_word val) in_tag (mem_trace_builder B) = Inr M"
      "B' = push_row row (B\<lparr>mem_trace_builder := M, pc := pc B + 1\<rparr>)"
    using run by (auto simp: op_set_def clk_def [symmetric] ebind_Inr_iff Let_def)
  have "ff_int (ff_of_word val) = uint val"
    using uint_lt128 [of val] unfolding ff_of_word_def ff_int_of_int by simp
  then have typed: "typing \<Longrightarrow> has_type in_tag (ff_of_word val)"
    using val by (simp add: has_type_def)
  show ?thesis
    unfolding M(2)
  proof (rule trace_inv_push [OF inv])
    assume "mem_inv typing (clk_of B) 0 (mem_trace_builder B)"
    then have "mem_inv typing clk (sub_clk_store IC + 1) M"
      using mem_inv_write [OF _ _ tag M(1)] typed by (simp add: clk_def)
    then show "\<exists>s. mem_inv typing (clk_of B) s (mem_trace_builder (B\<lparr>mem_trace_builder := M, pc := pc B + 1\<rparr>))"
      by (auto simp: clk_def)
  qed simp_all
qed

lemma copy_word_inv:
  assumes "mem_inv typing k s M" and "s \<le> sub_clk_store r" and "copy_word k r data src dst M = Inr (v, M')"
  shows "mem_inv typing k (sub_clk_store r + 1) M'"
  using assms(3) mem_inv_write [OF assms(1,2), of FF dst v] by (auto simp: copy_word_def ebind_Inr_iff)

lemma calldata_row_inv:
  assumes inv: "trace_inv typing B"
    and run: "calldata_row cd_offset copy_size dst_offset data pos B = Inr B'"
  shows "trace_inv typing B'"
proof -
  define clk where "clk = clk_of B"
  define two where "two \<longleftrightarrow> copy_size - pos > 1"
  define three where "three \<longleftrightarrow> copy_size - pos > 2"
  obtain ia M1 where 1: "copy_word clk IA data (cd_offset + pos) (dst_offset + pos) (mem_trace_builder B) = Inr (ia, M1)"
    using run by (auto simp: calldata_row_def clk_def ebind_Inr_iff Let_def)
  obtain ib M2 where 2: "(if two then copy_word clk IB data (cd_offset + pos + 1) (dst_offset + pos + 1) M1
      else Inr (0, M1)) = Inr (ib, M2)"
    using run 1 by (auto simp: calldata_row_def clk_def [symmetric] two_def ebind_Inr_iff Let_def)
  obtain ic M3 where 3: "(if three then copy_word clk IC data (cd_offset + pos + 2) (dst_offset + pos + 2) M2
      else Inr (0, M2)) = Inr (ic, M3)"
    using run 1 2 by (auto simp: calldata_row_def clk_def [symmetric] two_def three_def ebind_Inr_iff Let_def)
  obtain row where row: "B' = push_row row (B\<lparr>mem_trace_builder := M3, pc := pc B + 1\<rparr>)"
    using run 1 2 3 by (auto simp: calldata_row_def clk_def [symmetric] two_def [symmetric] three_def [symmetric]
      ebind_Inr_iff Let_def)
  show ?thesis
    unfolding row
  proof (rule trace_inv_push [OF inv])
    assume "mem_inv typing (clk_of B) 0 (mem_trace_builder B)"
    then have "mem_inv typing clk 4 M1"
      using copy_word_inv [OF _ _ 1, of typing 0] by (simp add: clk_def)
    then have "mem_inv typing clk 5 M2"
      using 2 copy_word_inv [of typing clk 4 M1 IB] mem_inv_later [of typing clk 4 M1 5] by (auto split: if_splits)
    then have "mem_inv typing clk 6 M3"
      using 3 copy_word_inv [of typing clk 5 M2 IC] mem_inv_later [of typing clk 5 M2 6] by (auto split: if_splits)
    then show "\<exists>s. mem_inv typing (clk_of B) s (mem_trace_builder (B\<lparr>mem_trace_builder := M3, pc := pc B + 1\<rparr>))"
      by (auto simp: clk_def)
  qed simp_all
qed

lemma calldata_loop_inv:
  "calldata_loop cd_offset copy_size dst_offset data pos B = Inr B' \<Longrightarrow> trace_inv typing B \<Longrightarrow> trace_inv typing B'"
proof (induction cd_offset copy_size dst_offset data pos B rule: calldata_loop.induct)
  case (1 cd_offset copy_size dst_offset data pos B)
  then show ?case
    using calldata_row_inv [of typing B cd_offset copy_size dst_offset data pos]
    by (subst (asm) (2) calldata_loop.simps) (auto simp: ebind_Inr_iff split: if_splits)
qed

lemma return_row_inv:
  assumes inv: "trace_inv typing B"
    and run: "return_row ret_offset ret_size pos B = Inr (vals, B')"
  shows "trace_inv typing B'"
proof -
  define clk where "clk = clk_of B"
  define two where "two \<longleftrightarrow> ret_size - pos > 1"
  define three where "three \<longleftrightarrow> ret_size - pos > 2"
  obtain ra M1 where 1: "read_and_load_from_memory clk IA (ret_offset + pos) FF (mem_trace_builder B) = Inr (ra, M1)"
    using run by (auto simp: return_row_def clk_def ebind_Inr_iff Let_def)
  obtain m2 v2 M2 where 2: "(if two
      then ebind (read_and_load_from_memory clk IB (ret_offset + pos + 1) FF M1) (\<lambda>(read_b, M).
        Inr (tag_match ra \<and> tag_match read_b, [rd_val ra] @ [rd_val read_b], M))
      else Inr (tag_match ra, [rd_val ra], M1)) = Inr (m2, v2, M2)"
    using run 1 unfolding return_row_def clk_def [symmetric] two_def [symmetric] three_def [symmetric]
    by (auto simp: ebind_Inr_iff Let_def split: if_splits prod.splits)
  obtain m3 v3 M3 where 3: "(if three
      then ebind (read_and_load_from_memory clk IC (ret_offset + pos + 2) FF M2) (\<lambda>(read_c, M).
        Inr (m2 \<and> tag_match read_c, v2 @ [rd_val read_c], M))
      else Inr (m2, v2, M2)) = Inr (m3, v3, M3)"
    using run 1 2 unfolding return_row_def clk_def [symmetric] two_def [symmetric] three_def [symmetric]
    by (auto simp: ebind_Inr_iff Let_def)
  obtain row where row: "B' = push_row row (B\<lparr>mem_trace_builder := M3\<rparr>)"
    using run 1 2 3 unfolding return_row_def clk_def [symmetric] two_def [symmetric] three_def [symmetric]
    by (auto simp: ebind_Inr_iff Let_def)
  show ?thesis
    unfolding row
  proof (rule trace_inv_push [OF inv])
    assume "mem_inv typing (clk_of B) 0 (mem_trace_builder B)"
    then have "mem_inv typing clk 1 M1"
      using mem_inv_read(1) [OF _ _ 1, of typing 0] by (simp add: clk_def)
    then have "mem_inv typing clk 2 M2"
      using 2 mem_inv_read(1) [of typing clk 1 M1 IB] mem_inv_later [of typing clk 1 M1 2]
      by (auto simp: ebind_Inr_iff split: if_splits)
    then have "mem_inv typing clk 3 M3"
      using 3 mem_inv_read(1) [of typing clk 2 M2 IC] mem_inv_later [of typing clk 2 M2 3]
      by (auto simp: ebind_Inr_iff split: if_splits)
    then show "\<exists>s. mem_inv typing (clk_of B) s (mem_trace_builder (B\<lparr>mem_trace_builder := M3\<rparr>))"
      by (auto simp: clk_def)
  qed simp_all
qed

lemma return_loop_inv:
  "return_loop ret_offset ret_size pos vals B = Inr (vals', B') \<Longrightarrow> trace_inv typing B \<Longrightarrow> trace_inv typing B'"
proof (induction ret_offset ret_size pos vals B rule: return_loop.induct)
  case (1 ret_offset ret_size pos vals B)
  then show ?case
    using return_row_inv [of typing B ret_offset ret_size pos]
    by (subst (asm) (2) return_loop.simps) (auto simp: ebind_Inr_iff split: if_splits)
qed

lemma trace_inv_pc: "trace_inv typing (B\<lparr>pc := p\<rparr>) = trace_inv typing B"
  by (simp add: trace_inv_def clk_of_def)

lemma op_halt_inv: "trace_inv typing B \<Longrightarrow> trace_inv typing (op_halt B)"
  unfolding op_halt_def Let_def by (erule trace_inv_push) auto

lemma op_jump_inv: "trace_inv typing B \<Longrightarrow> trace_inv typing (op_jump d B)"
  unfolding op_jump_def Let_def by (erule trace_inv_push) auto

lemma return_op_inv: "return_op off n B = Inr (vals, B') \<Longrightarrow> trace_inv typing B \<Longrightarrow> trace_inv typing B'"
  using return_loop_inv [of off n 0 "[]" B]
  by (auto simp: return_op_def ebind_Inr_iff trace_inv_pc op_halt_inv split: if_splits)

lemma internal_call_inv:
  assumes inv: "trace_inv typing B" and run: "internal_call d B = Inr B'"
  shows "trace_inv typing B'"
proof -
  define clk where "clk = clk_of B"
  obtain M row st where M: "write_into_memory clk IB (internal_return_ptr B) (ff_of_word (pc B + 1)) FF
      (mem_trace_builder B) = Inr M"
      "B' = push_row row (B\<lparr>internal_call_stack := st, mem_trace_builder := M, pc := d,
        internal_return_ptr := internal_return_ptr B + 1\<rparr>)"
    using run by (auto simp: internal_call_def clk_def [symmetric] ebind_Inr_iff Let_def)
  show ?thesis
    unfolding M(2)
  proof (rule trace_inv_push [OF inv])
    assume "mem_inv typing (clk_of B) 0 (mem_trace_builder B)"
    then have "mem_inv typing clk (sub_clk_store IB + 1) M"
      using mem_inv_write [OF _ _ _ M(1), of typing 0] by (simp add: clk_def)
    then show "\<exists>s. mem_inv typing (clk_of B) s (mem_trace_builder (B\<lparr>internal_call_stack := st,
        mem_trace_builder := M, pc := d, internal_return_ptr := internal_return_ptr B + 1\<rparr>))"
      by (auto simp: clk_def)
  qed simp_all
qed

lemma internal_return_inv:
  assumes inv: "trace_inv typing B" and run: "internal_return B = Inr B'"
  shows "trace_inv typing B'"
proof -
  define clk where "clk = clk_of B"
  obtain ra M where M: "read_and_load_from_memory clk IA (internal_return_ptr B - 1) FF (mem_trace_builder B) = Inr (ra, M)"
    using run by (auto simp: internal_return_def clk_def ebind_Inr_iff Let_def)
  obtain row where row: "B' = (push_row row (B\<lparr>mem_trace_builder := M\<rparr>))\<lparr>pc := hd (internal_call_stack B),
      internal_call_stack := tl (internal_call_stack B), internal_return_ptr := internal_return_ptr B - 1\<rparr>"
    using run M by (auto simp: internal_return_def clk_def [symmetric] Let_def push_row_def split: list.splits)
  have "trace_inv typing (push_row row (B\<lparr>mem_trace_builder := M\<rparr>))"
  proof (rule trace_inv_push [OF inv])
    assume "mem_inv typing (clk_of B) 0 (mem_trace_builder B)"
    then have "mem_inv typing clk (sub_clk_load IA + 1) M"
      using mem_inv_read(1) [OF _ _ M, of typing 0] by (simp add: clk_def)
    then show "\<exists>s. mem_inv typing (clk_of B) s (mem_trace_builder (B\<lparr>mem_trace_builder := M\<rparr>))"
      by (auto simp: clk_def)
  qed simp_all
  then show ?thesis
    unfolding row by (simp add: trace_inv_def clk_of_def)
qed

section \<open>Reachable states\<close>

datatype command =
    Op_add u32 u32 u32 AvmMemoryTag
  | Op_sub u32 u32 u32 AvmMemoryTag
  | Op_mul u32 u32 u32 AvmMemoryTag
  | Op_div u32 u32 u32 AvmMemoryTag
  | Op_eq u32 u32 u32 AvmMemoryTag
  | Op_not u32 u32 AvmMemoryTag
  | Set_op u128 u32 AvmMemoryTag
  | Calldata_copy u32 u32 u32 "ff list"
  | Return_op u32 u32
  | Halt
  | Jump u32
  | Internal_call u32
  | Internal_return

fun run_command :: "command \<Rightarrow> AvmTraceBuilder \<Rightarrow> avm_error + AvmTraceBuilder" where
  "run_command (Op_add a b d t) B = op_add a b d t B"
| "run_command (Op_sub a b d t) B = op_sub a b d t B"
| "run_command (Op_mul a b d t) B = op_mul a b d t B"
| "run_command (Op_div a b d t) B = op_div a b d t B"
| "run_command (Op_eq a b d t) B = op_eq a b d t B"
| "run_command (Op_not a d t) B = op_not a d t B"
| "run_command (Set_op v d t) B = op_set v d t B"
| "run_command (Calldata_copy c n d data) B = calldata_copy c n d data B"
| "run_command (Return_op off n) B = ebind (return_op off n B) (\<lambda>(vals, B). Inr B)"
| "run_command Halt B = Inr (op_halt B)"
| "run_command (Jump d) B = Inr (op_jump d B)"
| "run_command (Internal_call d) B = internal_call d B"
| "run_command Internal_return B = internal_return B"

text \<open>The instruction tag is never U0; typed commands store values of the width of the tag.\<close>

fun tagged_command :: "command \<Rightarrow> bool" where
  "tagged_command (Op_add a b d t) = (t \<noteq> U0)"
| "tagged_command (Op_sub a b d t) = (t \<noteq> U0)"
| "tagged_command (Op_mul a b d t) = (t \<noteq> U0)"
| "tagged_command (Op_div a b d t) = (t \<noteq> U0)"
| "tagged_command (Op_eq a b d t) = (t \<noteq> U0)"
| "tagged_command (Op_not a d t) = (t \<noteq> U0)"
| "tagged_command (Set_op v d t) = (t \<noteq> U0)"
| "tagged_command _ = True"

fun typed_command :: "command \<Rightarrow> bool" where
  "typed_command (Op_div a b d t) = (t = FF)"
| "typed_command (Set_op v d t) = (t \<noteq> U0 \<and> uint v < 2 ^ tag_bits t)"
| "typed_command c = tagged_command c"

lemma typed_tagged: "typed_command c \<Longrightarrow> tagged_command c"
  by (cases c) auto

inductive reachable :: "(command \<Rightarrow> bool) \<Rightarrow> AvmTraceBuilder \<Rightarrow> bool" for ok where
  reachable_init: "reachable ok trace_init"
| reachable_step: "reachable ok B \<Longrightarrow> ok c \<Longrightarrow> run_command c B = Inr B' \<Longrightarrow> reachable ok B'"

lemma run_command_inv:
  assumes "trace_inv typing B" and "tagged_command c" and "typing \<Longrightarrow> typed_command c"
    and "run_command c B = Inr B'"
  shows "trace_inv typing B'"
  using assms
  by (cases c)
    (auto simp: op_add_def op_sub_def op_mul_def op_eq_def calldata_copy_def ebind_Inr_iff
      intro: add_op.op_binary_inv sub_op.op_binary_inv mul_op.op_binary_inv eq_op.op_binary_inv
      op_div_inv op_not_inv op_set_inv calldata_loop_inv return_op_inv op_halt_inv op_jump_inv
      internal_call_inv internal_return_inv)

lemma reachable_inv:
  assumes "reachable ok B" and "\<And>c. ok c \<Longrightarrow> tagged_command c" and "\<And>c. typing \<Longrightarrow> ok c \<Longrightarrow> typed_command c"
  shows "trace_inv typing B"
  using assms(1)
proof induction
  case (reachable_step B c B')
  then show ?case
    using assms(2,3) run_command_inv by blast
qed (rule trace_inv_init)

end
