(* ===== verification/Avm_Finalize.thy ===== *)
theory Avm_Finalize
  imports Avm_Invariant
begin

text \<open>
  The finished trace: what AvmTraceBuilder::finalize returns, column group by column group,
  when it succeeds, and the relations of the memory and of the arithmetic unit on it.
\<close>

section \<open>The loops of finalize\<close>

lemma set_mem_cols_simps:
  assumes "length cs = length rows"
  shows "map mem_cols (set_mem_cols rows cs) = cs" "map main_cols (set_mem_cols rows cs) = map main_cols rows"
    "map alu_cols (set_mem_cols rows cs) = map alu_cols rows" "length (set_mem_cols rows cs) = length rows"
    "map equiv_tag_err_counts (set_mem_cols rows cs) = map equiv_tag_err_counts rows"
  using assms by (auto simp: set_mem_cols_def intro!: nth_equalityI)

lemma set_alu_cols_simps:
  assumes "length cs = length rows"
  shows "map alu_cols (set_alu_cols rows cs) = cs" "map main_cols (set_alu_cols rows cs) = map main_cols rows"
    "map mem_cols (set_alu_cols rows cs) = map mem_cols rows" "length (set_alu_cols rows cs) = length rows"
    "map equiv_tag_err_counts (set_alu_cols rows cs) = map equiv_tag_err_counts rows"
  using assms by (auto simp: set_alu_cols_def intro!: nth_equalityI)

lemma map_list_update_same:
  "i < length rows \<Longrightarrow> f x = f (rows ! i) \<Longrightarrow> map f (rows[i := x]) = map f rows"
  by (metis list_update_id map_update nth_map)

text \<open>The counters go into the rows of their cycles and nothing else changes.\<close>

lemma finalise_counts:
  assumes "distinct (map fst counts)" and "\<forall>(clk, n)\<in>set counts. unat clk < length rows" and "length rows \<le> 2 ^ 32"
  shows "\<exists>rows'. finalise_mem_trace_lookup_counts counts rows = Inr rows' \<and>
    map main_cols rows' = map main_cols rows \<and> map mem_cols rows' = map mem_cols rows \<and>
    map alu_cols rows' = map alu_cols rows \<and>
    (\<forall>i<length rows. equiv_tag_err_counts (rows' ! i) =
      (case map_of counts (of_nat i) of Some n \<Rightarrow> ff_of_word n | None \<Rightarrow> equiv_tag_err_counts (rows ! i)))"
  using assms
proof (induction counts arbitrary: rows)
  case (Cons p counts)
  obtain clk n where p: "p = (clk, n)" by fastforce
  define rows' where "rows' = rows[unat clk := (rows ! unat clk)\<lparr>equiv_tag_err_counts := ff_of_word n\<rparr>]"
  have clk: "unat clk < length rows"
    using Cons.prems by (simp add: p)
  have same: "map main_cols rows' = map main_cols rows" "map mem_cols rows' = map mem_cols rows"
      "map alu_cols rows' = map alu_cols rows" "length rows' = length rows"
    using clk by (simp_all add: rows'_def map_list_update_same)
  from Cons.IH [of rows'] obtain rows'' where rows'': "finalise_mem_trace_lookup_counts counts rows' = Inr rows''"
      "map main_cols rows'' = map main_cols rows'" "map mem_cols rows'' = map mem_cols rows'"
      "map alu_cols rows'' = map alu_cols rows'"
      "\<forall>i<length rows'. equiv_tag_err_counts (rows'' ! i) =
        (case map_of counts (of_nat i) of Some n \<Rightarrow> ff_of_word n | None \<Rightarrow> equiv_tag_err_counts (rows' ! i))"
    using Cons.prems same(4) by (auto simp: p)
  have "equiv_tag_err_counts (rows'' ! i) =
      (case map_of (p # counts) (of_nat i) of Some n \<Rightarrow> ff_of_word n | None \<Rightarrow> equiv_tag_err_counts (rows ! i))"
    if i: "i < length rows" for i
  proof -
    have eq: "(of_nat i :: u32) = clk \<longleftrightarrow> i = unat clk"
      using i Cons.prems(3) by (auto simp: word_unat_eq_iff unat_of_nat)
    have "map_of counts clk = None"
      using Cons.prems(1) by (simp add: p map_of_eq_None_iff)
    then show ?thesis
      using rows''(5) i clk same(4) eq by (auto simp: p rows'_def nth_list_update split: option.split)
  qed
  then show ?case
    using rows'' same clk by (auto simp: p rows'_def [symmetric])
qed simp

section \<open>The columns of the finished trace\<close>

definition main_first :: avm_main_cols where
  "main_first = main_zero\<lparr>avm_main_first := 1\<rparr>"

text \<open>The sizes the asserts of finalize ask for.\<close>

definition fits :: "AvmTraceBuilder \<Rightarrow> bool" where
  "fits B \<longleftrightarrow> 0 < length (main_trace B) \<and> length (main_trace B) < AVM_TRACE_SIZE \<and>
     length (mem_trace (mem_trace_builder B)) < AVM_TRACE_SIZE \<and> length (alu_trace B) < AVM_TRACE_SIZE"

definition mark_last :: "avm_main_cols list \<Rightarrow> avm_main_cols list" where
  "mark_last cs = butlast cs @ [(last cs)\<lparr>avm_main_last := 1\<rparr>]"

lemma tag_errors_pos: "0 < tag_errors es clk \<longleftrightarrow> (\<exists>e\<in>set es. m_tag_err e \<and> m_clk e = clk)"
  by (auto simp: tag_errors_def filter_empty_conv)

lemma counts_in_range:
  assumes inv: "trace_inv typing B" and small: "length (main_trace B) < 2 ^ 32"
  shows "distinct (map fst (m_tag_err_lookup_counts (mem_trace_builder B)))"
    and "\<forall>(clk, n)\<in>set (m_tag_err_lookup_counts (mem_trace_builder B)). unat clk < length (main_trace B)"
proof -
  have mem: "mem_inv typing (clk_of B) 0 (mem_trace_builder B)"
    using inv small by (simp add: trace_inv_def)
  then have counts: "counts_ok (m_tag_err_lookup_counts (mem_trace_builder B)) (mem_trace (mem_trace_builder B))"
    by (simp add: mem_inv_def mem_ok_def)
  then show dist: "distinct (map fst (m_tag_err_lookup_counts (mem_trace_builder B)))"
    by (simp add: counts_ok_def)
  have "unat clk < length (main_trace B)" if "(clk, n) \<in> set (m_tag_err_lookup_counts (mem_trace_builder B))" for clk n
  proof -
    have "map_of (m_tag_err_lookup_counts (mem_trace_builder B)) clk = Some n"
      using dist that by simp
    then have "0 < tag_errors (mem_trace (mem_trace_builder B)) clk"
      using counts by (auto simp: counts_ok_def split: if_splits)
    then obtain e where "e \<in> set (mem_trace (mem_trace_builder B))" "m_clk e = clk"
      unfolding tag_errors_pos by blast
    then have "(clk, m_sub_clk e) < (clk_of B, 0)"
      using mem by (auto simp: mem_inv_def)
    then have "clk < clk_of B"
      by auto
    then show ?thesis
      using small by (simp add: clk_of_def word_less_nat_alt unat_of_nat)
  qed
  then show "\<forall>(clk, n)\<in>set (m_tag_err_lookup_counts (mem_trace_builder B)). unat clk < length (main_trace B)"
    by blast
qed

lemma map_const_replicate: "\<forall>x\<in>set xs. f x = c \<Longrightarrow> map f xs = replicate (length xs) c"
  by (simp add: map_replicate_const cong: map_cong)

lemma ff_of_small: "n < 2 ^ 32 \<Longrightarrow> ff_of_word (of_nat n :: u32) = of_nat n"
proof -
  assume "n < 2 ^ 32"
  then have "uint (of_nat n :: u32) = int n"
    by (simp add: uint_nat unat_of_nat)
  then show ?thesis
    by (simp add: ff_of_word_def del: of_int_uint)
qed

lemma tag_errors_le: "tag_errors es clk \<le> length es"
  by (simp add: tag_errors_def)

lemma map_mark_last:
  assumes "xs \<noteq> []"
  shows "(xs @ ys)[length xs - 1 := f ((xs @ ys) ! (length xs - 1))] = butlast xs @ [f (last xs)] @ ys"
proof -
  obtain zs z where "xs = zs @ [z]"
    using assms by (cases xs rule: rev_cases) auto
  then show ?thesis
    by (simp add: list_update_append nth_append)
qed

lemma finalize_columns:
  assumes inv: "trace_inv typing B" and fits: "fits B"
  shows "\<exists>rows. finalize B = Inr (rows, trace_reset B) \<and>
    map main_cols rows = main_first # mark_last (map main_cols (main_trace B)) @
      replicate (255 - length (main_trace B)) main_zero \<and>
    map mem_cols rows = mem_first # mem_columns (mem_finalize (mem_trace_builder B)) @
      replicate (255 - length (mem_trace (mem_trace_builder B))) mem_zero \<and>
    map alu_cols rows = alu_zero # map (\<lambda>e. alu_fill e alu_zero) (alu_trace B) @
      replicate (255 - length (alu_trace B)) alu_zero \<and>
    (\<forall>i<length (main_trace B). equiv_tag_err_counts (rows ! Suc i) =
      of_nat (tag_errors (mem_trace (mem_trace_builder B)) (of_nat i)))"
proof -
  define n where "n = length (main_trace B)"
  define ms where "ms = mem_finalize (mem_trace_builder B)"
  define counts where "counts = m_tag_err_lookup_counts (mem_trace_builder B)"
  have n: "0 < n" "n < 256" and len: "length ms < 256" "length (alu_trace B) < 256"
      "length ms = length (mem_trace (mem_trace_builder B))"
    using fits by (simp_all add: fits_def AVM_TRACE_SIZE_def n_def ms_def mem_finalize_def)
  have small: "length (main_trace B) < 2 ^ 32"
    using n by (simp add: n_def)
  have fresh: "\<forall>r\<in>set (main_trace B). row_fresh r"
    using inv by (simp add: trace_inv_def)
  obtain r1 where r1: "finalise_mem_trace_lookup_counts counts (main_trace B) = Inr r1"
      "map main_cols r1 = map main_cols (main_trace B)" "map mem_cols r1 = map mem_cols (main_trace B)"
      "map alu_cols r1 = map alu_cols (main_trace B)"
      "\<forall>i<n. equiv_tag_err_counts (r1 ! i) = (case map_of counts (of_nat i) of Some n \<Rightarrow> ff_of_word n
        | None \<Rightarrow> equiv_tag_err_counts (main_trace B ! i))"
    using finalise_counts [OF counts_in_range [OF inv small]] small unfolding counts_def n_def by auto
  have len1: "length r1 = n"
    using arg_cong [OF r1(2), of length] by (simp add: n_def)
  have zeros: "map mem_cols r1 = replicate n mem_zero" "map alu_cols r1 = replicate n alu_zero"
    unfolding r1 n_def using fresh by (auto intro!: map_const_replicate simp: row_fresh_def)
  define r2 where "r2 = r1 @ replicate (AVM_TRACE_SIZE - n - 1) row_zero"
  have r2: "length r2 = 255" "map mem_cols r2 = replicate 255 mem_zero" "map alu_cols r2 = replicate 255 alu_zero"
      "map main_cols r2 = map main_cols (main_trace B) @ replicate (255 - n) main_zero"
    using n len1 by (simp_all add: r2_def AVM_TRACE_SIZE_def zeros r1(2) row_zero_def replicate_add [symmetric])
  define r3 where "r3 = r2[n - 1 := (r2 ! (n - 1))\<lparr>main_cols := (main_cols (r2 ! (n - 1)))\<lparr>avm_main_last := 1\<rparr>\<rparr>]"
  have r3: "length r3 = 255" "map mem_cols r3 = replicate 255 mem_zero" "map alu_cols r3 = replicate 255 alu_zero"
      "map equiv_tag_err_counts r3 = map equiv_tag_err_counts r2"
    using r2 n by (simp_all add: r3_def map_list_update_same)
  have r3_main: "map main_cols r3 = mark_last (map main_cols (main_trace B)) @ replicate (255 - n) main_zero"
  proof -
    have "map main_cols r3 = (map main_cols r2)[n - 1 := (map main_cols r2 ! (n - 1))\<lparr>avm_main_last := 1\<rparr>]"
      using n r2(1) by (simp add: r3_def map_update)
    then show ?thesis
      using map_mark_last [of "map main_cols (main_trace B)" "replicate (255 - n) main_zero"
          "\<lambda>c. c\<lparr>avm_main_last := 1\<rparr>"] n
      unfolding r2(4) by (simp add: mark_last_def n_def)
  qed
  define cs where "cs = mem_columns ms @ replicate (255 - length ms) mem_zero"
  have cs: "mem_fill_all ms (map mem_cols r3) = Inr cs"
    unfolding r3 mem_fill_all_zero cs_def using len by simp
  have mem_columns_len: "length (mem_columns es) = length es" for es
    by (induction es) simp_all
  define r4 where "r4 = set_mem_cols r3 cs"
  have "length cs = length r3"
    using len r3(1) by (simp add: cs_def mem_columns_len)
  note r4 = set_mem_cols_simps [OF this, folded r4_def]
  define as where "as = map (\<lambda>e. alu_fill e alu_zero) (alu_trace B) @ replicate (255 - length (alu_trace B)) alu_zero"
  have as: "alu_fill_all (alu_trace B) (map alu_cols r4) = Inr as"
    unfolding r4 r3 alu_fill_all_zero as_def using len by simp
  define r5 where "r5 = set_alu_cols r4 as"
  have "length as = length r4"
    using len r3(1) r4(4) by (simp add: as_def)
  note r5 = set_alu_cols_simps [OF this, folded r5_def]
  have "finalize B = Inr (first_row # r5, trace_reset B)"
  proof -
    have "length ms < AVM_TRACE_SIZE \<and> n < AVM_TRACE_SIZE \<and> length (alu_trace B) < AVM_TRACE_SIZE" "n \<noteq> 0"
      using n len by (simp_all add: AVM_TRACE_SIZE_def)
    then show ?thesis
      unfolding finalize_def Let_def counts_def [symmetric] ms_def [symmetric] n_def [symmetric]
      by (simp only: r1(1) ebind.simps not_True_eq_False if_False simp_thms r2_def [symmetric] r3_def [symmetric]
        cs as r4_def [symmetric] r5_def [symmetric])
  qed
  moreover have "equiv_tag_err_counts (r5 ! i) = of_nat (tag_errors (mem_trace (mem_trace_builder B)) (of_nat i))"
    if "i < n" for i
  proof -
    have "map equiv_tag_err_counts r5 ! i = map equiv_tag_err_counts r2 ! i"
      unfolding r5 r4 r3 ..
    then have "equiv_tag_err_counts (r5 ! i) = equiv_tag_err_counts (r1 ! i)"
      using that n r2(1) r3(1) r4(4) r5(4) len1 by (simp add: r2_def nth_append)
    moreover have "counts_ok counts (mem_trace (mem_trace_builder B))"
      using inv small unfolding trace_inv_def mem_inv_def mem_ok_def counts_def by blast
    moreover have "tag_errors (mem_trace (mem_trace_builder B)) (of_nat i) < 2 ^ 32"
      using tag_errors_le [of "mem_trace (mem_trace_builder B)" "of_nat i"] len by simp
    moreover have "equiv_tag_err_counts (main_trace B ! i) = 0"
      using fresh that by (simp add: n_def row_fresh_def)
    ultimately show ?thesis
      using r1(5) that by (simp add: counts_ok_def ff_of_small)
  qed
  ultimately show ?thesis
    using r5 r4 r3_main unfolding n_def [symmetric]
    by (simp add: first_row_def main_first_def mem_first_def row_zero_def cs_def as_def ms_def len(3) [symmetric])
qed

end
