(* ===== verification/Avm_Machine.thy ===== *)
theory Avm_Machine
  imports Avm_Finalize
begin

text \<open>
  What the operations of the trace builder compute, apart from the traces they record: a
  machine with tagged cells, a program counter and a call stack. Every operation of the
  builder refines a step of the machine and fails exactly when the machine has no step; the
  number of rows it adds to each trace is a function of the command alone.
\<close>

section \<open>The machine\<close>

record vm_state =
  cells :: "u32 \<Rightarrow> AvmMemoryTag \<times> ff"
  vm_pc :: u32
  vm_ptr :: u32
  vm_stack :: "u32 list"

definition vm_of :: "AvmTraceBuilder \<Rightarrow> vm_state" where
  "vm_of B = \<lparr>cells = (\<lambda>a. (memory_tag (mem_trace_builder B) a, memory (mem_trace_builder B) a)),
     vm_pc = pc B, vm_ptr = internal_return_ptr B, vm_stack = internal_call_stack B\<rparr>"

definition vm_read :: "u32 \<Rightarrow> AvmMemoryTag \<Rightarrow> vm_state \<Rightarrow> (bool \<times> ff) option" where
  "vm_read a t s =
     (if unat a < MEM_SIZE then Some (tags_match (fst (cells s a)) t, snd (cells s a)) else None)"

definition vm_write :: "u32 \<Rightarrow> AvmMemoryTag \<Rightarrow> ff \<Rightarrow> vm_state \<Rightarrow> vm_state option" where
  "vm_write a t v s = (if unat a < MEM_SIZE then Some (s\<lparr>cells := (cells s)(a := (t, v))\<rparr>) else None)"

definition vm_next :: "nat \<Rightarrow> vm_state \<Rightarrow> vm_state" where
  "vm_next n s = s\<lparr>vm_pc := vm_pc s + of_nat n\<rparr>"

text \<open>Operands of another tag count as zero.\<close>

definition vm_binary ::
  "(ff \<Rightarrow> ff \<Rightarrow> ff) \<Rightarrow> u32 \<Rightarrow> u32 \<Rightarrow> u32 \<Rightarrow> AvmMemoryTag \<Rightarrow> vm_state \<Rightarrow> vm_state option" where
  "vm_binary f a b d t s =
     Option.bind (vm_read a t s) (\<lambda>(match_a, x).
     Option.bind (vm_read b t s) (\<lambda>(match_b, y).
       vm_write d t (if match_a \<and> match_b then f x y else f 0 0) (vm_next 1 s)))"

primrec vm_copy :: "u32 \<Rightarrow> u32 \<Rightarrow> ff list \<Rightarrow> nat list \<Rightarrow> vm_state \<Rightarrow> vm_state option" where
  "vm_copy src dst data [] s = Some s"
| "vm_copy src dst data (i # is) s =
     (if unat (src + of_nat i) < length data
      then Option.bind (vm_write (dst + of_nat i) FF (data ! unat (src + of_nat i)) s) (vm_copy src dst data is)
      else None)"

definition vm_return :: "u32 \<Rightarrow> nat list \<Rightarrow> vm_state \<Rightarrow> ff list option" where
  "vm_return off is s =
     (if \<forall>i\<in>set is. unat (off + of_nat i) < MEM_SIZE then Some (map (\<lambda>i. snd (cells s (off + of_nat i))) is)
      else None)"

definition vm_not :: "AvmMemoryTag \<Rightarrow> ff \<Rightarrow> ff" where
  "vm_not t x = (if t = FF then 0 else typed t (- ff_int x - 1))"

definition rows_for :: "nat \<Rightarrow> nat" where
  "rows_for n = (n + 2) div 3"

fun vm_step :: "command \<Rightarrow> vm_state \<Rightarrow> vm_state option" where
  "vm_step (Op_add a b d t) s = vm_binary (\<lambda>x y. typed t (ff_int x + ff_int y)) a b d t s"
| "vm_step (Op_sub a b d t) s = vm_binary (\<lambda>x y. typed t (ff_int x - ff_int y)) a b d t s"
| "vm_step (Op_mul a b d t) s = vm_binary (\<lambda>x y. typed t (ff_int x * ff_int y)) a b d t s"
| "vm_step (Op_eq a b d t) s = vm_binary (\<lambda>x y. of_bool (x = y)) a b d t s"
| "vm_step (Op_div a b d t) s =
     Option.bind (vm_read a t s) (\<lambda>(_, x). Option.bind (vm_read b t s) (\<lambda>(_, y).
       vm_write d t (x / y) (vm_next 1 s)))"
| "vm_step (Op_not a d t) s =
     Option.bind (vm_read a t s) (\<lambda>(match, x). vm_write d t (vm_not t (if match then x else 0)) (vm_next 1 s))"
| "vm_step (Set_op v d t) s = vm_write d t (ff_of_word v) (vm_next 1 s)"
| "vm_step (Calldata_copy src n dst data) s =
     vm_copy src dst data [0..<unat n] (vm_next (rows_for (unat n)) s)"
| "vm_step (Return_op off n) s =
     Option.bind (vm_return off [0..<unat n] s) (\<lambda>_. Some (s\<lparr>vm_pc := UINT32_MAX\<rparr>))"
| "vm_step Halt s = Some (s\<lparr>vm_pc := UINT32_MAX\<rparr>)"
| "vm_step (Jump d) s = Some (s\<lparr>vm_pc := d\<rparr>)"
| "vm_step (Internal_call d) s =
     Option.bind (vm_write (vm_ptr s) FF (ff_of_word (vm_pc s + 1)) s) (\<lambda>s'.
       Some (s'\<lparr>vm_pc := d, vm_ptr := vm_ptr s + 1, vm_stack := (vm_pc s + 1) # vm_stack s\<rparr>))"
| "vm_step Internal_return s =
     Option.bind (vm_read (vm_ptr s - 1) FF s) (\<lambda>_.
       case vm_stack s of [] \<Rightarrow> None
       | p # ps \<Rightarrow> Some (s\<lparr>vm_pc := p, vm_ptr := vm_ptr s - 1, vm_stack := ps\<rparr>))"

section \<open>Costs\<close>

text \<open>Rows of the main trace, entries of the memory table, rows of the arithmetic unit.\<close>

fun main_rows :: "command \<Rightarrow> nat" where
  "main_rows (Calldata_copy src n dst data) = rows_for (unat n)"
| "main_rows (Return_op off n) = (if n = 0 then 1 else rows_for (unat n))"
| "main_rows _ = 1"

fun mem_rows :: "command \<Rightarrow> nat" where
  "mem_rows (Op_add _ _ _ _) = 3"
| "mem_rows (Op_sub _ _ _ _) = 3"
| "mem_rows (Op_mul _ _ _ _) = 3"
| "mem_rows (Op_div _ _ _ _) = 3"
| "mem_rows (Op_eq _ _ _ _) = 3"
| "mem_rows (Op_not _ _ _) = 2"
| "mem_rows (Set_op _ _ _) = 1"
| "mem_rows (Calldata_copy src n dst data) = unat n"
| "mem_rows (Return_op off n) = unat n"
| "mem_rows Halt = 0"
| "mem_rows (Jump _) = 0"
| "mem_rows (Internal_call _) = 1"
| "mem_rows Internal_return = 1"

fun alu_rows :: "command \<Rightarrow> nat" where
  "alu_rows (Op_add _ _ _ t) = (if t = U0 then 0 else 1)"
| "alu_rows (Op_sub _ _ _ t) = (if t = U0 then 0 else 1)"
| "alu_rows (Op_mul _ _ _ t) = (if t = U0 then 0 else if t = U128 then 2 else 1)"
| "alu_rows (Op_eq _ _ _ t) = 1"
| "alu_rows (Op_not _ _ t) = (if t = U0 \<or> t = FF then 0 else 1)"
| "alu_rows _ = 0"

definition lengths :: "AvmTraceBuilder \<Rightarrow> nat \<times> nat \<times> nat" where
  "lengths B = (length (main_trace B), length (mem_trace (mem_trace_builder B)), length (alu_trace B))"

fun plus_rows :: "nat \<times> nat \<times> nat \<Rightarrow> nat \<times> nat \<times> nat \<Rightarrow> nat \<times> nat \<times> nat" where
  "plus_rows (a, b, c) (x, y, z) = (a + x, b + y, c + z)"

definition cost :: "command \<Rightarrow> nat \<times> nat \<times> nat" where
  "cost c = (main_rows c, mem_rows c, alu_rows c)"

text \<open>A run, seen by its effect on the machine and by the rows it adds.\<close>

definition refines ::
  "(avm_error + AvmTraceBuilder) \<Rightarrow> AvmTraceBuilder \<Rightarrow> vm_state option \<Rightarrow> nat \<times> nat \<times> nat \<Rightarrow> bool" where
  "refines r B s n \<longleftrightarrow> (case s of None \<Rightarrow> \<exists>e. r = Inl e
     | Some s' \<Rightarrow> \<exists>B'. r = Inr B' \<and> vm_of B' = s' \<and> lengths B' = plus_rows (lengths B) n)"

section \<open>Every operation refines its step\<close>

lemma vm_of_simps [simp]:
  "cells (vm_of B) a = (memory_tag (mem_trace_builder B) a, memory (mem_trace_builder B) a)"
  "vm_pc (vm_of B) = pc B" "vm_ptr (vm_of B) = internal_return_ptr B" "vm_stack (vm_of B) = internal_call_stack B"
  by (simp_all add: vm_of_def)

lemma vm_of_push [simp]: "vm_of (push_row row B) = vm_of B"
  by (simp add: vm_of_def push_row_def)

lemma lengths_push [simp]: "lengths (push_row row B) = plus_rows (lengths B) (1, 0, 0)"
  by (simp add: lengths_def push_row_def)

lemma refines_None: "refines (Inl e) B None n"
  by (simp add: refines_def)

lemma refines_Some: "vm_of B' = s \<Longrightarrow> lengths B' = plus_rows (lengths B) n \<Longrightarrow> refines (Inr B') B (Some s) n"
  by (simp add: refines_def)

lemma op_binary_refines:
  assumes "\<And>x y clk tr. fst (alu_op x y t clk tr) = f x y"
    and "\<And>x y clk tr. length (snd (alu_op x y t clk tr)) = length tr + n"
  shows "refines (op_binary alu_op sel a b d t B) B (vm_binary f a b d t (vm_of B)) (1, 3, n)"
proof (cases "unat a < MEM_SIZE \<and> unat b < MEM_SIZE \<and> unat d < MEM_SIZE")
  case True
  then show ?thesis
    by (simp add: op_binary_def vm_binary_def vm_read_def vm_write_def Let_def read_and_load_eq write_into_eq
      split_def assms refines_def vm_next_def)
      (simp add: vm_of_def fun_eq_iff lengths_def assms)
next
  case False
  then show ?thesis
    by (auto simp: op_binary_def vm_binary_def vm_read_def vm_write_def Let_def read_and_load_eq write_into_eq
      split_def intro!: refines_None)
qed

lemma alu_lengths:
  "length (snd (alu_add x y t clk tr)) = length tr + (if t = U0 then 0 else 1)"
  "length (snd (alu_sub x y t clk tr)) = length tr + (if t = U0 then 0 else 1)"
  "length (snd (alu_mul x y t clk tr)) = length tr + (if t = U0 then 0 else if t = U128 then 2 else 1)"
  "length (snd (alu_eq x y t clk tr)) = length tr + 1"
  "length (snd (alu_not x t clk tr)) = length tr + (if t = U0 \<or> t = FF then 0 else 1)"
  by (simp_all add: alu_add_def alu_sub_def alu_mul_def alu_mul_u128_def alu_eq_def alu_not_def Let_def split_def)

lemma typed_U0: "typed U0 z = 0"
  by (simp add: typed_def)

lemma alu_values:
  "fst (alu_add x y t clk tr) = typed t (ff_int x + ff_int y)"
  "fst (alu_sub x y t clk tr) = typed t (ff_int x - ff_int y)"
  "fst (alu_mul x y t clk tr) = typed t (ff_int x * ff_int y)"
  "fst (alu_eq x y t clk tr) = of_bool (x = y)"
  "fst (alu_not x t clk tr) = vm_not t x"
proof -
  show "fst (alu_add x y t clk tr) = typed t (ff_int x + ff_int y)"
    using alu_add_result [of t x y clk tr] by (cases "t = U0") (simp_all add: alu_add_def typed_U0)
  show "fst (alu_sub x y t clk tr) = typed t (ff_int x - ff_int y)"
    using alu_sub_result [of t x y clk tr] by (cases "t = U0") (simp_all add: alu_sub_def typed_U0)
  show "fst (alu_mul x y t clk tr) = typed t (ff_int x * ff_int y)"
    using alu_mul_result [of t x y clk tr] by (cases "t = U0") (simp_all add: alu_mul_def typed_U0)
  show "fst (alu_eq x y t clk tr) = of_bool (x = y)"
    by (rule alu_eq_result)
  show "fst (alu_not x t clk tr) = vm_not t x"
    using alu_not_result [of t x clk tr]
    by (cases "t = U0 \<or> t = FF") (auto simp: alu_not_def vm_not_def typed_U0)
qed

lemmas run_defs = vm_read_def vm_write_def read_and_load_eq write_into_eq split_def

lemma op_div_refines: "refines (op_div a b d t B) B (vm_step (Op_div a b d t) (vm_of B)) (1, 3, 0)"
proof (cases "unat a < MEM_SIZE \<and> unat b < MEM_SIZE \<and> unat d < MEM_SIZE")
  case True
  then show ?thesis
    by (simp add: op_div_def Let_def run_defs ff_invert_def refines_def vm_next_def)
      (auto simp: vm_of_def fun_eq_iff lengths_def divide_inverse)
next
  case False
  then show ?thesis
    by (auto simp: op_div_def Let_def run_defs ff_invert_def intro!: refines_None)
qed

lemma op_not_refines:
  "refines (op_not a d t B) B (vm_step (Op_not a d t) (vm_of B)) (1, 2, if t = U0 \<or> t = FF then 0 else 1)"
proof (cases "unat a < MEM_SIZE \<and> unat d < MEM_SIZE")
  case True
  then show ?thesis
    by (simp add: op_not_def Let_def run_defs refines_def vm_next_def alu_values)
      (simp add: vm_of_def fun_eq_iff lengths_def alu_lengths)
next
  case False
  then show ?thesis
    by (auto simp: op_not_def Let_def run_defs intro!: refines_None)
qed

lemma op_set_refines: "refines (op_set v d t B) B (vm_step (Set_op v d t) (vm_of B)) (1, 1, 0)"
proof (cases "unat d < MEM_SIZE")
  case True
  then show ?thesis
    by (simp add: op_set_def Let_def run_defs refines_def vm_next_def)
      (simp add: vm_of_def fun_eq_iff lengths_def)
next
  case False
  then show ?thesis
    by (auto simp: op_set_def Let_def run_defs intro!: refines_None)
qed

lemma op_halt_refines: "refines (Inr (op_halt B)) B (vm_step Halt (vm_of B)) (1, 0, 0)"
  by (simp add: op_halt_def Let_def refines_def) (simp add: vm_of_def lengths_def)

lemma op_jump_refines: "refines (Inr (op_jump d B)) B (vm_step (Jump d) (vm_of B)) (1, 0, 0)"
  by (simp add: op_jump_def Let_def refines_def) (simp add: vm_of_def lengths_def)

lemma internal_call_refines: "refines (internal_call d B) B (vm_step (Internal_call d) (vm_of B)) (1, 1, 0)"
proof (cases "unat (internal_return_ptr B) < MEM_SIZE")
  case True
  then show ?thesis
    by (simp add: internal_call_def Let_def run_defs refines_def)
      (simp add: vm_of_def fun_eq_iff lengths_def)
next
  case False
  then show ?thesis
    by (auto simp: internal_call_def Let_def run_defs intro!: refines_None)
qed

lemma internal_return_refines: "refines (internal_return B) B (vm_step Internal_return (vm_of B)) (1, 1, 0)"
proof (cases "unat (internal_return_ptr B - 1) < MEM_SIZE \<and> internal_call_stack B \<noteq> []")
  case True
  then show ?thesis
    by (cases "internal_call_stack B") (simp_all add: internal_return_def Let_def run_defs refines_def push_row_def,
      simp add: vm_of_def fun_eq_iff lengths_def)
next
  case False
  then show ?thesis
    by (auto simp: internal_return_def Let_def run_defs push_row_def intro!: refines_None split: list.split)
qed


section \<open>The loops\<close>

lemma vm_copy_append:
  "vm_copy src dst data (is @ js) s = Option.bind (vm_copy src dst data is s) (vm_copy src dst data js)"
  by (induction "is" arbitrary: s) (simp_all cong: bind_option_cong)

lemma vm_write_next: "vm_write a t v (vm_next k s) = map_option (vm_next k) (vm_write a t v s)"
  by (simp add: vm_write_def vm_next_def)

lemma vm_copy_next: "vm_copy src dst data is (vm_next k s) = map_option (vm_next k) (vm_copy src dst data is s)"
  by (induction "is" arbitrary: s) (auto simp: vm_write_next split: bind_splits)

lemma vm_next_next: "vm_next k (vm_next m s) = vm_next (k + m) s"
  by (simp add: vm_next_def)

lemma copy_word_eq:
  "copy_word clk r data src dst M =
     (if unat src < length data \<and> unat dst < MEM_SIZE
      then Inr (data ! unat src, M\<lparr>mem_trace := mem_trace M @ [store_entry clk r dst (data ! unat src) FF],
        memory := (memory M)(dst := data ! unat src), memory_tag := (memory_tag M)(dst := FF)\<rparr>)
      else Inl Out_of_range)"
  by (simp add: copy_word_def vec_at_def write_into_eq)

text \<open>The positions a row copies or reads: up to three.\<close>

lemma row_positions:
  assumes "pos < (n :: u32)"
  shows "[unat pos..<unat n] = [unat pos..<unat (next_pos n pos)] @ [unat (next_pos n pos)..<unat n]"
    and "[unat pos..<unat (next_pos n pos)] = unat pos # (if n - pos > 1 then [unat pos + 1] else []) @
      (if n - pos > 2 then [unat pos + 2] else [])"
    and "rows_for (unat n - unat pos) = Suc (rows_for (unat n - unat (next_pos n pos)))"
    and "unat pos \<le> unat (next_pos n pos)" and "unat (next_pos n pos) \<le> unat n"
proof -
  have less: "unat pos < unat n"
    using assms by (simp add: word_less_nat_alt)
  have diff: "unat (n - pos) = unat n - unat pos"
    using assms by (simp add: unat_sub)
  have next3: "unat (pos + 3) = unat pos + 3" if "2 < unat n - unat pos"
  proof -
    have "unat n < 2 ^ LENGTH(32)"
      by (rule unsigned_less)
    then show ?thesis
      using that by (simp add: unat_word_ariths)
  qed
  have two: "n - pos > 1 \<longleftrightarrow> unat pos + 1 < unat n" and three: "n - pos > 2 \<longleftrightarrow> unat pos + 2 < unat n"
    by (auto simp: word_less_nat_alt diff)
  have np: "unat (next_pos n pos) = (if unat pos + 2 < unat n then unat pos + 3 else unat n)"
    using next3 three by (auto simp: next_pos_def)
  show "[unat pos..<unat n] = [unat pos..<unat (next_pos n pos)] @ [unat (next_pos n pos)..<unat n]"
    using less upt_add_eq_append [of "unat pos" "unat pos + 3" "unat n - (unat pos + 3)"] unfolding np by auto
  show "[unat pos..<unat (next_pos n pos)] = unat pos # (if n - pos > 1 then [unat pos + 1] else []) @
      (if n - pos > 2 then [unat pos + 2] else [])"
    unfolding np two three using less by (auto simp: upt_rec)
  show "rows_for (unat n - unat pos) = Suc (rows_for (unat n - unat (next_pos n pos)))"
    unfolding np using less by (auto simp: rows_for_def)
  show "unat pos \<le> unat (next_pos n pos)" "unat (next_pos n pos) \<le> unat n"
    unfolding np using less by auto
qed

lemma of_nat_unat_plus: "(x :: u32) + of_nat (unat y) = x + y" "x + of_nat (Suc (unat y)) = x + y + 1"
  "x + of_nat (Suc (Suc (unat y))) = x + y + 2"
  by (simp_all add: ac_simps)

lemma vm_copy_positions:
  fixes y :: u32
  shows "vm_copy src dst data (unat y # is) s =
     (if unat (src + y) < length data
      then Option.bind (vm_write (dst + y) FF (data ! unat (src + y)) s) (vm_copy src dst data is) else None)"
  "vm_copy src dst data (Suc (unat y) # is) s =
     (if unat (src + y + 1) < length data
      then Option.bind (vm_write (dst + y + 1) FF (data ! unat (src + y + 1)) s) (vm_copy src dst data is) else None)"
  "vm_copy src dst data (Suc (Suc (unat y)) # is) s =
     (if unat (src + y + 2) < length data
      then Option.bind (vm_write (dst + y + 2) FF (data ! unat (src + y + 2)) s) (vm_copy src dst data is) else None)"
  unfolding vm_copy.simps of_nat_unat_plus by (rule refl)+

lemma calldata_row_refines:
  assumes "pos < n"
  shows "refines (calldata_row src n dst data pos B) B
    (vm_copy src dst data [unat pos..<unat (next_pos n pos)] (vm_next 1 (vm_of B)))
    (1, unat (next_pos n pos) - unat pos, 0)"
proof -
  have len: "unat (next_pos n pos) - unat pos = length (unat pos # (if n - pos > 1 then [unat pos + 1] else []) @
      (if n - pos > 2 then [unat pos + 2] else []))"
    by (metis row_positions(2) [OF assms] length_upt)
  show ?thesis
    unfolding len unfolding row_positions(2) [OF assms] calldata_row_def Let_def
    by (cases "n - pos > 1"; cases "n - pos > 2")
      (auto simp: copy_word_eq vm_write_def vm_next_def vm_copy_positions refines_def lengths_def push_row_def
        vm_of_def fun_eq_iff simp del: vm_copy.simps(2))
qed

lemma calldata_loop_refines:
  "refines (calldata_loop src n dst data pos B) B
     (vm_copy src dst data [unat pos..<unat n] (vm_next (rows_for (unat n - unat pos)) (vm_of B)))
     (rows_for (unat n - unat pos), unat n - unat pos, 0)"
proof (induction src n dst data pos B rule: calldata_loop.induct)
  case (1 src n dst data pos B)
  show ?case
  proof (cases "pos < n")
    case True
    define p where "p = next_pos n pos"
    note row = calldata_row_refines [OF True, of src dst data B, folded p_def]
    note pos = row_positions [OF True, folded p_def]
    have loop: "calldata_loop src n dst data pos B =
        ebind (calldata_row src n dst data pos B) (calldata_loop src n dst data p)"
      using True by (subst calldata_loop.simps) (simp add: p_def)
    have vm: "vm_copy src dst data [unat pos..<unat n] (vm_next (rows_for (unat n - unat pos)) (vm_of B)) =
        Option.bind (vm_copy src dst data [unat pos..<unat p] (vm_next 1 (vm_of B)))
          (\<lambda>s. vm_copy src dst data [unat p..<unat n] (vm_next (rows_for (unat n - unat p)) s))"
    proof -
      have "vm_next (rows_for (unat n - unat pos)) (vm_of B) = vm_next (rows_for (unat n - unat p)) (vm_next 1 (vm_of B))"
        by (simp add: pos(3) vm_next_next)
      then show ?thesis
        unfolding pos(1) vm_copy_append by (simp add: vm_copy_next bind_map_option o_def)
    qed
    show ?thesis
    proof (cases "vm_copy src dst data [unat pos..<unat p] (vm_next 1 (vm_of B))")
      case None
      then show ?thesis
        using row unfolding vm loop by (auto simp: refines_def)
    next
      case (Some s)
      then obtain B1 where B1: "calldata_row src n dst data pos B = Inr B1" "vm_of B1 = s"
          "lengths B1 = plus_rows (lengths B) (1, unat p - unat pos, 0)"
        using row by (auto simp: refines_def)
      show ?thesis
        using "1.IH" [OF True, of B1] Some B1 pos(3-5) unfolding vm loop
        by (auto simp: refines_def p_def [symmetric] lengths_def split: option.splits)
    qed
  next
    case False
    then show ?thesis
      by (subst calldata_loop.simps) (simp add: refines_def vm_next_def rows_for_def lengths_def word_less_nat_alt)
  qed
qed

definition returns ::
  "(avm_error + ff list \<times> AvmTraceBuilder) \<Rightarrow> AvmTraceBuilder \<Rightarrow> ff list option \<Rightarrow> nat \<times> nat \<times> nat \<Rightarrow> bool" where
  "returns r B vs n \<longleftrightarrow> (case vs of None \<Rightarrow> \<exists>e. r = Inl e
     | Some vals \<Rightarrow> \<exists>B'. r = Inr (vals, B') \<and> vm_of B' = vm_of B \<and> lengths B' = plus_rows (lengths B) n)"

lemma vm_return_append:
  "vm_return off (is @ js) s = (case (vm_return off is s, vm_return off js s) of
     (Some us, Some vs) \<Rightarrow> Some (us @ vs) | _ \<Rightarrow> None)"
  by (auto simp: vm_return_def)

lemma return_row_returns:
  assumes "pos < n"
  shows "returns (return_row off n pos B) B (vm_return off [unat pos..<unat (next_pos n pos)] (vm_of B))
    (1, unat (next_pos n pos) - unat pos, 0)"
proof -
  have len: "unat (next_pos n pos) - unat pos = length (unat pos # (if n - pos > 1 then [unat pos + 1] else []) @
      (if n - pos > 2 then [unat pos + 2] else []))"
    by (metis row_positions(2) [OF assms] length_upt)
  define positions where "positions = unat pos # (if n - pos > 1 then [unat pos + 1] else []) @
      (if n - pos > 2 then [unat pos + 2] else [])"
  define addrs where "addrs = (off + pos) # (if n - pos > 1 then [off + pos + 1] else []) @
      (if n - pos > 2 then [off + pos + 2] else [])"
  have addrs: "addrs = map (\<lambda>i. off + of_nat i) positions"
    by (auto simp: positions_def addrs_def of_nat_unat_plus simp del: of_nat_Suc)
  then have vm: "vm_return off positions (vm_of B) =
      (if \<forall>a\<in>set addrs. unat a < MEM_SIZE then Some (map (\<lambda>a. memory (mem_trace_builder B) a) addrs) else None)"
    unfolding addrs by (simp add: vm_return_def o_def)
  show ?thesis
    unfolding len unfolding row_positions(2) [OF assms] positions_def [symmetric] vm
    unfolding return_row_def Let_def addrs_def positions_def
    by (cases "n - pos > 1"; cases "n - pos > 2"; cases "unat (off + pos) < MEM_SIZE";
        cases "unat (off + pos + 1) < MEM_SIZE"; cases "unat (off + pos + 2) < MEM_SIZE")
      (simp_all add: read_and_load_eq returns_def lengths_def push_row_def vm_of_def split del: if_split)
qed

lemma return_loop_returns:
  "returns (return_loop off n pos acc B) B
     (map_option ((@) acc) (vm_return off [unat pos..<unat n] (vm_of B)))
     (rows_for (unat n - unat pos), unat n - unat pos, 0)"
proof (induction off n pos acc B rule: return_loop.induct)
  case (1 off n pos acc B)
  show ?case
  proof (cases "pos < n")
    case True
    define p where "p = next_pos n pos"
    note row = return_row_returns [OF True, of off B, folded p_def]
    note pos = row_positions [OF True, folded p_def]
    have loop: "return_loop off n pos acc B =
        ebind (return_row off n pos B) (\<lambda>(vals, B). return_loop off n p (acc @ vals) B)"
      using True by (subst return_loop.simps) (simp add: p_def)
    show ?thesis
    proof (cases "vm_return off [unat pos..<unat p] (vm_of B)")
      case None
      then show ?thesis
        using row unfolding pos(1) vm_return_append loop by (auto simp: returns_def)
    next
      case (Some vals)
      then obtain B1 where B1: "return_row off n pos B = Inr (vals, B1)" "vm_of B1 = vm_of B"
          "lengths B1 = plus_rows (lengths B) (1, unat p - unat pos, 0)"
        using row by (auto simp: returns_def)
      show ?thesis
        using "1.IH" [OF True, of vals B1] Some B1 pos(3-5) unfolding pos(1) vm_return_append loop
        by (auto simp: returns_def p_def [symmetric] lengths_def split: option.splits)
    qed
  next
    case False
    then show ?thesis
      by (subst return_loop.simps) (simp add: returns_def vm_return_def rows_for_def lengths_def word_less_nat_alt)
  qed
qed

lemma return_op_returns:
  "(case vm_return off [0..<unat n] (vm_of B) of
     None \<Rightarrow> \<exists>e. return_op off n B = Inl e
   | Some vals \<Rightarrow> \<exists>B'. return_op off n B = Inr (vals, B') \<and> vm_of B' = (vm_of B)\<lparr>vm_pc := UINT32_MAX\<rparr> \<and>
       lengths B' = plus_rows (lengths B) (main_rows (Return_op off n), unat n, 0))"
proof (cases "n = 0")
  case True
  then show ?thesis
    by (simp add: return_op_def vm_return_def op_halt_def Let_def) (simp add: vm_of_def lengths_def)
next
  case False
  then show ?thesis
    using return_loop_returns [of off n 0 "[]" B]
    by (auto simp: return_op_def returns_def vm_of_def lengths_def split: option.splits)
qed

text \<open>Every operation of the builder.\<close>

lemma calldata_copy_refines:
  "refines (calldata_copy src n dst data B) B (vm_step (Calldata_copy src n dst data) (vm_of B))
     (rows_for (unat n), unat n, 0)"
  using calldata_loop_refines [of src n dst data 0 B] by (simp add: calldata_copy_def)

lemma return_op_refines:
  "refines (ebind (return_op off n B) (\<lambda>(vals, B). Inr B)) B (vm_step (Return_op off n) (vm_of B))
     (if n = 0 then 1 else rows_for (unat n), unat n, 0)"
  using return_op_returns [of off n B] by (auto simp: refines_def split: option.splits)

lemmas command_refines = calldata_copy_refines return_op_refines op_halt_refines op_jump_refines
  internal_call_refines internal_return_refines op_set_refines op_div_refines op_not_refines
  op_binary_refines [OF alu_values(1) alu_lengths(1)] op_binary_refines [OF alu_values(2) alu_lengths(2)]
  op_binary_refines [OF alu_values(3) alu_lengths(3)] op_binary_refines [OF alu_values(4) alu_lengths(4)]

lemma run_command_refines: "refines (run_command c B) B (vm_step c (vm_of B)) (cost c)"
  by (cases c) (simp_all only: run_command.simps cost_def mem_rows.simps alu_rows.simps op_add_def op_sub_def
    op_mul_def op_eq_def vm_step.simps(1-4) main_rows.simps, (rule command_refines)+)

fun run_commands :: "command list \<Rightarrow> AvmTraceBuilder \<Rightarrow> avm_error + AvmTraceBuilder" where
  "run_commands [] B = Inr B"
| "run_commands (c # cs) B = ebind (run_command c B) (run_commands cs)"

fun vm_run :: "command list \<Rightarrow> vm_state \<Rightarrow> vm_state option" where
  "vm_run [] s = Some s"
| "vm_run (c # cs) s = Option.bind (vm_step c s) (vm_run cs)"

fun total_cost :: "command list \<Rightarrow> nat \<times> nat \<times> nat" where
  "total_cost [] = (0, 0, 0)"
| "total_cost (c # cs) = plus_rows (cost c) (total_cost cs)"

lemma plus_rows_assoc: "plus_rows (plus_rows x y) z = plus_rows x (plus_rows y z)"
  by (cases x; cases y; cases z) simp

lemma plus_rows_zero [simp]: "plus_rows x (0, 0, 0) = x" "plus_rows (0, 0, 0) x = x"
  by (cases x; simp)+

lemma run_commands_refines: "refines (run_commands cs B) B (vm_run cs (vm_of B)) (total_cost cs)"
proof (induction cs arbitrary: B)
  case (Cons c cs)
  show ?case
  proof (cases "vm_step c (vm_of B)")
    case None
    then show ?thesis
      using run_command_refines [of c B] by (auto simp: refines_def)
  next
    case (Some s)
    then obtain B1 where "run_command c B = Inr B1" "vm_of B1 = s" "lengths B1 = plus_rows (lengths B) (cost c)"
      using run_command_refines [of c B] by (auto simp: refines_def)
    then show ?thesis
      using Cons.IH [of B1] Some by (auto simp: refines_def plus_rows_assoc split: option.splits)
  qed
qed (simp add: refines_def)

end
