(* ===== verification/Avm_Circuit.thy ===== *)
theory Avm_Circuit
  imports Avm_Machine
begin

text \<open>
  What the trace builder promises about the trace it finishes: the properties of reachable
  states, of the finished trace and of its tables, and the machine that the operations
  implement.
\<close>

section \<open>Runs\<close>

lemma reachable_run: "reachable ok B \<Longrightarrow> run_commands cs B = Inr B' \<Longrightarrow> list_all ok cs \<Longrightarrow> reachable ok B'"
  by (induction cs arbitrary: B) (auto simp: ebind_Inr_iff intro: reachable_step)

text \<open>A short program: 250 + 9 in a byte, returned as a field element, a tag error.\<close>

definition sum_program :: "command list" where
  "sum_program = [Set_op 250 0 U8, Set_op 9 1 U8, Op_add 0 1 2 U8, Return_op 2 1]"

lemma sum_program_typed: "list_all typed_command sum_program"
  by (simp add: sum_program_def)

lemma init_simps: "vm_of trace_init = \<lparr>cells = (\<lambda>_. (U0, 0)), vm_pc = 0, vm_ptr = 896, vm_stack = []\<rparr>"
  "lengths trace_init = (0, 0, 0)"
  by (simp_all add: trace_init_def mem_init_def vm_of_def CALLSTACK_OFFSET_def lengths_def)

lemma ff_int_word [simp]: "ff_int (ff_of_word (w :: u128)) = uint w"
  using uint_lt128 [of w] unfolding ff_of_word_def ff_int_of_int by simp

lemma sum_program_runs:
  "\<exists>B. run_commands sum_program trace_init = Inr B \<and> reachable typed_command B \<and> lengths B = (4, 6, 1) \<and>
    cells (vm_of B) 2 = (U8, 3)"
proof -
  have "vm_run sum_program (vm_of trace_init) = Some \<lparr>cells = ((\<lambda>_. (U0, 0))(0 := (U8, 250), 1 := (U8, 9), 2 := (U8, 3))),
      vm_pc = UINT32_MAX, vm_ptr = 896, vm_stack = []\<rparr>"
    by (simp add: sum_program_def init_simps vm_write_def vm_read_def vm_next_def vm_binary_def vm_return_def MEM_SIZE_def
      tags_match_def typed_def)
      (simp add: ff_of_word_def del: of_int_uint)
  moreover have "total_cost sum_program = (4, 6, 1)"
    by (simp add: sum_program_def cost_def rows_for_def)
  ultimately obtain B where B: "run_commands sum_program trace_init = Inr B"
      "vm_of B = \<lparr>cells = ((\<lambda>_. (U0, 0))(0 := (U8, 250), 1 := (U8, 9), 2 := (U8, 3))),
      vm_pc = UINT32_MAX, vm_ptr = 896, vm_stack = []\<rparr>" "lengths B = (4, 6, 1)"
    using run_commands_refines [of sum_program trace_init] by (auto simp: refines_def init_simps)
  have "cells (vm_of B) 2 = (U8, 3)"
    unfolding B(2) by simp
  then show ?thesis
    using B(1,3) reachable_run [OF reachable_init B(1) sum_program_typed] by blast
qed

lemma finalize_fails:
  assumes "\<not> fits B"
  shows "\<exists>err. finalize B = Inl err"
proof (cases "finalise_mem_trace_lookup_counts (m_tag_err_lookup_counts (mem_trace_builder B)) (main_trace B)")
  case (Inr rows)
  then show ?thesis
    using assms by (auto simp: finalize_def Let_def fits_def mem_finalize_def)
qed (simp add: finalize_def Let_def)

lemma fits_small: "fits B \<Longrightarrow> length (main_trace B) < 2 ^ 32"
  by (simp add: fits_def AVM_TRACE_SIZE_def)

lemma reachable_trace_inv:
  "reachable tagged_command B \<Longrightarrow> trace_inv False B" "reachable typed_command B \<Longrightarrow> trace_inv True B"
  by (auto intro: reachable_inv typed_tagged)

lemma finalize_Inr:
  assumes "trace_inv typing B" and "finalize B = Inr (rows, B')"
  shows "fits B"
    and "map main_cols rows = main_first # mark_last (map main_cols (main_trace B)) @
      replicate (255 - length (main_trace B)) main_zero"
    and "map mem_cols rows = mem_first # mem_columns (mem_finalize (mem_trace_builder B)) @
      replicate (255 - length (mem_trace (mem_trace_builder B))) mem_zero"
    and "map alu_cols rows = alu_zero # map (\<lambda>e. alu_fill e alu_zero) (alu_trace B) @
      replicate (255 - length (alu_trace B)) alu_zero"
    and "\<forall>i<length (main_trace B). equiv_tag_err_counts (rows ! Suc i) =
      of_nat (tag_errors (mem_trace (mem_trace_builder B)) (of_nat i))"
proof -
  show fits: "fits B"
    using finalize_fails [of B] assms(2) by auto
  note cols = finalize_columns [OF assms(1) fits]
  show "map main_cols rows = main_first # mark_last (map main_cols (main_trace B)) @
      replicate (255 - length (main_trace B)) main_zero"
    "map mem_cols rows = mem_first # mem_columns (mem_finalize (mem_trace_builder B)) @
      replicate (255 - length (mem_trace (mem_trace_builder B))) mem_zero"
    "map alu_cols rows = alu_zero # map (\<lambda>e. alu_fill e alu_zero) (alu_trace B) @
      replicate (255 - length (alu_trace B)) alu_zero"
    "\<forall>i<length (main_trace B). equiv_tag_err_counts (rows ! Suc i) =
      of_nat (tag_errors (mem_trace (mem_trace_builder B)) (of_nat i))"
    using cols assms(2) by auto
qed

lemma sum_program_finalize:
  "\<exists>B rows. run_commands sum_program trace_init = Inr B \<and> reachable typed_command B \<and> reachable tagged_command B \<and>
    lengths B = (4, 6, 1) \<and> finalize B = Inr (rows, trace_reset B)"
proof -
  obtain B where B: "run_commands sum_program trace_init = Inr B" "reachable typed_command B" "lengths B = (4, 6, 1)"
    using sum_program_runs by auto
  have "list_all tagged_command sum_program"
    using sum_program_typed by (auto simp: list_all_iff typed_tagged)
  then have tagged: "reachable tagged_command B"
    using reachable_run [OF reachable_init B(1)] by blast
  have "fits B"
    using B(3) by (simp add: fits_def lengths_def AVM_TRACE_SIZE_def)
  then obtain rows where "finalize B = Inr (rows, trace_reset B)"
    using finalize_columns [OF reachable_trace_inv(1) [OF tagged]] by auto
  then show ?thesis
    using B tagged by blast
qed

text \<open>The memory table, used for the property and for the program that breaks it.\<close>

lemma mem_table_iff:
  assumes "reachable tagged_command B" and "finalize B = Inr (rows, B')"
  shows "rows_ok avm_mem_relation mem_zero (map mem_cols rows) \<longleftrightarrow>
    uniform_fresh_reads (mem_trace (mem_trace_builder B))"
proof -
  note inv = reachable_trace_inv(1) [OF assms(1)]
  have "mem_inv False (clk_of B) 0 (mem_trace_builder B)"
    using inv fits_small [OF finalize_Inr(1) [OF inv assms(2)]] by (simp add: trace_inv_def)
  then have "mem_log (mem_trace (mem_trace_builder B))" "chronological (mem_trace (mem_trace_builder B))"
    by (simp_all add: mem_inv_def mem_ok_def)
  then show ?thesis
    unfolding finalize_Inr(3) [OF inv assms(2)] mem_finalize_def by (rule mem_sort.srt_table)
qed

text \<open>The log of a binary operation.\<close>

lemma op_binary_log:
  assumes "op_binary alu_op sel a b d t B = Inr B'"
  shows "mem_trace (mem_trace_builder B') = mem_trace (mem_trace_builder B) @
    [load_entry (clk_of B) IA a (snd (cells (vm_of B) a)) (fst (cells (vm_of B) a)) t,
     load_entry (clk_of B) IB b (snd (cells (vm_of B) b)) (fst (cells (vm_of B) b)) t,
     store_entry (clk_of B) IC d (snd (cells (vm_of B') d)) t]"
  using assms by (auto simp: op_binary_def Let_def run_defs push_row_def ebind_Inr_iff split: if_splits)

definition two_tags_program :: "command list" where
  "two_tags_program = [Op_add 0 0 1 U8, Op_add 0 0 2 U16]"

lemma two_tags_log:
  assumes "run_commands two_tags_program trace_init = Inr B"
  shows "\<not> uniform_fresh_reads (mem_trace (mem_trace_builder B))"
    and "filter m_tag_err (mem_trace (mem_trace_builder B)) = []"
proof -
  obtain B1 where B1: "op_add 0 0 1 U8 trace_init = Inr B1" and B: "op_add 0 0 2 U16 B1 = Inr B"
    using assms by (auto simp: two_tags_program_def ebind_Inr_iff)
  have "vm_step (Op_add 0 0 1 U8) (vm_of trace_init) = Some (vm_of B1)"
    using run_command_refines [of "Op_add 0 0 1 U8" trace_init] B1 by (auto simp: refines_def split: option.splits)
  then have vm: "vm_of B1 = \<lparr>cells = (\<lambda>_. (U0, 0))(1 := (U8, typed U8 0)), vm_pc = 1, vm_ptr = 896, vm_stack = []\<rparr>"
    by (simp add: init_simps vm_binary_def vm_read_def vm_write_def MEM_SIZE_def vm_next_def)
  have "fst (cells (vm_of B1) 0) = U0"
    unfolding vm by simp
  then show "\<not> uniform_fresh_reads (mem_trace (mem_trace_builder B))"
      "filter m_tag_err (mem_trace (mem_trace_builder B)) = []"
    using op_binary_log [OF B1 [unfolded op_add_def]] op_binary_log [OF B [unfolded op_add_def]]
    by (simp_all add: uniform_fresh_reads_def fresh_reads_def accesses_def init_simps tags_match_def
      trace_init_def mem_init_def)
qed

section \<open>What the trace builder promises\<close>

text \<open>
  C13: finalize of a state that the operations have led to succeeds exactly when there is a row
  and none of the three traces has more than 255: no lookup counter points outside the trace.
  Then it returns 256 rows.
\<close>

theorem avm_finalize_result:
  assumes "reachable tagged_command B"
  shows "if 0 < length (main_trace B) \<and> length (main_trace B) < 256 \<and>
      length (mem_trace (mem_trace_builder B)) < 256 \<and> length (alu_trace B) < 256
    then \<exists>rows. finalize B = Inr (rows, trace_reset B) \<and> length rows = 256
    else \<exists>err. finalize B = Inl err"
proof -
  have fits: "fits B \<longleftrightarrow> 0 < length (main_trace B) \<and> length (main_trace B) < 256 \<and>
      length (mem_trace (mem_trace_builder B)) < 256 \<and> length (alu_trace B) < 256"
    by (simp add: fits_def AVM_TRACE_SIZE_def)
  show ?thesis
  proof (cases "fits B")
    case True
    then obtain rows where rows: "finalize B = Inr (rows, trace_reset B)"
        "map alu_cols rows = alu_zero # map (\<lambda>e. alu_fill e alu_zero) (alu_trace B) @
          replicate (255 - length (alu_trace B)) alu_zero"
      using finalize_columns [OF reachable_trace_inv(1) [OF assms] True] by auto
    have "length rows = length (map alu_cols rows)"
      by simp
    also have "\<dots> = 256"
      unfolding rows(2) using True by (simp add: fits)
    finally show ?thesis
      using True rows(1) unfolding fits [symmetric] by auto
  next
    case False
    then show ?thesis
      using finalize_fails [of B] unfolding fits [symmetric] by simp
  qed
qed

lemma avm_finalize_result_witness:
  "\<exists>B rows. run_commands sum_program trace_init = Inr B \<and> finalize B = Inr (rows, trace_reset B) \<and> length rows = 256"
proof -
  obtain B where "run_commands sum_program trace_init = Inr B" "reachable tagged_command B" "lengths B = (4, 6, 1)"
    using sum_program_finalize by blast
  then show ?thesis
    using avm_finalize_result [of B] by (auto simp: lengths_def)
qed

text \<open>
  C18: The memory table of the finished trace satisfies every relation of avm_mem.hpp, flags,
  address order, values and tags of reads, tag errors, if and only if no cell was read with
  two different instruction tags before it was written. The condition is not one the code
  checks.
\<close>

theorem avm_memory_table:
  assumes "reachable tagged_command B" and "finalize B = Inr (rows, B')"
  shows "rows_ok avm_mem_relation mem_zero (map mem_cols rows) \<longleftrightarrow>
    uniform_fresh_reads (mem_trace (mem_trace_builder B))"
  using assms by (rule mem_table_iff)

lemma avm_memory_table_witness:
  "\<exists>rows. finalize (op_halt trace_init) = Inr (rows, trace_reset (op_halt trace_init)) \<and>
    rows_ok avm_mem_relation mem_zero (map mem_cols rows)"
proof -
  have reach: "reachable tagged_command (op_halt trace_init)"
    by (rule reachable_step [OF reachable_init, of _ Halt]) simp_all
  moreover have "fits (op_halt trace_init)" "uniform_fresh_reads (mem_trace (mem_trace_builder (op_halt trace_init)))"
    by (simp_all add: op_halt_def Let_def trace_init_def mem_init_def push_row_def fits_def AVM_TRACE_SIZE_def
      uniform_fresh_reads_def)
  moreover obtain rows where "finalize (op_halt trace_init) = Inr (rows, trace_reset (op_halt trace_init))"
    using finalize_columns [OF reachable_trace_inv(1) [OF reach]] calculation by auto
  ultimately show ?thesis
    using avm_memory_table by blast
qed

text \<open>
  C14: The arithmetic table of the finished trace satisfies every relation of avm_alu.hpp,
  whatever typed commands were run: constants in the range of their tag, division only of
  field elements. The rows of a 128-bit multiplication refer to each other.
\<close>

theorem avm_alu_table:
  assumes "reachable typed_command B" and "finalize B = Inr (rows, B')"
  shows "rows_ok avm_alu_relation alu_zero (map alu_cols rows)"
proof -
  note inv = reachable_trace_inv(2) [OF assms(1)]
  have "alu_block_ok (alu_trace B)"
    using inv fits_small [OF finalize_Inr(1) [OF inv assms(2)]] by (simp add: trace_inv_def)
  then show ?thesis
    unfolding finalize_Inr(4) [OF inv assms(2)] by (rule alu_table_ok)
qed

lemma avm_alu_table_witness:
  "\<exists>B rows. run_commands sum_program trace_init = Inr B \<and> finalize B = Inr (rows, trace_reset B) \<and>
    rows_ok avm_alu_relation alu_zero (map alu_cols rows)"
  using sum_program_finalize avm_alu_table by blast

text \<open>
  C22: The simulated memory is what the log of accesses says: a cell holds the value its last
  access saw, zero if there was none, and its tag is U0 until it is written.
\<close>

theorem avm_memory_is_log:
  assumes "reachable tagged_command B" and "length (main_trace B) < 2 ^ 32" and "unat a < 1024"
  shows "memory (mem_trace_builder B) a = seen_val (mem_trace (mem_trace_builder B)) a \<and>
    memory_tag (mem_trace_builder B) a = seen_tag (mem_trace (mem_trace_builder B)) a"
  using reachable_trace_inv(1) [OF assms(1)] assms(2,3)
  by (simp add: trace_inv_def mem_inv_def mem_ok_def MEM_SIZE_def)

lemma avm_memory_is_log_witness:
  "\<exists>B. run_commands sum_program trace_init = Inr B \<and> seen_val (mem_trace (mem_trace_builder B)) 2 = 3 \<and>
    seen_tag (mem_trace (mem_trace_builder B)) 2 = U8"
proof -
  obtain B where "run_commands sum_program trace_init = Inr B" "reachable typed_command B" "lengths B = (4, 6, 1)"
      "cells (vm_of B) 2 = (U8, 3)"
    using sum_program_runs by blast
  then show ?thesis
    using avm_memory_is_log [of B 2] sum_program_typed
      reachable_run [OF reachable_init, of sum_program B tagged_command]
    by (auto simp: lengths_def list_all_iff typed_tagged)
qed

text \<open>
  C23: With typed commands every cell of the memory holds a value of the width of its tag, and
  zero if it has none.
\<close>

theorem avm_memory_typed:
  assumes "reachable typed_command B" and "length (main_trace B) < 2 ^ 32" and "unat a < 1024"
  shows "has_type (memory_tag (mem_trace_builder B) a) (memory (mem_trace_builder B) a)"
  using reachable_trace_inv(2) [OF assms(1)] assms(2,3)
  by (simp add: trace_inv_def mem_inv_def mem_typed_def MEM_SIZE_def)

lemma avm_memory_typed_witness:
  "\<exists>B. run_commands sum_program trace_init = Inr B \<and> memory_tag (mem_trace_builder B) 2 = U8 \<and>
    has_type U8 (memory (mem_trace_builder B) 2)"
proof -
  obtain B where "run_commands sum_program trace_init = Inr B" "reachable typed_command B" "lengths B = (4, 6, 1)"
      "cells (vm_of B) 2 = (U8, 3)"
    using sum_program_runs by blast
  then show ?thesis
    using avm_memory_typed [of B 2] by (auto simp: lengths_def)
qed

text \<open>
  The lookup counter in the row of a clock cycle is the number of entries of the memory
  table that report a tag error in that cycle.
\<close>

theorem avm_tag_error_counts:
  assumes "reachable tagged_command B" and "finalize B = Inr (rows, B')" and "i < length (main_trace B)"
  shows "equiv_tag_err_counts (rows ! (i + 1)) =
    of_nat (length (filter (\<lambda>e. m_tag_err e \<and> m_clk e = of_nat i) (mem_trace (mem_trace_builder B))))"
  using finalize_Inr(5) [OF reachable_trace_inv(1) [OF assms(1)] assms(2)] assms(3)
  by (simp add: tag_errors_def)


lemma avm_tag_error_counts_witness:
  "\<exists>B rows. run_commands sum_program trace_init = Inr B \<and> finalize B = Inr (rows, trace_reset B) \<and>
    equiv_tag_err_counts (rows ! 4) =
      of_nat (length (filter (\<lambda>e. m_tag_err e \<and> m_clk e = 3) (mem_trace (mem_trace_builder B))))"
proof -
  obtain B rows where B: "run_commands sum_program trace_init = Inr B" "reachable tagged_command B"
      "lengths B = (4, 6, 1)" "finalize B = Inr (rows, trace_reset B)"
    using sum_program_finalize by blast
  then show ?thesis
    using avm_tag_error_counts [OF B(2,4), of 3] by (auto simp: lengths_def)
qed

text \<open>
  C12: Any sequence of operations does to the memory, the program counter and the call stack what
  the machine of tagged cells does, fails exactly when the machine has no step (an address or
  a position of the call data out of range, a return without a call), and adds to the three
  traces the number of rows that the commands alone determine.
\<close>

theorem avm_run_refines:
  "case vm_run cs (vm_of B) of
     None \<Rightarrow> \<exists>err. run_commands cs B = Inl err
   | Some s \<Rightarrow> \<exists>B'. run_commands cs B = Inr B' \<and> vm_of B' = s \<and>
       lengths B' = plus_rows (lengths B) (total_cost cs)"
  using run_commands_refines [of cs B] by (auto simp: refines_def split: option.splits)

text \<open>
  Two additions that read the same fresh cell with different tags run without any tag error
  and finalize returns a trace, but its memory table breaks the relation on the tag of a read:
  the code gives a cell its tag when it is written, the circuit when it is first read.
\<close>

theorem avm_fresh_reads_break_table:
  "\<exists>B rows. run_commands two_tags_program trace_init = Inr B \<and> filter m_tag_err (mem_trace (mem_trace_builder B)) = [] \<and>
    finalize B = Inr (rows, trace_reset B) \<and> \<not> rows_ok avm_mem_relation mem_zero (map mem_cols rows)"
proof -
  have "\<exists>s. vm_run two_tags_program (vm_of trace_init) = Some s"
    by (simp add: two_tags_program_def init_simps vm_binary_def vm_read_def vm_write_def MEM_SIZE_def vm_next_def)
  moreover have "total_cost two_tags_program = (2, 6, 2)"
    by (simp add: two_tags_program_def cost_def)
  ultimately obtain B where B: "run_commands two_tags_program trace_init = Inr B" "lengths B = (2, 6, 2)"
    using run_commands_refines [of two_tags_program trace_init] by (auto simp: refines_def init_simps)
  have reach: "reachable tagged_command B"
    by (rule reachable_run [OF reachable_init B(1)]) (simp add: two_tags_program_def)
  have "fits B"
    using B(2) by (simp add: fits_def lengths_def AVM_TRACE_SIZE_def)
  then obtain rows where rows: "finalize B = Inr (rows, trace_reset B)"
    using finalize_columns [OF reachable_trace_inv(1) [OF reach]] by auto
  show ?thesis
    using B(1) rows mem_table_iff [OF reach rows] two_tags_log [OF B(1)] by blast
qed

text \<open>One divided by three, as bytes.\<close>

definition third_program :: "command list" where
  "third_program = [Set_op 1 0 U8, Set_op 3 1 U8, Op_div 0 1 2 U8]"

lemma third_not_a_byte: "\<not> has_type U8 (1 / 3)"
proof
  define k where "k = ff_int (1 / 3)"
  assume "has_type U8 (1 / 3)"
  then have k: "0 \<le> k" "k < 256"
    using ff_int_range [of "1 / 3"] by (simp_all add: has_type_def k_def)
  have "(3 :: ff) \<noteq> 0"
    using of_int_ff_eq_iff [of 3 0] by simp
  moreover have "of_int k = (1 / 3 :: ff)"
    by (simp add: k_def)
  ultimately have "of_int (3 * k) = (of_int 1 :: ff)"
    by (simp add: mult.commute)
  then have "3 * k mod fr_order = 1 mod fr_order"
    unfolding of_int_ff_eq_iff .
  then have "3 * k = 1"
    using k by simp
  then show False
    by presburger
qed

text \<open>
  A division whose operands and destination have an integer tag leaves a value in memory that
  the tag does not allow: 1 / 3 with the tag of a byte is an inverse in the field, and no tag
  error is reported.
\<close>

theorem avm_division_untyped:
  "\<exists>B. run_commands third_program trace_init = Inr B \<and> memory_tag (mem_trace_builder B) 2 = U8 \<and>
    memory (mem_trace_builder B) 2 = 1 / 3 \<and> \<not> has_type U8 (memory (mem_trace_builder B) 2)"
proof -
  have "vm_run third_program (vm_of trace_init) = Some \<lparr>cells = (\<lambda>_. (U0, 0))(0 := (U8, 1), 1 := (U8, 3), 2 := (U8, 1 / 3)),
      vm_pc = 3, vm_ptr = 896, vm_stack = []\<rparr>"
    by (simp add: third_program_def init_simps vm_write_def vm_read_def vm_next_def MEM_SIZE_def)
      (simp add: ff_of_word_def del: of_int_uint)
  then obtain B where B: "run_commands third_program trace_init = Inr B"
      "vm_of B = \<lparr>cells = (\<lambda>_. (U0, 0))(0 := (U8, 1), 1 := (U8, 3), 2 := (U8, 1 / 3)),
      vm_pc = 3, vm_ptr = 896, vm_stack = []\<rparr>"
    using run_commands_refines [of third_program trace_init] by (auto simp: refines_def)
  have "cells (vm_of B) 2 = (U8, 1 / 3)"
    unfolding B(2) by simp
  then have "memory_tag (mem_trace_builder B) 2 = U8" "memory (mem_trace_builder B) 2 = 1 / 3"
    unfolding vm_of_simps by blast+
  then show ?thesis
    using B(1) third_not_a_byte by metis
qed

end
