(* ===== verification/Avm_Opcode.thy ===== *)
theory Avm_Opcode
  imports Avm_Circuit Serialize
begin

text \<open>
  The opcodes of the virtual machine, vm/avm_trace/avm_opcode.hpp and .cpp: the enumeration,
  the check of an opcode byte, and the two tables about operands that the class Bytecode
  offers.
\<close>

datatype OpCode =
    OP_ADD | OP_SUB | OP_MUL | OP_DIV | OP_EQ | OP_LT | OP_LTE | OP_AND | OP_OR | OP_XOR | OP_NOT
  | OP_SHL | OP_SHR | OP_CAST | OP_ADDRESS | OP_STORAGEADDRESS | OP_ORIGIN | OP_SENDER
  | OP_PORTAL | OP_FEEPERL1GAS | OP_FEEPERL2GAS | OP_FEEPERDAGAS | OP_CONTRACTCALLDEPTH
  | OP_CHAINID | OP_VERSION | OP_BLOCKNUMBER | OP_TIMESTAMP | OP_COINBASE | OP_BLOCKL1GASLIMIT
  | OP_BLOCKL2GASLIMIT | OP_BLOCKDAGASLIMIT | OP_CALLDATACOPY | OP_L1GASLEFT | OP_L2GASLEFT
  | OP_DAGASLEFT | OP_JUMP | OP_JUMPI | OP_INTERNALCALL | OP_INTERNALRETURN | OP_SET | OP_MOV
  | OP_CMOV | OP_SLOAD | OP_SSTORE | OP_NOTEHASHEXISTS | OP_EMITNOTEHASH | OP_NULLIFIEREXISTS
  | OP_EMITNULLIFIER | OP_READL1TOL2MSG | OP_HEADERMEMBER | OP_EMITUNENCRYPTEDLOG
  | OP_SENDL2TOL1MSG | OP_CALL | OP_STATICCALL | OP_DELEGATECALL | OP_RETURN | OP_REVERT
  | OP_KECCAK | OP_POSEIDON

text \<open>The enumerators in their order: their positions are their values.\<close>

definition opcodes :: "OpCode list" where
  "opcodes =
     [OP_ADD, OP_SUB, OP_MUL, OP_DIV, OP_EQ, OP_LT, OP_LTE, OP_AND, OP_OR, OP_XOR, OP_NOT, OP_SHL,
      OP_SHR, OP_CAST, OP_ADDRESS, OP_STORAGEADDRESS, OP_ORIGIN, OP_SENDER, OP_PORTAL,
      OP_FEEPERL1GAS, OP_FEEPERL2GAS, OP_FEEPERDAGAS, OP_CONTRACTCALLDEPTH, OP_CHAINID, OP_VERSION,
      OP_BLOCKNUMBER, OP_TIMESTAMP, OP_COINBASE, OP_BLOCKL1GASLIMIT, OP_BLOCKL2GASLIMIT,
      OP_BLOCKDAGASLIMIT, OP_CALLDATACOPY, OP_L1GASLEFT, OP_L2GASLEFT, OP_DAGASLEFT, OP_JUMP,
      OP_JUMPI, OP_INTERNALCALL, OP_INTERNALRETURN, OP_SET, OP_MOV, OP_CMOV, OP_SLOAD, OP_SSTORE,
      OP_NOTEHASHEXISTS, OP_EMITNOTEHASH, OP_NULLIFIEREXISTS, OP_EMITNULLIFIER, OP_READL1TOL2MSG,
      OP_HEADERMEMBER, OP_EMITUNENCRYPTEDLOG, OP_SENDL2TOL1MSG, OP_CALL, OP_STATICCALL,
      OP_DELEGATECALL, OP_RETURN, OP_REVERT, OP_KECCAK, OP_POSEIDON]"

fun opcode_byte :: "OpCode \<Rightarrow> u8" where
  "opcode_byte OP_ADD = 0"
| "opcode_byte OP_SUB = 1"
| "opcode_byte OP_MUL = 2"
| "opcode_byte OP_DIV = 3"
| "opcode_byte OP_EQ = 4"
| "opcode_byte OP_LT = 5"
| "opcode_byte OP_LTE = 6"
| "opcode_byte OP_AND = 7"
| "opcode_byte OP_OR = 8"
| "opcode_byte OP_XOR = 9"
| "opcode_byte OP_NOT = 10"
| "opcode_byte OP_SHL = 11"
| "opcode_byte OP_SHR = 12"
| "opcode_byte OP_CAST = 13"
| "opcode_byte OP_ADDRESS = 14"
| "opcode_byte OP_STORAGEADDRESS = 15"
| "opcode_byte OP_ORIGIN = 16"
| "opcode_byte OP_SENDER = 17"
| "opcode_byte OP_PORTAL = 18"
| "opcode_byte OP_FEEPERL1GAS = 19"
| "opcode_byte OP_FEEPERL2GAS = 20"
| "opcode_byte OP_FEEPERDAGAS = 21"
| "opcode_byte OP_CONTRACTCALLDEPTH = 22"
| "opcode_byte OP_CHAINID = 23"
| "opcode_byte OP_VERSION = 24"
| "opcode_byte OP_BLOCKNUMBER = 25"
| "opcode_byte OP_TIMESTAMP = 26"
| "opcode_byte OP_COINBASE = 27"
| "opcode_byte OP_BLOCKL1GASLIMIT = 28"
| "opcode_byte OP_BLOCKL2GASLIMIT = 29"
| "opcode_byte OP_BLOCKDAGASLIMIT = 30"
| "opcode_byte OP_CALLDATACOPY = 31"
| "opcode_byte OP_L1GASLEFT = 32"
| "opcode_byte OP_L2GASLEFT = 33"
| "opcode_byte OP_DAGASLEFT = 34"
| "opcode_byte OP_JUMP = 35"
| "opcode_byte OP_JUMPI = 36"
| "opcode_byte OP_INTERNALCALL = 37"
| "opcode_byte OP_INTERNALRETURN = 38"
| "opcode_byte OP_SET = 39"
| "opcode_byte OP_MOV = 40"
| "opcode_byte OP_CMOV = 41"
| "opcode_byte OP_SLOAD = 42"
| "opcode_byte OP_SSTORE = 43"
| "opcode_byte OP_NOTEHASHEXISTS = 44"
| "opcode_byte OP_EMITNOTEHASH = 45"
| "opcode_byte OP_NULLIFIEREXISTS = 46"
| "opcode_byte OP_EMITNULLIFIER = 47"
| "opcode_byte OP_READL1TOL2MSG = 48"
| "opcode_byte OP_HEADERMEMBER = 49"
| "opcode_byte OP_EMITUNENCRYPTEDLOG = 50"
| "opcode_byte OP_SENDL2TOL1MSG = 51"
| "opcode_byte OP_CALL = 52"
| "opcode_byte OP_STATICCALL = 53"
| "opcode_byte OP_DELEGATECALL = 54"
| "opcode_byte OP_RETURN = 55"
| "opcode_byte OP_REVERT = 56"
| "opcode_byte OP_KECCAK = 57"
| "opcode_byte OP_POSEIDON = 58"

text \<open>The cast of a byte; the parser casts only valid bytes.\<close>

definition opcode_of_u8 :: "u8 \<Rightarrow> OpCode" where
  "opcode_of_u8 b = opcodes ! unat b"

definition is_valid :: "u8 \<Rightarrow> bool" where
  "is_valid b \<longleftrightarrow> b \<le> opcode_byte OP_POSEIDON"

text \<open>The switch of has_in_tag lists the opcodes without a tag.\<close>

definition has_in_tag :: "OpCode \<Rightarrow> bool" where
  "has_in_tag op_code \<longleftrightarrow> op_code \<notin> set
     [OP_ADDRESS, OP_STORAGEADDRESS, OP_ORIGIN, OP_SENDER, OP_PORTAL, OP_FEEPERL1GAS,
      OP_FEEPERL2GAS, OP_FEEPERDAGAS, OP_CONTRACTCALLDEPTH, OP_CHAINID, OP_VERSION, OP_BLOCKNUMBER,
      OP_TIMESTAMP, OP_COINBASE, OP_BLOCKL1GASLIMIT, OP_BLOCKL2GASLIMIT, OP_BLOCKDAGASLIMIT,
      OP_CALLDATACOPY, OP_L1GASLEFT, OP_L2GASLEFT, OP_DAGASLEFT, OP_JUMP, OP_JUMPI,
      OP_INTERNALCALL, OP_INTERNALRETURN, OP_MOV, OP_CMOV, OP_SLOAD, OP_SSTORE, OP_NOTEHASHEXISTS,
      OP_EMITNOTEHASH, OP_NULLIFIEREXISTS, OP_EMITNULLIFIER, OP_READL1TOL2MSG, OP_HEADERMEMBER,
      OP_EMITUNENCRYPTEDLOG, OP_SENDL2TOL1MSG, OP_CALL, OP_STATICCALL, OP_RETURN, OP_REVERT]"

text \<open>OPERANDS_NUM, a std::unordered_map.\<close>

definition OPERANDS_NUM :: "OpCode \<Rightarrow> nat option" where
  "OPERANDS_NUM = map_of
     [(OP_ADD, 3), (OP_SUB, 3), (OP_MUL, 3), (OP_DIV, 3), (OP_CALLDATACOPY, 3), (OP_JUMP, 1),
      (OP_JUMPI, 1), (OP_INTERNALCALL, 1), (OP_INTERNALRETURN, 0), (OP_SET, 5), (OP_RETURN, 2)]"

text \<open>Two hexadecimal digits, padded with zeros.\<close>

definition hex_digit :: "u8 \<Rightarrow> char" where
  "hex_digit d = ''0123456789abcdef'' ! unat d"

definition to_hex :: "OpCode \<Rightarrow> string" where
  "to_hex op_code =
     (let b = opcode_byte op_code AND 0xFF in [hex_digit (drop_bit 4 b), hex_digit (b AND 0xF)])"

lemma opcode_of_byte [simp]: "opcode_of_u8 (opcode_byte c) = c"
  by (cases c) (simp_all add: opcode_of_u8_def opcodes_def)

lemma opcode_byte_inject [simp]: "opcode_byte c = opcode_byte d \<longleftrightarrow> c = d"
  by (metis opcode_of_byte)

lemma opcode_bytes: "map opcode_byte opcodes = map of_nat [0..<59]"
  by (simp add: opcodes_def upt_rec)

lemma byte_of_opcode:
  assumes "is_valid b"
  shows "opcode_byte (opcode_of_u8 b) = b"
proof -
  have "unat b < 59"
    using assms by (simp add: is_valid_def word_le_nat_alt)
  moreover have "length opcodes = 59"
    by (simp add: opcodes_def)
  ultimately have "opcode_byte (opcodes ! unat b) = map of_nat [0..<59] ! unat b"
    unfolding opcode_bytes [symmetric] by simp
  also have "\<dots> = b"
    using \<open>unat b < 59\<close> by simp
  finally show ?thesis
    unfolding opcode_of_u8_def .
qed

lemma valid_opcode [simp]: "is_valid (opcode_byte c)"
  by (cases c) (simp_all add: is_valid_def)

end
