(* ===== verification/Avm_Bytecode.thy ===== *)
theory Avm_Bytecode
  imports Avm_Opcode
begin

text \<open>
  Bytecode, vm/avm_trace/avm_deserialization.cpp: the wire formats of the instructions and the
  parser, which goes over the bytes with a position and throws with it; and the writer it is
  proved against.
\<close>

section \<open>Instructions\<close>

datatype OperandType = TAG | UINT8 | UINT16 | UINT32 | UINT64 | UINT128

text \<open>The std::variant of the operands.\<close>

datatype Operand =
    Opd_tag AvmMemoryTag
  | Opd_u8 u8
  | Opd_u16 u16
  | Opd_u32 u32
  | Opd_u64 u64
  | Opd_u128 u128

record Instruction =
  op_code :: OpCode
  operands :: "Operand list"

definition three_operand_format :: "OperandType list" where
  "three_operand_format = [TAG, UINT32, UINT32, UINT32]"

definition OPCODE_WIRE_FORMAT :: "OpCode \<Rightarrow> OperandType list option" where
  "OPCODE_WIRE_FORMAT = map_of
     [(OP_ADD, three_operand_format),
      (OP_SUB, three_operand_format),
      (OP_MUL, three_operand_format),
      (OP_DIV, three_operand_format),
      (OP_EQ, three_operand_format),
      (OP_NOT, [TAG, UINT32, UINT32]),
      (OP_CALLDATACOPY, [UINT32, UINT32, UINT32]),
      (OP_JUMP, [UINT32]),
      (OP_INTERNALCALL, [UINT32]),
      (OP_INTERNALRETURN, []),
      (OP_RETURN, [UINT32, UINT32])]"

fun OPERAND_TYPE_SIZE :: "OperandType \<Rightarrow> nat" where
  "OPERAND_TYPE_SIZE TAG = 1"
| "OPERAND_TYPE_SIZE UINT8 = 1"
| "OPERAND_TYPE_SIZE UINT16 = 2"
| "OPERAND_TYPE_SIZE UINT32 = 4"
| "OPERAND_TYPE_SIZE UINT64 = 8"
| "OPERAND_TYPE_SIZE UINT128 = 16"

section \<open>The parser\<close>

definition at_byte :: "u8 list \<Rightarrow> nat \<Rightarrow> avm_error + u8" where
  "at_byte bytecode pos = (if pos < length bytecode then Inr (bytecode ! pos) else Inl Out_of_range)"

text \<open>The address of the byte at pos is taken with at, and serialize::read reads from there.\<close>

definition read_at :: "'a reader \<Rightarrow> u8 list \<Rightarrow> nat \<Rightarrow> avm_error + 'a" where
  "read_at rd bytecode pos =
     ebind (at_byte bytecode pos) (\<lambda>_. case rd (drop pos bytecode) of None \<Rightarrow> Inl Out_of_range | Some (v, _) \<Rightarrow> Inr v)"

fun set_format :: "AvmMemoryTag \<Rightarrow> OperandType list" where
  "set_format U8 = [TAG, UINT8, UINT32]"
| "set_format U16 = [TAG, UINT16, UINT32]"
| "set_format U32 = [TAG, UINT32, UINT32]"
| "set_format U64 = [TAG, UINT64, UINT32]"
| "set_format U128 = [TAG, UINT128, UINT32]"
| "set_format _ = []"

definition instruction_format :: "u8 list \<Rightarrow> nat \<Rightarrow> OpCode \<Rightarrow> avm_error + OperandType list" where
  "instruction_format bytecode pos opcode =
     (if opcode = OP_SET
      then if pos = length bytecode then Inl (Set_operand_missing pos)
           else ebind (at_byte bytecode pos) (\<lambda>set_tag_u8.
                  if set_tag_u8 \<notin> set [1, 2, 3, 4, 5] then Inl (Set_tag_invalid pos set_tag_u8)
                  else Inr (set_format (tag_of_u8 set_tag_u8)))
      else case OPCODE_WIRE_FORMAT opcode of None \<Rightarrow> Inl Out_of_range | Some fmt \<Rightarrow> Inr fmt)"

definition parse_operand :: "u8 list \<Rightarrow> nat \<Rightarrow> OperandType \<Rightarrow> avm_error + Operand" where
  "parse_operand bytecode pos opType =
     (if length bytecode - pos < OPERAND_TYPE_SIZE opType then Inl (Operand_missing pos)
      else case opType of
        TAG \<Rightarrow> ebind (at_byte bytecode pos) (\<lambda>tag_u8.
          if tag_u8 = 0 \<or> tag_u8 > MAX_MEM_TAG then Inl (Tag_invalid pos tag_u8)
          else Inr (Opd_tag (tag_of_u8 tag_u8)))
      | UINT8 \<Rightarrow> ebind (at_byte bytecode pos) (\<lambda>b. Inr (Opd_u8 b))
      | UINT16 \<Rightarrow> ebind (read_at read_u16 bytecode pos) (\<lambda>v. Inr (Opd_u16 v))
      | UINT32 \<Rightarrow> ebind (read_at read_u32 bytecode pos) (\<lambda>v. Inr (Opd_u32 v))
      | UINT64 \<Rightarrow> ebind (read_at read_u64 bytecode pos) (\<lambda>v. Inr (Opd_u64 v))
      | UINT128 \<Rightarrow> ebind (read_at read_u128 bytecode pos) (\<lambda>v. Inr (Opd_u128 v)))"

fun parse_operands :: "u8 list \<Rightarrow> nat \<Rightarrow> OperandType list \<Rightarrow> avm_error + Operand list \<times> nat" where
  "parse_operands bytecode pos [] = Inr ([], pos)"
| "parse_operands bytecode pos (opType # inst_format) =
     ebind (parse_operand bytecode pos opType) (\<lambda>opd.
     ebind (parse_operands bytecode (pos + OPERAND_TYPE_SIZE opType) inst_format) (\<lambda>(opds, pos).
       Inr (opd # opds, pos)))"

definition parse_instruction :: "u8 list \<Rightarrow> nat \<Rightarrow> avm_error + Instruction \<times> nat" where
  "parse_instruction bytecode pos =
     ebind (at_byte bytecode pos) (\<lambda>opcode_byte.
       if \<not> is_valid opcode_byte then Inl (Invalid_opcode opcode_byte pos)
       else let pos = pos + 1;
                opcode = opcode_of_u8 opcode_byte
            in ebind (instruction_format bytecode pos opcode) (\<lambda>inst_format.
               ebind (parse_operands bytecode pos inst_format) (\<lambda>(opds, pos).
                 Inr (\<lparr>op_code = opcode, operands = opds\<rparr>, pos))))"

lemma parse_operands_pos: "parse_operands bytecode pos fmt = Inr (opds, pos') \<Longrightarrow> pos \<le> pos'"
  by (induction bytecode pos fmt arbitrary: opds pos' rule: parse_operands.induct)
    (auto simp: ebind_Inr_iff)

lemma parse_instruction_pos: "parse_instruction bytecode pos = Inr (inst, pos') \<Longrightarrow> pos < pos'"
  by (auto simp: parse_instruction_def ebind_Inr_iff Let_def dest: parse_operands_pos split: if_splits)

lemma ebind_cong [fundef_cong]:
  "r = r' \<Longrightarrow> (\<And>x. r' = Inr x \<Longrightarrow> f x = f' x) \<Longrightarrow> ebind r f = ebind r' f'"
  by (cases r') simp_all

text \<open>The loop over the bytecode.\<close>

function parse_from :: "u8 list \<Rightarrow> nat \<Rightarrow> avm_error + Instruction list" where
  "parse_from bytecode pos =
     (if pos < length bytecode
      then ebind (parse_instruction bytecode pos) (\<lambda>(inst, pos).
             ebind (parse_from bytecode pos) (\<lambda>insts. Inr (inst # insts)))
      else Inr [])"
  by pat_completeness auto
termination
  by (relation "measure (\<lambda>(bytecode, pos). length bytecode - pos)") (auto dest!: parse_instruction_pos)

declare parse_from.simps [simp del]

definition parse :: "u8 list \<Rightarrow> avm_error + Instruction list" where
  "parse bytecode = parse_from bytecode 0"

section \<open>The writer\<close>

text \<open>The instructions that bytecode can hold, and their bytes.\<close>

fun operand_type :: "Operand \<Rightarrow> OperandType" where
  "operand_type (Opd_tag _) = TAG"
| "operand_type (Opd_u8 _) = UINT8"
| "operand_type (Opd_u16 _) = UINT16"
| "operand_type (Opd_u32 _) = UINT32"
| "operand_type (Opd_u64 _) = UINT64"
| "operand_type (Opd_u128 _) = UINT128"

definition wf_operand :: "OperandType \<Rightarrow> Operand \<Rightarrow> bool" where
  "wf_operand t v \<longleftrightarrow> operand_type v = t \<and> v \<noteq> Opd_tag U0"

fun operand_bytes :: "Operand \<Rightarrow> u8 list" where
  "operand_bytes (Opd_tag t) = [ucast (tag_num t)]"
| "operand_bytes (Opd_u8 v) = write_u8 v"
| "operand_bytes (Opd_u16 v) = write_u16 v"
| "operand_bytes (Opd_u32 v) = write_u32 v"
| "operand_bytes (Opd_u64 v) = write_u64 v"
| "operand_bytes (Opd_u128 v) = write_u128 v"

definition format_of :: "Instruction \<Rightarrow> OperandType list option" where
  "format_of inst =
     (if op_code inst = OP_SET
      then case operands inst of
             Opd_tag t # _ \<Rightarrow> if t \<in> {U8, U16, U32, U64, U128} then Some (set_format t) else None
           | _ \<Rightarrow> None
      else OPCODE_WIRE_FORMAT (op_code inst))"

definition wf_instruction :: "Instruction \<Rightarrow> bool" where
  "wf_instruction inst \<longleftrightarrow>
     (case format_of inst of None \<Rightarrow> False | Some fmt \<Rightarrow> list_all2 wf_operand fmt (operands inst))"

definition instruction_bytes :: "Instruction \<Rightarrow> u8 list" where
  "instruction_bytes inst = opcode_byte (op_code inst) # concat (map operand_bytes (operands inst))"

definition bytecode_of :: "Instruction list \<Rightarrow> u8 list" where
  "bytecode_of insts = concat (map instruction_bytes insts)"

section \<open>The parser inverts the writer\<close>

lemma operand_length: "wf_operand t v \<Longrightarrow> length (operand_bytes v) = OPERAND_TYPE_SIZE t"
  by (cases v) (auto simp: wf_operand_def length_writes write_u8_def)

lemma tag_byte: "tag_of_u8 (ucast (tag_num t)) = t"
  by (cases t) (simp_all add: tag_of_u8_def)

lemma byte_tag:
  assumes "b \<noteq> 0" and "b \<le> MAX_MEM_TAG"
  shows "ucast (tag_num (tag_of_u8 b)) = b \<and> tag_of_u8 b \<noteq> U0"
proof -
  have "unat b \<le> 6"
    using assms(2) by (simp add: MAX_MEM_TAG_def word_le_nat_alt)
  then have "b \<in> {0, 1, 2, 3, 4, 5, 6}"
    by (auto simp: word_unat_eq_iff)
  then show ?thesis
    using assms(1) by (auto simp: tag_of_u8_def)
qed

lemma write_read_u16: "read_u16 it = Some (v, rest) \<Longrightarrow> it = write_u16 v @ rest"
  and write_read_u32: "read_u32 it = Some (v32, rest) \<Longrightarrow> it = write_u32 v32 @ rest"
  and write_read_u64: "read_u64 it = Some (v64, rest) \<Longrightarrow> it = write_u64 v64 @ rest"
  unfolding read_u16_def write_u16_def read_u32_def write_u32_def read_u64_def write_u64_def
  by (rule write_read_be, assumption, simp)+

lemma u128_split:
  "ucast (drop_bit 64 (push_bit 64 (ucast hi) OR ucast lo :: u128)) = (hi :: u64)"
  "ucast (push_bit 64 (ucast hi) OR ucast lo :: u128) = (lo :: u64)"
  by (intro bit_word_eqI; auto simp: bit_simps dest: bit_imp_le_length)+

lemma write_read_u128: "read_u128 it = Some (v, rest) \<Longrightarrow> it = write_u128 v @ rest"
proof -
  assume "read_u128 it = Some (v, rest)"
  then obtain hi lo where "it = write_u64 hi @ write_u64 lo @ rest" and v: "v = push_bit 64 (ucast hi) OR ucast lo"
    by (auto simp: read_u128_def bind_eq_Some_conv dest!: write_read_u64)
  moreover have "write_u128 v = write_u64 hi @ write_u64 lo"
    unfolding v write_u128_def u128_split ..
  ultimately show ?thesis
    by simp
qed

lemma at_byte_append [simp]: "at_byte (pre @ b # rest) (length pre) = Inr b"
  by (simp add: at_byte_def)

lemma at_byte_drop: "at_byte bc pos = Inr b \<longleftrightarrow> (\<exists>rest. drop pos bc = b # rest)"
  by (cases "pos < length bc") (auto simp: at_byte_def Cons_nth_drop_Suc [symmetric])

lemma read_at_append: "rd (bs @ rest) = Some (v, rest) \<Longrightarrow> bs \<noteq> [] \<Longrightarrow> read_at rd (pre @ bs @ rest) (length pre) = Inr v"
  by (cases bs) (simp_all add: read_at_def at_byte_def)

lemma read_at_drop: "read_at rd bc pos = Inr v \<Longrightarrow> \<exists>rest. rd (drop pos bc) = Some (v, rest)"
  by (auto simp: read_at_def ebind_Inr_iff split: option.splits)

text \<open>One operand.\<close>

lemma writes_not_empty: "write_u16 a \<noteq> []" "write_u32 b \<noteq> []" "write_u64 c \<noteq> []" "write_u128 d \<noteq> []"
  using length_writes(1) [of a] length_writes(2) [of b] length_writes(3) [of c] length_writes(4) [of d] by auto

lemma tag_num_range: "t \<noteq> U0 \<Longrightarrow> (ucast (tag_num t) :: u8) \<noteq> 0 \<and> \<not> (ucast (tag_num t) :: u8) > MAX_MEM_TAG"
  by (cases t) (simp_all add: MAX_MEM_TAG_def)

lemma parse_operand_bytes:
  assumes "wf_operand t v"
  shows "parse_operand (pre @ operand_bytes v @ rest) (length pre) t = Inr v"
proof -
  have "\<not> length (pre @ operand_bytes v @ rest) - length pre < OPERAND_TYPE_SIZE t"
    using operand_length [OF assms] by simp
  then show ?thesis
    using assms by (cases v)
      (auto simp: parse_operand_def wf_operand_def tag_num_range tag_byte write_u8_def
        read_at_append writes_not_empty u16_codec.rd_wr u32_codec.rd_wr u64_codec.rd_wr u128_codec.rd_wr)
qed

lemma parse_operand_sound:
  assumes "parse_operand bc pos t = Inr v"
  shows "wf_operand t v \<and> (\<exists>rest. drop pos bc = operand_bytes v @ rest)"
  using assms
  by (cases t) (auto simp: parse_operand_def wf_operand_def ebind_Inr_iff at_byte_drop byte_tag write_u8_def
    not_less dest!: read_at_drop dest: write_read_u16 write_read_u32 write_read_u64 write_read_u128 split: if_splits)


lemma parse_operand_complete:
  assumes "wf_operand t v" and "drop pos bc = operand_bytes v @ rest"
  shows "parse_operand bc pos t = Inr v"
proof -
  have "operand_bytes v \<noteq> []"
    using operand_length [OF assms(1)] by (cases t) auto
  then have "pos < length bc"
    using assms(2) by (metis append_is_Nil_conv drop_eq_Nil not_less)
  moreover have "bc = take pos bc @ operand_bytes v @ rest"
    unfolding assms(2) [symmetric] by simp
  ultimately show ?thesis
    using parse_operand_bytes [OF assms(1), of "take pos bc" rest] by simp
qed

text \<open>All operands of an instruction.\<close>

lemma drop_step: "drop pos bc = xs @ rest \<Longrightarrow> drop (pos + length xs) bc = rest"
  by (metis add.commute append_eq_conv_conj drop_drop)

lemma parse_operands_iff:
  "parse_operands bc pos fmt = Inr (vs, pos') \<longleftrightarrow> list_all2 wf_operand fmt vs \<and>
     (\<exists>rest. drop pos bc = concat (map operand_bytes vs) @ rest) \<and>
     pos' = pos + length (concat (map operand_bytes vs))"
proof (induction fmt arbitrary: pos vs)
  case Nil
  then show ?case
    by auto
next
  case (Cons t fmt)
  show ?case
  proof
    assume "parse_operands bc pos (t # fmt) = Inr (vs, pos')"
    then obtain v ws where v: "parse_operand bc pos t = Inr v" "vs = v # ws"
        "parse_operands bc (pos + OPERAND_TYPE_SIZE t) fmt = Inr (ws, pos')"
      by (auto simp: ebind_Inr_iff)
    obtain rest where "wf_operand t v" "drop pos bc = operand_bytes v @ rest"
      using parse_operand_sound [OF v(1)] by blast
    moreover from this have "drop (pos + OPERAND_TYPE_SIZE t) bc = rest"
      using drop_step [of pos bc "operand_bytes v" rest] operand_length by metis
    ultimately show "list_all2 wf_operand (t # fmt) vs \<and> (\<exists>rest. drop pos bc = concat (map operand_bytes vs) @ rest) \<and>
        pos' = pos + length (concat (map operand_bytes vs))"
      using v(2,3) Cons.IH [of "pos + OPERAND_TYPE_SIZE t" ws] operand_length [of t v] by auto
  next
    assume vs: "list_all2 wf_operand (t # fmt) vs \<and> (\<exists>rest. drop pos bc = concat (map operand_bytes vs) @ rest) \<and>
        pos' = pos + length (concat (map operand_bytes vs))"
    then obtain v ws rest where v: "vs = v # ws" "wf_operand t v" "list_all2 wf_operand fmt ws"
        "drop pos bc = operand_bytes v @ concat (map operand_bytes ws) @ rest"
      by (auto simp: list_all2_Cons1)
    then show "parse_operands bc pos (t # fmt) = Inr (vs, pos')"
      using Cons.IH [of "pos + OPERAND_TYPE_SIZE t" ws] parse_operand_complete [OF v(2,4)]
        drop_step [OF v(4)] operand_length [OF v(2)] vs by (auto simp: ebind_Inr_iff)
  qed
qed

lemma set_tag_bytes:
  "(ucast (tag_num t) :: u8) \<in> set [1, 2, 3, 4, 5] \<longleftrightarrow> t \<in> {U8, U16, U32, U64, U128}"
  by (cases t) simp_all

lemma set_format_tag: "t \<in> {U8, U16, U32, U64, U128} \<Longrightarrow> \<exists>fmt. set_format t = TAG # fmt"
  by auto

lemma instruction_format_bytes:
  assumes "format_of inst = Some fmt" and "list_all2 wf_operand fmt (operands inst)"
    and "drop pos bc = concat (map operand_bytes (operands inst)) @ rest"
  shows "instruction_format bc pos (op_code inst) = Inr fmt"
proof (cases "op_code inst = OP_SET")
  case True
  then obtain t vs where t: "operands inst = Opd_tag t # vs" "t \<in> {U8, U16, U32, U64, U128}" "fmt = set_format t"
    using assms(1) by (auto simp: format_of_def split: list.splits Operand.splits if_splits)
  have at: "at_byte bc pos = Inr (ucast (tag_num t))"
    using assms(3) t(1) by (simp add: at_byte_drop)
  then have "pos \<noteq> length bc"
    by (auto simp: at_byte_def)
  then show ?thesis
    using True t(3) set_tag_bytes [of t] t(2) by (simp add: instruction_format_def at tag_byte)
next
  case False
  then show ?thesis
    using assms(1) by (simp add: instruction_format_def format_of_def)
qed

lemma instruction_format_sound:
  assumes "instruction_format bc pos opcode = Inr fmt" and "list_all2 wf_operand fmt vs"
    and "drop pos bc = concat (map operand_bytes vs) @ rest"
  shows "format_of \<lparr>op_code = opcode, operands = vs\<rparr> = Some fmt"
proof (cases "opcode = OP_SET")
  case True
  then obtain b where b: "at_byte bc pos = Inr b" "b \<in> set [1, 2, 3, 4, 5]" "fmt = set_format (tag_of_u8 b)"
    using assms(1) by (auto simp: instruction_format_def ebind_Inr_iff split: if_splits)
  then obtain fmt' where "fmt = TAG # fmt'"
    using set_format_tag [of "tag_of_u8 b"] by (auto simp: tag_of_u8_def)
  then obtain t ws where vs: "vs = Opd_tag t # ws"
    using assms(2) by (auto simp: list_all2_Cons1 wf_operand_def elim: operand_type.elims)
  then have "b = ucast (tag_num t)"
    using assms(3) b(1) by (auto simp: at_byte_drop)
  then show ?thesis
    using True b(2,3) vs set_tag_bytes [of t] by (simp add: format_of_def tag_byte)
next
  case False
  then show ?thesis
    using assms(1) by (auto simp: instruction_format_def format_of_def split: option.splits)
qed

text \<open>One instruction.\<close>

lemma parse_instruction_iff:
  "parse_instruction bc pos = Inr (inst, pos') \<longleftrightarrow> wf_instruction inst \<and>
     (\<exists>rest. drop pos bc = instruction_bytes inst @ rest) \<and> pos' = pos + length (instruction_bytes inst)"
proof
  assume "parse_instruction bc pos = Inr (inst, pos')"
  then obtain b fmt opds where b: "at_byte bc pos = Inr b" "is_valid b"
      "instruction_format bc (pos + 1) (opcode_of_u8 b) = Inr fmt"
      "parse_operands bc (pos + 1) fmt = Inr (opds, pos')" "inst = \<lparr>op_code = opcode_of_u8 b, operands = opds\<rparr>"
    by (auto simp: parse_instruction_def ebind_Inr_iff Let_def split: if_splits)
  obtain rest where rest: "drop pos bc = b # rest"
    using b(1) by (auto simp: at_byte_drop)
  then have drop1: "drop (pos + 1) bc = rest"
    using drop_step [of pos bc "[b]" rest] by simp
  obtain rest' where ops: "list_all2 wf_operand fmt opds" "drop (pos + 1) bc = concat (map operand_bytes opds) @ rest'"
      "pos' = pos + 1 + length (concat (map operand_bytes opds))"
    using b(4) unfolding parse_operands_iff by blast
  have "drop pos bc = instruction_bytes inst @ rest'"
    using rest drop1 ops(2) b(2,5) by (simp add: instruction_bytes_def byte_of_opcode)
  then show "wf_instruction inst \<and> (\<exists>rest. drop pos bc = instruction_bytes inst @ rest) \<and>
      pos' = pos + length (instruction_bytes inst)"
    using ops(1,3) instruction_format_sound [OF b(3) ops(1,2)] b(5)
    by (auto simp: wf_instruction_def instruction_bytes_def)
next
  assume inst: "wf_instruction inst \<and> (\<exists>rest. drop pos bc = instruction_bytes inst @ rest) \<and>
      pos' = pos + length (instruction_bytes inst)"
  then obtain fmt rest where fmt: "format_of inst = Some fmt" "list_all2 wf_operand fmt (operands inst)"
      "drop pos bc = opcode_byte (op_code inst) # concat (map operand_bytes (operands inst)) @ rest"
    by (auto simp: wf_instruction_def instruction_bytes_def split: option.splits)
  have drop1: "drop (pos + 1) bc = concat (map operand_bytes (operands inst)) @ rest"
    using drop_step [of pos bc "[opcode_byte (op_code inst)]"] fmt(3) by simp
  have "parse_operands bc (pos + 1) fmt = Inr (operands inst, pos')"
    unfolding parse_operands_iff using fmt(2) drop1 inst by (simp add: instruction_bytes_def)
  moreover have "at_byte bc pos = Inr (opcode_byte (op_code inst))"
    using fmt(3) by (auto simp: at_byte_drop)
  ultimately show "parse_instruction bc pos = Inr (inst, pos')"
    using instruction_format_bytes [OF fmt(1,2) drop1] by (simp add: parse_instruction_def)
qed

lemma parse_from_iff:
  "parse_from bc pos = Inr insts \<longleftrightarrow> list_all wf_instruction insts \<and> drop pos bc = bytecode_of insts"
proof (induction bc pos arbitrary: insts rule: parse_from.induct)
  case (1 bc pos)
  show ?case
  proof (cases "pos < length bc")
    case True
    have "parse_from bc pos = Inr insts \<longleftrightarrow> (\<exists>inst pos' is. parse_instruction bc pos = Inr (inst, pos') \<and>
        parse_from bc pos' = Inr is \<and> insts = inst # is)"
      using True by (subst parse_from.simps) (auto simp: ebind_Inr_iff)
    also have "\<dots> \<longleftrightarrow> (\<exists>inst pos' is. parse_instruction bc pos = Inr (inst, pos') \<and>
        list_all wf_instruction is \<and> drop pos' bc = bytecode_of is \<and> insts = inst # is)"
      using "1.IH" [OF True _ refl] by blast
    also have "\<dots> \<longleftrightarrow> list_all wf_instruction insts \<and> drop pos bc = bytecode_of insts"
      unfolding parse_instruction_iff
      using True drop_step [of pos bc "instruction_bytes (hd insts)"]
      by (cases insts) (auto simp: bytecode_of_def)
    finally show ?thesis .
  next
    case False
    moreover have "bytecode_of insts = [] \<longleftrightarrow> insts = []"
      by (cases insts) (simp_all add: bytecode_of_def instruction_bytes_def)
    ultimately show ?thesis
      by (subst parse_from.simps) auto
  qed
qed

text \<open>
  C2: The parser accepts exactly the bytecode that some sequence of well-formed instructions
  is written as, and returns that sequence: no bytecode has two readings, nothing is skipped,
  and every error is a byte string that no instructions have.
\<close>

theorem avm_parse_iff:
  "parse bytecode = Inr insts \<longleftrightarrow> list_all wf_instruction insts \<and> bytecode = bytecode_of insts"
  using parse_from_iff [of bytecode 0 insts] by (simp add: parse_def)

text \<open>
  An opcode that is in the enumeration but has no wire format is not reported like other
  invalid bytecode: the look-up in the table throws out_of_range.
\<close>

theorem avm_parse_unsupported:
  assumes "OPCODE_WIRE_FORMAT c = None" and "c \<noteq> OP_SET"
  shows "parse (opcode_byte c # rest) = Inl Out_of_range"
  using assms unfolding parse_def
  by (subst parse_from.simps) (simp add: parse_instruction_def at_byte_def instruction_format_def)

lemma avm_parse_unsupported_witness: "parse [opcode_byte OP_LT] = Inl Out_of_range"
  by (rule avm_parse_unsupported) (simp_all add: OPCODE_WIRE_FORMAT_def)

text \<open>
  has_in_tag agrees with the wire formats, SET included: an opcode with a format has a tag
  exactly if its format begins with one. OPERANDS_NUM counts the operands behind the tag,
  except that it misses EQ and NOT and gives SET five operands instead of two; and has_in_tag
  gives a tag to DELEGATECALL, unlike to the other calls.
\<close>

theorem avm_operand_tables:
  "(\<forall>c fmt. OPCODE_WIRE_FORMAT c = Some fmt \<longrightarrow> has_in_tag c = (TAG \<in> set (take 1 fmt)) \<and>
      (c \<noteq> OP_EQ \<and> c \<noteq> OP_NOT \<longrightarrow> OPERANDS_NUM c = Some (length (filter (\<lambda>t. t \<noteq> TAG) fmt)))) \<and>
   has_in_tag OP_SET \<and> OPERANDS_NUM OP_SET = Some 5 \<and> OPERANDS_NUM OP_EQ = None \<and> OPERANDS_NUM OP_NOT = None \<and>
   has_in_tag OP_DELEGATECALL \<and> \<not> has_in_tag OP_CALL \<and> \<not> has_in_tag OP_STATICCALL"
proof -
  have "has_in_tag c = (TAG \<in> set (take 1 fmt)) \<and>
      (c \<noteq> OP_EQ \<and> c \<noteq> OP_NOT \<longrightarrow> OPERANDS_NUM c = Some (length (filter (\<lambda>t. t \<noteq> TAG) fmt)))"
    if "OPCODE_WIRE_FORMAT c = Some fmt" for c fmt
    using that by (auto simp: OPCODE_WIRE_FORMAT_def three_operand_format_def has_in_tag_def OPERANDS_NUM_def
      split: if_splits)
  then show ?thesis
    by (simp add: has_in_tag_def OPERANDS_NUM_def)
qed

lemma avm_operand_tables_witness: "has_in_tag OP_ADD \<and> OPERANDS_NUM OP_ADD = Some 3"
  using avm_operand_tables by (auto simp: OPCODE_WIRE_FORMAT_def three_operand_format_def)

end
