(* ===== verification/Avm_Execution.thy ===== *)
theory Avm_Execution
  imports Avm_Bytecode "HOL-Library.While_Combinator"
begin

text \<open>
  Execution, vm/avm_trace/avm_execution.cpp: the loop of gen_trace over the instructions at the
  program counter. It need not end, so it is an option: None is a loop that runs forever.
\<close>

section \<open>One instruction\<close>

definition operand_at :: "Instruction \<Rightarrow> nat \<Rightarrow> avm_error + Operand" where
  "operand_at inst i = vec_at (operands inst) i"

text \<open>std::get on the variant.\<close>

fun get_tag :: "Operand \<Rightarrow> avm_error + AvmMemoryTag" where
  "get_tag (Opd_tag t) = Inr t"
| "get_tag _ = Inl Bad_variant_access"

fun get_u8 :: "Operand \<Rightarrow> avm_error + u8" where
  "get_u8 (Opd_u8 v) = Inr v"
| "get_u8 _ = Inl Bad_variant_access"

fun get_u16 :: "Operand \<Rightarrow> avm_error + u16" where
  "get_u16 (Opd_u16 v) = Inr v"
| "get_u16 _ = Inl Bad_variant_access"

fun get_u32 :: "Operand \<Rightarrow> avm_error + u32" where
  "get_u32 (Opd_u32 v) = Inr v"
| "get_u32 _ = Inl Bad_variant_access"

fun get_u64 :: "Operand \<Rightarrow> avm_error + u64" where
  "get_u64 (Opd_u64 v) = Inr v"
| "get_u64 _ = Inl Bad_variant_access"

fun get_u128 :: "Operand \<Rightarrow> avm_error + u128" where
  "get_u128 (Opd_u128 v) = Inr v"
| "get_u128 _ = Inl Bad_variant_access"

definition opd_tag :: "Instruction \<Rightarrow> nat \<Rightarrow> avm_error + AvmMemoryTag" where
  "opd_tag inst i = ebind (operand_at inst i) get_tag"

definition opd_u32 :: "Instruction \<Rightarrow> nat \<Rightarrow> avm_error + u32" where
  "opd_u32 inst i = ebind (operand_at inst i) get_u32"

text \<open>The arithmetic cases: operands 1, 2 and 3 are addresses and operand 0 is the tag.\<close>

definition exec_binary ::
  "(u32 \<Rightarrow> u32 \<Rightarrow> u32 \<Rightarrow> AvmMemoryTag \<Rightarrow> AvmTraceBuilder \<Rightarrow> avm_error + AvmTraceBuilder) \<Rightarrow>
    Instruction \<Rightarrow> AvmTraceBuilder \<Rightarrow> avm_error + AvmTraceBuilder" where
  "exec_binary op inst B =
     ebind (opd_u32 inst 1) (\<lambda>a. ebind (opd_u32 inst 2) (\<lambda>b. ebind (opd_u32 inst 3) (\<lambda>dst.
     ebind (opd_tag inst 0) (\<lambda>t. op a b dst t B))))"

text \<open>The case of SET: the value is read at the width of the tag, and is zero for FF and U0.\<close>

definition set_value :: "AvmMemoryTag \<Rightarrow> Instruction \<Rightarrow> avm_error + u128" where
  "set_value in_tag inst =
     (case in_tag of
        U8 \<Rightarrow> ebind (ebind (operand_at inst 1) get_u8) (\<lambda>v. Inr (ucast v))
      | U16 \<Rightarrow> ebind (ebind (operand_at inst 1) get_u16) (\<lambda>v. Inr (ucast v))
      | U32 \<Rightarrow> ebind (ebind (operand_at inst 1) get_u32) (\<lambda>v. Inr (ucast v))
      | U64 \<Rightarrow> ebind (ebind (operand_at inst 1) get_u64) (\<lambda>v. Inr (ucast v))
      | U128 \<Rightarrow> ebind (operand_at inst 1) get_u128
      | _ \<Rightarrow> Inr 0)"

definition exec_set :: "Instruction \<Rightarrow> AvmTraceBuilder \<Rightarrow> avm_error + AvmTraceBuilder" where
  "exec_set inst B =
     ebind (opd_tag inst 0) (\<lambda>in_tag. ebind (opd_u32 inst 2) (\<lambda>dst_offset.
     ebind (set_value in_tag inst) (\<lambda>val. op_set val dst_offset in_tag B)))"

text \<open>The switch. NOT takes its destination from operand 3; other opcodes do nothing.\<close>

definition exec_instruction ::
  "ff list \<Rightarrow> Instruction \<Rightarrow> AvmTraceBuilder \<Rightarrow> avm_error + AvmTraceBuilder" where
  "exec_instruction calldata inst B =
     (case op_code inst of
        OP_ADD \<Rightarrow> exec_binary op_add inst B
      | OP_SUB \<Rightarrow> exec_binary op_sub inst B
      | OP_MUL \<Rightarrow> exec_binary op_mul inst B
      | OP_DIV \<Rightarrow> exec_binary op_div inst B
      | OP_NOT \<Rightarrow> ebind (opd_u32 inst 1) (\<lambda>a. ebind (opd_u32 inst 3) (\<lambda>dst.
          ebind (opd_tag inst 0) (\<lambda>t. op_not a dst t B)))
      | OP_CALLDATACOPY \<Rightarrow> ebind (opd_u32 inst 0) (\<lambda>cd. ebind (opd_u32 inst 1) (\<lambda>n.
          ebind (opd_u32 inst 2) (\<lambda>dst. calldata_copy cd n dst calldata B)))
      | OP_JUMP \<Rightarrow> ebind (opd_u32 inst 0) (\<lambda>d. Inr (op_jump d B))
      | OP_INTERNALCALL \<Rightarrow> ebind (opd_u32 inst 0) (\<lambda>d. internal_call d B)
      | OP_INTERNALRETURN \<Rightarrow> internal_return B
      | OP_SET \<Rightarrow> exec_set inst B
      | OP_RETURN \<Rightarrow> ebind (opd_u32 inst 0) (\<lambda>off. ebind (opd_u32 inst 1) (\<lambda>n.
          ebind (return_op off n B) (\<lambda>(returnMem, B). Inr B)))
      | _ \<Rightarrow> Inr B)"

section \<open>The loop\<close>

definition running :: "Instruction list \<Rightarrow> avm_error + AvmTraceBuilder \<Rightarrow> bool" where
  "running insts r \<longleftrightarrow> (case r of Inl _ \<Rightarrow> False | Inr B \<Rightarrow> unat (getPc B) < length insts)"

definition exec_step ::
  "Instruction list \<Rightarrow> ff list \<Rightarrow> avm_error + AvmTraceBuilder \<Rightarrow> avm_error + AvmTraceBuilder" where
  "exec_step insts calldata r =
     ebind r (\<lambda>B. ebind (vec_at insts (unat (getPc B))) (\<lambda>inst. exec_instruction calldata inst B))"

definition exec_loop ::
  "Instruction list \<Rightarrow> ff list \<Rightarrow> AvmTraceBuilder \<Rightarrow> (avm_error + AvmTraceBuilder) option" where
  "exec_loop insts calldata B = while_option (running insts) (exec_step insts calldata) (Inr B)"

definition gen_trace :: "Instruction list \<Rightarrow> ff list \<Rightarrow> (avm_error + AvmFullRow list) option" where
  "gen_trace insts calldata =
     map_option (\<lambda>r. ebind r (\<lambda>B. ebind (finalize B) (\<lambda>(rows, B). Inr rows)))
       (exec_loop insts calldata trace_init)"

text \<open>run_and_prove up to the prover.\<close>

definition trace_of_bytecode :: "u8 list \<Rightarrow> ff list \<Rightarrow> (avm_error + AvmFullRow list) option" where
  "trace_of_bytecode bytecode calldata =
     (case parse bytecode of Inl e \<Rightarrow> Some (Inl e) | Inr insts \<Rightarrow> gen_trace insts calldata)"

section \<open>Parsed instructions are commands\<close>

text \<open>The call of the builder that an instruction stands for, if there is one.\<close>

definition command_of :: "ff list \<Rightarrow> Instruction \<Rightarrow> command option" where
  "command_of calldata inst =
     (case (op_code inst, operands inst) of
        (OP_ADD, [Opd_tag t, Opd_u32 a, Opd_u32 b, Opd_u32 d]) \<Rightarrow> Some (Op_add a b d t)
      | (OP_SUB, [Opd_tag t, Opd_u32 a, Opd_u32 b, Opd_u32 d]) \<Rightarrow> Some (Op_sub a b d t)
      | (OP_MUL, [Opd_tag t, Opd_u32 a, Opd_u32 b, Opd_u32 d]) \<Rightarrow> Some (Op_mul a b d t)
      | (OP_DIV, [Opd_tag t, Opd_u32 a, Opd_u32 b, Opd_u32 d]) \<Rightarrow> Some (Op_div a b d t)
      | (OP_CALLDATACOPY, [Opd_u32 cd, Opd_u32 n, Opd_u32 d]) \<Rightarrow> Some (Calldata_copy cd n d calldata)
      | (OP_JUMP, [Opd_u32 d]) \<Rightarrow> Some (Jump d)
      | (OP_INTERNALCALL, [Opd_u32 d]) \<Rightarrow> Some (Internal_call d)
      | (OP_INTERNALRETURN, []) \<Rightarrow> Some Internal_return
      | (OP_SET, [Opd_tag U8, Opd_u8 v, Opd_u32 d]) \<Rightarrow> Some (Set_op (ucast v) d U8)
      | (OP_SET, [Opd_tag U16, Opd_u16 v, Opd_u32 d]) \<Rightarrow> Some (Set_op (ucast v) d U16)
      | (OP_SET, [Opd_tag U32, Opd_u32 v, Opd_u32 d]) \<Rightarrow> Some (Set_op (ucast v) d U32)
      | (OP_SET, [Opd_tag U64, Opd_u64 v, Opd_u32 d]) \<Rightarrow> Some (Set_op (ucast v) d U64)
      | (OP_SET, [Opd_tag U128, Opd_u128 v, Opd_u32 d]) \<Rightarrow> Some (Set_op v d U128)
      | (OP_RETURN, [Opd_u32 off, Opd_u32 n]) \<Rightarrow> Some (Return_op off n)
      | _ \<Rightarrow> None)"

lemma operand_type_iff:
  "wf_operand TAG v \<longleftrightarrow> (\<exists>t. t \<noteq> U0 \<and> v = Opd_tag t)"
  "wf_operand UINT8 v \<longleftrightarrow> (\<exists>w. v = Opd_u8 w)"
  "wf_operand UINT16 v \<longleftrightarrow> (\<exists>w. v = Opd_u16 w)"
  "wf_operand UINT32 v \<longleftrightarrow> (\<exists>w. v = Opd_u32 w)"
  "wf_operand UINT64 v \<longleftrightarrow> (\<exists>w. v = Opd_u64 w)"
  "wf_operand UINT128 v \<longleftrightarrow> (\<exists>w. v = Opd_u128 w)"
  by (cases v; auto simp: wf_operand_def)+

text \<open>The well-formed instructions, one by one.\<close>

lemma wf_instruction_cases:
  assumes "wf_instruction inst"
  obtains (binary) t a b d where "op_code inst \<in> {OP_ADD, OP_SUB, OP_MUL, OP_DIV, OP_EQ}"
      "operands inst = [Opd_tag t, Opd_u32 a, Opd_u32 b, Opd_u32 d]" "t \<noteq> U0"
  | (neg) t a d where "op_code inst = OP_NOT" "operands inst = [Opd_tag t, Opd_u32 a, Opd_u32 d]" "t \<noteq> U0"
  | (copy) c n d where "op_code inst = OP_CALLDATACOPY" "operands inst = [Opd_u32 c, Opd_u32 n, Opd_u32 d]"
  | (jump) d where "op_code inst \<in> {OP_JUMP, OP_INTERNALCALL}" "operands inst = [Opd_u32 d]"
  | (ret) "op_code inst = OP_INTERNALRETURN" "operands inst = []"
  | (return) off n where "op_code inst = OP_RETURN" "operands inst = [Opd_u32 off, Opd_u32 n]"
  | (set8) v d where "op_code inst = OP_SET" "operands inst = [Opd_tag U8, Opd_u8 v, Opd_u32 d]"
  | (set16) v d where "op_code inst = OP_SET" "operands inst = [Opd_tag U16, Opd_u16 v, Opd_u32 d]"
  | (set32) v d where "op_code inst = OP_SET" "operands inst = [Opd_tag U32, Opd_u32 v, Opd_u32 d]"
  | (set64) v d where "op_code inst = OP_SET" "operands inst = [Opd_tag U64, Opd_u64 v, Opd_u32 d]"
  | (set128) v d where "op_code inst = OP_SET" "operands inst = [Opd_tag U128, Opd_u128 v, Opd_u32 d]"
  using assms
  by (auto simp: wf_instruction_def format_of_def OPCODE_WIRE_FORMAT_def three_operand_format_def
    list_all2_Cons1 operand_type_iff split: option.splits if_splits list.splits Operand.splits)

lemmas exec_defs = exec_instruction_def exec_binary_def exec_set_def set_value_def opd_tag_def opd_u32_def
  operand_at_def vec_at_def command_of_def

lemma uint_ucast_bounds:
  "uint (ucast (a :: u8) :: u128) < 256" "uint (ucast (b :: u16) :: u128) < 65536"
  "uint (ucast (c :: u32) :: u128) < 4294967296" "uint (ucast (d :: u64) :: u128) < 18446744073709551616"
  using uint_lt2p [of a] uint_lt2p [of b] uint_lt2p [of c] uint_lt2p [of d]
  by (simp_all add: unsigned_ucast_eq take_bit_int_eq_self)

lemma exec_command:
  assumes "wf_instruction inst" and "op_code inst \<noteq> OP_NOT"
  shows "exec_instruction calldata inst B =
      (case command_of calldata inst of None \<Rightarrow> Inr B | Some c \<Rightarrow> run_command c B)"
    and "case command_of calldata inst of None \<Rightarrow> op_code inst = OP_EQ
      | Some c \<Rightarrow> tagged_command c \<and> (op_code inst \<noteq> OP_DIV \<longrightarrow> typed_command c)"
  using assms(1)
  by (cases rule: wf_instruction_cases;
      use assms(2) in \<open>auto simp: exec_defs numeral_eq_Suc uint_ucast_bounds uint_lt128\<close>)+

lemma exec_not:
  assumes "wf_instruction inst" and "op_code inst = OP_NOT"
  shows "exec_instruction calldata inst B = Inl Out_of_range"
  using assms(1) by (cases rule: wf_instruction_cases) (use assms(2) in \<open>auto simp: exec_defs\<close>)

text \<open>
  C20: Executing an instruction that the parser returned is the call of the trace builder that
  its operands stand for: std::get never meets another alternative, the tag is never U0 and a
  constant fits its tag. EQ is not in the switch and does nothing; NOT is the one exception.
\<close>

theorem avm_exec_command:
  assumes "wf_instruction inst" and "op_code inst \<noteq> OP_NOT"
  shows "exec_instruction calldata inst B =
      (case command_of calldata inst of None \<Rightarrow> Inr B | Some c \<Rightarrow> run_command c B) \<and>
    (case command_of calldata inst of
       None \<Rightarrow> op_code inst = OP_EQ
     | Some c \<Rightarrow> tagged_command c \<and> (op_code inst \<noteq> OP_DIV \<longrightarrow> typed_command c))"
  using exec_command [OF assms] by blast

lemma avm_exec_command_witness:
  "exec_instruction [] \<lparr>op_code = OP_SET, operands = [Opd_tag U8, Opd_u8 250, Opd_u32 0]\<rparr> trace_init =
     op_set 250 0 U8 trace_init"
  using avm_exec_command [of "\<lparr>op_code = OP_SET, operands = [Opd_tag U8, Opd_u8 250, Opd_u32 0]\<rparr>" "[]" trace_init]
  by (simp add: wf_instruction_def format_of_def wf_operand_def command_of_def)

text \<open>
  The executor takes the destination of NOT from operand 3, but the wire format of NOT has the
  three operands 0 to 2: every NOT that the parser returns throws out_of_range.
\<close>

theorem avm_not_throws:
  assumes "wf_instruction inst" and "op_code inst = OP_NOT"
  shows "exec_instruction calldata inst B = Inl Out_of_range"
  using assms by (rule exec_not)

lemma avm_not_throws_witness:
  "exec_instruction [] \<lparr>op_code = OP_NOT, operands = [Opd_tag U8, Opd_u32 0, Opd_u32 1]\<rparr> trace_init = Inl Out_of_range"
  by (rule avm_not_throws) (simp_all add: wf_instruction_def format_of_def OPCODE_WIRE_FORMAT_def wf_operand_def)

section \<open>Loops that run forever\<close>

lemma while_option_fixed: "b s \<Longrightarrow> c s = s \<Longrightarrow> while_option b c s = None"
proof -
  assume b: "b s" and c: "c s = s"
  have "(c ^^ k) s = s" for k
    by (induction k) (simp_all add: c)
  then show ?thesis
    using b by (simp add: while_option_def)
qed

lemma exec_loop_fixed:
  assumes "unat (getPc B) < length insts" and "exec_instruction calldata (insts ! unat (getPc B)) B = Inr B"
  shows "exec_loop insts calldata B = None"
  unfolding exec_loop_def
  by (rule while_option_fixed) (use assms in \<open>simp_all add: running_def exec_step_def vec_at_def\<close>)

text \<open>
  C39: The loop never ends once the program counter points at an EQ, which the executor does not
  handle, or at a CALLDATACOPY of no words, which adds no row: the counter is not advanced.
\<close>

theorem avm_runs_forever:
  assumes "unat (getPc B) < length insts" and "inst = insts ! unat (getPc B)"
    and "op_code inst = OP_EQ \<or> op_code inst = OP_CALLDATACOPY \<and> operands inst = [Opd_u32 c, Opd_u32 0, Opd_u32 d]"
  shows "exec_loop insts calldata B = None"
proof (rule exec_loop_fixed [OF assms(1)])
  show "exec_instruction calldata (insts ! unat (getPc B)) B = Inr B"
    using assms(3) unfolding assms(2) [symmetric]
    by (auto simp: exec_defs calldata_copy_def numeral_eq_Suc) (subst calldata_loop.simps, simp)
qed

lemma avm_runs_forever_witness:
  "trace_of_bytecode (bytecode_of [\<lparr>op_code = OP_EQ, operands = [Opd_tag U8, Opd_u32 0, Opd_u32 1, Opd_u32 2]\<rparr>]) [] = None"
proof -
  define inst where "inst = \<lparr>op_code = OP_EQ, operands = [Opd_tag U8, Opd_u32 0, Opd_u32 1, Opd_u32 2]\<rparr>"
  have "wf_instruction inst"
    by (simp add: inst_def wf_instruction_def format_of_def OPCODE_WIRE_FORMAT_def three_operand_format_def wf_operand_def)
  then have "parse (bytecode_of [inst]) = Inr [inst]"
    using parse_from_iff [of "bytecode_of [inst]" 0 "[inst]"] by (simp add: parse_def)
  moreover have "exec_loop [inst] [] trace_init = None"
    by (rule avm_runs_forever [of _ _ inst]) (simp_all add: inst_def trace_init_def getPc_def)
  ultimately show ?thesis
    by (simp add: trace_of_bytecode_def gen_trace_def inst_def)
qed

section \<open>Loops that end\<close>

text \<open>The program counter after a command.\<close>

definition next_pc :: "command \<Rightarrow> u32 \<Rightarrow> u32 list \<Rightarrow> u32" where
  "next_pc c p stack =
     (case c of
        Calldata_copy _ n _ _ \<Rightarrow> p + of_nat (rows_for (unat n))
      | Return_op _ _ \<Rightarrow> UINT32_MAX
      | Halt \<Rightarrow> UINT32_MAX
      | Jump d \<Rightarrow> d
      | Internal_call d \<Rightarrow> d
      | Internal_return \<Rightarrow> hd stack
      | _ \<Rightarrow> p + 1)"

lemma vm_copy_pc: "vm_copy src dst data is s = Some s' \<Longrightarrow> vm_pc s' = vm_pc s"
  by (induction "is" arbitrary: s) (fastforce simp: vm_write_def bind_eq_Some_conv split: if_splits)+

lemma vm_step_pc: "vm_step c s = Some s' \<Longrightarrow> vm_pc s' = next_pc c (vm_pc s) (vm_stack s)"
  by (cases c)
    (auto simp: next_pc_def vm_binary_def vm_read_def vm_write_def vm_next_def bind_eq_Some_conv
      dest!: vm_copy_pc split: if_splits list.splits)

lemma run_command_pc: "run_command c B = Inr B' \<Longrightarrow> pc B' = next_pc c (pc B) (internal_call_stack B)"
  using run_command_refines [of c B] vm_step_pc [of c "vm_of B" "vm_of B'"]
  by (auto simp: refines_def split: option.splits)

text \<open>An instruction that only leads forward from index i.\<close>

definition forward :: "nat \<Rightarrow> Instruction \<Rightarrow> bool" where
  "forward i inst \<longleftrightarrow> wf_instruction inst \<and> op_code inst \<noteq> OP_EQ \<and> op_code inst \<noteq> OP_INTERNALRETURN \<and>
     (op_code inst = OP_CALLDATACOPY \<longrightarrow> operands inst ! 1 \<noteq> Opd_u32 0) \<and>
     (op_code inst \<in> {OP_JUMP, OP_INTERNALCALL} \<longrightarrow> (case operands inst of [Opd_u32 d] \<Rightarrow> i < unat d | _ \<Rightarrow> False))"

lemma rows_for_bounds: "n \<noteq> 0 \<Longrightarrow> 0 < rows_for (unat n)" "rows_for (unat (n :: u32)) \<le> 1431655765"
proof -
  show "n \<noteq> 0 \<Longrightarrow> 0 < rows_for (unat n)"
    by (simp add: rows_for_def word_unat_eq_iff div_greater_zero_iff)
  have "unat n < 2 ^ LENGTH(32)"
    by (rule unsigned_less)
  then show "rows_for (unat n) \<le> 1431655765"
    by (simp add: rows_for_def)
qed

lemma forward_pc:
  assumes "forward (unat p) inst" and "op_code inst \<noteq> OP_NOT" and "unat p < 2 ^ 31"
    and "command_of calldata inst = Some c"
  shows "unat p < unat (next_pc c p stack)"
proof -
  have plus: "unat p < unat (p + of_nat k)" if "0 < k" "k \<le> 1431655765" for k
    using that assms(3) by (simp add: unat_word_ariths unat_of_nat)
  have max: "unat UINT32_MAX = 4294967295"
    by (simp add: UINT32_MAX_def)
  from assms(1) have "wf_instruction inst"
    by (simp add: forward_def)
  then show ?thesis
    by (cases rule: wf_instruction_cases)
      (use assms plus [of 1] plus [OF rows_for_bounds] max in \<open>auto simp: forward_def command_of_def next_pc_def\<close>)
qed

text \<open>
  C21: A program of less than 2^31 instructions whose jumps and calls go forward, without EQ,
  INTERNALRETURN and empty CALLDATACOPY, ends for all call data, with a trace or an error.
\<close>

theorem avm_forward_terminates:
  assumes "length insts < 2 ^ 31" and "\<And>i. i < length insts \<Longrightarrow> forward i (insts ! i)"
  shows "\<exists>r. gen_trace insts calldata = Some r"
proof -
  define f where "f r = (case r of Inl _ \<Rightarrow> 0 | Inr B \<Rightarrow> Suc (length insts - unat (getPc B)))" for r :: "avm_error + AvmTraceBuilder"
  have step: "f (exec_step insts calldata r) < f r" if run: "running insts r" for r
  proof -
    obtain B where B: "r = Inr B" "unat (pc B) < length insts"
      using run by (auto simp: running_def getPc_def split: sum.splits)
    define inst where "inst = insts ! unat (pc B)"
    have inst: "forward (unat (pc B)) inst"
      using assms(2) B(2) by (simp add: inst_def)
    then have wf: "wf_instruction inst"
      by (simp add: forward_def)
    have exec: "exec_step insts calldata r = exec_instruction calldata inst B"
      using B by (simp add: exec_step_def vec_at_def inst_def getPc_def)
    show ?thesis
    proof (cases "exec_instruction calldata inst B")
      case (Inl err)
      then show ?thesis
        unfolding exec using B by (simp add: f_def)
    next
      case (Inr B')
      have not: "op_code inst \<noteq> OP_NOT"
        using exec_not [OF wf] Inr by auto
      obtain c where c: "command_of calldata inst = Some c"
        using exec_command(2) [OF wf not, of calldata] inst
        by (cases "command_of calldata inst") (simp_all add: forward_def)
      have "run_command c B = Inr B'"
        using exec_command(1) [OF wf not] Inr c by simp
      then have "pc B' = next_pc c (pc B) (internal_call_stack B)"
        by (rule run_command_pc)
      then have "unat (pc B) < unat (pc B')"
        using forward_pc [OF inst not _ c, of "internal_call_stack B"] B(2) assms(1) by simp
      moreover have "f (exec_step insts calldata r) = Suc (length insts - unat (pc B'))"
        unfolding exec Inr by (simp add: f_def getPc_def)
      moreover have "f r = Suc (length insts - unat (pc B))"
        unfolding B(1) by (simp add: f_def getPc_def)
      ultimately show ?thesis
        using B(2) by simp
    qed
  qed
  have "\<exists>t. while_option (running insts) (exec_step insts calldata) (Inr trace_init) = Some t"
    by (rule measure_while_option_Some [where P = "\<lambda>_. True" and f = f]) (simp_all add: step)
  then show ?thesis
    by (auto simp: gen_trace_def exec_loop_def)
qed

lemma avm_forward_terminates_witness:
  "\<exists>r. gen_trace [\<lparr>op_code = OP_JUMP, operands = [Opd_u32 2]\<rparr>, \<lparr>op_code = OP_JUMP, operands = [Opd_u32 7]\<rparr>,
     \<lparr>op_code = OP_RETURN, operands = [Opd_u32 0, Opd_u32 1]\<rparr>] [] = Some r"
  by (rule avm_forward_terminates)
    (auto simp: forward_def wf_instruction_def format_of_def OPCODE_WIRE_FORMAT_def wf_operand_def nth_Cons'
      split: if_splits)

section \<open>Whole runs\<close>

lemma exec_loop_unfold:
  "exec_loop insts calldata B =
     (if unat (getPc B) < length insts
      then case exec_instruction calldata (insts ! unat (getPc B)) B of
             Inl err \<Rightarrow> Some (Inl err) | Inr B' \<Rightarrow> exec_loop insts calldata B'
      else Some (Inr B))"
  unfolding exec_loop_def
  by (subst while_option_unfold)
    (auto simp: running_def exec_step_def vec_at_def while_option_unfold [where s = "Inl e" for e] split: sum.split)

lemma exec_loop_induct:
  assumes run: "exec_loop insts calldata B0 = Some (Inr B)" and wf: "list_all wf_instruction insts" and init: "P B0"
    and step: "\<And>B inst c B'. P B \<Longrightarrow> unat (pc B) < length insts \<Longrightarrow> inst = insts ! unat (pc B) \<Longrightarrow>
      wf_instruction inst \<Longrightarrow> command_of calldata inst = Some c \<Longrightarrow> run_command c B = Inr B' \<Longrightarrow> P B'"
  shows "P B \<and> length insts \<le> unat (pc B)"
proof -
  define Q where "Q r \<longleftrightarrow> (case r of Inl _ \<Rightarrow> True | Inr B \<Rightarrow> P B)" for r :: "avm_error + AvmTraceBuilder"
  have "Q (exec_step insts calldata r)" if Q: "Q r" and running: "running insts r" for r
  proof -
    obtain B1 where B1: "r = Inr B1" "unat (pc B1) < length insts" "P B1"
      using running Q by (auto simp: running_def getPc_def Q_def split: sum.splits)
    define inst where "inst = insts ! unat (pc B1)"
    have wf1: "wf_instruction inst"
      using wf B1(2) by (simp add: inst_def list_all_length)
    have exec: "exec_step insts calldata r = exec_instruction calldata inst B1"
      using B1 by (simp add: exec_step_def vec_at_def inst_def getPc_def)
    show ?thesis
    proof (cases "op_code inst = OP_NOT")
      case True
      then show ?thesis
        unfolding exec exec_not [OF wf1 True] by (simp add: Q_def)
    next
      case False
      show ?thesis
      proof (cases "command_of calldata inst")
        case None
        then show ?thesis
          unfolding exec exec_command(1) [OF wf1 False] using B1(3) by (simp add: Q_def)
      next
        case (Some c)
        then show ?thesis
          unfolding exec exec_command(1) [OF wf1 False] Q_def
          using step [OF B1(3,2) inst_def wf1 Some] by (simp split: sum.split)
      qed
    qed
  qed
  moreover have "Q (Inr B0)"
    using init by (simp add: Q_def)
  ultimately have "Q (Inr B)"
    using run unfolding exec_loop_def by (metis while_option_rule)
  moreover have "\<not> running insts (Inr B)"
    using run unfolding exec_loop_def by (rule while_option_stop)
  ultimately show ?thesis
    by (simp add: Q_def running_def getPc_def not_less)
qed

definition integer_division :: "Instruction \<Rightarrow> bool" where
  "integer_division inst \<longleftrightarrow> op_code inst = OP_DIV \<and> operands inst ! 0 \<noteq> Opd_tag FF"

lemma command_typed:
  assumes "wf_instruction inst" and "\<not> integer_division inst" and "command_of calldata inst = Some c"
  shows "typed_command c"
  using assms(1)
  by (cases rule: wf_instruction_cases)
    (use assms(2,3) in \<open>auto simp: integer_division_def command_of_def uint_ucast_bounds uint_lt128\<close>)

lemma command_tagged: "wf_instruction inst \<Longrightarrow> command_of calldata inst = Some c \<Longrightarrow> tagged_command c"
  by (cases rule: wf_instruction_cases) (auto simp: command_of_def)

lemma exec_loop_reachable:
  assumes "exec_loop insts calldata trace_init = Some (Inr B)" and "list_all wf_instruction insts"
  shows "reachable tagged_command B"
    and "list_all (\<lambda>inst. \<not> integer_division inst) insts \<Longrightarrow> reachable typed_command B"
proof -
  show "reachable tagged_command B"
    using exec_loop_induct [OF assms, of "reachable tagged_command"] command_tagged
    by (blast intro: reachable_init reachable_step)
  show "reachable typed_command B" if div: "list_all (\<lambda>inst. \<not> integer_division inst) insts"
  proof -
    have "reachable typed_command B'" if "reachable typed_command B" "unat (pc B) < length insts"
        "inst = insts ! unat (pc B)" "wf_instruction inst" "command_of calldata inst = Some c" "run_command c B = Inr B'"
        for B inst c B'
      using that div by (auto simp: list_all_length intro: reachable_step command_typed)
    then show ?thesis
      using exec_loop_induct [OF assms, of "reachable typed_command"] reachable_init by blast
  qed
qed

lemma trace_of_bytecode_run:
  assumes "trace_of_bytecode bytecode calldata = Some (Inr rows)"
  obtains insts B B' where "bytecode = bytecode_of insts" "list_all wf_instruction insts"
    "exec_loop insts calldata trace_init = Some (Inr B)" "finalize B = Inr (rows, B')"
proof -
  obtain insts where insts: "parse bytecode = Inr insts" "gen_trace insts calldata = Some (Inr rows)"
    using assms by (auto simp: trace_of_bytecode_def split: sum.splits)
  obtain B B' where "exec_loop insts calldata trace_init = Some (Inr B)" "finalize B = Inr (rows, B')"
    using insts(2) by (auto simp: gen_trace_def ebind_Inr_iff)
  then show ?thesis
    using that insts(1) parse_from_iff [of bytecode 0 insts] by (auto simp: parse_def)
qed

text \<open>The short program as instructions.\<close>

definition sum_insts :: "Instruction list" where
  "sum_insts =
     [\<lparr>op_code = OP_SET, operands = [Opd_tag U8, Opd_u8 250, Opd_u32 0]\<rparr>,
      \<lparr>op_code = OP_SET, operands = [Opd_tag U8, Opd_u8 9, Opd_u32 1]\<rparr>,
      \<lparr>op_code = OP_ADD, operands = [Opd_tag U8, Opd_u32 0, Opd_u32 1, Opd_u32 2]\<rparr>,
      \<lparr>op_code = OP_RETURN, operands = [Opd_u32 2, Opd_u32 1]\<rparr>]"

lemma sum_insts_wf: "list_all wf_instruction sum_insts" "list_all (\<lambda>inst. \<not> integer_division inst) sum_insts"
  by (simp_all add: sum_insts_def wf_instruction_def format_of_def OPCODE_WIRE_FORMAT_def three_operand_format_def
    wf_operand_def integer_division_def)

lemma sum_insts_commands: "map (command_of calldata) sum_insts = map Some sum_program"
  by (simp add: sum_insts_def sum_program_def command_of_def)

text \<open>Straight-line code runs its commands one after the other.\<close>

lemma exec_loop_command:
  assumes "list_all wf_instruction insts" and "unat (pc B) < length insts"
    and "command_of calldata (insts ! unat (pc B)) = Some c" and "run_command c B = Inr B'"
  shows "exec_loop insts calldata B = exec_loop insts calldata B'"
proof -
  define inst where "inst = insts ! unat (pc B)"
  have wf: "wf_instruction inst"
    using assms(1,2) by (simp add: inst_def list_all_length)
  moreover have "op_code inst \<noteq> OP_NOT"
    using assms(3) by (auto simp: inst_def command_of_def)
  ultimately have "exec_instruction calldata inst B = Inr B'"
    using exec_command(1) assms(3,4) by (simp add: inst_def)
  then show ?thesis
    using assms(2) by (subst exec_loop_unfold) (simp add: inst_def getPc_def)
qed

lemma exec_loop_stop: "length insts \<le> unat (pc B) \<Longrightarrow> exec_loop insts calldata B = Some (Inr B)"
  by (subst exec_loop_unfold) (simp add: getPc_def)

lemma drop_ConsD: "drop i xs = y # ys \<Longrightarrow> i < length xs \<and> xs ! i = y \<and> drop (Suc i) xs = ys"
  by (cases "i < length xs") (auto simp: Cons_nth_drop_Suc [symmetric])

lemma exec_loop_straight:
  assumes "map (command_of calldata) (drop (unat (pc B)) insts) = map Some (cs @ [Return_op off n])"
    and "list_all wf_instruction insts" and "length insts < 2 ^ 31"
    and "run_commands (cs @ [Return_op off n]) B = Inr B'"
    and "list_all (\<lambda>c. \<forall>p stack. next_pc c p stack = p + 1) cs"
  shows "exec_loop insts calldata B = Some (Inr B')"
  using assms
proof (induction cs arbitrary: B)
  case Nil
  then obtain inst where inst: "unat (pc B) < length insts" "insts ! unat (pc B) = inst"
      "command_of calldata inst = Some (Return_op off n)"
    using drop_ConsD [of "unat (pc B)" insts] by (auto simp: Cons_eq_map_conv)
  have run: "run_command (Return_op off n) B = Inr B'"
    using Nil.prems(4) by (auto simp: ebind_Inr_iff)
  then have "length insts \<le> unat (pc B')"
    using run_command_pc [OF run] Nil.prems(3) by (simp add: next_pc_def UINT32_MAX_def)
  then show ?case
    using exec_loop_command [OF Nil.prems(2) inst(1) _ run] inst exec_loop_stop by simp
next
  case (Cons c cs)
  then obtain inst rest where inst: "unat (pc B) < length insts" "insts ! unat (pc B) = inst"
      "command_of calldata inst = Some c" "drop (Suc (unat (pc B))) insts = rest"
      "map (command_of calldata) rest = map Some (cs @ [Return_op off n])"
    using drop_ConsD [of "unat (pc B)" insts] by (auto simp: Cons_eq_map_conv)
  obtain B1 where B1: "run_command c B = Inr B1" "run_commands (cs @ [Return_op off n]) B1 = Inr B'"
    using Cons.prems(4) by (auto simp: ebind_Inr_iff)
  have "pc B1 = pc B + 1"
    using run_command_pc [OF B1(1)] Cons.prems(5) by simp
  then have "unat (pc B1) = Suc (unat (pc B))"
    using inst(1) Cons.prems(3) by (simp add: unat_word_ariths)
  then show ?case
    using exec_loop_command [OF Cons.prems(2) inst(1) _ B1(1)] inst Cons.IH [of B1] Cons.prems B1(2) by simp
qed

lemma sum_insts_run:
  "\<exists>B rows. exec_loop sum_insts calldata trace_init = Some (Inr B) \<and> run_commands sum_program trace_init = Inr B \<and>
    finalize B = Inr (rows, trace_reset B) \<and> gen_trace sum_insts calldata = Some (Inr rows)"
proof -
  obtain B rows where B: "run_commands sum_program trace_init = Inr B" "finalize B = Inr (rows, trace_reset B)"
    using sum_program_finalize by blast
  have "exec_loop sum_insts calldata trace_init = Some (Inr B)"
    using exec_loop_straight [of calldata trace_init sum_insts "[Set_op 250 0 U8, Set_op 9 1 U8, Op_add 0 1 2 U8]" 2 1 B]
      sum_insts_commands [of calldata] sum_insts_wf(1) B(1)
    by (simp add: trace_init_def sum_program_def sum_insts_def next_pc_def)
  then show ?thesis
    using B by (simp add: gen_trace_def)
qed

text \<open>
  C7: For any bytecode that the parser accepts and that divides only field elements, a run that
  ends with a trace gives 256 rows whose arithmetic table satisfies every relation of
  avm_alu.hpp.
\<close>

theorem avm_bytecode_alu:
  assumes "parse bytecode = Inr insts" and "list_all (\<lambda>inst. \<not> integer_division inst) insts"
    and "gen_trace insts calldata = Some (Inr rows)"
  shows "length rows = 256 \<and> rows_ok avm_alu_relation alu_zero (map alu_cols rows)"
proof -
  obtain B B' where B: "exec_loop insts calldata trace_init = Some (Inr B)" "finalize B = Inr (rows, B')"
    using assms(3) by (auto simp: gen_trace_def ebind_Inr_iff)
  have "list_all wf_instruction insts"
    using assms(1) parse_from_iff [of bytecode 0 insts] by (simp add: parse_def)
  then have inv: "trace_inv True B"
    using exec_loop_reachable(2) [OF B(1) _ assms(2)] reachable_trace_inv(2) by blast
  note alu = finalize_Inr(4) [OF inv B(2)]
  have "length rows = length (map alu_cols rows)"
    by simp
  also have "\<dots> = 256"
    unfolding alu using finalize_Inr(1) [OF inv B(2)] by (simp add: fits_def AVM_TRACE_SIZE_def)
  finally show ?thesis
    using inv fits_small [OF finalize_Inr(1) [OF inv B(2)]] alu_table_ok unfolding alu
    by (simp add: trace_inv_def)
qed

lemma avm_bytecode_alu_witness:
  "\<exists>rows. gen_trace sum_insts [] = Some (Inr rows) \<and> rows_ok avm_alu_relation alu_zero (map alu_cols rows)"
proof -
  have "parse (bytecode_of sum_insts) = Inr sum_insts"
    using parse_from_iff [of "bytecode_of sum_insts" 0 sum_insts] sum_insts_wf(1) by (simp add: parse_def)
  then show ?thesis
    using avm_bytecode_alu [OF _ sum_insts_wf(2)] sum_insts_run [of "[]"] by blast
qed

text \<open>
  CALLDATACOPY advances the program counter by one for every row it adds, one row for three
  words, so a copy of more than three words skips the instructions that follow it.
\<close>

theorem avm_calldatacopy_skips:
  assumes "op_code inst = OP_CALLDATACOPY" and "operands inst = [Opd_u32 c, Opd_u32 n, Opd_u32 d]"
    and "exec_instruction calldata inst B = Inr B'"
  shows "getPc B' = getPc B + of_nat ((unat n + 2) div 3)"
proof -
  have "run_command (Calldata_copy c n d calldata) B = Inr B'"
    using assms by (simp add: exec_defs numeral_eq_Suc)
  then show ?thesis
    using run_command_pc by (fastforce simp: getPc_def next_pc_def rows_for_def)
qed

lemma avm_calldatacopy_skips_witness:
  "\<exists>B. exec_instruction [1, 2, 3, 4] \<lparr>op_code = OP_CALLDATACOPY, operands = [Opd_u32 0, Opd_u32 4, Opd_u32 7]\<rparr>
     trace_init = Inr B \<and> getPc B = 2"
proof -
  have "\<exists>s. vm_step (Calldata_copy 0 4 7 [1, 2, 3, 4]) (vm_of trace_init) = Some s"
    by (simp add: init_simps vm_next_def vm_write_def MEM_SIZE_def upt_rec)
  then obtain B where B: "run_command (Calldata_copy 0 4 7 [1, 2, 3, 4]) trace_init = Inr B"
    using run_command_refines [of "Calldata_copy 0 4 7 [1, 2, 3, 4]" trace_init] by (auto simp: refines_def)
  have exec: "exec_instruction [1, 2, 3, 4] \<lparr>op_code = OP_CALLDATACOPY, operands = [Opd_u32 0, Opd_u32 4, Opd_u32 7]\<rparr>
      trace_init = Inr B"
    using B by (simp add: exec_defs numeral_eq_Suc)
  show ?thesis
    using avm_calldatacopy_skips [OF _ _ exec] exec by (simp add: getPc_def trace_init_def)
qed

end
