(* ===== verification/Avm_Main_Table.thy ===== *)
theory Avm_Main_Table
  imports Avm_Execution
begin

text \<open>
  The main trace against relations/generated/avm/avm_main.hpp: every row an operation adds
  satisfies the relations with any row that starts from the state the operation leaves, as
  long as the cells of the call stack are only written by calls. A trace that does not end
  with a halting row breaks them, since the row after it is zero.
\<close>

section \<open>Rows and what follows them\<close>

text \<open>A row that starts with this program counter and this pointer to the call stack.\<close>

definition enters :: "avm_main_cols \<Rightarrow> u32 \<Rightarrow> u32 \<Rightarrow> bool" where
  "enters s p q \<longleftrightarrow> avm_main_pc s = ff_of_word p \<and> avm_main_internal_return_ptr s = ff_of_word q"

definition row_leads :: "avm_main_cols \<Rightarrow> u32 \<Rightarrow> u32 \<Rightarrow> bool" where
  "row_leads r p q \<longleftrightarrow> (\<forall>s. enters s p q \<longrightarrow> all_zero (avm_main_relation r s))"

text \<open>A halting row may be followed by anything, other rows not by a row of zeros.\<close>

definition row_halts :: "avm_main_cols \<Rightarrow> bool" where
  "row_halts r \<longleftrightarrow> avm_main_sel_halt r = 1"

definition row_ends :: "avm_main_cols \<Rightarrow> bool" where
  "row_ends r \<longleftrightarrow> (if row_halts r then \<forall>s. all_zero (avm_main_relation r s) else \<not> all_zero (avm_main_relation r main_zero))"

abbreviation main_rel :: "avm_main_cols \<Rightarrow> avm_main_cols \<Rightarrow> bool" where
  "main_rel r s \<equiv> all_zero (avm_main_relation r s)"

definition main_rows_of :: "AvmTraceBuilder \<Rightarrow> avm_main_cols list" where
  "main_rows_of B = map main_cols (main_trace B)"

definition main_inv :: "AvmTraceBuilder \<Rightarrow> bool" where
  "main_inv B \<longleftrightarrow> successively main_rel (main_rows_of B) \<and>
     (main_rows_of B \<noteq> [] \<longrightarrow>
        row_leads (last (main_rows_of B)) (pc B) (internal_return_ptr B) \<and> row_ends (last (main_rows_of B)))"

lemma main_inv_init: "main_inv trace_init"
  by (simp add: main_inv_def main_rows_of_def trace_init_def)

lemma main_rows_push [simp]: "main_rows_of (push_row row B) = main_rows_of B @ [row]"
  by (simp add: main_rows_of_def push_row_def row_zero_def)

lemma main_inv_push:
  assumes inv: "main_inv B" and rows: "main_trace B' = main_trace B"
    and row: "enters row (pc B) (internal_return_ptr B)" "row_leads row (pc B') (internal_return_ptr B')" "row_ends row"
  shows "main_inv (push_row row B')"
proof -
  have "main_rows_of B' = main_rows_of B"
    by (simp add: main_rows_of_def rows)
  moreover have "pc (push_row row B') = pc B'" "internal_return_ptr (push_row row B') = internal_return_ptr B'"
    by (simp_all add: push_row_def)
  ultimately show ?thesis
    using inv row by (auto simp: main_inv_def row_leads_def successively_append_iff)
qed

lemma ff_of_word_inc: "(p :: u32) \<noteq> UINT32_MAX \<Longrightarrow> ff_of_word (p + 1) = ff_of_word p + 1"
proof -
  assume "p \<noteq> UINT32_MAX"
  then have "uint p < 4294967295"
    using uint_lt2p [of p] by (simp add: UINT32_MAX_def word_uint_eq_iff)
  then have "uint (p + 1) = uint p + 1"
    by (simp add: uint_word_ariths)
  then show ?thesis
    by (simp add: ff_of_word_def del: of_int_uint)
qed

lemma ff_of_word_dec: "(p :: u32) \<noteq> 0 \<Longrightarrow> ff_of_word (p - 1) = ff_of_word p - 1"
proof -
  assume "p \<noteq> 0"
  then have "p - 1 \<noteq> UINT32_MAX"
    by (auto simp: UINT32_MAX_def)
  then show ?thesis
    using ff_of_word_inc [of "p - 1"] by simp
qed

lemma ff_of_word_eq_0: "ff_of_word (p :: u32) = 0 \<longleftrightarrow> p = 0"
  using ff_of_word_inject [of p 0] by simp

lemma row_at_sel [simp]:
  "avm_main_clk (row_at B) = ff_of_word (clk_of B)" "avm_main_pc (row_at B) = ff_of_word (pc B)"
  "avm_main_internal_return_ptr (row_at B) = ff_of_word (internal_return_ptr B)"
  "avm_main_first (row_at B) = 0" "avm_main_sel_internal_call (row_at B) = 0" "avm_main_sel_internal_return (row_at B) = 0"
  "avm_main_sel_jump (row_at B) = 0" "avm_main_sel_halt (row_at B) = 0" "avm_main_sel_op_add (row_at B) = 0"
  "avm_main_sel_op_sub (row_at B) = 0" "avm_main_sel_op_mul (row_at B) = 0" "avm_main_sel_op_div (row_at B) = 0"
  "avm_main_sel_op_not (row_at B) = 0" "avm_main_sel_op_eq (row_at B) = 0" "avm_main_in_tag (row_at B) = 0"
  "avm_main_op_err (row_at B) = 0" "avm_main_tag_err (row_at B) = 0" "avm_main_inv (row_at B) = 0"
  "avm_main_ia (row_at B) = 0" "avm_main_ib (row_at B) = 0" "avm_main_ic (row_at B) = 0"
  "avm_main_mem_op_a (row_at B) = 0" "avm_main_mem_op_b (row_at B) = 0" "avm_main_mem_op_c (row_at B) = 0"
  "avm_main_rwa (row_at B) = 0" "avm_main_rwb (row_at B) = 0" "avm_main_rwc (row_at B) = 0"
  "avm_main_mem_idx_a (row_at B) = 0" "avm_main_mem_idx_b (row_at B) = 0" "avm_main_mem_idx_c (row_at B) = 0"
  "avm_main_last (row_at B) = 0"
  by (simp_all add: row_at_def main_zero_def)

lemma main_zero_sel [simp]:
  "avm_main_pc main_zero = 0" "avm_main_internal_return_ptr main_zero = 0"
  by (simp_all add: main_zero_def)

lemmas main_rel_defs = avm_main_relation_def avm_main_relation_bits_def
  avm_main_relation_ops_def avm_main_relation_flow_def

section \<open>The rows of the operations\<close>

definition arith_row ::
  "(avm_main_cols \<Rightarrow> avm_main_cols) \<Rightarrow> AvmTraceBuilder \<Rightarrow> ff \<Rightarrow> bool \<Rightarrow> ff \<Rightarrow> ff \<Rightarrow> ff \<Rightarrow> ff \<Rightarrow> ff \<Rightarrow> ff \<Rightarrow> avm_main_cols" where
  "arith_row sel B ta te ia ib ic xa xb xc =
     sel (row_at B)\<lparr>avm_main_in_tag := ta, avm_main_tag_err := of_bool te, avm_main_ia := ia, avm_main_ib := ib,
       avm_main_ic := ic, avm_main_mem_op_a := 1, avm_main_mem_op_b := 1, avm_main_mem_op_c := 1, avm_main_rwc := 1,
       avm_main_mem_idx_a := xa, avm_main_mem_idx_b := xb, avm_main_mem_idx_c := xc\<rparr>"

lemma op_binary_row:
  assumes "op_binary alu_op sel a b d t B = Inr B'"
  obtains ta te ia ib ic xa xb xc C where "B' = push_row (arith_row sel B ta te ia ib ic xa xb xc) C"
    "main_trace C = main_trace B" "pc C = pc B + 1" "internal_return_ptr C = internal_return_ptr B"
    "te \<longrightarrow> ia = 0 \<and> ib = 0 \<and> ic = fst (alu_op 0 0 t (clk_of B) (alu_trace B))"
    "te \<longleftrightarrow> \<not> (tags_match (fst (cells (vm_of B) a)) t \<and> tags_match (fst (cells (vm_of B) b)) t)"
proof -
  define te where "te \<longleftrightarrow> \<not> (tags_match (fst (cells (vm_of B) a)) t \<and> tags_match (fst (cells (vm_of B) b)) t)"
  show ?thesis
  proof (rule that [of "tag_ff t" te "if te then 0 else memory (mem_trace_builder B) a"
      "if te then 0 else memory (mem_trace_builder B) b"
      "fst (alu_op (if te then 0 else memory (mem_trace_builder B) a)
         (if te then 0 else memory (mem_trace_builder B) b) t (clk_of B) (alu_trace B))"
      "ff_of_word a" "ff_of_word b" "ff_of_word d" "B\<lparr>mem_trace_builder := mem_trace_builder B', alu_trace := alu_trace B', pc := pc B + 1\<rparr>"])
    show "B' = push_row (arith_row sel B (tag_ff t) te (if te then 0 else memory (mem_trace_builder B) a)
      (if te then 0 else memory (mem_trace_builder B) b)
      (fst (alu_op (if te then 0 else memory (mem_trace_builder B) a)
         (if te then 0 else memory (mem_trace_builder B) b) t (clk_of B) (alu_trace B)))
      (ff_of_word a) (ff_of_word b) (ff_of_word d)) (B\<lparr>mem_trace_builder := mem_trace_builder B', alu_trace := alu_trace B', pc := pc B + 1\<rparr>)"
      using assms by (cases te) (auto simp: op_binary_def Let_def run_defs arith_row_def push_row_def te_def split: if_splits)
  qed (simp_all add: te_def)
qed

text \<open>A row that asks of the next one to be at the next instruction, with the same call stack.\<close>

definition advances :: "avm_main_cols \<Rightarrow> AvmTraceBuilder \<Rightarrow> bool" where
  "advances row B \<longleftrightarrow> enters row (pc B) (internal_return_ptr B) \<and> \<not> row_halts row \<and>
     (\<forall>s. main_rel row s \<longleftrightarrow> avm_main_pc s = ff_of_word (pc B) + 1 \<and>
        avm_main_internal_return_ptr s = ff_of_word (internal_return_ptr B))"

lemma main_inv_advances:
  assumes "main_inv B" and "advances row B" and "pc B \<noteq> UINT32_MAX" and "internal_return_ptr B \<noteq> 0"
    and "main_trace C = main_trace B" "pc C = pc B + 1" "internal_return_ptr C = internal_return_ptr B"
  shows "main_inv (push_row row C)"
  using assms(2-4,6,7)
  by (intro main_inv_push [OF assms(1,5)])
    (auto simp: advances_def row_leads_def row_ends_def enters_def ff_of_word_inc ff_of_word_eq_0)

text \<open>A row without selector only keeps the call stack.\<close>

definition keeps :: "avm_main_cols \<Rightarrow> AvmTraceBuilder \<Rightarrow> bool" where
  "keeps row B \<longleftrightarrow> enters row (pc B) (internal_return_ptr B) \<and> \<not> row_halts row \<and>
     (\<forall>s. main_rel row s \<longleftrightarrow> avm_main_internal_return_ptr s = ff_of_word (internal_return_ptr B))"

lemma main_inv_keeps:
  assumes "main_inv B" and "keeps row B" and "internal_return_ptr B \<noteq> 0"
    and "main_trace C = main_trace B" "internal_return_ptr C = internal_return_ptr B"
  shows "main_inv (push_row row C)"
  using assms(2,3,5)
  by (intro main_inv_push [OF assms(1,4)]) (auto simp: keeps_def row_leads_def row_ends_def enters_def ff_of_word_eq_0)

lemma main_inv_halts:
  assumes "main_inv B" and "enters row (pc B) (internal_return_ptr B)" "row_halts row" "\<And>s. main_rel row s"
    and "main_trace C = main_trace B"
  shows "main_inv (push_row row C)"
  using assms(2-4)
  by (intro main_inv_push [OF assms(1,5)]) (auto simp: row_leads_def row_ends_def)

lemma arith_row_advances:
  assumes "te \<Longrightarrow> ia = 0 \<and> ib = 0 \<and> ic = 0"
  shows "advances (arith_row (\<lambda>r. r\<lparr>avm_main_sel_op_add := 1\<rparr>) B ta te ia ib ic xa xb xc) B"
    and "advances (arith_row (\<lambda>r. r\<lparr>avm_main_sel_op_sub := 1\<rparr>) B ta te ia ib ic xa xb xc) B"
    and "advances (arith_row (\<lambda>r. r\<lparr>avm_main_sel_op_mul := 1\<rparr>) B ta te ia ib ic xa xb xc) B"
    and "advances (arith_row (\<lambda>r. r\<lparr>avm_main_sel_op_eq := 1\<rparr>) B ta te ia ib ic xa xb xc) B"
  by (cases te; use assms in \<open>simp add: advances_def main_rel_defs arith_row_def enters_def row_halts_def\<close>)+

lemma op_binary_main:
  assumes inv: "main_inv B" "pc B \<noteq> UINT32_MAX" "internal_return_ptr B \<noteq> 0"
    and run: "op_binary alu_op sel a b d t B = Inr B'"
    and row: "\<And>ta te ia ib ic xa xb xc. (te \<Longrightarrow> ia = 0 \<and> ib = 0 \<and> ic = 0) \<Longrightarrow>
      advances (arith_row sel B ta te ia ib ic xa xb xc) B"
    and zero: "(tags_match (fst (cells (vm_of B) a)) t \<and> tags_match (fst (cells (vm_of B) b)) t) \<or>
      fst (alu_op 0 0 t (clk_of B) (alu_trace B)) = 0"
  shows "main_inv B'"
proof -
  obtain ta te ia ib ic xa xb xc C where C: "B' = push_row (arith_row sel B ta te ia ib ic xa xb xc) C"
      "main_trace C = main_trace B" "pc C = pc B + 1" "internal_return_ptr C = internal_return_ptr B"
      "te \<longrightarrow> ia = 0 \<and> ib = 0 \<and> ic = fst (alu_op 0 0 t (clk_of B) (alu_trace B))"
      "te \<longleftrightarrow> \<not> (tags_match (fst (cells (vm_of B) a)) t \<and> tags_match (fst (cells (vm_of B) b)) t)"
    using run by (rule op_binary_row)
  have "advances (arith_row sel B ta te ia ib ic xa xb xc) B"
    using C(5,6) zero by (intro row) auto
  then show ?thesis
    unfolding C(1) using inv C(2-4) by (intro main_inv_advances)
qed

lemma typed_zero [simp]: "typed t 0 = 0"
  by (simp add: typed_def)

lemmas row_rel_defs = advances_def keeps_def enters_def row_halts_def main_rel_defs

lemma op_not_main:
  assumes inv: "main_inv B" "pc B \<noteq> UINT32_MAX" "internal_return_ptr B \<noteq> 0"
    and run: "op_not a d t B = Inr B'" and ok: "t = FF \<or> tags_match (fst (cells (vm_of B) a)) t"
  shows "main_inv B'"
  using run ok
  by (cases "tags_match (fst (cells (vm_of B) a)) t")
    (auto simp: op_not_def Let_def run_defs alu_values vm_not_def row_rel_defs split: if_splits
      intro!: main_inv_advances [OF inv(1) _ inv(2,3)])

lemma op_div_main:
  assumes inv: "main_inv B" "pc B \<noteq> UINT32_MAX" "internal_return_ptr B \<noteq> 0"
    and run: "op_div a b d t B = Inr B'"
  shows "main_inv B'"
  using run
  by (cases "tags_match (fst (cells (vm_of B) a)) t \<and> tags_match (fst (cells (vm_of B) b)) t";
      cases "memory (mem_trace_builder B) b = 0")
    (auto simp: op_div_def Let_def run_defs ff_invert_def row_rel_defs split: if_splits
      intro!: main_inv_advances [OF inv(1) _ inv(2,3)])

lemma op_set_main:
  assumes inv: "main_inv B" "internal_return_ptr B \<noteq> 0" and run: "op_set v d t B = Inr B'"
  shows "main_inv B'"
  using run
  by (auto simp: op_set_def Let_def run_defs row_rel_defs split: if_splits intro!: main_inv_keeps [OF inv(1) _ inv(2)])

lemma push_row_sel [simp]:
  "internal_return_ptr (push_row row B) = internal_return_ptr B" "pc (push_row row B) = pc B"
  "internal_call_stack (push_row row B) = internal_call_stack B"
  by (simp_all add: push_row_def)

lemma calldata_row_main:
  assumes inv: "main_inv B" "internal_return_ptr B \<noteq> 0" and run: "calldata_row c n d data p B = Inr B'"
  shows "main_inv B' \<and> internal_return_ptr B' = internal_return_ptr B"
proof -
  define two three where "two \<longleftrightarrow> n - p > 1" and "three \<longleftrightarrow> n - p > 2"
  note run = run [unfolded calldata_row_def Let_def, folded two_def three_def]
  show ?thesis
    using run
    by (cases two; cases three)
      (auto simp: copy_word_eq row_rel_defs split: if_splits intro!: main_inv_keeps [OF inv(1) _ inv(2)])
qed

lemma calldata_loop_main:
  "calldata_loop c n d data p B = Inr B' \<Longrightarrow> main_inv B \<Longrightarrow> internal_return_ptr B \<noteq> 0 \<Longrightarrow> main_inv B'"
proof (induction c n d data p B rule: calldata_loop.induct)
  case (1 c n d data p B)
  then show ?case
    using calldata_row_main [of B c n d data p]
    by (subst (asm) (2) calldata_loop.simps) (auto simp: ebind_Inr_iff split: if_splits)
qed

definition halted :: "AvmTraceBuilder \<Rightarrow> bool" where
  "halted B \<longleftrightarrow> main_rows_of B \<noteq> [] \<and> row_halts (last (main_rows_of B))"

lemma main_inv_halted: "main_inv B \<Longrightarrow> halted B \<Longrightarrow> main_inv (B\<lparr>pc := p\<rparr>)"
  by (auto simp: main_inv_def halted_def main_rows_of_def row_leads_def row_ends_def)

lemma return_row_main:
  assumes run: "return_row off n p B = Inr (vals, B')"
  shows "halted B'" and "main_inv B \<Longrightarrow> main_inv B'"
proof -
  define two three where "two \<longleftrightarrow> n - p > 1" and "three \<longleftrightarrow> n - p > 2"
  note run = run [unfolded return_row_def Let_def, folded two_def three_def]
  show "halted B'"
    using run by (cases two; cases three) (auto simp: read_and_load_eq halted_def row_halts_def split: if_splits)
  show "main_inv B'" if inv: "main_inv B"
    using run
    by (cases two; cases three)
      (auto simp: read_and_load_eq row_rel_defs split: if_splits intro!: main_inv_halts [OF inv])
qed

lemma return_loop_main:
  "return_loop off n p vals B = Inr (vals', B') \<Longrightarrow>
     (p < n \<or> halted B \<longrightarrow> halted B') \<and> (main_inv B \<longrightarrow> main_inv B')"
proof (induction off n p vals B rule: return_loop.induct)
  case (1 off n p vals B)
  then show ?case
    using return_row_main [of off n p B]
    by (subst (asm) (2) return_loop.simps) (auto simp: ebind_Inr_iff split: if_splits)
qed

lemma op_halt_main: "halted (op_halt B)" "main_inv B \<Longrightarrow> main_inv (op_halt B)"
  unfolding op_halt_def Let_def halted_def
  by (auto simp: row_rel_defs main_zero_def intro!: main_inv_halts)

lemma return_op_main:
  assumes "return_op off n B = Inr (vals, B')"
  shows "halted B'" and "main_inv B \<Longrightarrow> main_inv B'"
proof -
  have "halted B' \<and> (main_inv B \<longrightarrow> main_inv B')"
  proof (cases "n = 0")
    case True
    then show ?thesis
      using assms op_halt_main [of B] by (auto simp: return_op_def)
  next
    case False
    then obtain C where "return_loop off n 0 [] B = Inr (vals, C)" "B' = C\<lparr>pc := UINT32_MAX\<rparr>"
      using assms by (auto simp: return_op_def ebind_Inr_iff)
    then show ?thesis
      using return_loop_main [of off n 0 "[]" B vals C] False main_inv_halted [of C]
      by (auto simp: word_neq_0_conv halted_def main_rows_of_def)
  qed
  then show "halted B'" and "main_inv B \<Longrightarrow> main_inv B'"
    by simp_all
qed

lemma op_jump_main: "main_inv B \<Longrightarrow> internal_return_ptr B \<noteq> 0 \<Longrightarrow> main_inv (op_jump d B)"
  unfolding op_jump_def Let_def
  by (intro main_inv_push) (auto simp: row_leads_def row_ends_def row_rel_defs main_zero_def ff_of_word_eq_0)

lemma internal_call_main:
  assumes inv: "main_inv B" "pc B \<noteq> UINT32_MAX" and run: "internal_call d B = Inr B'"
  shows "main_inv B'"
proof -
  have "unat (internal_return_ptr B) < MEM_SIZE"
    using run by (auto simp: internal_call_def Let_def run_defs split: if_splits)
  then have "internal_return_ptr B \<noteq> UINT32_MAX" and "unat (internal_return_ptr B + 1) \<noteq> 0"
    by (auto simp: UINT32_MAX_def MEM_SIZE_def unat_word_ariths)
  moreover from this have "ff_of_word (internal_return_ptr B) + 1 \<noteq> 0"
    using ff_of_word_inc [of "internal_return_ptr B"] ff_of_word_eq_0 [of "internal_return_ptr B + 1"]
    by (auto simp: unat_eq_0)
  moreover from this have "- ff_of_word (internal_return_ptr B) \<noteq> 1"
    by (metis add.right_inverse)
  ultimately show ?thesis
    using run inv(2)
    by (auto simp: internal_call_def Let_def run_defs row_leads_def row_ends_def row_rel_defs ff_of_word_inc
      split: if_splits intro!: main_inv_push [OF inv(1)])
qed

lemma internal_return_main:
  assumes inv: "main_inv B" and run: "internal_return B = Inr B'"
    and call: "cells (vm_of B) (internal_return_ptr B - 1) = (FF, ff_of_word (hd (internal_call_stack B)))"
    and ptr: "897 \<le> unat (internal_return_ptr B)"
  shows "main_inv B'"
proof -
  obtain top_pc rest where st: "internal_call_stack B = top_pc # rest"
    using run by (cases "internal_call_stack B") (auto simp: internal_return_def Let_def ebind_Inr_iff)
  have "internal_return_ptr B \<noteq> 0" "internal_return_ptr B - 1 \<noteq> 0"
    using ptr by (auto simp: unat_eq_0)
  note dec = ff_of_word_dec [OF this(1)] ff_of_word_eq_0 [of "internal_return_ptr B - 1"] this(2)
  define row where "row = (row_at B)\<lparr>avm_main_sel_internal_return := 1, avm_main_tag_err := of_bool (\<not> True),
      avm_main_ia := ff_of_word top_pc, avm_main_mem_op_a := 1, avm_main_rwa := 0,
      avm_main_mem_idx_a := ff_of_word (internal_return_ptr B - 1)\<rparr>"
  obtain M where B': "B' = push_row row (B\<lparr>mem_trace_builder := M, pc := top_pc, internal_call_stack := rest,
      internal_return_ptr := internal_return_ptr B - 1\<rparr>)"
  proof -
    have commute: "push_row row (C\<lparr>pc := x, internal_call_stack := y, internal_return_ptr := z\<rparr>) =
        (push_row row C)\<lparr>pc := x, internal_call_stack := y, internal_return_ptr := z\<rparr>" for C x y z
      by (simp add: push_row_def)
    have "\<exists>M. B' = (push_row row (B\<lparr>mem_trace_builder := M\<rparr>))\<lparr>pc := top_pc, internal_call_stack := rest,
        internal_return_ptr := internal_return_ptr B - 1\<rparr>"
      using run call st by (auto simp: internal_return_def Let_def run_defs tags_match_def row_def split: if_splits)
    then show ?thesis
      using that commute by metis
  qed
  show ?thesis
    unfolding B' row_def
    by (rule main_inv_push [OF inv]) (use dec in \<open>auto simp: row_leads_def row_ends_def row_rel_defs\<close>)
qed

section \<open>The call stack in memory\<close>

definition stack_ok :: "vm_state \<Rightarrow> bool" where
  "stack_ok s \<longleftrightarrow> length (vm_stack s) \<le> 128 \<and> unat (vm_ptr s) = 896 + length (vm_stack s) \<and>
     (\<forall>i<length (vm_stack s). cells s (896 + of_nat i) = (FF, ff_of_word (rev (vm_stack s) ! i)))"

text \<open>Commands that write below the cells reserved for the call stack.\<close>

fun low_writes :: "command \<Rightarrow> bool" where
  "low_writes (Op_add a b d t) \<longleftrightarrow> unat d < 896"
| "low_writes (Op_sub a b d t) \<longleftrightarrow> unat d < 896"
| "low_writes (Op_mul a b d t) \<longleftrightarrow> unat d < 896"
| "low_writes (Op_div a b d t) \<longleftrightarrow> unat d < 896"
| "low_writes (Op_eq a b d t) \<longleftrightarrow> unat d < 896"
| "low_writes (Op_not a d t) \<longleftrightarrow> unat d < 896"
| "low_writes (Set_op v d t) \<longleftrightarrow> unat d < 896"
| "low_writes (Calldata_copy c n d data) \<longleftrightarrow> (\<forall>i<unat n. unat (d + of_nat i) < 896)"
| "low_writes _ \<longleftrightarrow> True"

lemma stack_cell: "i < 128 \<Longrightarrow> unat (896 + of_nat i :: u32) = 896 + i"
  by (simp add: unat_word_ariths unat_of_nat)

lemma stack_ok_cells:
  assumes "stack_ok s" and "\<And>a. 896 \<le> unat a \<Longrightarrow> unat a < 1024 \<Longrightarrow> cells s' a = cells s a"
    and "vm_stack s' = vm_stack s" "vm_ptr s' = vm_ptr s"
  shows "stack_ok s'"
  using assms by (auto simp: stack_ok_def stack_cell)

lemma vm_copy_cells:
  "vm_copy c d data is s = Some s' \<Longrightarrow> \<forall>i\<in>set is. unat (d + of_nat i) < 896 \<Longrightarrow>
     (\<forall>a. 896 \<le> unat a \<longrightarrow> cells s' a = cells s a) \<and> vm_stack s' = vm_stack s \<and> vm_ptr s' = vm_ptr s"
  by (induction "is" arbitrary: s) (fastforce simp: vm_write_def bind_eq_Some_conv split: if_splits)+

lemma stack_ok_call:
  assumes "stack_ok s" and "unat (vm_ptr s) < MEM_SIZE"
  shows "stack_ok (s\<lparr>cells := (cells s)(vm_ptr s := (FF, ff_of_word p)), vm_pc := d, vm_ptr := vm_ptr s + 1,
    vm_stack := p # vm_stack s\<rparr>)"
proof -
  define n where "n = length (vm_stack s)"
  have n: "unat (vm_ptr s) = 896 + n" "n < 128"
    using assms by (simp_all add: stack_ok_def n_def MEM_SIZE_def)
  then have ptr: "vm_ptr s = 896 + of_nat n"
    by (simp add: word_unat_eq_iff stack_cell)
  have "(896 + of_nat i :: u32) \<noteq> 896 + of_nat n" if "i < n" for i
    using that n(2) stack_cell [of i] stack_cell [of n] by (auto simp: word_unat_eq_iff)
  moreover have "unat (of_nat n :: u32) = n"
    using n(2) by (simp add: unat_of_nat)
  ultimately show ?thesis
    using assms(1) n unfolding stack_ok_def
    by (auto simp: ptr n_def unat_word_ariths less_Suc_eq nth_append)
qed

lemma stack_ok_return:
  assumes "stack_ok s" and "vm_stack s = p # ps"
  shows "stack_ok (s\<lparr>vm_pc := p, vm_ptr := vm_ptr s - 1, vm_stack := ps\<rparr>)"
    and "cells s (vm_ptr s - 1) = (FF, ff_of_word p)" and "897 \<le> unat (vm_ptr s)"
proof -
  have n: "length ps < 128" "unat (vm_ptr s) = 897 + length ps"
      "\<forall>i<Suc (length ps). cells s (896 + of_nat i) = (FF, ff_of_word ((rev ps @ [p]) ! i))"
    using assms by (simp_all add: stack_ok_def)
  then show "897 \<le> unat (vm_ptr s)"
    by simp
  have "vm_ptr s \<noteq> 0"
    using n(2) by auto
  then have ptr: "unat (vm_ptr s - 1) = 896 + length ps"
    using n(2) by (simp add: unat_minus_one)
  then have "vm_ptr s - 1 = 896 + of_nat (length ps)"
    using n(1) by (simp add: word_unat_eq_iff stack_cell)
  then show "cells s (vm_ptr s - 1) = (FF, ff_of_word p)"
    using n(3) by (simp add: nth_append)
  show "stack_ok (s\<lparr>vm_pc := p, vm_ptr := vm_ptr s - 1, vm_stack := ps\<rparr>)"
    using n ptr by (auto simp: stack_ok_def nth_append less_Suc_eq)
qed

lemma stack_ok_step:
  assumes "vm_step c s = Some s'" and "stack_ok s" and "low_writes c"
  shows "stack_ok s'"
proof (cases c)
  case (Calldata_copy src n d data)
  then show ?thesis
    using assms vm_copy_cells [of src d data "[0..<unat n]" "vm_next (rows_for (unat n)) s" s']
    by (intro stack_ok_cells [OF assms(2)]) (auto simp: vm_next_def)
next
  case (Internal_call d)
  then show ?thesis
    using assms stack_ok_call [OF assms(2), of "vm_pc s + 1" d] by (auto simp: vm_write_def split: if_splits)
next
  case Internal_return
  then show ?thesis
    using assms stack_ok_return(1) [OF assms(2)] by (auto simp: vm_read_def split: if_splits list.splits)
qed (use assms in \<open>auto simp: vm_binary_def vm_read_def vm_write_def vm_next_def bind_eq_Some_conv
      intro!: stack_ok_cells [OF assms(2)] split: if_splits\<close>)

section \<open>Every command\<close>

text \<open>
  Arithmetic and calls compute the next program counter in the field, without the wrap of 32
  bits, and equality and negation need matching tags: their result is not zero otherwise.
\<close>

fun main_ok :: "command \<Rightarrow> vm_state \<Rightarrow> bool" where
  "main_ok (Op_eq a b d t) s \<longleftrightarrow> vm_pc s \<noteq> UINT32_MAX \<and>
     tags_match (fst (cells s a)) t \<and> tags_match (fst (cells s b)) t"
| "main_ok (Op_not a d t) s \<longleftrightarrow> vm_pc s \<noteq> UINT32_MAX \<and> (t = FF \<or> tags_match (fst (cells s a)) t)"
| "main_ok _ s \<longleftrightarrow> vm_pc s \<noteq> UINT32_MAX"

lemma run_command_main:
  assumes inv: "main_inv B" and stack: "stack_ok (vm_of B)" and ok: "main_ok c (vm_of B)"
    and run: "run_command c B = Inr B'"
  shows "main_inv B'"
proof -
  have pc: "pc B \<noteq> UINT32_MAX"
    using ok by (cases c) auto
  have ptr: "internal_return_ptr B \<noteq> 0"
    using stack by (auto simp: stack_ok_def)
  show ?thesis
  proof (cases c)
    case (Op_add a b d t)
    then show ?thesis
      using run arith_row_advances(1)
      by (intro op_binary_main [OF inv pc ptr, of alu_add]) (auto simp: op_add_def alu_values)
  next
    case (Op_sub a b d t)
    then show ?thesis
      using run arith_row_advances(2)
      by (intro op_binary_main [OF inv pc ptr, of alu_sub]) (auto simp: op_sub_def alu_values)
  next
    case (Op_mul a b d t)
    then show ?thesis
      using run arith_row_advances(3)
      by (intro op_binary_main [OF inv pc ptr, of alu_mul]) (auto simp: op_mul_def alu_values)
  next
    case (Op_eq a b d t)
    then show ?thesis
      using run arith_row_advances(4) ok
      by (intro op_binary_main [OF inv pc ptr, of alu_eq]) (auto simp: op_eq_def)
  next
    case Internal_return
    then obtain p ps where "internal_call_stack B = p # ps"
      using run by (cases "internal_call_stack B") (auto simp: internal_return_def Let_def ebind_Inr_iff)
    then show ?thesis
      using run Internal_return stack_ok_return(2,3) [OF stack, of p ps] internal_return_main [OF inv, of B'] by simp
  qed (use run ok inv pc ptr in \<open>auto simp: calldata_copy_def ebind_Inr_iff
      intro: op_div_main op_not_main op_set_main calldata_loop_main return_op_main(2)
      op_halt_main(2) op_jump_main internal_call_main\<close>)
qed

section \<open>Runs\<close>

definition low_code :: "ff list \<Rightarrow> Instruction \<Rightarrow> bool" where
  "low_code calldata inst \<longleftrightarrow> (case command_of calldata inst of None \<Rightarrow> True | Some c \<Rightarrow> low_writes c)"

lemma stack_ok_init: "stack_ok (vm_of trace_init)"
  by (simp add: stack_ok_def vm_of_def trace_init_def CALLSTACK_OFFSET_def)

lemma command_main_ok:
  "wf_instruction inst \<Longrightarrow> command_of calldata inst = Some c \<Longrightarrow> vm_pc s \<noteq> UINT32_MAX \<Longrightarrow> main_ok c s"
  by (cases rule: wf_instruction_cases) (auto simp: command_of_def)

lemma exec_loop_main_inv:
  assumes "exec_loop insts calldata trace_init = Some (Inr B)" and "list_all wf_instruction insts"
    and len: "length insts < 2 ^ 32" and low: "list_all (low_code calldata) insts"
  shows "main_inv B"
proof -
  have step: "main_inv B' \<and> stack_ok (vm_of B')"
    if inv: "main_inv B \<and> stack_ok (vm_of B)" and pc: "unat (pc B) < length insts" "inst = insts ! unat (pc B)"
      and wf: "wf_instruction inst" and c: "command_of calldata inst = Some c" and run: "run_command c B = Inr B'" for B inst c B'
  proof -
    have "vm_pc (vm_of B) \<noteq> UINT32_MAX"
      using pc(1) len by (auto simp: vm_of_def UINT32_MAX_def)
    then have "main_inv B'"
      using run_command_main [OF _ _ command_main_ok [OF wf c] run] inv by simp
    moreover have "vm_step c (vm_of B) = Some (vm_of B')"
      using run_command_refines [of c B] run by (auto simp: refines_def split: option.splits)
    moreover have "low_writes c"
      using low pc c by (auto simp: list_all_length low_code_def)
    ultimately show ?thesis
      using inv stack_ok_step by blast
  qed
  show ?thesis
    using exec_loop_induct [OF assms(1,2), of "\<lambda>B. main_inv B \<and> stack_ok (vm_of B)"] step main_inv_init stack_ok_init
    by blast
qed


lemma main_relation_first: "main_rel main_first s"
  by (simp add: main_rel_defs main_first_def main_zero_def)

lemma main_relation_zero: "main_rel main_zero s \<longleftrightarrow> avm_main_internal_return_ptr s = 0"
  by (simp add: main_rel_defs main_zero_def)

lemma main_relation_last: "main_rel (r\<lparr>avm_main_last := v\<rparr>) s \<longleftrightarrow> main_rel r s"
  "main_rel r (s\<lparr>avm_main_last := v\<rparr>) \<longleftrightarrow> main_rel r s"
  by (simp_all add: main_rel_defs)


lemma zeros_ok: "successively main_rel (replicate n main_zero)"
  proof (induction n)
  case (Suc n)
  then show ?case
    by (cases n) (simp_all add: main_relation_zero)
qed simp

lemma main_table_iff:
  assumes rs: "successively main_rel rs" "rs \<noteq> []" and ends: "row_ends (last rs)"
  shows "rows_ok avm_main_relation main_zero (main_first # mark_last rs @ replicate n main_zero) \<longleftrightarrow> row_halts (last rs)"
proof -
  obtain us r where r: "rs = us @ [r]"
    using rs(2) by (cases rs rule: rev_cases) auto
  have "main_rel r main_zero \<longleftrightarrow> row_halts r"
    using ends by (auto simp: r row_ends_def split: if_splits)
  moreover have "replicate n main_zero @ [main_zero] = main_zero # replicate n main_zero"
    by (simp add: replicate_append_same)
  moreover have "successively main_rel (main_zero # replicate n main_zero)"
    using zeros_ok [of "Suc n"] by simp
  ultimately show ?thesis
    using rs(1) by (auto simp: rows_ok_def mark_last_def r successively_append_iff successively_Cons
      main_relation_first main_relation_last)
qed

text \<open>
  C15: The main table of a run whose code leaves the cells of the call stack to the call
  instructions satisfies every relation of avm_main.hpp if and only if the run ended with a
  halting row, that is with RETURN: the row after any other is zero and breaks the flow of
  control.
\<close>

theorem avm_main_table:
  assumes "exec_loop insts calldata trace_init = Some (Inr B)" and "list_all wf_instruction insts"
    and "length insts < 2 ^ 32" and "list_all (low_code calldata) insts" and "finalize B = Inr (rows, B')"
  shows "rows_ok avm_main_relation main_zero (map main_cols rows) \<longleftrightarrow> halted B"
proof -
  have inv: "main_inv B"
    using exec_loop_main_inv assms(1-4) by blast
  have "trace_inv False B"
    using exec_loop_reachable(1) [OF assms(1,2)] reachable_trace_inv(1) by blast
  note rows = finalize_Inr(1,2) [OF this assms(5)]
  have "main_rows_of B \<noteq> []"
    using rows(1) by (auto simp: fits_def main_rows_of_def)
  then show ?thesis
    using inv main_table_iff [of "main_rows_of B"] rows(2) by (simp add: main_inv_def halted_def main_rows_of_def)
qed

lemma avm_main_table_witness:
  "\<exists>rows. gen_trace sum_insts [] = Some (Inr rows) \<and> rows_ok avm_main_relation main_zero (map main_cols rows)"
proof -
  obtain B rows where B: "exec_loop sum_insts [] trace_init = Some (Inr B)" "run_commands sum_program trace_init = Inr B"
      "finalize B = Inr (rows, trace_reset B)" "gen_trace sum_insts [] = Some (Inr rows)"
    using sum_insts_run [of "[]"] by blast
  have "list_all (low_code []) sum_insts"
    by (simp add: sum_insts_def low_code_def command_of_def)
  then have iff: "rows_ok avm_main_relation main_zero (map main_cols rows) \<longleftrightarrow> halted B"
    using avm_main_table [OF B(1) sum_insts_wf(1) _ _ B(3)] by (simp add: sum_insts_def)
  obtain C where "run_command (Return_op 2 1) C = Inr B"
    using B(2) by (auto simp: sum_program_def ebind_Inr_iff)
  then have "halted B"
    by (auto simp: ebind_Inr_iff intro: return_op_main(1))
  then show ?thesis
    using iff B(4) by blast
qed

end
