(* ===== verification/Avm_Tag_Errors.thy ===== *)
theory Avm_Tag_Errors
  imports Avm_Main_Table
begin

text \<open>
  The tag errors of a cycle and its row: the row is flagged if an access of the cycle reports
  an error, so that the lookup equiv_tag_err of the memory table in the main trace succeeds.
\<close>

section \<open>The invariant\<close>

abbreviation log_of :: "AvmTraceBuilder \<Rightarrow> MemoryTraceEntry list" where
  "log_of B \<equiv> mem_trace (mem_trace_builder B)"

definition row_flags :: "avm_main_cols \<Rightarrow> MemoryTraceEntry list \<Rightarrow> bool" where
  "row_flags r es \<longleftrightarrow> avm_main_tag_err r = 1 \<or> avm_main_tag_err r = 0 \<and> filter m_tag_err es = []"

definition errs_inv :: "AvmTraceBuilder \<Rightarrow> bool" where
  "errs_inv B \<longleftrightarrow> length (main_trace B) < 2 ^ 32 \<longrightarrow>
     (\<forall>e\<in>set (log_of B). unat (m_clk e) < length (main_trace B)) \<and>
     (\<forall>i<length (main_trace B). avm_main_clk (main_rows_of B ! i) = of_nat i \<and>
        row_flags (main_rows_of B ! i) (filter (\<lambda>e. unat (m_clk e) = i) (log_of B)))"

lemma errs_inv_init: "errs_inv trace_init"
  by (simp add: errs_inv_def trace_init_def mem_init_def)

text \<open>What an operation does: accesses of this cycle, then its row.\<close>

definition logs :: "avm_main_cols \<Rightarrow> AvmTraceBuilder \<Rightarrow> AvmTraceBuilder \<Rightarrow> bool" where
  "logs row B C \<longleftrightarrow> main_trace C = main_trace B \<and>
     (length (main_trace B) < 2 ^ 32 \<longrightarrow> avm_main_clk row = of_nat (length (main_trace B))) \<and>
     (\<exists>es. log_of C = log_of B @ es \<and> (\<forall>e\<in>set es. m_clk e = clk_of B) \<and> row_flags row es)"

lemma errs_inv_push:
  assumes inv: "errs_inv B" and logs: "logs row B C"
  shows "errs_inv (push_row row C)"
  unfolding errs_inv_def
proof (intro impI)
  define n where "n = length (main_trace B)"
  assume "length (main_trace (push_row row C)) < 2 ^ 32"
  then have small: "Suc n < 2 ^ 32"
    using logs by (simp add: push_row_def logs_def n_def)
  obtain es where es: "log_of C = log_of B @ es" "\<forall>e\<in>set es. m_clk e = clk_of B" "row_flags row es"
      and row: "main_trace C = main_trace B" "avm_main_clk row = of_nat n"
    using logs small by (auto simp: logs_def n_def)
  have clk: "unat (clk_of B) = n"
    using small by (simp add: clk_of_def unat_of_nat n_def)
  have old: "\<forall>e\<in>set (log_of B). unat (m_clk e) < n"
      "\<And>i. i < n \<Longrightarrow> avm_main_clk (main_rows_of B ! i) = of_nat i \<and>
        row_flags (main_rows_of B ! i) (filter (\<lambda>e. unat (m_clk e) = i) (log_of B))"
    using inv small by (auto simp: errs_inv_def n_def)
  have rows: "length (main_rows_of C) = n" "main_rows_of C = main_rows_of B"
    using row(1) by (simp_all add: main_rows_of_def n_def)
  have "filter (\<lambda>e. unat (m_clk e) = i) es = (if i = n then es else [])" for i
    using es(2) clk(1) by (auto simp: filter_empty_conv filter_id_conv)
  moreover have "filter (\<lambda>e. unat (m_clk e) = n) (log_of B) = []"
    using old(1) by (auto simp: filter_empty_conv)
  ultimately show "(\<forall>e\<in>set (log_of (push_row row C)). unat (m_clk e) < length (main_trace (push_row row C))) \<and>
      (\<forall>i<length (main_trace (push_row row C)). avm_main_clk (main_rows_of (push_row row C) ! i) = of_nat i \<and>
        row_flags (main_rows_of (push_row row C) ! i) (filter (\<lambda>e. unat (m_clk e) = i) (log_of (push_row row C))))"
    using old es clk rows row
    by (auto simp: push_row_def n_def [symmetric] less_Suc_eq nth_append main_rows_of_def row_zero_def)
qed

lemma ff_of_clk: "length (main_trace B) < 4294967296 \<Longrightarrow> ff_of_word (clk_of B) = of_nat (length (main_trace B))"
  using ff_of_small [of "length (main_trace B)"] by (simp add: clk_of_def)

lemma ff_of_clk64: "n < 4294967296 \<Longrightarrow> ff_of_word (of_nat n :: u64) = of_nat n"
proof -
  assume "n < 4294967296"
  then have "uint (of_nat n :: u64) = int n"
    by (simp add: uint_nat unat_of_nat)
  then show ?thesis
    by (simp add: ff_of_word_def del: of_int_uint)
qed

lemmas logs_defs = logs_def row_flags_def load_entry_def store_entry_def ff_of_clk ff_of_clk64

section \<open>The operations\<close>

lemma op_binary_errs: "errs_inv B \<Longrightarrow> op_binary alu_op sel a b d t B = Inr B' \<Longrightarrow>
    (\<And>r. avm_main_tag_err (sel r) = avm_main_tag_err r \<and> avm_main_clk (sel r) = avm_main_clk r) \<Longrightarrow> errs_inv B'"
  by (auto simp: op_binary_def Let_def run_defs logs_defs split: if_splits intro!: errs_inv_push)

lemma op_not_errs: "errs_inv B \<Longrightarrow> op_not a d t B = Inr B' \<Longrightarrow> errs_inv B'"
  by (auto simp: op_not_def Let_def run_defs logs_defs split: if_splits intro!: errs_inv_push)


lemma op_div_errs: "errs_inv B \<Longrightarrow> op_div a b d t B = Inr B' \<Longrightarrow> errs_inv B'"
  by (auto simp: op_div_def Let_def run_defs ff_invert_def logs_defs split: if_splits intro!: errs_inv_push)

lemma op_set_errs: "errs_inv B \<Longrightarrow> op_set v d t B = Inr B' \<Longrightarrow> errs_inv B'"
  by (auto simp: op_set_def Let_def run_defs logs_defs split: if_splits intro!: errs_inv_push)

lemma calldata_row_errs:
  assumes inv: "errs_inv B" and run: "calldata_row c n d data p B = Inr B'"
  shows "errs_inv B'"
proof -
  define two three where "two \<longleftrightarrow> n - p > 1" and "three \<longleftrightarrow> n - p > 2"
  note run = run [unfolded calldata_row_def Let_def, folded two_def three_def]
  show ?thesis
    using run
    by (cases two; cases three) (auto simp: copy_word_eq logs_defs split: if_splits intro!: errs_inv_push [OF inv])
qed

lemma calldata_loop_errs: "calldata_loop c n d data p B = Inr B' \<Longrightarrow> errs_inv B \<Longrightarrow> errs_inv B'"
proof (induction c n d data p B rule: calldata_loop.induct)
  case (1 c n d data p B)
  then show ?case
    using calldata_row_errs [of B c n d data p]
    by (subst (asm) (2) calldata_loop.simps) (auto simp: ebind_Inr_iff split: if_splits)
qed

lemma return_row_errs:
  assumes inv: "errs_inv B" and run: "return_row off n p B = Inr (vals, B')"
  shows "errs_inv B'"
proof -
  define two three where "two \<longleftrightarrow> n - p > 1" and "three \<longleftrightarrow> n - p > 2"
  note run = run [unfolded return_row_def Let_def, folded two_def three_def]
  show ?thesis
    using run
    by (cases two; cases three) (auto simp: read_and_load_eq logs_defs split: if_splits intro!: errs_inv_push [OF inv])
qed

lemma return_loop_errs: "return_loop off n p vals B = Inr (vals', B') \<Longrightarrow> errs_inv B \<Longrightarrow> errs_inv B'"
proof (induction off n p vals B rule: return_loop.induct)
  case (1 off n p vals B)
  then show ?case
    using return_row_errs [of B off n p]
    by (subst (asm) (2) return_loop.simps) (auto simp: ebind_Inr_iff split: if_splits)
qed

lemma errs_inv_state [simp]:
  "errs_inv (B\<lparr>pc := p\<rparr>) = errs_inv B"
  "errs_inv (B\<lparr>pc := p, internal_call_stack := st, internal_return_ptr := q\<rparr>) = errs_inv B"
  by (simp_all add: errs_inv_def main_rows_of_def)

lemma op_halt_errs: "errs_inv B \<Longrightarrow> errs_inv (op_halt B)"
  unfolding op_halt_def Let_def by (auto simp: logs_defs main_zero_def intro!: errs_inv_push)

lemma op_jump_errs: "errs_inv B \<Longrightarrow> errs_inv (op_jump d B)"
  unfolding op_jump_def Let_def by (auto simp: logs_defs main_zero_def intro!: errs_inv_push)

lemma return_op_errs: "errs_inv B \<Longrightarrow> return_op off n B = Inr (vals, B') \<Longrightarrow> errs_inv B'"
  using return_loop_errs [of off n 0 "[]" B] op_halt_errs
  by (auto simp: return_op_def ebind_Inr_iff split: if_splits)

lemma internal_call_errs: "errs_inv B \<Longrightarrow> internal_call d B = Inr B' \<Longrightarrow> errs_inv B'"
  by (auto simp: internal_call_def Let_def run_defs logs_defs ff_of_clk [unfolded clk_of_def] clk_of_def split: if_splits intro!: errs_inv_push)

lemma internal_return_errs: "errs_inv B \<Longrightarrow> internal_return B = Inr B' \<Longrightarrow> errs_inv B'"
  by (auto simp: internal_return_def Let_def run_defs logs_defs split: if_splits list.splits intro!: errs_inv_push)

lemma op_arith_errs:
  "errs_inv B \<Longrightarrow> op_add a b d t B = Inr B' \<Longrightarrow> errs_inv B'" "errs_inv B \<Longrightarrow> op_sub a b d t B = Inr B' \<Longrightarrow> errs_inv B'"
  "errs_inv B \<Longrightarrow> op_mul a b d t B = Inr B' \<Longrightarrow> errs_inv B'" "errs_inv B \<Longrightarrow> op_eq a b d t B = Inr B' \<Longrightarrow> errs_inv B'"
  unfolding op_add_def op_sub_def op_mul_def op_eq_def by (erule op_binary_errs, assumption, simp)+

lemma run_command_errs: "errs_inv B \<Longrightarrow> run_command c B = Inr B' \<Longrightarrow> errs_inv B'"
  by (cases c)
    (auto simp: calldata_copy_def ebind_Inr_iff intro: op_arith_errs op_div_errs op_not_errs op_set_errs
      calldata_loop_errs return_op_errs op_halt_errs op_jump_errs internal_call_errs internal_return_errs)

lemma reachable_errs: "reachable ok B \<Longrightarrow> errs_inv B"
  by (induction rule: reachable.induct) (auto intro: errs_inv_init run_command_errs)

section \<open>The finished trace\<close>

lemma finalise_counts_inverse:
  "finalise_mem_trace_lookup_counts counts rows = Inr rows' \<Longrightarrow> map equiv_tag_err rows' = map equiv_tag_err rows"
proof (induction counts rows rule: finalise_mem_trace_lookup_counts.induct)
  case (2 clk n counts rows)
  then show ?case
    by (auto simp: map_list_update_same split: if_splits)
qed simp

lemma set_cols_inverse:
  "r \<in> set (set_mem_cols rows ms) \<Longrightarrow> equiv_tag_err r \<in> equiv_tag_err ` set rows"
  "r \<in> set (set_alu_cols rows cs) \<Longrightarrow> equiv_tag_err r \<in> equiv_tag_err ` set rows"
  by (auto simp: set_mem_cols_def set_alu_cols_def dest!: set_zip_leftD)

lemma finalize_inverse:
  assumes "finalize B = Inr (rows, B')" and "\<And>r. r \<in> set (main_trace B) \<Longrightarrow> equiv_tag_err r = 0" and "r \<in> set rows"
  shows "equiv_tag_err r = 0"
proof -
  obtain r1 where r1: "finalise_mem_trace_lookup_counts (m_tag_err_lookup_counts (mem_trace_builder B)) (main_trace B) = Inr r1"
    using assms(1) by (auto simp: finalize_def Let_def ebind_Inr_iff)
  have "equiv_tag_err ` set r1 = equiv_tag_err ` set (main_trace B)"
    using arg_cong [OF finalise_counts_inverse [OF r1], of set] by simp
  then have zero: "\<forall>r\<in>set r1. equiv_tag_err r = 0"
    using assms(2) by (metis (no_types, opaque_lifting) imageE imageI)
  define r2 where "r2 = r1 @ replicate (AVM_TRACE_SIZE - length (main_trace B) - 1) row_zero"
  have zero2: "\<forall>r\<in>set r2. equiv_tag_err r = 0"
    using zero by (auto simp: r2_def row_zero_def)
  have "equiv_tag_err r = 0" if "r \<in> set (r2[k := (r2 ! k)\<lparr>main_cols := m\<rparr>])" for k m r
  proof (cases "k < length r2")
    case True
    then show ?thesis
      using that zero2 set_update_subset_insert [of r2 k "(r2 ! k)\<lparr>main_cols := m\<rparr>"] nth_mem [of k r2]
      by auto
  next
    case False
    then have "r2[k := (r2 ! k)\<lparr>main_cols := m\<rparr>] = r2"
      by (intro list_update_beyond) simp
    then show ?thesis
      using that zero2 by simp
  qed
  then have inner: "\<forall>r\<in>set (r2[k := (r2 ! k)\<lparr>main_cols := m\<rparr>]). equiv_tag_err r = 0" for k m
    by blast
  have "\<exists>k m ms cs. rows = first_row # set_alu_cols (set_mem_cols (r2[k := (r2 ! k)\<lparr>main_cols := m\<rparr>]) ms) cs"
    using assms(1) unfolding finalize_def Let_def r1 ebind.simps r2_def [symmetric]
    by (auto simp only: ebind_Inr_iff sum.inject prod.inject split: if_splits)
  then obtain k m ms cs where rows: "rows = first_row # set_alu_cols (set_mem_cols (r2[k := (r2 ! k)\<lparr>main_cols := m\<rparr>]) ms) cs"
    by blast
  show ?thesis
  proof (cases "r = first_row")
    case False
    then have "equiv_tag_err r \<in> equiv_tag_err ` set (set_mem_cols (r2[k := (r2 ! k)\<lparr>main_cols := m\<rparr>]) ms)"
      using assms(3) set_cols_inverse(2) unfolding rows by auto
    then have "equiv_tag_err r \<in> equiv_tag_err ` set (r2[k := (r2 ! k)\<lparr>main_cols := m\<rparr>])"
      using set_cols_inverse(1) by fastforce
    then show ?thesis
      using inner by auto
  qed (simp add: first_row_def row_zero_def)
qed

end
