(* ===== verification/Logderivative.thy ===== *)
theory Logderivative
  imports Prelude
begin

text \<open>
  The log-derivative argument, honk/proof_system/logderivative_library.hpp: the polynomial of
  inverses, and the two subrelations a row adds to for a lookup and for a permutation. The
  template parameters FF and Relation are a type of class field and a record of the functions
  the library calls; accumulators are values of the field.
\<close>

section \<open>Relations\<close>

text \<open>The two members of relations/relation_parameters.hpp that the argument uses.\<close>

record 'f RelationParameters =
  param_beta :: 'f
  param_gamma :: 'f

record ('r, 'f) logderivative_relation =
  READ_TERMS :: nat
  WRITE_TERMS :: nat
  operation_exists_at_row :: "'r \<Rightarrow> bool"
  get_inverse :: "'r \<Rightarrow> 'f"
  set_inverse :: "'f \<Rightarrow> 'r \<Rightarrow> 'r"
  compute_inverse_exists :: "'r \<Rightarrow> 'f"
  compute_read_term :: "nat \<Rightarrow> 'r \<Rightarrow> 'f RelationParameters \<Rightarrow> 'f"
  compute_write_term :: "nat \<Rightarrow> 'r \<Rightarrow> 'f RelationParameters \<Rightarrow> 'f"
  compute_read_term_predicate :: "nat \<Rightarrow> 'r \<Rightarrow> 'f"
  compute_write_term_predicate :: "nat \<Rightarrow> 'r \<Rightarrow> 'f"
  lookup_read_counts :: "nat \<Rightarrow> 'r \<Rightarrow> 'f"

section \<open>Batch inversion\<close>

text \<open>The loops of field::batch_invert on elements of a field; zeros are skipped.\<close>

fun batch_forward :: "'f::field \<Rightarrow> 'f list \<Rightarrow> 'f list \<times> 'f" where
  "batch_forward accumulator [] = ([], accumulator)"
| "batch_forward accumulator (c # coeffs) =
     (let (ts, a) = batch_forward (if c = 0 then accumulator else accumulator * c) coeffs
      in (accumulator # ts, a))"

fun batch_backward :: "'f::field \<Rightarrow> ('f \<times> 'f) list \<Rightarrow> 'f list" where
  "batch_backward accumulator [] = []"
| "batch_backward accumulator ((c, temporary) # rest) =
     (if c = 0 then c # batch_backward accumulator rest
      else accumulator * temporary # batch_backward (accumulator * c) rest)"

definition batch_invert :: "'f::field list \<Rightarrow> 'f list" where
  "batch_invert coeffs =
     (let (temporaries, accumulator) = batch_forward 1 coeffs
      in rev (batch_backward (inverse accumulator) (rev (zip coeffs temporaries))))"

lemma batch_forward_eq:
  "length (fst (batch_forward a cs)) = length cs"
  "i < length cs \<Longrightarrow> fst (batch_forward a cs) ! i = a * prod_list (filter (\<lambda>c. c \<noteq> 0) (take i cs))"
  "snd (batch_forward a cs) = a * prod_list (filter (\<lambda>c. c \<noteq> 0) cs)"
  by (induction a cs arbitrary: i rule: batch_forward.induct)
    (auto simp: split_def Let_def nth_Cons mult.assoc split: nat.split)

lemma batch_backward_append:
  "batch_backward a (xs @ ys) =
     batch_backward a xs @ batch_backward (a * prod_list (filter (\<lambda>c. c \<noteq> 0) (map fst xs))) ys"
  by (induction a xs rule: batch_backward.induct) (auto simp: mult.assoc)

lemma prod_list_nonzero: "prod_list (filter (\<lambda>c. c \<noteq> 0) cs) \<noteq> (0 :: 'f::field)"
  by (simp add: prod_list_zero_iff)

lemma batch_invert_snoc:
  "batch_invert (cs @ [c]) = batch_invert cs @ [inverse c]"
proof -
  define p where "p = prod_list (filter (\<lambda>c. c \<noteq> 0) cs)"
  have p: "p \<noteq> 0"
    unfolding p_def by (rule prod_list_nonzero)
  have fwd: "batch_forward a (cs @ [c]) = (fst (batch_forward a cs) @ [snd (batch_forward a cs)],
      if c = 0 then snd (batch_forward a cs) else snd (batch_forward a cs) * c)" for a c
    by (induction a cs rule: batch_forward.induct) (simp_all add: split_def Let_def)
  show ?thesis
    using p batch_forward_eq(1,3) [of 1 cs]
    by (cases "c = 0") (simp_all add: batch_invert_def fwd split_def Let_def p_def [symmetric] mult.assoc)
qed

lemma batch_invert_eq: "batch_invert cs = map inverse cs"
proof (induction cs rule: rev_induct)
  case Nil
  show ?case
    by (simp add: batch_invert_def)
next
  case (snoc c cs)
  then show ?case
    by (simp add: batch_invert_snoc)
qed

section \<open>The polynomial of inverses\<close>

definition logderivative_denominator ::
  "('r, 'f::field) logderivative_relation \<Rightarrow> 'f RelationParameters \<Rightarrow> 'r \<Rightarrow> 'f" where
  "logderivative_denominator R params row =
     foldl (\<lambda>d i. d * compute_write_term R i row params)
       (foldl (\<lambda>d i. d * compute_read_term R i row params) 1 [0..<READ_TERMS R]) [0..<WRITE_TERMS R]"

text \<open>The columns are given by their rows: setting the polynomial of inverses sets it in every row.\<close>

definition compute_logderivative_inverse ::
  "('r, 'f::field) logderivative_relation \<Rightarrow> 'f RelationParameters \<Rightarrow> 'r list \<Rightarrow> 'r list" where
  "compute_logderivative_inverse R params rows =
     map2 (set_inverse R)
       (batch_invert (map (\<lambda>row. if operation_exists_at_row R row
          then logderivative_denominator R params row else get_inverse R row) rows))
       rows"

section \<open>The subrelations\<close>

definition logderivative_terms ::
  "('r, 'f::field) logderivative_relation \<Rightarrow> 'f RelationParameters \<Rightarrow> 'r \<Rightarrow> 'f list" where
  "logderivative_terms R params row =
     map (\<lambda>i. compute_read_term R i row params) [0..<READ_TERMS R] @
     map (\<lambda>i. compute_write_term R i row params) [0..<WRITE_TERMS R]"

definition denominator_products :: "'f::field list \<Rightarrow> 'f list" where
  "denominator_products terms = foldl (\<lambda>d i. d[i + 1 := d ! (i + 1) * d ! i]) terms [0..<length terms - 1]"

text \<open>From the products of a prefix of the terms to the products of all but one.\<close>

definition denominator_step :: "'f::field list \<Rightarrow> 'f list \<times> 'f \<Rightarrow> nat \<Rightarrow> 'f list \<times> 'f" where
  "denominator_step terms = (\<lambda>(d, inverse_accumulator) i.
     (d[length terms - 1 - i := d ! (length terms - 2 - i) * inverse_accumulator],
      inverse_accumulator * terms ! (length terms - 1 - i)))"

definition denominator_accumulator :: "'f::field list \<Rightarrow> 'f \<Rightarrow> 'f list" where
  "denominator_accumulator terms lookup_inverses =
     (let (d, inverse_accumulator) = foldl (denominator_step terms)
        (denominator_products terms, lookup_inverses) [0..<length terms - 1]
      in d[0 := inverse_accumulator])"

definition accumulate_lookup ::
  "('r, 'f::field) logderivative_relation \<Rightarrow> 'f RelationParameters \<Rightarrow> 'f \<Rightarrow> 'f \<times> 'f \<Rightarrow> 'r \<Rightarrow> 'f \<times> 'f" where
  "accumulate_lookup R params scaling_factor acc row =
     (let terms = logderivative_terms R params row;
          inverses = get_inverse R row;
          d = denominator_accumulator terms inverses
      in (fst acc + (denominator_products terms ! (length terms - 1) * inverses -
            compute_inverse_exists R row) * scaling_factor,
          foldl (\<lambda>a i. a - compute_write_term_predicate R i row *
              (d ! (i + READ_TERMS R) * lookup_read_counts R i row))
            (foldl (\<lambda>a i. a + compute_read_term_predicate R i row * d ! i) (snd acc) [0..<READ_TERMS R])
            [0..<WRITE_TERMS R]))"

text \<open>A permutation has one term of each kind.\<close>

definition accumulate_permutation ::
  "('r, 'f::field) logderivative_relation \<Rightarrow> 'f RelationParameters \<Rightarrow> 'f \<Rightarrow> 'f \<times> 'f \<Rightarrow> 'r \<Rightarrow> 'f \<times> 'f" where
  "accumulate_permutation R params scaling_factor acc row =
     (let terms = [compute_read_term R 0 row params, compute_write_term R 0 row params];
          inverses = get_inverse R row;
          d = denominator_accumulator terms inverses
      in (fst acc + (denominator_products terms ! 1 * inverses - compute_inverse_exists R row) * scaling_factor,
          snd acc + compute_read_term_predicate R 0 row * d ! 0 - compute_write_term_predicate R 0 row * d ! 1))"


section \<open>The product of all terms but one\<close>

lemma denominator_products_eq:
  "length (denominator_products terms) = length terms"
  "k < length terms \<Longrightarrow> denominator_products terms ! k = prod_list (take (Suc k) terms)"
proof -
  have "length (foldl (\<lambda>d i. d[i + 1 := d ! (i + 1) * d ! i]) terms [0..<m]) = length terms \<and>
      (\<forall>k<length terms. foldl (\<lambda>d i. d[i + 1 := d ! (i + 1) * d ! i]) terms [0..<m] ! k =
        (if k \<le> m then prod_list (take (Suc k) terms) else terms ! k))" if "m < length terms" for m
    using that
  proof (induction m)
    case 0
    then show ?case
      by (cases terms) auto
  next
    case (Suc m)
    then show ?case
      by (auto simp: nth_list_update take_Suc_conv_app_nth mult.commute)
  qed
  from this [of "length terms - 1"] show "length (denominator_products terms) = length terms"
    "k < length terms \<Longrightarrow> denominator_products terms ! k = prod_list (take (Suc k) terms)"
    by (cases terms; auto simp: denominator_products_def)+
qed

lemma denominator_accumulator_eq:
  assumes "k < length terms"
  shows "denominator_accumulator terms y ! k = y * (prod_list (take k terms) * prod_list (drop (Suc k) terms))"
proof -
  define n where "n = length terms"
  define loop where "loop m = foldl (denominator_step terms) (denominator_products terms, y) [0..<m]" for m
  have "length (fst (loop m)) = n \<and> snd (loop m) = y * prod_list (drop (n - m) terms) \<and>
      (\<forall>k<n. fst (loop m) ! k = (if k < n - m then prod_list (take (Suc k) terms)
         else y * (prod_list (take k terms) * prod_list (drop (Suc k) terms))))" if "m < n" for m
    using that
  proof (induction m)
    case 0
    then show ?case
      by (simp add: loop_def n_def denominator_products_eq)
  next
    case (Suc m)
    define i where "i = n - 1 - m"
    have i: "i < n" "Suc i = n - m" "n - Suc m = i" "Suc (n - 2 - m) = i" "i - 1 = n - 2 - m" "0 < i"
      using Suc.prems by (simp_all add: i_def)
    have "drop i terms = terms ! i # drop (Suc i) terms"
      using i(1) by (simp add: Cons_nth_drop_Suc n_def)
    moreover have "loop (Suc m) = denominator_step terms (loop m) m"
      by (simp add: loop_def)
    moreover have "fst (loop m) ! (n - 2 - m) = prod_list (take i terms)"
      using Suc i by simp
    ultimately show ?case
      using Suc i unfolding denominator_step_def split_def n_def [symmetric] i_def [symmetric]
      by (auto simp: nth_list_update mult_ac)
  qed
  from this [of "n - 1"] show ?thesis
    using assms unfolding denominator_accumulator_def loop_def [symmetric] n_def [symmetric] split_def Let_def
    by (cases "k = 0") (auto simp: n_def nth_list_update)
qed


section \<open>What a row contributes\<close>

definition lookup_terms_sum ::
  "('r, 'f::field) logderivative_relation \<Rightarrow> 'f RelationParameters \<Rightarrow> 'r \<Rightarrow> 'f" where
  "lookup_terms_sum R params row =
     (\<Sum>i\<leftarrow>[0..<READ_TERMS R]. compute_read_term_predicate R i row / compute_read_term R i row params) -
     (\<Sum>i\<leftarrow>[0..<WRITE_TERMS R]. compute_write_term_predicate R i row * (lookup_read_counts R i row / compute_write_term R i row params))"

lemma foldl_add: "foldl (\<lambda>a i. a + f i) (x :: 'f::ab_group_add) is = x + (\<Sum>i\<leftarrow>is. f i)"
  by (induction "is" arbitrary: x) (simp_all add: add.assoc)

lemma foldl_minus: "foldl (\<lambda>a i. a - f i) (x :: 'f::ab_group_add) is = x - (\<Sum>i\<leftarrow>is. f i)"
  by (induction "is" arbitrary: x) (simp_all add: diff_diff_eq)

lemma foldl_mult: "foldl (\<lambda>d i. d * f i) (x :: 'f::comm_monoid_mult) is = x * prod_list (map f is)"
  by (induction "is" arbitrary: x) (simp_all add: mult.assoc)

lemma logderivative_denominator_eq:
  "logderivative_denominator R params row = prod_list (logderivative_terms R params row)"
  by (simp add: logderivative_denominator_def foldl_mult logderivative_terms_def comp_def)

lemma inverse_prod_all_but_one:
  assumes "k < length terms" and "0 \<notin> set (terms :: 'f::field list)"
  shows "inverse (prod_list terms) * (prod_list (take k terms) * prod_list (drop (Suc k) terms)) = inverse (terms ! k)"
proof -
  have "prod_list terms = prod_list (take k terms) * terms ! k * prod_list (drop (Suc k) terms)"
    using assms(1) by (metis id_take_nth_drop prod_list.Cons prod_list.append mult.assoc)
  moreover have "prod_list (take k terms) \<noteq> 0" "prod_list (drop (Suc k) terms) \<noteq> 0"
    using assms(2) by (auto simp: prod_list_zero_iff dest: in_set_takeD in_set_dropD)
  ultimately show ?thesis
    by (simp add: field_simps)
qed

lemma accumulate_lookup_inverse:
  assumes "0 < READ_TERMS R" and "0 \<notin> set (logderivative_terms R params row)"
    and "get_inverse R row = inverse (prod_list (logderivative_terms R params row))"
  shows "accumulate_lookup R params c acc row =
    (fst acc + (1 - compute_inverse_exists R row) * c, snd acc + lookup_terms_sum R params row)"
proof -
  define terms where "terms = logderivative_terms R params row"
  have len: "length terms = READ_TERMS R + WRITE_TERMS R"
    by (simp add: terms_def logderivative_terms_def)
  have d: "denominator_accumulator terms (inverse (prod_list terms)) ! k = inverse (terms ! k)" if "k < length terms" for k
    unfolding denominator_accumulator_eq [OF that] using inverse_prod_all_but_one [OF that] assms(2)
    by (simp add: terms_def)
  have "terms ! i = compute_read_term R i row params" if "i < READ_TERMS R" for i
    using that by (simp add: terms_def logderivative_terms_def nth_append)
  then have rd: "map (\<lambda>i. compute_read_term_predicate R i row * denominator_accumulator terms (inverse (prod_list terms)) ! i) [0..<READ_TERMS R] =
      map (\<lambda>i. compute_read_term_predicate R i row / compute_read_term R i row params) [0..<READ_TERMS R]"
    by (intro map_cong) (simp_all add: d len divide_inverse)
  have "terms ! (i + READ_TERMS R) = compute_write_term R i row params" if "i < WRITE_TERMS R" for i
    using that by (simp add: terms_def logderivative_terms_def nth_append)
  then have wr: "map (\<lambda>i. compute_write_term_predicate R i row *
        (denominator_accumulator terms (inverse (prod_list terms)) ! (i + READ_TERMS R) * lookup_read_counts R i row)) [0..<WRITE_TERMS R] =
      map (\<lambda>i. compute_write_term_predicate R i row * (lookup_read_counts R i row / compute_write_term R i row params)) [0..<WRITE_TERMS R]"
    by (intro map_cong) (simp_all add: d len divide_inverse mult_ac)
  have "denominator_products terms ! (length terms - 1) = prod_list terms"
    using len assms(1) denominator_products_eq(2) [of "length terms - 1" terms] by simp
  moreover have "prod_list terms \<noteq> 0"
    using assms(2) by (simp add: terms_def prod_list_zero_iff)
  ultimately show ?thesis
    unfolding accumulate_lookup_def Let_def assms(3) terms_def [symmetric] foldl_add foldl_minus lookup_terms_sum_def rd wr
    by simp
qed

lemma accumulate_lookup_no_inverse:
  assumes "0 < READ_TERMS R" and "get_inverse R row = 0"
  shows "accumulate_lookup R params c acc row = (fst acc - compute_inverse_exists R row * c, snd acc)"
proof -
  define terms where "terms = logderivative_terms R params row"
  have len: "length terms = READ_TERMS R + WRITE_TERMS R"
    by (simp add: terms_def logderivative_terms_def)
  have d: "denominator_accumulator terms 0 ! k = 0" if "k < READ_TERMS R + WRITE_TERMS R" for k
    using that by (simp add: len denominator_accumulator_eq)
  have rd: "map (\<lambda>i. compute_read_term_predicate R i row * denominator_accumulator terms 0 ! i) [0..<READ_TERMS R] =
      map (\<lambda>_. 0) [0..<READ_TERMS R]"
    and wr: "map (\<lambda>i. compute_write_term_predicate R i row *
        (denominator_accumulator terms 0 ! (i + READ_TERMS R) * lookup_read_counts R i row)) [0..<WRITE_TERMS R] =
      map (\<lambda>_. 0) [0..<WRITE_TERMS R]"
    by (intro map_cong; simp add: d)+
  then show ?thesis
    unfolding accumulate_lookup_def Let_def assms(2) terms_def [symmetric] foldl_add foldl_minus rd wr
    by simp
qed

text \<open>A permutation is a lookup in which every entry of the table is read once.\<close>

lemma accumulate_permutation_eq:
  assumes "READ_TERMS R = 1" and "WRITE_TERMS R = 1" and "\<And>row. lookup_read_counts R 0 row = 1"
  shows "accumulate_permutation R = accumulate_lookup R"
  by (intro ext) (simp add: accumulate_permutation_def accumulate_lookup_def logderivative_terms_def assms Let_def)

section \<open>The whole table\<close>

text \<open>
  What the library asks of a relation: the column of inverses is a column of its own, which no
  other function of the relation reads.
\<close>

locale logderivative =
  fixes R :: "('r, 'f::field) logderivative_relation"
  assumes reads: "0 < READ_TERMS R"
    and get_set: "get_inverse R (set_inverse R v row) = v"
    and exists_set: "compute_inverse_exists R (set_inverse R v row) = compute_inverse_exists R row"
    and read_set: "i < READ_TERMS R \<Longrightarrow> compute_read_term R i (set_inverse R v row) params = compute_read_term R i row params"
    and write_set: "i < WRITE_TERMS R \<Longrightarrow> compute_write_term R i (set_inverse R v row) params = compute_write_term R i row params"
    and read_predicate_set: "i < READ_TERMS R \<Longrightarrow> compute_read_term_predicate R i (set_inverse R v row) = compute_read_term_predicate R i row"
    and write_predicate_set: "i < WRITE_TERMS R \<Longrightarrow> compute_write_term_predicate R i (set_inverse R v row) = compute_write_term_predicate R i row"
    and counts_set: "i < WRITE_TERMS R \<Longrightarrow> lookup_read_counts R i (set_inverse R v row) = lookup_read_counts R i row"
begin

lemma terms_set: "logderivative_terms R params (set_inverse R v row) = logderivative_terms R params row"
  by (simp add: logderivative_terms_def read_set write_set)

lemma sum_set: "lookup_terms_sum R params (set_inverse R v row) = lookup_terms_sum R params row"
  unfolding lookup_terms_sum_def
  by (intro arg_cong2 [of _ _ _ _ minus] arg_cong [of _ _ sum_list] map_cong)
    (simp_all add: read_set write_set read_predicate_set write_predicate_set counts_set)

lemma accumulate_row:
  "accumulate_lookup R params c acc (set_inverse R (inverse (if operation_exists_at_row R row
       then logderivative_denominator R params row else get_inverse R row)) row) =
     (if operation_exists_at_row R row \<and> 0 \<notin> set (logderivative_terms R params row)
      then (fst acc + (1 - compute_inverse_exists R row) * c, snd acc + lookup_terms_sum R params row)
      else if operation_exists_at_row R row \<or> get_inverse R row = 0
      then (fst acc - compute_inverse_exists R row * c, snd acc)
      else accumulate_lookup R params c acc (set_inverse R (inverse (get_inverse R row)) row))"
proof (cases "operation_exists_at_row R row")
  case True
  show ?thesis
  proof (cases "0 \<in> set (logderivative_terms R params row)")
    case zero: True
    then have "inverse (logderivative_denominator R params row) = 0"
      by (simp add: logderivative_denominator_eq prod_list_zero_iff)
    then show ?thesis
      using True zero accumulate_lookup_no_inverse [OF reads] by (simp add: get_set exists_set)
  next
    case False
    then show ?thesis
      using True accumulate_lookup_inverse [OF reads]
      by (simp add: get_set terms_set exists_set sum_set logderivative_denominator_eq)
  qed
next
  case False
  then show ?thesis
    using accumulate_lookup_no_inverse [OF reads] by (simp add: get_set exists_set)
qed

text \<open>A row whose selectors are bits: the inverse exists where the operation does.\<close>

lemma accumulate_table:
  assumes "\<And>row. row \<in> set rows \<Longrightarrow> compute_inverse_exists R row = of_bool (operation_exists_at_row R row)"
    and "\<And>row. row \<in> set rows \<Longrightarrow> \<not> operation_exists_at_row R row \<Longrightarrow> get_inverse R row = 0"
    and "\<And>row. row \<in> set rows \<Longrightarrow> operation_exists_at_row R row \<Longrightarrow> 0 \<notin> set (logderivative_terms R params row)"
  shows "foldl (accumulate_lookup R params c) acc (compute_logderivative_inverse R params rows) =
    (fst acc, snd acc + (\<Sum>row\<leftarrow>filter (operation_exists_at_row R) rows. lookup_terms_sum R params row))"
  using assms
proof (induction rows arbitrary: acc)
  case Nil
  then show ?case
    by (simp add: compute_logderivative_inverse_def batch_invert_eq)
next
  case (Cons row rows)
  define v where "v = inverse (if operation_exists_at_row R row
       then logderivative_denominator R params row else get_inverse R row)"
  have "compute_logderivative_inverse R params (row # rows) =
      set_inverse R v row # compute_logderivative_inverse R params rows"
    by (simp add: compute_logderivative_inverse_def batch_invert_eq v_def)
  moreover have "accumulate_lookup R params c acc (set_inverse R v row) =
      (fst acc, snd acc + (if operation_exists_at_row R row then lookup_terms_sum R params row else 0))"
    using accumulate_row [of params c acc row] Cons.prems [of row] by (simp add: v_def)
  moreover have "foldl (accumulate_lookup R params c) acc' (compute_logderivative_inverse R params rows) =
      (fst acc', snd acc' + (\<Sum>row\<leftarrow>filter (operation_exists_at_row R) rows. lookup_terms_sum R params row))" for acc'
    by (rule Cons.IH) (simp_all add: Cons.prems)
  ultimately show ?case
    by (simp add: add.assoc)
qed

end

end
