(* ===== verification/Fractions.thy ===== *)
theory Fractions
  imports Main
begin

text \<open>
  Polynomial functions over a field, with a bound on their degree, and sums of fractions
  m / (v + x). Such a sum vanishes at more points than it has poles only if every pole has the
  weight zero: the argument that the log-derivative relations rest on.
\<close>

section \<open>Polynomial functions\<close>

text \<open>Horner's form.\<close>

fun deg_le :: "nat \<Rightarrow> ('f::field \<Rightarrow> 'f) \<Rightarrow> bool" where
  "deg_le 0 f \<longleftrightarrow> (\<exists>c. \<forall>x. f x = c)"
| "deg_le (Suc d) f \<longleftrightarrow> (\<exists>c g. deg_le d g \<and> (\<forall>x. f x = c + x * g x))"

named_theorems degree_intros \<open>closure of the polynomial functions\<close>

lemma deg_le_SucI: "deg_le d g \<Longrightarrow> (\<And>x. f x = c + x * g x) \<Longrightarrow> deg_le (Suc d) f"
  by auto

lemma deg_le_const [degree_intros]: "deg_le d (\<lambda>_. c)"
proof (induction d arbitrary: c)
  case (Suc d)
  show ?case
    by (rule deg_le_SucI [OF Suc [of 0], of _ c]) simp
qed simp

lemma deg_le_Suc: "deg_le d f \<Longrightarrow> deg_le (Suc d) f"
proof (induction d arbitrary: f)
  case 0
  then obtain c where "\<forall>x. f x = c + x * 0"
    by auto
  moreover have "deg_le 0 (\<lambda>_. 0 :: 'a)"
    by (rule deg_le_const)
  ultimately show ?case
    unfolding deg_le.simps(2) by blast
next
  case (Suc d)
  then show ?case
    unfolding deg_le.simps(2) [of "Suc d"] by (metis deg_le.simps(2))
qed

lemma deg_le_mono: "d \<le> d' \<Longrightarrow> deg_le d f \<Longrightarrow> deg_le d' f"
  by (induction d' rule: dec_induct) (simp_all add: deg_le_Suc del: deg_le.simps)

lemma deg_le_add [degree_intros]: "deg_le d f \<Longrightarrow> deg_le d g \<Longrightarrow> deg_le d (\<lambda>x. f x + g x)"
proof (induction d arbitrary: f g)
  case 0
  then show ?case
    by auto
next
  case (Suc d)
  then obtain c f' c' g' where "deg_le d f'" "\<forall>x. f x = c + x * f' x" "deg_le d g'" "\<forall>x. g x = c' + x * g' x"
    by auto
  then have "deg_le d (\<lambda>x. f' x + g' x)" "\<forall>x. f x + g x = (c + c') + x * (f' x + g' x)"
    using Suc.IH by (auto simp: algebra_simps)
  then show ?case
    unfolding deg_le.simps by blast
qed

lemma deg_le_cmult: "deg_le d f \<Longrightarrow> deg_le d (\<lambda>x. a * f x)"
proof (induction d arbitrary: f)
  case 0
  then show ?case
    by auto
next
  case (Suc d)
  then obtain c f' where "deg_le d f'" "\<forall>x. f x = c + x * f' x"
    by auto
  then have "deg_le d (\<lambda>x. a * f' x)" "\<forall>x. a * f x = a * c + x * (a * f' x)"
    using Suc.IH by (auto simp: algebra_simps)
  then show ?case
    unfolding deg_le.simps by blast
qed

lemma deg_le_diff [degree_intros]: "deg_le d f \<Longrightarrow> deg_le d g \<Longrightarrow> deg_le d (\<lambda>x. f x - g x)"
  using deg_le_add [of d f "\<lambda>x. - 1 * g x"] deg_le_cmult [of d g "- 1"] by simp

lemma deg_le_shift: "deg_le d f \<Longrightarrow> deg_le (Suc d) (\<lambda>x. x * f x)"
  by (rule deg_le_SucI [of d f _ 0]) simp_all

lemma deg_le_mult [degree_intros]: "deg_le d f \<Longrightarrow> deg_le e g \<Longrightarrow> deg_le (d + e) (\<lambda>x. f x * g x)"
proof (induction d arbitrary: f)
  case 0
  then show ?case
    by (auto intro: deg_le_cmult)
next
  case (Suc d)
  then obtain c f' where "deg_le d f'" and f: "\<forall>x. f x = c + x * f' x"
    by auto
  then have shifted: "deg_le (Suc (d + e)) (\<lambda>x. x * (f' x * g x))"
    using Suc by (intro deg_le_shift) blast
  have "deg_le (Suc (d + e)) (\<lambda>x. c * g x)"
    by (rule deg_le_mono [OF _ deg_le_cmult [OF Suc.prems(2)]]) simp
  from this shifted have "deg_le (Suc (d + e)) (\<lambda>x. c * g x + x * (f' x * g x))"
    by (rule deg_le_add)
  then show ?case
    using f by (simp add: algebra_simps del: deg_le.simps)
qed

lemma deg_le_id [degree_intros]: "deg_le (Suc 0) (\<lambda>x. x)"
  using deg_le_shift [OF deg_le_const [of 0 1]] by simp

lemma deg_le_sum [degree_intros]: "(\<And>i. i \<in> A \<Longrightarrow> deg_le d (f i)) \<Longrightarrow> deg_le d (\<lambda>x. \<Sum>i\<in>A. f i x)"
  by (induction A rule: infinite_finite_induct) (auto intro: degree_intros simp del: deg_le.simps)

lemma deg_le_prod: "finite A \<Longrightarrow> (\<And>i. i \<in> A \<Longrightarrow> deg_le (Suc 0) (f i)) \<Longrightarrow> deg_le (card A) (\<lambda>x. \<Prod>i\<in>A. f i x)"
proof (induction A rule: finite_induct)
  case (insert a A)
  then show ?case
    using deg_le_mult [of "Suc 0" "f a" "card A" "\<lambda>x. \<Prod>i\<in>A. f i x"] by (simp del: deg_le.simps)
qed (simp add: exI [of _ 1])

section \<open>Roots\<close>

lemma deg_le_factor: "deg_le (Suc d) f \<Longrightarrow> \<exists>g. deg_le d g \<and> (\<forall>x. f x - f a = (x - a) * g x)"
proof (induction d arbitrary: f)
  case 0
  then obtain c g where g: "deg_le 0 g" and f: "\<forall>x. f x = c + x * g x"
    by auto
  then obtain c' where "g = (\<lambda>_. c')"
    by auto
  then have "\<forall>x. f x - f a = (x - a) * g x"
    using f by (auto simp: algebra_simps)
  then show ?case
    using g by blast
next
  case (Suc d)
  then obtain c g where f: "deg_le (Suc d) g" "\<forall>x. f x = c + x * g x"
    unfolding deg_le.simps(2) [of "Suc d"] by blast
  then obtain h where h: "deg_le d h" "\<forall>x. g x - g a = (x - a) * h x"
    using Suc.IH by blast
  have "f x - f a = (x - a) * (g a + x * h x)" for x
  proof -
    have "f x - f a = (x - a) * g a + x * (g x - g a)"
      using f(2) by (simp add: algebra_simps)
    then show ?thesis
      using h(2) by (simp add: algebra_simps)
  qed
  moreover have "deg_le (Suc d) (\<lambda>x. g a + x * h x)"
    using h(1) by auto
  ultimately show ?case
    by blast
qed

lemma deg_le_roots:
  assumes "deg_le d f" and "finite A" and "d < card A" and "\<And>a. a \<in> A \<Longrightarrow> f a = 0"
  shows "f x = 0"
  using assms
proof (induction d arbitrary: f A)
  case 0
  then obtain a where "a \<in> A"
    by (metis card.empty ex_in_conv less_nat_zero_code)
  then show ?case
    using 0 by auto
next
  case (Suc d)
  then obtain a where a: "a \<in> A"
    by (metis card.empty ex_in_conv less_nat_zero_code)
  obtain g where g: "deg_le d g" "\<forall>x. f x - f a = (x - a) * g x"
    using deg_le_factor [OF Suc.prems(1)] by blast
  have "g b = 0" if "b \<in> A - {a}" for b
    using g(2) Suc.prems(4) [of b] Suc.prems(4) [of a] a that by auto
  then have "g x = 0"
    using Suc.IH [OF g(1), of "A - {a}"] Suc.prems a by simp
  then show ?case
    using g(2) Suc.prems(4) [OF a] by (metis diff_zero mult_zero_right)
qed

section \<open>Sums of fractions\<close>

definition fractions :: "('f \<times> 'f) list \<Rightarrow> 'f \<Rightarrow> 'f::field" where
  "fractions es x = (\<Sum>(m, v)\<leftarrow>es. m / (v + x))"

definition weight :: "('f \<times> 'f) list \<Rightarrow> 'f \<Rightarrow> 'f::field" where
  "weight es u = (\<Sum>(m, v)\<leftarrow>es. if v = u then m else 0)"

lemma weight_simps [simp]:
  "weight [] u = 0" "weight (e # es) u = (if snd e = u then fst e else 0) + weight es u"
  "weight (es @ fs) u = weight es u + weight fs u"
  by (simp_all add: weight_def split_def)

lemma fractions_simps [simp]:
  "fractions [] x = 0" "fractions (e # es) x = fst e / (snd e + x) + fractions es x"
  "fractions (es @ fs) x = fractions es x + fractions fs x"
  by (simp_all add: fractions_def split_def)

lemma weight_absent: "u \<notin> snd ` set es \<Longrightarrow> weight es u = 0"
  by (induction es) auto

lemma fractions_grouped:
  assumes "finite V" and "snd ` set es \<subseteq> V"
  shows "fractions es x = (\<Sum>v\<in>V. weight es v / (v + x))"
  using assms(2)
proof (induction es)
  case (Cons e es)
  have "(\<Sum>v\<in>V. weight (e # es) v / (v + x)) =
      (\<Sum>v\<in>V. (if v = snd e then fst e / (v + x) else 0)) + (\<Sum>v\<in>V. weight es v / (v + x))"
    unfolding sum.distrib [symmetric] by (rule sum.cong) (auto simp: add_divide_distrib)
  also have "(\<Sum>v\<in>V. (if v = snd e then fst e / (v + x) else 0)) = fst e / (snd e + x)"
    using assms(1) Cons.prems by (simp add: sum.delta)
  finally show ?case
    using Cons by simp
qed simp

lemma fractions_weightless: "(\<And>v. weight es v = 0) \<Longrightarrow> fractions es x = 0"
  using fractions_grouped [of "snd ` set es" es x] by simp

text \<open>Clearing the denominators gives a polynomial whose degree is less than the number of poles.\<close>

lemma fractions_sound:
  assumes "finite A" and "length es \<le> card A" and "\<And>a. a \<in> A \<Longrightarrow> fractions es a = 0"
    and "\<And>a v. a \<in> A \<Longrightarrow> v \<in> snd ` set es \<Longrightarrow> v + a \<noteq> 0"
  shows "weight es u = 0"
proof (cases "u \<in> snd ` set es")
  case True
  define V where "V = snd ` set es"
  have V: "finite V" "card V \<le> card A" "u \<in> V"
    using True assms(2) card_image_le [of "set es" snd] card_length [of es] by (simp_all add: V_def)
  define G where "G x = (\<Sum>v\<in>V. weight es v * (\<Prod>w\<in>V - {v}. w + x))" for x
  have "deg_le (card V - 1) G"
    unfolding G_def
  proof (rule deg_le_sum)
    fix v assume v: "v \<in> V"
    have "deg_le (card (V - {v})) (\<lambda>x. \<Prod>w\<in>V - {v}. w + x)"
      using V(1) by (intro deg_le_prod) (auto intro: degree_intros simp del: deg_le.simps)
    then show "deg_le (card V - 1) (\<lambda>x. weight es v * (\<Prod>w\<in>V - {v}. w + x))"
      using v V(1) by (intro deg_le_cmult) simp
  qed
  moreover have "card V - 1 < card A"
    using V by (cases "card V") (auto simp: card_eq_0_iff)
  moreover have "G a = 0" if "a \<in> A" for a
  proof -
    have "weight es v * (\<Prod>w\<in>V - {v}. w + a) = (\<Prod>w\<in>V. w + a) * (weight es v / (v + a))" if "v \<in> V" for v
      using V(1) assms(4) [OF \<open>a \<in> A\<close>, of v] that by (simp add: V_def prod.remove [of _ v])
    then have "G a = (\<Prod>w\<in>V. w + a) * fractions es a"
      unfolding G_def fractions_grouped [OF V(1), of es a, unfolded V_def, folded V_def, OF order_refl] sum_distrib_left
      by (intro sum.cong) auto
    then show ?thesis
      using assms(3) that by simp
  qed
  ultimately have "G (- u) = 0"
    using deg_le_roots assms(1) by blast
  moreover have "(\<Sum>v\<in>V - {u}. weight es v * (\<Prod>w\<in>V - {v}. w + - u)) = 0"
    using V by (intro sum.neutral ballI) (auto intro: prod_zero)
  ultimately have "weight es u * (\<Prod>w\<in>V - {u}. w + - u) = 0"
    unfolding G_def using V by (simp add: sum.remove [of V u])
  moreover have "(\<Prod>w\<in>V - {u}. w + - u) \<noteq> 0"
    using V(1) by (simp add: prod_zero_iff)
  ultimately show ?thesis
    by simp
qed (rule weight_absent)

lemma fractions_zero_iff:
  assumes "finite A" and "length es \<le> card A"
    and "\<And>a v. a \<in> A \<Longrightarrow> v \<in> snd ` set es \<Longrightarrow> v + a \<noteq> 0"
  shows "(\<forall>a\<in>A. fractions es a = 0) \<longleftrightarrow> (\<forall>u. weight es u = 0)"
  using fractions_sound [OF assms(1,2) _ assms(3)] fractions_weightless by blast

end
