(* ===== verification/Generic_Relations.thy ===== *)
theory Generic_Relations
  imports Logderivative Fractions "HOL-Library.Multiset"
begin

text \<open>
  relations/generic_lookup/generic_lookup_relation.hpp and
  relations/generic_permutation/generic_permutation_relation.hpp: the relations that the
  log-derivative library gets from a class of settings, which names the columns by their
  position in a tuple. A class of settings is a record here.
\<close>

section \<open>Lookups\<close>

datatype read_term_type = READ_BASIC_TUPLE | READ_SCALED_TUPLE | READ_ARBITRARY

datatype write_term_type = WRITE_BASIC_TUPLE | WRITE_ARBITRARY

record ('r, 'f) lookup_settings =
  READ_TERM_TYPES :: "read_term_type list"
  WRITE_TERM_TYPES :: "write_term_type list"
  LOOKUP_TUPLE_SIZE :: nat
  INVERSE_EXISTS_POLYNOMIAL_DEGREE :: nat
  READ_TERM_DEGREE :: nat
  WRITE_TERM_DEGREE :: nat
  inverse_polynomial_is_computed_at_row :: "'r \<Rightarrow> bool"
  settings_inverse_exists :: "'r \<Rightarrow> 'f"
  get_const_entities :: "'r \<Rightarrow> 'f list"
  set_first_entity :: "'f \<Rightarrow> 'r \<Rightarrow> 'r"
  settings_read_term :: "nat \<Rightarrow> 'r \<Rightarrow> 'f RelationParameters \<Rightarrow> 'f"
  settings_write_term :: "nat \<Rightarrow> 'r \<Rightarrow> 'f RelationParameters \<Rightarrow> 'f"

subsection \<open>Degrees\<close>

definition read_term_degree :: "('r, 'f) lookup_settings \<Rightarrow> read_term_type \<Rightarrow> nat" where
  "read_term_degree S t =
     (case t of READ_BASIC_TUPLE \<Rightarrow> 1 | READ_SCALED_TUPLE \<Rightarrow> 2 | READ_ARBITRARY \<Rightarrow> READ_TERM_DEGREE S)"

definition write_term_degree :: "('r, 'f) lookup_settings \<Rightarrow> write_term_type \<Rightarrow> nat" where
  "write_term_degree S t = (case t of WRITE_BASIC_TUPLE \<Rightarrow> 1 | WRITE_ARBITRARY \<Rightarrow> WRITE_TERM_DEGREE S)"

definition compute_maximum_read_term_degree :: "('r, 'f) lookup_settings \<Rightarrow> nat" where
  "compute_maximum_read_term_degree S =
     foldl (\<lambda>maximum_degree t. max (read_term_degree S t) maximum_degree) 0 (READ_TERM_TYPES S)"

definition compute_maximum_write_term_degree :: "('r, 'f) lookup_settings \<Rightarrow> nat" where
  "compute_maximum_write_term_degree S =
     foldl (\<lambda>maximum_degree t. max (write_term_degree S t) maximum_degree) 0 (WRITE_TERM_TYPES S)"

definition compute_read_term_product_degree :: "('r, 'f) lookup_settings \<Rightarrow> nat" where
  "compute_read_term_product_degree S =
     foldl (\<lambda>accumulated_degree t. accumulated_degree + read_term_degree S t) 0 (READ_TERM_TYPES S)"

definition compute_write_term_product_degree :: "('r, 'f) lookup_settings \<Rightarrow> nat" where
  "compute_write_term_product_degree S =
     foldl (\<lambda>accumulated_degree t. accumulated_degree + write_term_degree S t) 0 (WRITE_TERM_TYPES S)"

definition FIRST_SUBRELATION_LENGTH :: "('r, 'f) lookup_settings \<Rightarrow> nat" where
  "FIRST_SUBRELATION_LENGTH S =
     max (compute_read_term_product_degree S + compute_write_term_product_degree S + 1)
       (INVERSE_EXISTS_POLYNOMIAL_DEGREE S) + 1"

definition SECOND_SUBRELATION_LENGTH :: "('r, 'f) lookup_settings \<Rightarrow> nat" where
  "SECOND_SUBRELATION_LENGTH S =
     max (compute_maximum_read_term_degree S + 1) (compute_maximum_write_term_degree S + 2)"

definition LOOKUP_LENGTH :: "('r, 'f) lookup_settings \<Rightarrow> nat" where
  "LOOKUP_LENGTH S = max (FIRST_SUBRELATION_LENGTH S) (SECOND_SUBRELATION_LENGTH S)"

subsection \<open>The tuple of columns\<close>

definition LOOKUP_READ_COUNT_START :: nat where
  "LOOKUP_READ_COUNT_START = 1"

definition LOOKUP_READ_TERM_PREDICATE_START :: "('r, 'f) lookup_settings \<Rightarrow> nat" where
  "LOOKUP_READ_TERM_PREDICATE_START S = LOOKUP_READ_COUNT_START + length (WRITE_TERM_TYPES S)"

definition LOOKUP_WRITE_TERM_PREDICATE_START :: "('r, 'f) lookup_settings \<Rightarrow> nat" where
  "LOOKUP_WRITE_TERM_PREDICATE_START S = LOOKUP_READ_TERM_PREDICATE_START S + length (READ_TERM_TYPES S)"

definition LOOKUP_READ_PREDICATE_START :: "('r, 'f) lookup_settings \<Rightarrow> nat" where
  "LOOKUP_READ_PREDICATE_START S = LOOKUP_WRITE_TERM_PREDICATE_START S + length (WRITE_TERM_TYPES S)"

fun compute_read_term_polynomial_offset :: "('r, 'f) lookup_settings \<Rightarrow> nat \<Rightarrow> nat" where
  "compute_read_term_polynomial_offset S 0 = LOOKUP_READ_PREDICATE_START S"
| "compute_read_term_polynomial_offset S (Suc i) =
     (case READ_TERM_TYPES S ! i of
        READ_BASIC_TUPLE \<Rightarrow> compute_read_term_polynomial_offset S i + LOOKUP_TUPLE_SIZE S
      | READ_SCALED_TUPLE \<Rightarrow> compute_read_term_polynomial_offset S i + 3 * LOOKUP_TUPLE_SIZE S
      | READ_ARBITRARY \<Rightarrow> compute_read_term_polynomial_offset S i)"

fun compute_write_term_polynomial_offset :: "('r, 'f) lookup_settings \<Rightarrow> nat \<Rightarrow> nat" where
  "compute_write_term_polynomial_offset S 0 = compute_read_term_polynomial_offset S (length (READ_TERM_TYPES S))"
| "compute_write_term_polynomial_offset S (Suc i) =
     (case WRITE_TERM_TYPES S ! i of
        WRITE_BASIC_TUPLE \<Rightarrow> compute_write_term_polynomial_offset S i + LOOKUP_TUPLE_SIZE S
      | WRITE_ARBITRARY \<Rightarrow> compute_write_term_polynomial_offset S i)"

text \<open>A tuple of columns as a number: a polynomial in beta, plus gamma.\<close>

definition basic_tuple :: "'f::field list \<Rightarrow> nat \<Rightarrow> nat \<Rightarrow> 'f RelationParameters \<Rightarrow> 'f" where
  "basic_tuple es start n params =
     foldl (\<lambda>result i. result * param_beta params + es ! i) 0 [start..<start + n] + param_gamma params"

definition scaled_tuple :: "'f::field list \<Rightarrow> nat \<Rightarrow> nat \<Rightarrow> 'f RelationParameters \<Rightarrow> 'f" where
  "scaled_tuple es start n params =
     foldl (\<lambda>result i. result * param_beta params + es ! (i + 2 * n) - es ! (i + n) * es ! i) 0
       [start..<start + n] + param_gamma params"

definition lookup_read_term ::
  "('r, 'f::field) lookup_settings \<Rightarrow> nat \<Rightarrow> 'r \<Rightarrow> 'f RelationParameters \<Rightarrow> 'f" where
  "lookup_read_term S read_index row params =
     (let start = compute_read_term_polynomial_offset S read_index in
      case READ_TERM_TYPES S ! read_index of
        READ_BASIC_TUPLE \<Rightarrow> basic_tuple (get_const_entities S row) start (LOOKUP_TUPLE_SIZE S) params
      | READ_SCALED_TUPLE \<Rightarrow> scaled_tuple (get_const_entities S row) start (LOOKUP_TUPLE_SIZE S) params
      | READ_ARBITRARY \<Rightarrow> settings_read_term S read_index row params)"

definition lookup_write_term ::
  "('r, 'f::field) lookup_settings \<Rightarrow> nat \<Rightarrow> 'r \<Rightarrow> 'f RelationParameters \<Rightarrow> 'f" where
  "lookup_write_term S write_index row params =
     (case WRITE_TERM_TYPES S ! write_index of
        WRITE_BASIC_TUPLE \<Rightarrow> basic_tuple (get_const_entities S row)
          (compute_write_term_polynomial_offset S write_index) (LOOKUP_TUPLE_SIZE S) params
      | WRITE_ARBITRARY \<Rightarrow> settings_write_term S write_index row params)"

text \<open>The class GenericLookupRelationImpl.\<close>

definition generic_lookup :: "('r, 'f::field) lookup_settings \<Rightarrow> ('r, 'f) logderivative_relation" where
  "generic_lookup S =
     \<lparr>READ_TERMS = length (READ_TERM_TYPES S),
      WRITE_TERMS = length (WRITE_TERM_TYPES S),
      operation_exists_at_row = inverse_polynomial_is_computed_at_row S,
      get_inverse = (\<lambda>row. get_const_entities S row ! 0),
      set_inverse = set_first_entity S,
      compute_inverse_exists = settings_inverse_exists S,
      compute_read_term = lookup_read_term S,
      compute_write_term = lookup_write_term S,
      compute_read_term_predicate = (\<lambda>i row. get_const_entities S row ! (LOOKUP_READ_TERM_PREDICATE_START S + i)),
      compute_write_term_predicate = (\<lambda>i row. get_const_entities S row ! (LOOKUP_WRITE_TERM_PREDICATE_START S + i)),
      lookup_read_counts = (\<lambda>i row. get_const_entities S row ! (LOOKUP_READ_COUNT_START + i))\<rparr>"

section \<open>Permutations\<close>

record ('r, 'f) permutation_settings =
  COLUMNS_PER_SET :: nat
  perm_is_computed_at_row :: "'r \<Rightarrow> bool"
  perm_const_entities :: "'r \<Rightarrow> 'f list"
  perm_set_first_entity :: "'f \<Rightarrow> 'r \<Rightarrow> 'r"

text \<open>The positions 0 to 4 of the enumeration GenericPermutationSettingIndices.\<close>

definition PERMUTATION_SETS_START :: nat where
  "PERMUTATION_SETS_START = 4"

definition PERMUTATION_LENGTH :: nat where
  "PERMUTATION_LENGTH = 1 + 1 + 3"

definition perm_read_term ::
  "('r, 'f::field) permutation_settings \<Rightarrow> 'r \<Rightarrow> 'f RelationParameters \<Rightarrow> 'f" where
  "perm_read_term S row params =
     basic_tuple (perm_const_entities S row) PERMUTATION_SETS_START (COLUMNS_PER_SET S) params"

definition perm_write_term ::
  "('r, 'f::field) permutation_settings \<Rightarrow> 'r \<Rightarrow> 'f RelationParameters \<Rightarrow> 'f" where
  "perm_write_term S row params =
     basic_tuple (perm_const_entities S row) (PERMUTATION_SETS_START + COLUMNS_PER_SET S) (COLUMNS_PER_SET S) params"

definition perm_inverse_exists :: "('r, 'f::field) permutation_settings \<Rightarrow> 'r \<Rightarrow> 'f" where
  "perm_inverse_exists S row =
     (let first_set_enabled = perm_const_entities S row ! 2;
          second_set_enabled = perm_const_entities S row ! 3
      in first_set_enabled + second_set_enabled - first_set_enabled * second_set_enabled)"

text \<open>
  The class GenericPermutationRelationImpl. It has no counts; the record gives every entry the
  count one, which the accumulation for permutations does not read.
\<close>

definition generic_permutation :: "('r, 'f::field) permutation_settings \<Rightarrow> ('r, 'f) logderivative_relation" where
  "generic_permutation S =
     \<lparr>READ_TERMS = 1,
      WRITE_TERMS = 1,
      operation_exists_at_row = perm_is_computed_at_row S,
      get_inverse = (\<lambda>row. perm_const_entities S row ! 0),
      set_inverse = perm_set_first_entity S,
      compute_inverse_exists = perm_inverse_exists S,
      compute_read_term = (\<lambda>i. perm_read_term S),
      compute_write_term = (\<lambda>i. perm_write_term S),
      compute_read_term_predicate = (\<lambda>i row. perm_const_entities S row ! 2),
      compute_write_term_predicate = (\<lambda>i row. perm_const_entities S row ! 3),
      lookup_read_counts = (\<lambda>i row. 1)\<rparr>"

section \<open>Well-formed settings\<close>

lemma basic_tuple_cong:
  "(\<And>i. start \<le> i \<Longrightarrow> i < start + n \<Longrightarrow> es ! i = es' ! i) \<Longrightarrow> basic_tuple es start n params = basic_tuple es' start n params"
  unfolding basic_tuple_def by (intro arg_cong2 [of _ _ _ _ plus] foldl_cong) auto

lemma scaled_tuple_cong:
  "(\<And>i. start \<le> i \<Longrightarrow> es ! i = es' ! i) \<Longrightarrow> scaled_tuple es start n params = scaled_tuple es' start n params"
  unfolding scaled_tuple_def by (intro arg_cong2 [of _ _ _ _ plus] foldl_cong) auto

lemma read_offset_pos: "0 < compute_read_term_polynomial_offset S i"
  by (induction i) (auto simp: LOOKUP_READ_PREDICATE_START_def LOOKUP_WRITE_TERM_PREDICATE_START_def
    LOOKUP_READ_TERM_PREDICATE_START_def LOOKUP_READ_COUNT_START_def split: read_term_type.split)

lemma write_offset_pos: "0 < compute_write_term_polynomial_offset S i"
  by (induction i) (auto simp: read_offset_pos split: write_term_type.split)

text \<open>The first column of the tuple is the column of inverses and only that.\<close>

locale lookup_columns =
  fixes S :: "('r, 'f::field) lookup_settings"
  assumes some_read: "READ_TERM_TYPES S \<noteq> []"
    and entities_set: "get_const_entities S (set_first_entity S v row) = (get_const_entities S row)[0 := v]"
    and entities_nonempty: "get_const_entities S row \<noteq> []"
    and settings_exists_set: "settings_inverse_exists S (set_first_entity S v row) = settings_inverse_exists S row"
    and settings_read_set: "settings_read_term S i (set_first_entity S v row) params = settings_read_term S i row params"
    and settings_write_set: "settings_write_term S i (set_first_entity S v row) params = settings_write_term S i row params"
begin

lemma entity_set: "0 < i \<Longrightarrow> get_const_entities S (set_first_entity S v row) ! i = get_const_entities S row ! i"
  by (simp add: entities_set)

lemma read_term_set: "lookup_read_term S i (set_first_entity S v row) params = lookup_read_term S i row params"
proof -
  have "get_const_entities S (set_first_entity S v row) ! j = get_const_entities S row ! j"
    if "compute_read_term_polynomial_offset S i \<le> j" for j
    using that read_offset_pos [of S i] entity_set by simp
  then show ?thesis
    unfolding lookup_read_term_def Let_def
    by (auto simp: settings_read_set intro: basic_tuple_cong scaled_tuple_cong split: read_term_type.split)
qed

lemma write_term_set: "lookup_write_term S i (set_first_entity S v row) params = lookup_write_term S i row params"
proof -
  have "get_const_entities S (set_first_entity S v row) ! j = get_const_entities S row ! j"
    if "compute_write_term_polynomial_offset S i \<le> j" for j
    using that write_offset_pos [of S i] entity_set by simp
  then show ?thesis
    unfolding lookup_write_term_def
    by (auto simp: settings_write_set intro: basic_tuple_cong split: write_term_type.split)
qed

end

sublocale lookup_columns \<subseteq> lookup: logderivative "generic_lookup S"
  by unfold_locales
    (simp_all add: generic_lookup_def some_read entities_set entities_nonempty settings_exists_set read_term_set
      write_term_set LOOKUP_WRITE_TERM_PREDICATE_START_def LOOKUP_READ_TERM_PREDICATE_START_def LOOKUP_READ_COUNT_START_def)

section \<open>One lookup in a row\<close>

text \<open>The number a tuple of columns stands for, before gamma is added.\<close>

definition tuple_value :: "'f::field list \<Rightarrow> nat \<Rightarrow> nat \<Rightarrow> 'f \<Rightarrow> 'f" where
  "tuple_value es start n beta = foldl (\<lambda>result i. result * beta + es ! i) 0 [start..<start + n]"

lemma basic_tuple_value: "basic_tuple es start n params = tuple_value es start n (param_beta params) + param_gamma params"
  by (simp add: basic_tuple_def tuple_value_def)

definition read_value :: "('r, 'f::field) lookup_settings \<Rightarrow> 'f \<Rightarrow> 'r \<Rightarrow> 'f" where
  "read_value S beta row = tuple_value (get_const_entities S row) 4 (LOOKUP_TUPLE_SIZE S) beta"

definition write_value :: "('r, 'f::field) lookup_settings \<Rightarrow> 'f \<Rightarrow> 'r \<Rightarrow> 'f" where
  "write_value S beta row =
     tuple_value (get_const_entities S row) (4 + LOOKUP_TUPLE_SIZE S) (LOOKUP_TUPLE_SIZE S) beta"

definition is_read :: "('r, 'f::field) lookup_settings \<Rightarrow> 'r \<Rightarrow> bool" where
  "is_read S row \<longleftrightarrow> get_const_entities S row ! 2 = 1"

definition is_write :: "('r, 'f::field) lookup_settings \<Rightarrow> 'r \<Rightarrow> bool" where
  "is_write S row \<longleftrightarrow> get_const_entities S row ! 3 = 1"

text \<open>
  Rows as a prover fills them: the selectors are bits, and the column of inverses is zero where
  there is nothing to invert.
\<close>

definition clean_row :: "('r \<Rightarrow> 'f::field list) \<Rightarrow> 'r \<Rightarrow> bool" where
  "clean_row entities row \<longleftrightarrow>
     entities row ! 2 \<in> {0, 1} \<and> entities row ! 3 \<in> {0, 1} \<and>
     (entities row ! 2 = 0 \<and> entities row ! 3 = 0 \<longrightarrow> entities row ! 0 = 0)"

text \<open>The sums of both subrelations over all rows, as the builders of circuits check them.\<close>

definition lookup_result :: "('r, 'f::field) lookup_settings \<Rightarrow> 'f RelationParameters \<Rightarrow> 'r list \<Rightarrow> 'f \<times> 'f" where
  "lookup_result S params rows =
     foldl (accumulate_lookup (generic_lookup S) params 1) (0, 0)
       (compute_logderivative_inverse (generic_lookup S) params rows)"

definition permutation_result ::
  "('r, 'f::field) permutation_settings \<Rightarrow> 'f RelationParameters \<Rightarrow> 'r list \<Rightarrow> 'f \<times> 'f" where
  "permutation_result S params rows =
     foldl (accumulate_permutation (generic_permutation S) params 1) (0, 0)
       (compute_logderivative_inverse (generic_permutation S) params rows)"

definition lookup_entries :: "('r, 'f::field) lookup_settings \<Rightarrow> 'f \<Rightarrow> 'r \<Rightarrow> ('f \<times> 'f) list" where
  "lookup_entries S beta row =
     (if is_read S row then [(1, read_value S beta row)] else []) @
     (if is_write S row then [(- (get_const_entities S row ! 1), write_value S beta row)] else [])"

locale single_lookup = lookup_columns S for S :: "('r, 'f::field) lookup_settings" +
  assumes read_types: "READ_TERM_TYPES S = [READ_BASIC_TUPLE]"
    and write_types: "WRITE_TERM_TYPES S = [WRITE_BASIC_TUPLE]"
    and computed: "inverse_polynomial_is_computed_at_row S row \<longleftrightarrow> is_read S row \<or> is_write S row"
    and exists: "settings_inverse_exists S row = get_const_entities S row ! 2 + get_const_entities S row ! 3 -
      get_const_entities S row ! 2 * get_const_entities S row ! 3"
begin

lemmas start_defs = LOOKUP_READ_COUNT_START_def LOOKUP_READ_TERM_PREDICATE_START_def
  LOOKUP_WRITE_TERM_PREDICATE_START_def LOOKUP_READ_PREDICATE_START_def

lemma terms_eq:
  "logderivative_terms (generic_lookup S) params row =
     [read_value S (param_beta params) row + param_gamma params, write_value S (param_beta params) row + param_gamma params]"
  by (simp add: logderivative_terms_def generic_lookup_def lookup_read_term_def lookup_write_term_def read_types write_types
    basic_tuple_value read_value_def write_value_def start_defs numeral_eq_Suc)

lemma sum_eq:
  assumes "clean_row (get_const_entities S) row"
  shows "lookup_terms_sum (generic_lookup S) params row =
    fractions (lookup_entries S (param_beta params) row) (param_gamma params)"
  using assms
  by (auto simp: lookup_terms_sum_def generic_lookup_def lookup_read_term_def lookup_write_term_def read_types write_types
    basic_tuple_value read_value_def write_value_def start_defs numeral_eq_Suc lookup_entries_def is_read_def is_write_def
    clean_row_def)

lemma result_eq:
  assumes clean: "\<And>row. row \<in> set rows \<Longrightarrow> clean_row (get_const_entities S) row"
    and poles: "\<And>row. row \<in> set rows \<Longrightarrow> is_read S row \<or> is_write S row \<Longrightarrow>
      read_value S (param_beta params) row + param_gamma params \<noteq> 0 \<and> write_value S (param_beta params) row + param_gamma params \<noteq> 0"
  shows "lookup_result S params rows =
    (0, fractions (concat (map (lookup_entries S (param_beta params)) rows)) (param_gamma params))"
proof -
  have [simp]: "operation_exists_at_row (generic_lookup S) = (\<lambda>row. is_read S row \<or> is_write S row)"
    by (auto simp: generic_lookup_def computed)
  have 1: "compute_inverse_exists (generic_lookup S) row = of_bool (operation_exists_at_row (generic_lookup S) row)"
    if "row \<in> set rows" for row
    using clean [OF that] by (auto simp: generic_lookup_def exists computed is_read_def is_write_def clean_row_def)
  have 2: "get_inverse (generic_lookup S) row = 0"
    if "row \<in> set rows" "\<not> operation_exists_at_row (generic_lookup S) row" for row
    using clean [OF that(1)] that(2) by (auto simp: generic_lookup_def computed is_read_def is_write_def clean_row_def)
  have 3: "0 \<notin> set (logderivative_terms (generic_lookup S) params row)"
    if "row \<in> set rows" "operation_exists_at_row (generic_lookup S) row" for row
    using poles [OF that(1)] that(2) unfolding terms_eq by (auto simp: eq_commute [of 0])
  have "(\<Sum>row\<leftarrow>filter (\<lambda>row. is_read S row \<or> is_write S row) rows. lookup_terms_sum (generic_lookup S) params row) =
      fractions (concat (map (lookup_entries S (param_beta params)) rows)) (param_gamma params)"
    using clean by (induction rows) (auto simp: sum_eq lookup_entries_def)
  then show ?thesis
    unfolding lookup_result_def
    by (subst lookup.accumulate_table) (use 1 2 3 in simp_all)
qed

lemma weight_eq:
  "weight (concat (map (lookup_entries S beta) rows)) u =
     of_nat (length (filter (\<lambda>row. is_read S row \<and> read_value S beta row = u) rows)) -
     (\<Sum>row\<leftarrow>filter (\<lambda>row. is_write S row \<and> write_value S beta row = u) rows. get_const_entities S row ! 1)"
  by (induction rows) (auto simp: lookup_entries_def)

end


section \<open>A permutation as a lookup\<close>

definition perm_lookup :: "('r, 'f::field) permutation_settings \<Rightarrow> ('r, 'f) lookup_settings" where
  "perm_lookup S =
     \<lparr>READ_TERM_TYPES = [READ_BASIC_TUPLE], WRITE_TERM_TYPES = [WRITE_BASIC_TUPLE],
      LOOKUP_TUPLE_SIZE = COLUMNS_PER_SET S, INVERSE_EXISTS_POLYNOMIAL_DEGREE = 2,
      READ_TERM_DEGREE = 0, WRITE_TERM_DEGREE = 0,
      inverse_polynomial_is_computed_at_row = perm_is_computed_at_row S,
      settings_inverse_exists = perm_inverse_exists S,
      get_const_entities = (\<lambda>row. (perm_const_entities S row)[1 := 1]),
      set_first_entity = perm_set_first_entity S,
      settings_read_term = (\<lambda>i row params. 0),
      settings_write_term = (\<lambda>i row params. 0)\<rparr>"

lemma perm_lookup_sel:
  "READ_TERM_TYPES (perm_lookup S) = [READ_BASIC_TUPLE]" "WRITE_TERM_TYPES (perm_lookup S) = [WRITE_BASIC_TUPLE]"
  "LOOKUP_TUPLE_SIZE (perm_lookup S) = COLUMNS_PER_SET S"
  "inverse_polynomial_is_computed_at_row (perm_lookup S) = perm_is_computed_at_row S"
  "settings_inverse_exists (perm_lookup S) = perm_inverse_exists S"
  "get_const_entities (perm_lookup S) = (\<lambda>row. (perm_const_entities S row)[1 := 1])"
  "set_first_entity (perm_lookup S) = perm_set_first_entity S"
  "settings_read_term (perm_lookup S) i row params = 0" "settings_write_term (perm_lookup S) i row params = 0"
  by (simp_all add: perm_lookup_def)

text \<open>The values of the two sets in a row.\<close>

definition first_value :: "('r, 'f::field) permutation_settings \<Rightarrow> 'f \<Rightarrow> 'r \<Rightarrow> 'f" where
  "first_value S beta row = tuple_value (perm_const_entities S row) 4 (COLUMNS_PER_SET S) beta"

definition second_value :: "('r, 'f::field) permutation_settings \<Rightarrow> 'f \<Rightarrow> 'r \<Rightarrow> 'f" where
  "second_value S beta row = tuple_value (perm_const_entities S row) (4 + COLUMNS_PER_SET S) (COLUMNS_PER_SET S) beta"

definition in_first :: "('r, 'f::field) permutation_settings \<Rightarrow> 'r \<Rightarrow> bool" where
  "in_first S row \<longleftrightarrow> perm_const_entities S row ! 2 = 1"

definition in_second :: "('r, 'f::field) permutation_settings \<Rightarrow> 'r \<Rightarrow> bool" where
  "in_second S row \<longleftrightarrow> perm_const_entities S row ! 3 = 1"

locale permutation_columns =
  fixes S :: "('r, 'f::field) permutation_settings"
  assumes perm_set: "perm_const_entities S (perm_set_first_entity S v row) = (perm_const_entities S row)[0 := v]"
    and perm_length: "length (perm_const_entities S row) = 4 + 2 * COLUMNS_PER_SET S"
    and perm_computed: "perm_is_computed_at_row S row \<longleftrightarrow> in_first S row \<or> in_second S row"
begin

lemma exists_unset: "perm_inverse_exists S (perm_set_first_entity S v row) = perm_inverse_exists S row"
  by (simp add: perm_inverse_exists_def perm_set)

lemma perm_const_nonempty: "perm_const_entities S row \<noteq> []"
  using perm_length [of row] by (metis add_is_0 list.size(3) zero_neq_numeral)

lemma tuple_entities: "2 \<le> start \<Longrightarrow> tuple_value (es[1 := 1]) start n beta = tuple_value es start n beta"
  unfolding tuple_value_def by (rule foldl_cong) auto

lemma values_eq:
  "read_value (perm_lookup S) = first_value S" "write_value (perm_lookup S) = second_value S"
  "is_read (perm_lookup S) = in_first S" "is_write (perm_lookup S) = in_second S"
  by (intro ext; simp add: read_value_def write_value_def first_value_def second_value_def is_read_def is_write_def
    in_first_def in_second_def perm_lookup_sel tuple_entities [simplified])+

end

sublocale permutation_columns \<subseteq> as_lookup: single_lookup "perm_lookup S"
proof unfold_locales
  fix row
  show "inverse_polynomial_is_computed_at_row (perm_lookup S) row \<longleftrightarrow>
      is_read (perm_lookup S) row \<or> is_write (perm_lookup S) row"
    by (simp add: values_eq perm_lookup_sel perm_computed)
qed (simp_all add: perm_lookup_sel perm_set perm_const_nonempty exists_unset perm_inverse_exists_def Let_def
  list_update_swap [of 0 "Suc 0"])

context permutation_columns
begin

lemma generic_permutation_eq:
  "accumulate_permutation (generic_permutation S) = accumulate_lookup (generic_lookup (perm_lookup S))"
  "compute_logderivative_inverse (generic_permutation S) = compute_logderivative_inverse (generic_lookup (perm_lookup S))"
proof -
  have term_eq: "lookup_read_term (perm_lookup S) 0 = perm_read_term S" "lookup_write_term (perm_lookup S) 0 = perm_write_term S"
    by (intro ext; simp add: lookup_read_term_def lookup_write_term_def perm_read_term_def perm_write_term_def
      basic_tuple_value perm_lookup_sel as_lookup.start_defs PERMUTATION_SETS_START_def tuple_entities [simplified] numeral_eq_Suc)+
  have "1 < length (perm_const_entities S row)" for row
    by (simp add: perm_length)
  then have sel: "(perm_const_entities S row)[Suc 0 := 1] ! Suc 0 = 1" for row
    by simp
  show "accumulate_permutation (generic_permutation S) = accumulate_lookup (generic_lookup (perm_lookup S))"
    by (subst accumulate_permutation_eq; (intro ext)?)
      (simp_all add: accumulate_lookup_def logderivative_terms_def generic_permutation_def generic_lookup_def term_eq
        as_lookup.start_defs Let_def perm_lookup_sel sel numeral_eq_Suc)
  show "compute_logderivative_inverse (generic_permutation S) = compute_logderivative_inverse (generic_lookup (perm_lookup S))"
    by (intro ext) (simp add: compute_logderivative_inverse_def logderivative_denominator_def generic_permutation_def
      generic_lookup_def term_eq perm_lookup_sel cong: if_cong)
qed

lemma permutation_result_eq: "permutation_result S params rows = lookup_result (perm_lookup S) params rows"
  by (simp add: permutation_result_def lookup_result_def generic_permutation_eq)

end


section \<open>What the argument proves\<close>

text \<open>
  Every value is read as often as the counts of the rows that write it say; the two sets of a
  permutation are the same multiset.
\<close>

definition lookup_holds :: "('r, 'f::field) lookup_settings \<Rightarrow> 'f \<Rightarrow> 'r list \<Rightarrow> bool" where
  "lookup_holds S beta rows \<longleftrightarrow>
     (\<forall>u. of_nat (length (filter (\<lambda>row. is_read S row \<and> read_value S beta row = u) rows)) =
       (\<Sum>row\<leftarrow>filter (\<lambda>row. is_write S row \<and> write_value S beta row = u) rows. get_const_entities S row ! 1))"

definition permutation_holds :: "('r, 'f::field) permutation_settings \<Rightarrow> 'f \<Rightarrow> 'r list \<Rightarrow> bool" where
  "permutation_holds S beta rows \<longleftrightarrow>
     mset (map (first_value S beta) (filter (in_first S) rows)) =
     mset (map (second_value S beta) (filter (in_second S) rows))"

text \<open>No value that takes part is a pole for this gamma.\<close>

definition lookup_regular :: "('r, 'f::field) lookup_settings \<Rightarrow> 'f \<Rightarrow> 'f \<Rightarrow> 'r list \<Rightarrow> bool" where
  "lookup_regular S beta gamma rows \<longleftrightarrow>
     list_all (\<lambda>row. is_read S row \<or> is_write S row \<longrightarrow>
       read_value S beta row + gamma \<noteq> 0 \<and> write_value S beta row + gamma \<noteq> 0) rows"

definition permutation_regular :: "('r, 'f::field) permutation_settings \<Rightarrow> 'f \<Rightarrow> 'f \<Rightarrow> 'r list \<Rightarrow> bool" where
  "permutation_regular S beta gamma rows \<longleftrightarrow>
     list_all (\<lambda>row. in_first S row \<or> in_second S row \<longrightarrow>
       first_value S beta row + gamma \<noteq> 0 \<and> second_value S beta row + gamma \<noteq> 0) rows"

lemma entities_after:
  assumes "\<And>v row. E (set_inverse R v row) = E row"
  shows "map E (compute_logderivative_inverse R params rows) = map E rows"
proof -
  have "map E (map2 (set_inverse R) vs rows) = map E rows" if "length vs = length rows" for vs
    using that by (induction vs rows rule: list_induct2) (simp_all add: assms)
  then show ?thesis
    by (simp add: compute_logderivative_inverse_def batch_invert_eq)
qed

context single_lookup
begin

lemma result:
  assumes "list_all (clean_row (get_const_entities S)) rows" and "lookup_regular S beta gamma rows"
  shows "lookup_result S \<lparr>param_beta = beta, param_gamma = gamma\<rparr> rows =
    (0, fractions (concat (map (lookup_entries S beta) rows)) gamma)"
  using result_eq [of rows "\<lparr>param_beta = beta, param_gamma = gamma\<rparr>"] assms
  by (auto simp: lookup_regular_def list_all_iff)

lemma weightless_iff: "(\<forall>u. weight (concat (map (lookup_entries S beta) rows)) u = 0) \<longleftrightarrow> lookup_holds S beta rows"
  by (simp add: weight_eq lookup_holds_def)

lemma passes:
  assumes "list_all (clean_row (get_const_entities S)) rows" and "lookup_regular S beta gamma rows"
    and "lookup_holds S beta rows"
  shows "lookup_result S \<lparr>param_beta = beta, param_gamma = gamma\<rparr> rows = (0, 0)"
  using assms(3) unfolding result [OF assms(1,2)] weightless_iff [symmetric] by (simp add: fractions_weightless)

lemma argument:
  assumes clean: "list_all (clean_row (get_const_entities S)) rows"
    and "finite A" and "2 * length rows \<le> card A"
    and poles: "\<And>gamma. gamma \<in> A \<Longrightarrow> lookup_regular S beta gamma rows"
  shows "(\<forall>gamma\<in>A. lookup_result S \<lparr>param_beta = beta, param_gamma = gamma\<rparr> rows = (0, 0)) \<longleftrightarrow> lookup_holds S beta rows"
proof -
  define es where "es = concat (map (lookup_entries S beta) rows)"
  have "v + gamma \<noteq> 0" if "gamma \<in> A" "v \<in> snd ` set es" for gamma v
    using that poles [OF that(1)] by (auto simp: es_def lookup_entries_def lookup_regular_def list_all_iff split: if_splits)
  moreover have "length es \<le> 2 * length rows"
    unfolding es_def by (induction rows) (auto simp: lookup_entries_def)
  ultimately have "(\<forall>gamma\<in>A. fractions es gamma = 0) \<longleftrightarrow> lookup_holds S beta rows"
    using fractions_zero_iff [OF assms(2), of es] assms(3) weightless_iff by (simp add: es_def)
  then show ?thesis
    using result [OF clean poles] by (simp add: es_def)
qed

lemma result_transfer:
  assumes "map (get_const_entities S) rows' = map (get_const_entities S) rows"
    and "list_all (clean_row (get_const_entities S)) rows" and "lookup_regular S beta gamma rows"
  shows "lookup_result S \<lparr>param_beta = beta, param_gamma = gamma\<rparr> rows' = lookup_result S \<lparr>param_beta = beta, param_gamma = gamma\<rparr> rows"
proof -
  have "length rows' = length rows"
    using assms(1) by (metis length_map)
  then have "list_all (clean_row (get_const_entities S)) rows' \<and> lookup_regular S beta gamma rows' \<and>
      map (lookup_entries S beta) rows' = map (lookup_entries S beta) rows"
    using assms
    by (induction rows' rows rule: list_induct2)
      (auto simp: clean_row_def lookup_regular_def lookup_entries_def is_read_def is_write_def read_value_def write_value_def)
  then show ?thesis
    using result [OF assms(2,3)] result [of rows' beta gamma] by simp
qed

end

context permutation_columns
begin

lemma perm_clean:
  "list_all (clean_row (perm_const_entities S)) rows \<Longrightarrow> list_all (clean_row (get_const_entities (perm_lookup S))) rows"
  by (auto simp: list_all_iff clean_row_def perm_lookup_sel)

lemma regular_eq: "lookup_regular (perm_lookup S) = permutation_regular S"
  by (intro ext) (simp add: lookup_regular_def permutation_regular_def values_eq)

lemma sum_ones: "(\<Sum>row\<leftarrow>rows. get_const_entities (perm_lookup S) row ! 1) = of_nat (length rows)"
proof -
  have "1 < length (perm_const_entities S row)" for row
    by (simp add: perm_length)
  then show ?thesis
    by (induction rows) (simp_all add: perm_lookup_sel)
qed

lemma count_filter: "count (mset (map f (filter P rows))) u = length (filter (\<lambda>row. P row \<and> f row = u) rows)"
  by (induction rows) auto

lemma holds_eq:
  assumes inj: "inj_on (of_nat :: nat \<Rightarrow> 'f) {..length rows}"
  shows "lookup_holds (perm_lookup S) beta rows \<longleftrightarrow> permutation_holds S beta rows"
proof -
  have "lookup_holds (perm_lookup S) beta rows \<longleftrightarrow>
      (\<forall>u. of_nat (length (filter (\<lambda>row. in_first S row \<and> first_value S beta row = u) rows)) =
        (of_nat (length (filter (\<lambda>row. in_second S row \<and> second_value S beta row = u) rows)) :: 'f))"
    unfolding lookup_holds_def sum_ones by (simp add: values_eq)
  also have "\<dots> \<longleftrightarrow> (\<forall>u. length (filter (\<lambda>row. in_first S row \<and> first_value S beta row = u) rows) =
      length (filter (\<lambda>row. in_second S row \<and> second_value S beta row = u) rows))"
    by (simp add: inj_on_eq_iff [OF inj])
  finally show ?thesis
    unfolding permutation_holds_def multiset_eq_iff count_filter .
qed

lemma argument_perm:
  assumes "list_all (clean_row (perm_const_entities S)) rows" and "finite A" and "2 * length rows \<le> card A"
    and "inj_on (of_nat :: nat \<Rightarrow> 'f) {..length rows}"
    and "\<And>gamma. gamma \<in> A \<Longrightarrow> permutation_regular S beta gamma rows"
  shows "(\<forall>gamma\<in>A. permutation_result S \<lparr>param_beta = beta, param_gamma = gamma\<rparr> rows = (0, 0)) \<longleftrightarrow>
    permutation_holds S beta rows"
  using as_lookup.argument [OF perm_clean [OF assms(1)] assms(2,3), of beta] assms(5)
  by (simp add: permutation_result_eq regular_eq holds_eq [OF assms(4)])

lemma result_transfer_perm:
  assumes "map (perm_const_entities S) rows' = map (perm_const_entities S) rows"
    and "list_all (clean_row (perm_const_entities S)) rows" and "permutation_regular S beta gamma rows"
  shows "permutation_result S \<lparr>param_beta = beta, param_gamma = gamma\<rparr> rows' = permutation_result S \<lparr>param_beta = beta, param_gamma = gamma\<rparr> rows"
proof -
  have "map (get_const_entities (perm_lookup S)) rows' = map (get_const_entities (perm_lookup S)) rows"
    using arg_cong [OF assms(1), of "map (\<lambda>es. es[1 := 1])"] by (simp add: perm_lookup_sel comp_def)
  then show ?thesis
    unfolding permutation_result_eq using perm_clean [OF assms(2)] assms(3)
    by (intro as_lookup.result_transfer) (simp_all only: regular_eq)
qed

end

text \<open>
  C16: The relation for a lookup, for settings with one basic tuple that is read and one basic tuple
  of the table, whose inverse is computed where one of the two selectors is set, over rows whose two
  selectors are bits and whose inverse column is zero where neither selector is set. For a fixed
  beta, which compresses a tuple to one value, and at least twice as many challenges gamma as rows,
  all of them away from the poles: both sums are zero for every gamma if and only if for every value
  the number of its reads, as an element of the field, is the sum of the counts in the rows of the
  table that hold it.
\<close>

theorem lookup_argument:
  assumes "single_lookup S" and "list_all (clean_row (get_const_entities S)) rows"
    and "finite A" and "2 * length rows \<le> card A" and "\<And>gamma. gamma \<in> A \<Longrightarrow> lookup_regular S beta gamma rows"
  shows "(\<forall>gamma\<in>A. lookup_result S \<lparr>param_beta = beta, param_gamma = gamma\<rparr> rows = (0, 0)) \<longleftrightarrow> lookup_holds S beta rows"
  using single_lookup.argument assms by blast

text \<open>
  C17: The relation for a permutation, for settings whose inverse is computed where one of the two
  selectors is set, over rows whose two selectors are bits and whose inverse column is zero where
  neither selector is set. For a fixed beta, which compresses a tuple to one value, and at least
  twice as many challenges gamma as rows, all of them away from the poles: both sums are zero for
  every gamma if and only if the values of the enabled tuples of the two sets are the same multiset,
  for a field whose characteristic is larger than the table.
\<close>

theorem permutation_argument:
  assumes "permutation_columns S" and "list_all (clean_row (perm_const_entities S)) rows"
    and "finite A" and "2 * length rows \<le> card A" and "inj_on (of_nat :: nat \<Rightarrow> 'f::field) {..length rows}"
    and "\<And>gamma. gamma \<in> A \<Longrightarrow> permutation_regular S (beta :: 'f) gamma rows"
  shows "(\<forall>gamma\<in>A. permutation_result S \<lparr>param_beta = beta, param_gamma = gamma\<rparr> rows = (0, 0)) \<longleftrightarrow>
    permutation_holds S beta rows"
  using permutation_columns.argument_perm assms by blast

end
