(* ===== verification/Circuit_Check.thy ===== *)
theory Circuit_Check
  imports Generic_Relations Bitop
begin

text \<open>
  What the generated circuit builders share, proof_system/circuit_builder/generated: the size of
  the circuit and the two checks of check_circuit, for a relation that holds on every row and
  for a relation on the whole table.
\<close>

section \<open>The size of the circuit\<close>

definition get_circuit_subgroup_size :: "nat \<Rightarrow> nat" where
  "get_circuit_subgroup_size num_gates =
     (let num_rows = of_nat num_gates :: u64;
          num_rows_log2 = unat (get_msb64 num_rows)
      in unat (push_bit (num_rows_log2 + (if push_bit num_rows_log2 1 = num_rows then 0 else 1)) (1 :: u64)))"

lemma unat_push_1: "k < 64 \<Longrightarrow> unat (push_bit k (1 :: u64)) = 2 ^ k"
proof -
  assume "k < 64"
  then have "(2 :: int) ^ k < 2 ^ 64"
    by (intro power_strict_increasing) simp_all
  then have "uint (push_bit k (1 :: u64)) = 2 ^ k"
    by (simp add: uint_push_bit64 del: push_bit_of_1)
  then have "int (unat (push_bit k (1 :: u64))) = int (2 ^ k)"
    by simp
  then show ?thesis
    by (simp only: of_nat_eq_iff)
qed

lemma floor_log_bracket: "0 < n \<Longrightarrow> \<exists>k. 2 ^ k \<le> n \<and> n < 2 ^ Suc k" for n :: nat
  using ex_power_ivl1 [of 2 n] by auto

lemma subgroup_size:
  assumes "2 ^ k \<le> n" and "n < 2 ^ Suc k" and "n \<le> 2 ^ 63"
  shows "get_circuit_subgroup_size n = (if n = 2 ^ k then 2 ^ k else 2 ^ Suc k)"
proof -
  have "n < 2 ^ 64"
    using assms(3) by (rule le_less_trans) simp
  then have n: "unat (of_nat n :: u64) = n"
    by (simp add: unat_of_nat take_bit_nat_eq_self)
  have "uint (of_nat n :: u64) = int n"
    unfolding uint_nat n ..
  moreover have "(2 :: int) ^ k \<le> int n" "int n < 2 ^ Suc k"
    using assms(1,2) by (metis of_nat_numeral of_nat_power of_nat_le_iff, metis of_nat_numeral of_nat_power of_nat_less_iff)
  ultimately have "2 ^ k \<le> uint (of_nat n :: u64)" "uint (of_nat n :: u64) < 2 ^ Suc k"
    by simp_all
  note msb = get_msb64_bracket [OF this]
  then have k: "unat (get_msb64 (of_nat n)) = k"
    by (simp add: unat_of_nat)
  have "push_bit k 1 = (of_nat n :: u64) \<longleftrightarrow> n = 2 ^ k"
    using n unat_push_1 [OF msb(2)] by (auto simp: word_unat_eq_iff)
  moreover have "Suc k < 64" if "n \<noteq> 2 ^ k"
  proof (rule ccontr)
    assume "\<not> Suc k < 64"
    then have "63 \<le> k"
      by simp
    then have "(2 :: nat) ^ 63 \<le> 2 ^ k"
      by (rule power_increasing) simp
    then show False
      using assms(1,3) that by simp
  qed
  ultimately show ?thesis
    using unat_push_1 [OF msb(2)] unat_push_1 [of "Suc k"]
    by (auto simp: get_circuit_subgroup_size_def k Let_def)
qed

lemma subgroup_size_0: "get_circuit_subgroup_size 0 = 2"
  by (simp add: get_circuit_subgroup_size_def)

lemma subgroup_size_bounds:
  assumes "n \<le> 2 ^ 63"
  shows "\<exists>k. get_circuit_subgroup_size n = 2 ^ k \<and> k \<le> 63 \<and> n \<le> 2 ^ k \<and> (if n = 0 then k = 1 else 2 ^ k < 2 * n)"
proof (cases "n = 0")
  case True
  then show ?thesis
    by (intro exI [of _ 1]) (simp add: subgroup_size_0)
next
  case False
  then obtain k where k: "2 ^ k \<le> n" "n < 2 ^ Suc k"
    using floor_log_bracket by blast
  then have "(2 :: nat) ^ k \<le> 2 ^ 63"
    using assms by (rule_tac le_trans)
  then have "k \<le> 63"
    by (rule power_le_imp_le_exp [rotated]) simp
  moreover have "k \<noteq> 63" if "n \<noteq> 2 ^ k"
    using that k(1) assms by auto
  ultimately show ?thesis
    using subgroup_size [OF k assms] k False
    by (cases "n = 2 ^ k") (auto intro!: exI [of _ k] exI [of _ "Suc k"])
qed

lemma subgroup_size_fits:
  assumes "n \<le> 2 ^ 63"
  shows "n \<le> get_circuit_subgroup_size n" "get_circuit_subgroup_size n \<le> 2 ^ 63" "0 < get_circuit_subgroup_size n"
proof -
  obtain k where k: "get_circuit_subgroup_size n = 2 ^ k" "k \<le> 63" "n \<le> 2 ^ k"
    using subgroup_size_bounds [OF assms] by blast
  then show "n \<le> get_circuit_subgroup_size n" "0 < get_circuit_subgroup_size n"
    by simp_all
  show "get_circuit_subgroup_size n \<le> 2 ^ 63"
    unfolding k(1) using k(2) by (rule power_increasing) simp
qed

text \<open>
  The number of rows of the circuit is the smallest power of two that the trace fits into,
  at most 2^63 for a trace of at most 2^63 rows; an empty trace has two rows.
\<close>

theorem subgroup_size_least:
  assumes "n \<le> 2 ^ 63"
  shows "\<exists>k. get_circuit_subgroup_size n = 2 ^ k \<and> k \<le> 63 \<and> n \<le> 2 ^ k \<and> (if n = 0 then k = 1 else 2 ^ k < 2 * n)"
  using subgroup_size_bounds assms by blast

lemma subgroup_size_least_witness:
  "\<exists>k. get_circuit_subgroup_size 200 = 2 ^ k \<and> 200 \<le> (2 :: nat) ^ k \<and> (2 :: nat) ^ k < 400"
  using subgroup_size_least [of 200] by auto

text \<open>The rows that fill the table up.\<close>

lemma list_all_pad: "P zero \<Longrightarrow> list_all P (rows @ replicate n zero) \<longleftrightarrow> list_all P rows"
  by (induction n) simp_all

lemma filter_pad: "\<not> P zero \<Longrightarrow> filter P (rows @ replicate n zero) = filter P rows"
  by simp

section \<open>Relations on every row\<close>

datatype circuit_error =
    Relation_failed string nat nat
  | Shift_of_nonzero

text \<open>The values of the subrelations are accumulated over the rows until one is not zero.\<close>

fun evaluate_rows :: "string \<Rightarrow> ('r \<Rightarrow> 'f::field list) \<Rightarrow> 'f list \<Rightarrow> nat \<Rightarrow> 'r list \<Rightarrow> circuit_error + bool" where
  "evaluate_rows relation_name accumulate result i [] = Inr True"
| "evaluate_rows relation_name accumulate result i (row # rows) =
     (let result = map2 (+) result (accumulate row)
      in case find (\<lambda>j. result ! j \<noteq> 0) [0..<length result] of
           Some j \<Rightarrow> Inl (Relation_failed relation_name j i)
         | None \<Rightarrow> evaluate_rows relation_name accumulate result (Suc i) rows)"

definition evaluate_relation :: "string \<Rightarrow> nat \<Rightarrow> ('r \<Rightarrow> 'f::field list) \<Rightarrow> 'r list \<Rightarrow> circuit_error + bool" where
  "evaluate_relation relation_name subrelations accumulate rows =
     evaluate_rows relation_name accumulate (replicate subrelations 0) 0 rows"

definition row_holds :: "('r \<Rightarrow> 'f::field list) \<Rightarrow> 'r \<Rightarrow> bool" where
  "row_holds accumulate row \<longleftrightarrow> list_all (\<lambda>v. v = 0) (accumulate row)"

lemma map2_plus_zeros: "length vs = n \<Longrightarrow> map2 (+) (replicate n 0) vs = (vs :: 'f::field list)"
  by (induction vs arbitrary: n) auto

lemma first_nonzero:
  "\<not> list_all (\<lambda>v. v = 0) vs \<Longrightarrow> length (takeWhile (\<lambda>v. v = 0) vs) < length vs \<and>
     vs ! length (takeWhile (\<lambda>v. v = 0) vs) \<noteq> 0 \<and> (\<forall>j<length (takeWhile (\<lambda>v. v = 0) vs). vs ! j = 0)"
  by (induction vs) (auto simp: nth_Cons split: nat.split)

lemma evaluate_rows_first:
  assumes "\<And>row. length (accumulate row) = n"
  shows "evaluate_rows name accumulate (replicate n 0) i rows =
    (case find (\<lambda>(row, k). \<not> row_holds accumulate row) (zip rows [i..<i + length rows]) of
       None \<Rightarrow> Inr True
     | Some (row, k) \<Rightarrow> Inl (Relation_failed name (length (takeWhile (\<lambda>v. v = 0) (accumulate row))) k))"
proof (induction rows arbitrary: i)
  case Nil
  show ?case
    by simp
next
  case (Cons row rows)
  have sum: "map2 (+) (replicate n 0) (accumulate row) = accumulate row"
    using assms by (rule map2_plus_zeros)
  have zip: "zip (row # rows) [i..<i + length (row # rows)] = (row, i) # zip rows [Suc i..<Suc i + length rows]"
    by (simp add: upt_conv_Cons del: upt_Suc)
  show ?case
  proof (cases "row_holds accumulate row")
    case True
    then have "accumulate row = replicate n 0"
      using assms by (auto simp: row_holds_def list_all_iff intro!: replicate_eqI)
    moreover have "find (\<lambda>j. replicate n (0 :: 'b) ! j \<noteq> 0) [0..<n] = None"
      by (simp add: find_None_iff)
    ultimately show ?thesis
      using True Cons.IH [of "Suc i"] unfolding zip evaluate_rows.simps sum Let_def by (simp del: upt_Suc)
  next
    case False
    define m where "m = length (takeWhile (\<lambda>v. v = 0) (accumulate row))"
    have m: "m < n" "accumulate row ! m \<noteq> 0" "\<forall>j<m. accumulate row ! j = 0"
      using first_nonzero [of "accumulate row"] False by (simp_all add: m_def assms row_holds_def)
    then have "find (\<lambda>j. accumulate row ! j \<noteq> 0) [0..<n] = Some m"
      by (auto simp: find_Some_iff intro!: exI [of _ m])
    then show ?thesis
      using False unfolding zip evaluate_rows.simps sum Let_def by (simp add: assms m_def)
  qed
qed

lemma evaluate_relation_iff:
  assumes "\<And>row. length (accumulate row) = n"
  shows "evaluate_relation name n accumulate rows = Inr True \<longleftrightarrow> (\<forall>row\<in>set rows. row_holds accumulate row)"
    and "evaluate_relation name n accumulate rows \<noteq> Inr False"
proof -
  define res where "res = find (\<lambda>(row, k). \<not> row_holds accumulate row) (zip rows [0..<length rows])"
  have "set rows = fst ` set (zip rows [0..<length rows])"
    by (metis diff_zero length_upt map_fst_zip set_map)
  then have "res = None \<longleftrightarrow> (\<forall>row\<in>set rows. row_holds accumulate row)"
    by (auto simp: res_def find_None_iff)
  moreover have "evaluate_relation name n accumulate rows = (case res of None \<Rightarrow> Inr True
     | Some (row, k) \<Rightarrow> Inl (Relation_failed name (length (takeWhile (\<lambda>v. v = 0) (accumulate row))) k))"
    using evaluate_rows_first [of accumulate n name 0 rows] assms by (simp add: evaluate_relation_def res_def)
  ultimately show "evaluate_relation name n accumulate rows = Inr True \<longleftrightarrow> (\<forall>row\<in>set rows. row_holds accumulate row)"
    "evaluate_relation name n accumulate rows \<noteq> Inr False"
    by (auto split: option.splits prod.splits)
qed

section \<open>Relations on the whole table\<close>

text \<open>The columns, with the inverses that were computed, and whether both sums are zero.\<close>

definition evaluate_lookup ::
  "('r, 'f::field) lookup_settings \<Rightarrow> 'f RelationParameters \<Rightarrow> 'r list \<Rightarrow> 'r list \<times> bool" where
  "evaluate_lookup S params polys =
     (let polys = compute_logderivative_inverse (generic_lookup S) params polys;
          result = foldl (accumulate_lookup (generic_lookup S) params 1) (0, 0) polys
      in (polys, fst result = 0 \<and> snd result = 0))"

definition evaluate_permutation ::
  "('r, 'f::field) permutation_settings \<Rightarrow> 'f RelationParameters \<Rightarrow> 'r list \<Rightarrow> 'r list \<times> bool" where
  "evaluate_permutation S params polys =
     (let polys = compute_logderivative_inverse (generic_permutation S) params polys;
          result = foldl (accumulate_permutation (generic_permutation S) params 1) (0, 0) polys
      in (polys, fst result = 0 \<and> snd result = 0))"

lemma evaluate_lookup_result: "snd (evaluate_lookup S params polys) \<longleftrightarrow> lookup_result S params polys = (0, 0)"
  by (simp add: evaluate_lookup_def lookup_result_def Let_def prod_eq_iff)

lemma evaluate_permutation_result:
  "snd (evaluate_permutation S params polys) \<longleftrightarrow> permutation_result S params polys = (0, 0)"
  by (simp add: evaluate_permutation_def permutation_result_def Let_def prod_eq_iff)

end
