(* ===== verification/Relation_Degrees.thy ===== *)
theory Relation_Degrees
  imports Generic_Relations
begin

text \<open>
  The lengths that GenericLookupRelationImpl and GenericPermutationRelationImpl declare for
  their subrelations, one more than the degree: the prover evaluates a subrelation on a line,
  where every column is a polynomial of degree one, at so many points.
\<close>

section \<open>Degrees of the terms\<close>

text \<open>The columns of a line of rows.\<close>

definition columns_affine :: "('f::field \<Rightarrow> 'f list) \<Rightarrow> bool" where
  "columns_affine es \<longleftrightarrow> (\<forall>i. deg_le 1 (\<lambda>x. es x ! i))"

lemma affine_deg: "columns_affine es \<Longrightarrow> 1 \<le> d \<Longrightarrow> deg_le d (\<lambda>x. es x ! i)"
  unfolding columns_affine_def using deg_le_mono by blast

lemma columns_affine_Nil: "columns_affine (\<lambda>x. [])"
  by (simp add: columns_affine_def deg_le_const del: deg_le.simps)

lemma columns_affine_Cons:
  assumes "deg_le (Suc 0) h" and "columns_affine t"
  shows "columns_affine (\<lambda>x. h x # t x)"
  unfolding columns_affine_def
proof
  fix i
  show "deg_le 1 (\<lambda>x. (h x # t x) ! i)"
    using assms by (cases i) (simp_all add: columns_affine_def del: deg_le.simps)
qed

lemma basic_tuple_deg:
  assumes "columns_affine es"
  shows "deg_le 1 (\<lambda>x. basic_tuple (es x) start n params)"
proof -
  have step: "deg_le 1 (\<lambda>x. foldl (\<lambda>result i. result * b + es x ! i) (r x) is)" if "deg_le 1 r" for r b "is"
    using that
  proof (induction "is" arbitrary: r)
    case (Cons i "is")
    have "deg_le 1 (\<lambda>x. r x * b + es x ! i)"
      using deg_le_cmult [OF Cons.prems, of b] affine_deg [OF assms order_refl]
      by (intro deg_le_add) (simp_all add: mult.commute del: deg_le.simps)
    then show ?case
      using Cons.IH by simp
  qed simp
  then show ?thesis
    unfolding basic_tuple_def using step [OF deg_le_const] by (intro deg_le_add deg_le_const)
qed

lemma scaled_tuple_deg:
  assumes "columns_affine es"
  shows "deg_le 2 (\<lambda>x. scaled_tuple (es x) start n params)"
proof -
  have step: "deg_le 2 (\<lambda>x. foldl (\<lambda>result i. result * b + es x ! (i + 2 * n) - es x ! (i + n) * es x ! i) (r x) is)"
    if "deg_le 2 r" for r b "is"
    using that
  proof (induction "is" arbitrary: r)
    case (Cons i "is")
    have "deg_le (1 + 1) (\<lambda>x. es x ! (i + n) * es x ! i)"
      by (intro deg_le_mult affine_deg [OF assms order_refl])
    then have "deg_le 2 (\<lambda>x. es x ! (i + n) * es x ! i)"
      by (simp add: numeral_eq_Suc del: deg_le.simps)
    then have "deg_le 2 (\<lambda>x. r x * b + es x ! (i + 2 * n) - es x ! (i + n) * es x ! i)"
      using deg_le_cmult [OF Cons.prems, of b] affine_deg [OF assms, of 2]
      by (intro deg_le_add deg_le_diff) (simp_all add: mult.commute del: deg_le.simps)
    then show ?case
      using Cons.IH by simp
  qed simp
  then show ?thesis
    unfolding scaled_tuple_def using step [OF deg_le_const] by (intro deg_le_add deg_le_const)
qed

lemma deg_le_prod_list:
  "list_all2 deg_le ds fs \<Longrightarrow> deg_le (sum_list ds) (\<lambda>x. prod_list (map (\<lambda>f. f x) fs))"
  by (induction rule: list_all2_induct) (simp_all add: deg_le_mult deg_le_const del: deg_le.simps)

section \<open>Lookups\<close>

text \<open>A line of rows, with the degrees that the settings declare for their own terms.\<close>

definition lookup_line :: "('r, 'f::field) lookup_settings \<Rightarrow> 'f RelationParameters \<Rightarrow> ('f \<Rightarrow> 'r) \<Rightarrow> bool" where
  "lookup_line S params line \<longleftrightarrow>
     columns_affine (\<lambda>x. get_const_entities S (line x)) \<and>
     deg_le (INVERSE_EXISTS_POLYNOMIAL_DEGREE S) (\<lambda>x. settings_inverse_exists S (line x)) \<and>
     (\<forall>i. deg_le (READ_TERM_DEGREE S) (\<lambda>x. settings_read_term S i (line x) params)) \<and>
     (\<forall>i. deg_le (WRITE_TERM_DEGREE S) (\<lambda>x. settings_write_term S i (line x) params))"

lemma read_term_deg:
  assumes "lookup_line S params line" and "i < length (READ_TERM_TYPES S)"
  shows "deg_le (read_term_degree S (READ_TERM_TYPES S ! i)) (\<lambda>x. lookup_read_term S i (line x) params)"
  using assms basic_tuple_deg [of "\<lambda>x. get_const_entities S (line x)"] scaled_tuple_deg [of "\<lambda>x. get_const_entities S (line x)"]
  by (cases "READ_TERM_TYPES S ! i")
    (simp_all add: lookup_line_def lookup_read_term_def Let_def read_term_degree_def del: deg_le.simps)

lemma write_term_deg:
  assumes "lookup_line S params line" and "i < length (WRITE_TERM_TYPES S)"
  shows "deg_le (write_term_degree S (WRITE_TERM_TYPES S ! i)) (\<lambda>x. lookup_write_term S i (line x) params)"
  using assms basic_tuple_deg [of "\<lambda>x. get_const_entities S (line x)"]
  by (cases "WRITE_TERM_TYPES S ! i")
    (simp_all add: lookup_line_def lookup_write_term_def write_term_degree_def del: deg_le.simps)

lemma foldl_degrees: "foldl (\<lambda>d t. d + f t) (n :: nat) ts = n + sum_list (map f ts)"
  by (induction ts arbitrary: n) simp_all

lemma terms_product_deg:
  assumes "lookup_line S params line"
  shows "deg_le (compute_read_term_product_degree S + compute_write_term_product_degree S)
    (\<lambda>x. prod_list (logderivative_terms (generic_lookup S) params (line x)))"
proof -
  define rs ws where "rs = map (\<lambda>i x. lookup_read_term S i (line x) params) [0..<length (READ_TERM_TYPES S)]"
    and "ws = map (\<lambda>i x. lookup_write_term S i (line x) params) [0..<length (WRITE_TERM_TYPES S)]"
  have "list_all2 deg_le (map (read_term_degree S) (READ_TERM_TYPES S)) rs"
      "list_all2 deg_le (map (write_term_degree S) (WRITE_TERM_TYPES S)) ws"
    unfolding list_all2_conv_all_nth rs_def ws_def
    using read_term_deg [OF assms] write_term_deg [OF assms] by (simp_all del: deg_le.simps)
  from deg_le_mult [OF this [THEN deg_le_prod_list]] show ?thesis
    by (simp add: compute_read_term_product_degree_def compute_write_term_product_degree_def foldl_degrees
      logderivative_terms_def generic_lookup_def rs_def ws_def comp_def del: deg_le.simps)
qed

lemma first_subrelation_deg:
  assumes line: "lookup_line S params line" and reads: "READ_TERM_TYPES S \<noteq> []"
  shows "deg_le (FIRST_SUBRELATION_LENGTH S - 1) (\<lambda>x. fst (accumulate_lookup (generic_lookup S) params c (0, 0) (line x)))"
proof -
  define d where "d = compute_read_term_product_degree S + compute_write_term_product_degree S"
  define f where "f x = prod_list (logderivative_terms (generic_lookup S) params (line x)) * get_const_entities S (line x) ! 0" for x
  have "deg_le (d + 1) f"
    unfolding f_def d_def using line
    by (intro deg_le_mult terms_product_deg) (simp_all add: lookup_line_def columns_affine_def del: deg_le.simps)
  then have 1: "deg_le (FIRST_SUBRELATION_LENGTH S - 1) f"
    by (rule deg_le_mono [rotated]) (simp add: FIRST_SUBRELATION_LENGTH_def d_def)
  have "deg_le (INVERSE_EXISTS_POLYNOMIAL_DEGREE S) (\<lambda>x. settings_inverse_exists S (line x))"
    using line by (simp add: lookup_line_def del: deg_le.simps)
  then have 2: "deg_le (FIRST_SUBRELATION_LENGTH S - 1) (\<lambda>x. settings_inverse_exists S (line x))"
    by (rule deg_le_mono [rotated]) (simp add: FIRST_SUBRELATION_LENGTH_def)
  have "length (logderivative_terms (generic_lookup S) params row) \<noteq> 0" for row
    using reads by (simp add: logderivative_terms_def generic_lookup_def)
  then have "denominator_products (logderivative_terms (generic_lookup S) params row) !
      (length (logderivative_terms (generic_lookup S) params row) - 1) =
      prod_list (logderivative_terms (generic_lookup S) params row)" for row
    by (subst denominator_products_eq(2)) simp_all
  then have "fst (accumulate_lookup (generic_lookup S) params c (0, 0) (line x)) =
      c * (f x - settings_inverse_exists S (line x))" for x
    by (simp add: accumulate_lookup_def Let_def f_def) (simp add: generic_lookup_def)
  then show ?thesis
    using deg_le_cmult [OF deg_le_diff [OF 1 2], of c] by (simp del: deg_le.simps)
qed

section \<open>Permutations\<close>

lemma two_denominators:
  "denominator_products [a, b] = [a, b * a]" "denominator_accumulator [a, b] y = [y * b, a * y]"
  by (simp_all add: denominator_products_def denominator_accumulator_def denominator_step_def)

lemma permutation_deg:
  assumes "columns_affine (\<lambda>x. perm_const_entities S (line x))"
  shows "deg_le 3 (\<lambda>x. fst (accumulate_permutation (generic_permutation S) params c (0, 0) (line x)))"
    and "deg_le 3 (\<lambda>x. snd (accumulate_permutation (generic_permutation S) params c (0, 0) (line x)))"
proof -
  define es where "es x = perm_const_entities S (line x)" for x
  define r w where "r x = perm_read_term S (line x) params" and "w x = perm_write_term S (line x) params" for x
  have es: "deg_le 1 (\<lambda>x. es x ! i)" for i
    using assms by (simp add: es_def columns_affine_def del: deg_le.simps)
  have rw: "deg_le 1 r" "deg_le 1 w"
    unfolding r_def w_def perm_read_term_def perm_write_term_def using assms by (intro basic_tuple_deg; simp)+
  have "deg_le (1 + 1 + 1) (\<lambda>x. w x * r x * es x ! 0)"
    by (intro deg_le_mult rw es)
  then have product: "deg_le 3 (\<lambda>x. w x * r x * es x ! 0)"
    by (simp add: numeral_eq_Suc del: deg_le.simps)
  have "deg_le 3 (\<lambda>x. es x ! i)" "deg_le 3 (\<lambda>x. es x ! i * es x ! j)" for i j
    by (rule deg_le_mono [OF _ es]; simp) (rule deg_le_mono [OF _ deg_le_mult [OF es es]]; simp)
  then have "deg_le 3 (\<lambda>x. es x ! 2 + es x ! 3 - es x ! 2 * es x ! 3)"
    by (intro deg_le_add deg_le_diff)
  from deg_le_cmult [OF deg_le_diff [OF product this], of c]
  show "deg_le 3 (\<lambda>x. fst (accumulate_permutation (generic_permutation S) params c (0, 0) (line x)))"
    by (simp add: accumulate_permutation_def generic_permutation_def two_denominators perm_inverse_exists_def Let_def
      es_def r_def w_def mult_ac del: deg_le.simps)
  have "deg_le (1 + (1 + 1)) (\<lambda>x. es x ! 2 * (es x ! 0 * w x))" "deg_le (1 + (1 + 1)) (\<lambda>x. es x ! 3 * (r x * es x ! 0))"
    by (intro deg_le_mult rw es)+
  then have "deg_le 3 (\<lambda>x. es x ! 2 * (es x ! 0 * w x) - es x ! 3 * (r x * es x ! 0))"
    by (intro deg_le_diff) (simp_all add: numeral_eq_Suc del: deg_le.simps)
  then show "deg_le 3 (\<lambda>x. snd (accumulate_permutation (generic_permutation S) params c (0, 0) (line x)))"
    by (simp add: accumulate_permutation_def generic_permutation_def two_denominators Let_def es_def r_def w_def
      del: deg_le.simps)
qed

text \<open>
  On a line of rows, every column of it of degree one, both subrelations of a permutation
  are polynomials of a degree less than the length declared for them.
\<close>

theorem permutation_lengths:
  assumes "columns_affine (\<lambda>x. perm_const_entities S (line x))"
  shows "deg_le 3 (\<lambda>x. fst (accumulate_permutation (generic_permutation S) params c (0, 0) (line x))) \<and>
    deg_le 3 (\<lambda>x. snd (accumulate_permutation (generic_permutation S) params c (0, 0) (line x))) \<and>
    3 < PERMUTATION_LENGTH"
  using permutation_deg [OF assms, of params c] by (simp add: PERMUTATION_LENGTH_def del: deg_le.simps)

text \<open>A polynomial of degree three has no fourth difference.\<close>

lemma fourth_difference:
  assumes "deg_le 3 f"
  shows "f 0 - 4 * f 1 + 6 * f 2 - 4 * f 3 + f 4 = 0"
proof -
  have "deg_le (Suc (Suc (Suc 0))) f"
    using assms by (simp add: numeral_eq_Suc del: deg_le.simps)
  then obtain a b c d where "\<And>x. f x = a + x * (b + x * (c + x * d))"
    by auto
  then show ?thesis
    by (simp add: algebra_simps)
qed

end
