(* ===== verification/Avm_Check.thy ===== *)
theory Avm_Check
  imports Avm_Tag_Errors Circuit_Check Relation_Degrees
begin

text \<open>
  The circuit builder of the machine,
  proof_system/circuit_builder/generated/avm_circuit_builder.hpp, with the lookup of tag errors
  of relations/generated/avm/equiv_tag_err.hpp. The columns are given by their rows; a shifted
  column is the column of the next row, zero in the last.
\<close>

section \<open>The lookup of tag errors\<close>

definition equiv_tag_err_settings :: "(AvmFullRow, ff) lookup_settings" where
  "equiv_tag_err_settings =
     \<lparr>READ_TERM_TYPES = [READ_BASIC_TUPLE], WRITE_TERM_TYPES = [WRITE_BASIC_TUPLE],
      LOOKUP_TUPLE_SIZE = 1, INVERSE_EXISTS_POLYNOMIAL_DEGREE = 2,
      READ_TERM_DEGREE = 0, WRITE_TERM_DEGREE = 0,
      inverse_polynomial_is_computed_at_row =
        (\<lambda>r. avm_mem_m_tag_err (mem_cols r) = 1 \<or> avm_main_tag_err (main_cols r) = 1),
      settings_inverse_exists =
        (\<lambda>r. let is_operation = avm_mem_m_tag_err (mem_cols r);
                 is_table_entry = avm_main_tag_err (main_cols r)
             in is_operation + is_table_entry - is_operation * is_table_entry),
      get_const_entities =
        (\<lambda>r. [equiv_tag_err r, equiv_tag_err_counts r, avm_mem_m_tag_err (mem_cols r), avm_main_tag_err (main_cols r),
          avm_mem_m_clk (mem_cols r), avm_main_clk (main_cols r)]),
      set_first_entity = (\<lambda>v r. r\<lparr>equiv_tag_err := v\<rparr>),
      settings_read_term = (\<lambda>i r params. 0), settings_write_term = (\<lambda>i r params. 0)\<rparr>"

interpretation tag_errs: single_lookup equiv_tag_err_settings
  by unfold_locales (auto simp: equiv_tag_err_settings_def is_read_def is_write_def Let_def numeral_eq_Suc)

lemma mem_fill_columns:
  "avm_mem_m_tag_err (mem_fill e nxt mem_zero) = of_bool (m_tag_err e)"
  "avm_mem_m_clk (mem_fill e nxt mem_zero) = ff_of_word (m_clk e)"
  by (simp_all add: mem_fill_def mem_zero_def Let_def split: option.split)

lemma tag_err_columns:
  "is_read equiv_tag_err_settings r \<longleftrightarrow> avm_mem_m_tag_err (mem_cols r) = 1"
  "is_write equiv_tag_err_settings r \<longleftrightarrow> avm_main_tag_err (main_cols r) = 1"
  "read_value equiv_tag_err_settings beta r = avm_mem_m_clk (mem_cols r)"
  "write_value equiv_tag_err_settings beta r = avm_main_clk (main_cols r)"
  "get_const_entities equiv_tag_err_settings r ! Suc 0 = equiv_tag_err_counts r"
  "clean_row (get_const_entities equiv_tag_err_settings) r \<longleftrightarrow>
     avm_mem_m_tag_err (mem_cols r) \<in> {0, 1} \<and> avm_main_tag_err (main_cols r) \<in> {0, 1} \<and>
     (avm_mem_m_tag_err (mem_cols r) = 0 \<and> avm_main_tag_err (main_cols r) = 0 \<longrightarrow> equiv_tag_err r = 0)"
  by (simp_all add: equiv_tag_err_settings_def is_read_def is_write_def read_value_def write_value_def tuple_value_def
    clean_row_def numeral_eq_Suc)

section \<open>The builder\<close>

text \<open>The columns of get_to_be_shifted; Polynomial::shifted asserts that they begin with zero.\<close>

definition to_be_shifted :: "AvmFullRow \<Rightarrow> ff list" where
  "to_be_shifted r =
     [avm_mem_m_rw (mem_cols r), avm_mem_m_addr (mem_cols r), avm_mem_m_val (mem_cols r), avm_mem_m_tag (mem_cols r),
      avm_alu_alu_u16_r2 (alu_cols r), avm_alu_alu_u16_r1 (alu_cols r), avm_alu_alu_u16_r5 (alu_cols r),
      avm_alu_alu_u16_r0 (alu_cols r), avm_alu_alu_u16_r7 (alu_cols r), avm_alu_alu_u16_r6 (alu_cols r),
      avm_alu_alu_u16_r4 (alu_cols r), avm_alu_alu_u16_r3 (alu_cols r),
      avm_main_pc (main_cols r), avm_main_internal_return_ptr (main_cols r)]"

definition compute_polynomials :: "AvmFullRow list \<Rightarrow> circuit_error + AvmFullRow list" where
  "compute_polynomials rows =
     (let polys = rows @ replicate (get_circuit_subgroup_size (length rows) - length rows) row_zero
      in if all_zero (to_be_shifted (hd polys)) then Inr polys else Inl Shift_of_nonzero)"

text \<open>get_row for every row, with the shifted columns.\<close>

definition get_rows :: "AvmFullRow list \<Rightarrow> (AvmFullRow \<times> AvmFullRow) list" where
  "get_rows polys = zip polys (tl polys @ [row_zero])"

definition check_circuit :: "ff \<Rightarrow> ff \<Rightarrow> AvmFullRow list \<Rightarrow> circuit_error + bool" where
  "check_circuit beta gamma rows =
     (let params = \<lparr>param_beta = beta, param_gamma = gamma\<rparr>
      in ebind (compute_polynomials rows) (\<lambda>polys.
         ebind (evaluate_relation ''avm_mem'' 10 (\<lambda>(r, s). avm_mem_relation (mem_cols r) (mem_cols s)) (get_rows polys)) (\<lambda>holds.
         if \<not> holds then Inr False
         else ebind (evaluate_relation ''avm_alu'' 18 (\<lambda>(r, s). avm_alu_relation (alu_cols r) (alu_cols s)) (get_rows polys)) (\<lambda>holds.
         if \<not> holds then Inr False
         else ebind (evaluate_relation ''avm_main'' 39 (\<lambda>(r, s). avm_main_relation (main_cols r) (main_cols s)) (get_rows polys)) (\<lambda>holds.
         if \<not> holds then Inr False
         else let (polys, holds) = evaluate_lookup equiv_tag_err_settings params polys
         in if \<not> holds then Inr False
         else Inr True)))))"

section \<open>The relations on the rows\<close>

lemma relation_lengths:
  "length (avm_mem_relation r s) = 10" "length (avm_alu_relation a b) = 18" "length (avm_main_relation c d) = 39"
  by (simp_all add: avm_mem_relation_def avm_alu_relation_def avm_alu_relation_add_sub_def avm_alu_relation_mul_def
    avm_alu_relation_not_eq_def avm_main_relation_def avm_main_relation_bits_def avm_main_relation_ops_def
    avm_main_relation_flow_def)

lemma successively_zip: "successively P (rs @ [z]) \<longleftrightarrow> (\<forall>p\<in>set (zip rs (tl rs @ [z])). P (fst p) (snd p))"
proof (induction rs)
  case (Cons r rs)
  then show ?case
    by (cases rs) auto
qed simp

lemma get_rows_hold:
  assumes "f row_zero = zero"
  shows "(\<forall>p\<in>set (get_rows rows). row_holds (\<lambda>(r, s). rel (f r) (f s)) p) \<longleftrightarrow> rows_ok rel zero (map f rows)"
proof -
  have "rows_ok rel zero (map f rows) \<longleftrightarrow> successively (\<lambda>r s. all_zero (rel (f r) (f s))) (rows @ [row_zero])"
    unfolding rows_ok_def by (subst successively_map [where f = f and xs = "rows @ [row_zero]", symmetric, simplified map_append]) (simp add: assms)
  then show ?thesis
    unfolding successively_zip get_rows_def by (simp add: row_holds_def all_zero_def split_def)
qed

lemma evaluate_avm:
  "evaluate_relation name 10 (\<lambda>(r, s). avm_mem_relation (mem_cols r) (mem_cols s)) (get_rows rows) = Inr True \<longleftrightarrow>
     rows_ok avm_mem_relation mem_zero (map mem_cols rows)"
  "evaluate_relation name 18 (\<lambda>(r, s). avm_alu_relation (alu_cols r) (alu_cols s)) (get_rows rows) = Inr True \<longleftrightarrow>
     rows_ok avm_alu_relation alu_zero (map alu_cols rows)"
  "evaluate_relation name 39 (\<lambda>(r, s). avm_main_relation (main_cols r) (main_cols s)) (get_rows rows) = Inr True \<longleftrightarrow>
     rows_ok avm_main_relation main_zero (map main_cols rows)"
  by (subst evaluate_relation_iff, simp add: split_def relation_lengths, rule get_rows_hold, simp add: row_zero_def)+


section \<open>The lookup on the rows\<close>

lemma sum_filter_nth:
  "(\<Sum>x\<leftarrow>filter P xs. f x) = (\<Sum>k<length xs. if P (xs ! k) then f (xs ! k) else (0 :: ff))"
  by (induction xs) (simp_all add: sum.lessThan_Suc_shift del: sum.lessThan_Suc cong: if_cong)

lemma mark_last_nth:
  assumes "i < length cs"
  shows "avm_main_clk (mark_last cs ! i) = avm_main_clk (cs ! i)" "avm_main_tag_err (mark_last cs ! i) = avm_main_tag_err (cs ! i)"
proof -
  obtain us c where "cs = us @ [c]"
    using assms by (cases cs rule: rev_cases) auto
  then show "avm_main_clk (mark_last cs ! i) = avm_main_clk (cs ! i)" "avm_main_tag_err (mark_last cs ! i) = avm_main_tag_err (cs ! i)"
    using assms by (simp_all add: mark_last_def nth_append)
qed

lemma main_columns_of_rows:
  assumes inv: "trace_inv typing B" and errs: "errs_inv B" and fin: "finalize B = Inr (rows, B')" and k: "k < 256"
  shows "if 0 < k \<and> k \<le> length (main_trace B)
    then avm_main_clk (main_cols (rows ! k)) = of_nat (k - 1) \<and>
      row_flags (main_cols (rows ! k)) (filter (\<lambda>e. unat (m_clk e) = k - 1) (log_of B)) \<and>
      equiv_tag_err_counts (rows ! k) = of_nat (tag_errors (log_of B) (of_nat (k - 1)))
    else avm_main_tag_err (main_cols (rows ! k)) = 0 \<and> avm_main_clk (main_cols (rows ! k)) = 0"
proof -
  define n where "n = length (main_trace B)"
  note rows = finalize_Inr(1,2,5) [OF inv fin]
  have n: "0 < n" "n < 256"
    using rows(1) by (simp_all add: fits_def n_def AVM_TRACE_SIZE_def)
  have len: "length (mark_last (main_rows_of B)) = n"
    using n by (simp add: mark_last_def main_rows_of_def n_def)
  have cols: "map main_cols rows = main_first # mark_last (main_rows_of B) @ replicate (255 - n) main_zero"
    using rows(2) by (simp add: main_rows_of_def n_def)
  have "length rows = 256"
    using arg_cong [OF cols, of length] len n by simp
  then have "main_cols (rows ! k) = (main_first # mark_last (main_rows_of B) @ replicate (255 - n) main_zero) ! k"
    using k unfolding cols [symmetric] by simp
  then have nth: "main_cols (rows ! k) = (if k = 0 then main_first else if k \<le> n then mark_last (main_rows_of B) ! (k - 1) else main_zero)"
    using k n len by (auto simp: nth_Cons nth_append split: nat.split)
  show ?thesis
  proof (cases "0 < k \<and> k \<le> n")
    case True
    then obtain i where i: "k = Suc i" "i < n" "i < length (main_rows_of B)"
      by (cases k) (auto simp: main_rows_of_def n_def)
    then have "avm_main_clk (main_rows_of B ! i) = of_nat i \<and>
        row_flags (main_rows_of B ! i) (filter (\<lambda>e. unat (m_clk e) = i) (log_of B))"
      using errs n by (simp add: errs_inv_def n_def)
    then show ?thesis
      using nth True i mark_last_nth [OF i(3)] rows(3) by (simp add: row_flags_def n_def)
  next
    case False
    then show ?thesis
      using nth by (auto simp: main_first_def main_zero_def n_def [symmetric])
  qed
qed

lemma mem_reads:
  assumes inv: "trace_inv typing B" and fin: "finalize B = Inr (rows, B')"
  shows "length (filter (\<lambda>r. avm_mem_m_tag_err (mem_cols r) = 1 \<and> avm_mem_m_clk (mem_cols r) = u) rows) =
    length (filter (\<lambda>e. m_tag_err e \<and> ff_of_word (m_clk e) = u) (log_of B))"
proof -
  define P where "P c \<longleftrightarrow> avm_mem_m_tag_err c = 1 \<and> avm_mem_m_clk c = u" for c :: avm_mem_cols
  define Q where "Q e \<longleftrightarrow> m_tag_err e \<and> ff_of_word (m_clk e) = u" for e :: MemoryTraceEntry
  have columns: "length (filter P (mem_columns es)) = length (filter Q es)" for es
    by (induction es) (simp_all add: P_def Q_def mem_fill_def split: list.split)
  have "\<not> P mem_first" "\<not> P mem_zero"
    by (simp_all add: P_def mem_first_def mem_zero_def)
  then have "length (filter P (map mem_cols rows)) = length (filter Q (mem_finalize (mem_trace_builder B)))"
    unfolding finalize_Inr(3) [OF inv fin] by (simp add: columns)
  also have "\<dots> = size (filter_mset Q (mset (mem_finalize (mem_trace_builder B))))"
    by (metis mset_filter size_mset)
  also have "mset (mem_finalize (mem_trace_builder B)) = mset (log_of B)"
    by (simp add: mem_finalize_def)
  also have "size (filter_mset Q (mset (log_of B))) = length (filter Q (log_of B))"
    by (metis mset_filter size_mset)
  finally show ?thesis
    by (simp add: P_def Q_def [abs_def] filter_map comp_def)
qed

lemma ff_of_u32: "ff_of_word (w :: u32) = of_nat (unat w)"
proof -
  have "unat w < 2 ^ 32"
    using unsigned_less [of w] by simp
  then show ?thesis
    using ff_of_small [of "unat w"] by simp
qed

lemma tag_errors_lookup:
  assumes inv: "trace_inv typing B" and errs: "errs_inv B" and fin: "finalize B = Inr (rows, B')"
  shows "lookup_holds equiv_tag_err_settings beta rows"
proof -
  define n where "n = length (main_trace B)"
  have n: "n < 256"
    using finalize_Inr(1) [OF inv fin] by (simp add: fits_def n_def AVM_TRACE_SIZE_def)
  have len: "length rows = 256"
    using arg_cong [OF finalize_Inr(2) [OF inv fin], of length] finalize_Inr(1) [OF inv fin]
    by (cases "length (main_trace B)") (simp_all add: mark_last_def fits_def AVM_TRACE_SIZE_def)
  define W where "W u r \<longleftrightarrow> avm_main_tag_err (main_cols r) = 1 \<and> avm_main_clk (main_cols r) = u" for u and r :: AvmFullRow
  have small: "of_nat i = (of_nat j :: ff) \<longleftrightarrow> i = j" if "i < 2 ^ 32" "j < 2 ^ 32" for i j
    using of_nat_ff_inject [of i j] that by simp
  have log: "\<forall>e\<in>set (log_of B). unat (m_clk e) < n"
    using errs n by (simp add: errs_inv_def n_def)
  have "of_nat (length (filter (\<lambda>e. m_tag_err e \<and> ff_of_word (m_clk e) = u) (log_of B))) =
      (\<Sum>r\<leftarrow>filter (W u) rows. equiv_tag_err_counts r)" for u
  proof -
    define g where "g k = (if W u (rows ! k) then equiv_tag_err_counts (rows ! k) else 0)" for k
    define E where "E i = (of_nat (tag_errors (log_of B) (of_nat i)) :: ff)" for i
    have g: "g k = (if 0 < k \<and> k \<le> n \<and> u = of_nat (k - 1) then E (k - 1) else 0)" if "k < 256" for k
    proof (cases "0 < k \<and> k \<le> n")
      case True
      note row = main_columns_of_rows [OF inv errs fin that, folded n_def, unfolded if_P [OF True]]
      have "E (k - 1) = 0" if "filter m_tag_err (filter (\<lambda>e. unat (m_clk e) = k - 1) (log_of B)) = []"
      proof -
        have "unat (of_nat (k - 1) :: u32) = k - 1"
          using \<open>k < 256\<close> by (simp add: unat_of_nat)
        then have "filter (\<lambda>e. m_tag_err e \<and> m_clk e = of_nat (k - 1)) (log_of B) = []"
          using that by (auto simp: filter_empty_conv)
        then show ?thesis
          unfolding E_def tag_errors_def by simp
      qed
      then show ?thesis
        using row True by (auto simp: g_def W_def E_def row_flags_def)
    next
      case False
      note row = main_columns_of_rows [OF inv errs fin that, folded n_def, unfolded if_not_P [OF False]]
      then show ?thesis
        using False by (auto simp: g_def W_def)
    qed
    have "(\<Sum>r\<leftarrow>filter (W u) rows. equiv_tag_err_counts r) = (\<Sum>k<256. g k)"
      unfolding sum_filter_nth len g_def ..
    also have "\<dots> = (\<Sum>k<256. if 0 < k \<and> k \<le> n \<and> u = of_nat (k - 1) then E (k - 1) else 0)"
      by (rule sum.cong) (simp_all add: g)
    also have "\<dots> = of_nat (length (filter (\<lambda>e. m_tag_err e \<and> ff_of_word (m_clk e) = u) (log_of B)))"
    proof (cases "\<exists>j<n. u = of_nat j")
      case True
      then obtain j where j: "j < n" "u = of_nat j"
        by blast
      have "(if 0 < k \<and> k \<le> n \<and> u = of_nat (k - 1) then E (k - 1) else 0) = (if k = Suc j then E j else 0)" if "k < 256" for k
        using j n that small [of j "k - 1"] by auto
      then have "(\<Sum>k<256. if 0 < k \<and> k \<le> n \<and> u = of_nat (k - 1) then E (k - 1) else 0) = (\<Sum>k<256. if k = Suc j then E j else 0)"
        by (intro sum.cong) auto
      also have "\<dots> = E j"
        using j n by simp
      also have "filter (\<lambda>e. m_tag_err e \<and> m_clk e = of_nat j) (log_of B) =
          filter (\<lambda>e. m_tag_err e \<and> ff_of_word (m_clk e) = u) (log_of B)"
      proof (rule filter_cong [OF refl])
        fix e assume "e \<in> set (log_of B)"
        have "ff_of_word (m_clk e) = u \<longleftrightarrow> unat (m_clk e) = j"
          unfolding j(2) ff_of_u32 using small [of "unat (m_clk e)" j] unsigned_less [of "m_clk e"] j(1) n by simp
        moreover have "m_clk e = of_nat j \<longleftrightarrow> unat (m_clk e) = j"
          using j(1) n by (auto simp: word_unat_eq_iff unat_of_nat)
        ultimately show "(m_tag_err e \<and> m_clk e = of_nat j) = (m_tag_err e \<and> ff_of_word (m_clk e) = u)"
          by simp
      qed
      ultimately show ?thesis
        by (simp add: E_def tag_errors_def)
    next
      case False
      have "filter (\<lambda>e. m_tag_err e \<and> ff_of_word (m_clk e) = u) (log_of B) = []"
        using log False by (auto simp: filter_empty_conv ff_of_u32)
      moreover have "(if 0 < k \<and> k \<le> n \<and> u = of_nat (k - 1) then E (k - 1) else 0) = 0" for k
        using False by (cases k) (auto simp: Suc_le_eq)
      ultimately show ?thesis
        by simp
    qed
    finally show ?thesis ..
  qed
  then show ?thesis
    using mem_reads [OF inv fin]
    by (simp add: lookup_holds_def tag_err_columns W_def [abs_def])
qed

section \<open>The verdict\<close>

lemma guarded_check:
  "ebind a (\<lambda>holds. if \<not> holds then Inr False else k) = Inr True \<longleftrightarrow> a = Inr True \<and> k = Inr True"
  by (auto simp: ebind_Inr_iff)

lemma check_circuit_iff:
  assumes len: "length rows = 256" and hd: "all_zero (to_be_shifted (hd rows))"
    and entry: "lookup_result equiv_tag_err_settings \<lparr>param_beta = beta, param_gamma = gamma\<rparr> rows = (0, 0)"
  shows "check_circuit beta gamma rows = Inr True \<longleftrightarrow>
    rows_ok avm_mem_relation mem_zero (map mem_cols rows) \<and>
    rows_ok avm_alu_relation alu_zero (map alu_cols rows) \<and>
    rows_ok avm_main_relation main_zero (map main_cols rows)"
proof -
  have "get_circuit_subgroup_size 256 = 256"
    using subgroup_size [of 8 256] by simp
  then have polys: "compute_polynomials rows = Inr rows"
    using hd by (simp add: compute_polynomials_def len)
  have lookup: "snd (evaluate_lookup equiv_tag_err_settings \<lparr>param_beta = beta, param_gamma = gamma\<rparr> rows)"
    using entry by (simp add: evaluate_lookup_result)
  note holds = evaluate_avm(1) [of "''avm_mem''" rows] evaluate_avm(2) [of "''avm_alu''" rows]
    evaluate_avm(3) [of "''avm_main''" rows]
  show ?thesis
    using lookup unfolding holds [symmetric] check_circuit_def polys Let_def ebind.simps guarded_check
    by (simp only: case_prod_unfold not_True_eq_False if_False simp_thms)
qed

text \<open>The clocks of the table are small, its flags are bits.\<close>

lemma mem_columns_small:
  "\<forall>e\<in>set es. unat (m_clk e) < n \<Longrightarrow> c \<in> set (mem_columns es) \<Longrightarrow>
    avm_mem_m_tag_err c \<in> {0, 1} \<and> avm_mem_m_clk c \<in> of_nat ` {..<n}"
proof (induction es)
  case (Cons e es)
  then have "ff_of_word (m_clk e) \<in> of_nat ` {..<n}"
    by (intro image_eqI [of _ _ "unat (m_clk e)"] ff_of_u32) simp
  with Cons show ?case
    by (auto simp: mem_fill_columns)
qed simp

lemma rows_small:
  assumes inv: "trace_inv typing B" and errs: "errs_inv B" and fin: "finalize B = Inr (rows, B')" and r: "r \<in> set rows"
  shows "avm_mem_m_tag_err (mem_cols r) \<in> {0, 1}" "avm_mem_m_clk (mem_cols r) \<in> of_nat ` {..<256}"
    "avm_main_tag_err (main_cols r) \<in> {0, 1}"
    "avm_main_clk (main_cols r) \<in> of_nat ` {..<256}"
proof -
  have n: "0 < length (main_trace B)" "length (main_trace B) < 256"
    using finalize_Inr(1) [OF inv fin] by (simp_all add: fits_def AVM_TRACE_SIZE_def)
  have log: "\<forall>e\<in>set (mem_finalize (mem_trace_builder B)). unat (m_clk e) < 256"
    using errs n by (auto simp: errs_inv_def mem_finalize_def)
  have "mem_cols r \<in> set (map mem_cols rows)"
    using r by simp
  then have "mem_cols r \<in> {mem_first, mem_zero} \<or> mem_cols r \<in> set (mem_columns (mem_finalize (mem_trace_builder B)))"
    unfolding finalize_Inr(3) [OF inv fin] by auto
  then show "avm_mem_m_tag_err (mem_cols r) \<in> {0, 1}" "avm_mem_m_clk (mem_cols r) \<in> of_nat ` {..<256}"
    using mem_columns_small [OF log, of "mem_cols r"] by (auto simp: mem_first_def mem_zero_def image_iff intro: bexI [of _ 0])
  have len: "length rows = 256"
    using arg_cong [OF finalize_Inr(2) [OF inv fin], of length] n
    by (cases "length (main_trace B)") (simp_all add: mark_last_def)
  obtain k where k: "k < 256" "r = rows ! k"
    using r len by (auto simp: in_set_conv_nth)
  show "avm_main_tag_err (main_cols r) \<in> {0, 1}"
    using main_columns_of_rows [OF inv errs fin k(1)] k(2) by (auto simp: row_flags_def split: if_splits)
  show "avm_main_clk (main_cols r) \<in> of_nat ` {..<256}"
  proof (cases "0 < k \<and> k \<le> length (main_trace B)")
    case True
    then show ?thesis
      using main_columns_of_rows [OF inv errs fin k(1)] k by (intro image_eqI [of _ _ "k - 1"]) simp_all
  next
    case False
    then have "avm_main_clk (main_cols r) = 0"
      using main_columns_of_rows [OF inv errs fin k(1)] k(2) by (simp only: if_False)
    then show ?thesis
      by (intro image_eqI [of _ _ 0]) simp_all
  qed
qed

lemma tag_errors_result:
  assumes inv: "trace_inv typing B" and errs: "errs_inv B" and fin: "finalize B = Inr (rows, B')"
    and poles: "\<And>c. c < 256 \<Longrightarrow> of_nat c + gamma \<noteq> 0"
  shows "lookup_result equiv_tag_err_settings \<lparr>param_beta = beta, param_gamma = gamma\<rparr> rows = (0, 0)"
proof (rule tag_errs.passes)
  have "equiv_tag_err r = 0" if "r \<in> set rows" for r
    using finalize_inverse [OF fin _ that] inv by (auto simp: trace_inv_def row_fresh_def)
  then show "list_all (clean_row (get_const_entities equiv_tag_err_settings)) rows"
    using rows_small [OF inv errs fin]
    by (auto simp: list_all_iff tag_err_columns)
  have pole: "v + gamma \<noteq> 0" if "v \<in> of_nat ` {..<256}" for v
    using that poles by auto
  show "lookup_regular equiv_tag_err_settings beta gamma rows"
    unfolding lookup_regular_def list_all_iff tag_err_columns
    using rows_small(2,4) [OF inv errs fin] pole by blast
  show "lookup_holds equiv_tag_err_settings beta rows"
    by (rule tag_errors_lookup [OF inv errs fin])
qed

lemma return_word_log:
  assumes "return_op off 1 B = Inr (vals, C)"
  shows "\<exists>e. mem_trace (mem_trace_builder C) = mem_trace (mem_trace_builder B) @ [e] \<and> m_addr e = off"
proof -
  have one: "next_pos 1 0 = (1 :: u32)"
    by (simp add: next_pos_def)
  have "return_loop off 1 (next_pos 1 0) vals B = Inr (vals, B)" for vals B
    unfolding one by (subst return_loop.simps) simp
  then obtain D vs where "return_row off 1 0 B = Inr (vs, D)" "C = D\<lparr>pc := UINT32_MAX\<rparr>"
    using assms unfolding return_op_def by (subst (asm) return_loop.simps) (auto simp: ebind_Inr_iff)
  then show ?thesis
    by (auto simp: return_row_def Let_def run_defs push_row_def ebind_Inr_iff load_entry_def split: if_splits)
qed

lemma sum_program_log:
  assumes "run_commands sum_program trace_init = Inr B"
  shows "uniform_fresh_reads (mem_trace (mem_trace_builder B))" "halted B"
proof -
  obtain B1 B2 B3 where B1: "op_set 250 0 U8 trace_init = Inr B1" and B2: "op_set 9 1 U8 B1 = Inr B2"
      and B3: "op_add 0 1 2 U8 B2 = Inr B3" and B: "run_command (Return_op 2 1) B3 = Inr B"
    using assms by (auto simp: sum_program_def ebind_Inr_iff)
  have 1: "mem_trace (mem_trace_builder B1) = [store_entry 0 IC 0 (snd (cells (vm_of B1) 0)) U8]"
    using B1 by (auto simp: op_set_def Let_def run_defs push_row_def ebind_Inr_iff trace_init_def mem_init_def clk_of_def split: if_splits)
  have 2: "mem_trace (mem_trace_builder B2) = mem_trace (mem_trace_builder B1) @ [store_entry (clk_of B1) IC 1 (snd (cells (vm_of B2) 1)) U8]"
    using B2 by (auto simp: op_set_def Let_def run_defs push_row_def ebind_Inr_iff split: if_splits)
  note 3 = op_binary_log [OF B3 [unfolded op_add_def]]
  obtain e where 4: "mem_trace (mem_trace_builder B) = mem_trace (mem_trace_builder B3) @ [e]" "m_addr e = 2"
    using B return_word_log [of 2 B3] by (auto simp: ebind_Inr_iff)
  show "uniform_fresh_reads (mem_trace (mem_trace_builder B))"
    using 4(2) by (simp add: 1 2 3 4(1) uniform_fresh_reads_def fresh_reads_def accesses_def store_entry_def load_entry_def)
  show "halted B"
    using B by (auto simp: ebind_Inr_iff intro: return_op_main(1))
qed
text \<open>
  C1: The circuit builder accepts the finished trace of a run whose code is well formed, does
  not divide integers and leaves the cells of the call stack to the call instructions, for
  every beta and every gamma that is not the opposite of a clock, if and only if the run ended
  with RETURN and no cell was read with two different instruction tags before it was written.
\<close>

theorem avm_check_circuit:
  assumes "exec_loop insts calldata trace_init = Some (Inr B)" and "list_all wf_instruction insts"
    and "length insts < 2 ^ 32" and "list_all (low_code calldata) insts"
    and "list_all (\<lambda>inst. \<not> integer_division inst) insts" and "finalize B = Inr (rows, B')"
    and "\<And>c. c < 256 \<Longrightarrow> of_nat c + gamma \<noteq> 0"
  shows "check_circuit beta gamma rows = Inr True \<longleftrightarrow>
    halted B \<and> uniform_fresh_reads (mem_trace (mem_trace_builder B))"
proof -
  note reach = exec_loop_reachable [OF assms(1,2)]
  note inv = reachable_trace_inv(2) [OF reach(2) [OF assms(5)]]
  note fin = assms(6)
  note cols = finalize_Inr [OF inv fin]
  have len: "length rows = 256"
    using arg_cong [OF cols(2), of length] cols(1)
    by (cases "length (main_trace B)") (simp_all add: mark_last_def fits_def AVM_TRACE_SIZE_def)
  then obtain r rs where rows: "rows = r # rs"
    by (cases rows) auto
  have "all_zero (to_be_shifted (hd rows))"
    using cols(2-4) by (simp add: rows to_be_shifted_def main_first_def mem_first_def main_zero_def mem_zero_def alu_zero_def)
  note iff = check_circuit_iff [OF len this tag_errors_result [OF inv reachable_errs [OF reach(1)] fin assms(7)]]
  have "rows_ok avm_alu_relation alu_zero (map alu_cols rows)"
    using inv fits_small [OF cols(1)] alu_table_ok unfolding cols(4) by (simp add: trace_inv_def)
  moreover have "rows_ok avm_main_relation main_zero (map main_cols rows) \<longleftrightarrow> halted B"
  proof -
    have "main_rows_of B \<noteq> []"
      using cols(1) by (auto simp: fits_def main_rows_of_def)
    then show ?thesis
      using exec_loop_main_inv [OF assms(1-4)] main_table_iff [of "main_rows_of B"] cols(2)
      by (simp add: main_inv_def halted_def main_rows_of_def)
  qed
  ultimately show ?thesis
    using iff [of beta] mem_table_iff [OF reach(1) fin] by blast
qed

lemma avm_check_circuit_witness:
  "\<exists>rows. gen_trace sum_insts [] = Some (Inr rows) \<and> check_circuit 0 1 rows = Inr True"
proof -
  obtain B rows where B: "exec_loop sum_insts [] trace_init = Some (Inr B)" "run_commands sum_program trace_init = Inr B"
      "finalize B = Inr (rows, trace_reset B)" "gen_trace sum_insts [] = Some (Inr rows)"
    using sum_insts_run [of "[]"] by blast
  have low: "length sum_insts < 2 ^ 32" "list_all (low_code []) sum_insts"
    by (simp_all add: sum_insts_def low_code_def command_of_def)
  have "of_nat c + 1 \<noteq> (0 :: ff)" if "c < 256" for c
    using of_nat_ff_inject [of "Suc c" 0] that by (simp add: add.commute)
  then have "check_circuit 0 1 rows = Inr True"
    using avm_check_circuit [OF B(1) sum_insts_wf(1) low sum_insts_wf(2) B(3)] sum_program_log [OF B(2)] by blast
  then show ?thesis
    using B(4) by blast
qed

section \<open>The length of the lookup\<close>

text \<open>
  C38: The subrelations of the lookup are declared with length 4, for degree 3. But the second
  has the product of the count, the selector of the table, the inverse and a term of the first
  tuple: there is a line of rows, every column of it of degree one, on which it is no
  polynomial of degree 3.
\<close>

theorem lookup_length_too_short:
  "LOOKUP_LENGTH equiv_tag_err_settings = 4 \<and>
   (\<exists>line. lookup_line equiv_tag_err_settings params line \<and>
     \<not> deg_le (LOOKUP_LENGTH equiv_tag_err_settings - 1)
       (\<lambda>x. snd (accumulate_lookup (generic_lookup equiv_tag_err_settings) params 1 (0, 0) (line x))))"
proof
  show length: "LOOKUP_LENGTH equiv_tag_err_settings = 4"
    by (simp add: LOOKUP_LENGTH_def FIRST_SUBRELATION_LENGTH_def SECOND_SUBRELATION_LENGTH_def
      compute_read_term_product_degree_def compute_write_term_product_degree_def compute_maximum_read_term_degree_def
      compute_maximum_write_term_degree_def read_term_degree_def write_term_degree_def equiv_tag_err_settings_def)
  define line :: "ff \<Rightarrow> AvmFullRow" where
    "line x = row_zero\<lparr>equiv_tag_err := x, equiv_tag_err_counts := x,
       mem_cols := mem_zero\<lparr>avm_mem_m_clk := x\<rparr>, main_cols := main_zero\<lparr>avm_main_tag_err := x\<rparr>\<rparr>" for x
  define f where "f x = snd (accumulate_lookup (generic_lookup equiv_tag_err_settings) params 1 (0, 0) (line x))" for x
  have es: "get_const_entities equiv_tag_err_settings (line x) = [x, x, 0, x, x, 0]" for x
    by (simp add: equiv_tag_err_settings_def line_def row_zero_def main_zero_def mem_zero_def)
  have "columns_affine (\<lambda>x :: ff. [x, x, 0, x, x, 0])"
    by (intro columns_affine_Cons columns_affine_Nil deg_le_id deg_le_const)
  then have "lookup_line equiv_tag_err_settings params line"
    using deg_le_mono [OF _ deg_le_id, of 2]
    by (simp add: lookup_line_def es del: deg_le.simps)
      (simp add: equiv_tag_err_settings_def line_def row_zero_def main_zero_def mem_zero_def deg_le_const del: deg_le.simps)
  moreover have f: "f x = - (x * x * ((x + param_gamma params) * x))" for x
  proof -
    have "logderivative_terms (generic_lookup equiv_tag_err_settings) params (line x) = [x + param_gamma params, param_gamma params]"
      by (simp add: tag_errs.terms_eq tag_err_columns) (simp add: line_def main_zero_def)
    moreover have "length (READ_TERM_TYPES equiv_tag_err_settings) = 1" "length (WRITE_TERM_TYPES equiv_tag_err_settings) = 1"
      by (simp_all add: equiv_tag_err_settings_def)
    ultimately show ?thesis
      by (simp add: f_def accumulate_lookup_def Let_def two_denominators)
        (simp add: generic_lookup_def es tag_errs.start_defs)
  qed
  have "f 0 - 4 * f 1 + 6 * f 2 - 4 * f 3 + f 4 = - 24"
    unfolding f by (simp add: algebra_simps)
  then have "f 0 - 4 * f 1 + 6 * f 2 - 4 * f 3 + f 4 \<noteq> 0"
    using of_nat_ff_inject [of 24 0] by simp
  then have "\<not> deg_le (LOOKUP_LENGTH equiv_tag_err_settings - 1) f"
    using fourth_difference unfolding length by fastforce
  ultimately show "\<exists>line. lookup_line equiv_tag_err_settings params line \<and>
      \<not> deg_le (LOOKUP_LENGTH equiv_tag_err_settings - 1)
        (\<lambda>x. snd (accumulate_lookup (generic_lookup equiv_tag_err_settings) params 1 (0, 0) (line x)))"
    unfolding f_def by blast
qed

end
