(* ===== verification/Toy_Avm.thy ===== *)
theory Toy_Avm
  imports Circuit_Check Relation_Degrees Scalar_Field
begin

text \<open>
  The toy machine: the columns and check_circuit of
  proof_system/circuit_builder/generated/toy_circuit_builder.hpp, and the relations of
  relations/generated/toy, one on rows, two permutations and two lookups.
\<close>

section \<open>Rows\<close>

record ToyFullRow =
  toy_first :: ff
  toy_q_tuple_set :: ff
  toy_set_1_column_1 :: ff
  toy_set_1_column_2 :: ff
  toy_set_2_column_1 :: ff
  toy_set_2_column_2 :: ff
  toy_sparse_column_1 :: ff
  toy_sparse_column_2 :: ff
  toy_sparse_lhs :: ff
  toy_sparse_rhs :: ff
  toy_xor_a :: ff
  toy_xor_b :: ff
  toy_xor_c :: ff
  toy_table_xor_a :: ff
  toy_table_xor_b :: ff
  toy_table_xor_c :: ff
  toy_q_xor :: ff
  toy_q_xor_table :: ff
  toy_q_err :: ff
  toy_q_err_check :: ff
  toy_clk :: ff
  toy_m_clk :: ff
  two_column_perm :: ff
  two_column_sparse_perm :: ff
  lookup_xor :: ff
  lookup_err :: ff
  lookup_xor_counts :: ff
  lookup_err_counts :: ff

definition toy_zero :: ToyFullRow where
  "toy_zero =
     \<lparr>toy_first = 0, toy_q_tuple_set = 0, toy_set_1_column_1 = 0, toy_set_1_column_2 = 0,
      toy_set_2_column_1 = 0, toy_set_2_column_2 = 0, toy_sparse_column_1 = 0, toy_sparse_column_2 = 0,
      toy_sparse_lhs = 0, toy_sparse_rhs = 0, toy_xor_a = 0, toy_xor_b = 0,
      toy_xor_c = 0, toy_table_xor_a = 0, toy_table_xor_b = 0, toy_table_xor_c = 0,
      toy_q_xor = 0, toy_q_xor_table = 0, toy_q_err = 0, toy_q_err_check = 0,
      toy_clk = 0, toy_m_clk = 0, two_column_perm = 0, two_column_sparse_perm = 0,
      lookup_xor = 0, lookup_err = 0, lookup_xor_counts = 0, lookup_err_counts = 0\<rparr>"

text \<open>The values of the subrelations of toy_avm.hpp.\<close>

definition toy_avm_relation :: "ToyFullRow \<Rightarrow> ff list" where
  "toy_avm_relation r =
     [toy_q_tuple_set r * (- toy_q_tuple_set r + 1),
      toy_q_xor r * (- toy_q_xor r + 1),
      toy_q_xor_table r * (- toy_q_xor_table r + 1)]"

section \<open>The settings\<close>

definition two_column_perm_settings :: "(ToyFullRow, ff) permutation_settings" where
  "two_column_perm_settings =
     \<lparr>COLUMNS_PER_SET = 2,
      perm_is_computed_at_row = (\<lambda>r. toy_q_tuple_set r = 1 \<or> toy_q_tuple_set r = 1),
      perm_const_entities = (\<lambda>r. [two_column_perm r, toy_q_tuple_set r, toy_q_tuple_set r, toy_q_tuple_set r,
        toy_set_1_column_1 r, toy_set_1_column_2 r, toy_set_2_column_1 r, toy_set_2_column_2 r]),
      perm_set_first_entity = (\<lambda>v r. r\<lparr>two_column_perm := v\<rparr>)\<rparr>"

definition two_column_sparse_perm_settings :: "(ToyFullRow, ff) permutation_settings" where
  "two_column_sparse_perm_settings =
     \<lparr>COLUMNS_PER_SET = 1,
      perm_is_computed_at_row = (\<lambda>r. toy_sparse_lhs r = 1 \<or> toy_sparse_rhs r = 1),
      perm_const_entities = (\<lambda>r. [two_column_sparse_perm r, toy_sparse_lhs r, toy_sparse_lhs r, toy_sparse_rhs r,
        toy_sparse_column_1 r, toy_sparse_column_2 r]),
      perm_set_first_entity = (\<lambda>v r. r\<lparr>two_column_sparse_perm := v\<rparr>)\<rparr>"

definition lookup_xor_settings :: "(ToyFullRow, ff) lookup_settings" where
  "lookup_xor_settings =
     \<lparr>READ_TERM_TYPES = [READ_BASIC_TUPLE], WRITE_TERM_TYPES = [WRITE_BASIC_TUPLE],
      LOOKUP_TUPLE_SIZE = 3, INVERSE_EXISTS_POLYNOMIAL_DEGREE = 2,
      READ_TERM_DEGREE = 0, WRITE_TERM_DEGREE = 0,
      inverse_polynomial_is_computed_at_row = (\<lambda>r. toy_q_xor r = 1 \<or> toy_q_xor_table r = 1),
      settings_inverse_exists = (\<lambda>r. toy_q_xor r + toy_q_xor_table r - toy_q_xor r * toy_q_xor_table r),
      get_const_entities = (\<lambda>r. [lookup_xor r, lookup_xor_counts r, toy_q_xor r, toy_q_xor_table r,
        toy_xor_a r, toy_xor_b r, toy_xor_c r, toy_table_xor_a r, toy_table_xor_b r, toy_table_xor_c r]),
      set_first_entity = (\<lambda>v r. r\<lparr>lookup_xor := v\<rparr>),
      settings_read_term = (\<lambda>i r params. 0), settings_write_term = (\<lambda>i r params. 0)\<rparr>"

definition lookup_err_settings :: "(ToyFullRow, ff) lookup_settings" where
  "lookup_err_settings =
     \<lparr>READ_TERM_TYPES = [READ_BASIC_TUPLE], WRITE_TERM_TYPES = [WRITE_BASIC_TUPLE],
      LOOKUP_TUPLE_SIZE = 1, INVERSE_EXISTS_POLYNOMIAL_DEGREE = 2,
      READ_TERM_DEGREE = 0, WRITE_TERM_DEGREE = 0,
      inverse_polynomial_is_computed_at_row = (\<lambda>r. toy_q_err_check r = 1 \<or> toy_q_err r = 1),
      settings_inverse_exists = (\<lambda>r. toy_q_err_check r + toy_q_err r - toy_q_err_check r * toy_q_err r),
      get_const_entities = (\<lambda>r. [lookup_err r, lookup_err_counts r, toy_q_err_check r, toy_q_err r, toy_m_clk r, toy_clk r]),
      set_first_entity = (\<lambda>v r. r\<lparr>lookup_err := v\<rparr>),
      settings_read_term = (\<lambda>i r params. 0), settings_write_term = (\<lambda>i r params. 0)\<rparr>"

lemmas toy_settings_defs = two_column_perm_settings_def two_column_sparse_perm_settings_def
  lookup_xor_settings_def lookup_err_settings_def

interpretation tuples: permutation_columns two_column_perm_settings
  by unfold_locales (auto simp: toy_settings_defs in_first_def in_second_def)

interpretation sparse: permutation_columns two_column_sparse_perm_settings
  by unfold_locales (auto simp: toy_settings_defs in_first_def in_second_def numeral_eq_Suc)

interpretation xors: single_lookup lookup_xor_settings
  by unfold_locales (auto simp: toy_settings_defs is_read_def is_write_def numeral_eq_Suc)

interpretation errs: single_lookup lookup_err_settings
  by unfold_locales (auto simp: toy_settings_defs is_read_def is_write_def numeral_eq_Suc)

section \<open>The builder\<close>

definition toy_compute_polynomials :: "ToyFullRow list \<Rightarrow> ToyFullRow list" where
  "toy_compute_polynomials rows =
     rows @ replicate (get_circuit_subgroup_size (length rows) - length rows) toy_zero"

definition toy_check_circuit :: "ff \<Rightarrow> ff \<Rightarrow> ToyFullRow list \<Rightarrow> circuit_error + bool" where
  "toy_check_circuit beta gamma rows =
     (let params = \<lparr>param_beta = beta, param_gamma = gamma\<rparr>;
          polys = toy_compute_polynomials rows
      in ebind (evaluate_relation ''toy_avm'' 3 toy_avm_relation polys) (\<lambda>holds.
         if \<not> holds then Inr False
         else let (polys, holds) = evaluate_permutation two_column_perm_settings params polys
         in if \<not> holds then Inr False
         else let (polys, holds) = evaluate_permutation two_column_sparse_perm_settings params polys
         in if \<not> holds then Inr False
         else let (polys, holds) = evaluate_lookup lookup_xor_settings params polys
         in if \<not> holds then Inr False
         else let (polys, holds) = evaluate_lookup lookup_err_settings params polys
         in if \<not> holds then Inr False
         else Inr True))"

section \<open>What the check says\<close>

text \<open>The selectors that no relation forces to be bits, and the columns of inverses of a new trace.\<close>

definition toy_clean :: "ToyFullRow \<Rightarrow> bool" where
  "toy_clean r \<longleftrightarrow> toy_sparse_lhs r \<in> {0, 1} \<and> toy_sparse_rhs r \<in> {0, 1} \<and> toy_q_err r \<in> {0, 1} \<and>
     toy_q_err_check r \<in> {0, 1} \<and>
     two_column_perm r = 0 \<and> two_column_sparse_perm r = 0 \<and> lookup_xor r = 0 \<and> lookup_err r = 0"

definition toy_bits :: "ToyFullRow \<Rightarrow> bool" where
  "toy_bits r \<longleftrightarrow> toy_q_tuple_set r \<in> {0, 1} \<and> toy_q_xor r \<in> {0, 1} \<and> toy_q_xor_table r \<in> {0, 1}"

definition toy_regular :: "ff \<Rightarrow> ff \<Rightarrow> ToyFullRow list \<Rightarrow> bool" where
  "toy_regular beta gamma rows \<longleftrightarrow>
     permutation_regular two_column_perm_settings beta gamma rows \<and>
     permutation_regular two_column_sparse_perm_settings beta gamma rows \<and>
     lookup_regular lookup_xor_settings beta gamma rows \<and> lookup_regular lookup_err_settings beta gamma rows"

definition toy_holds :: "ff \<Rightarrow> ToyFullRow list \<Rightarrow> bool" where
  "toy_holds beta rows \<longleftrightarrow> list_all toy_bits rows \<and>
     permutation_holds two_column_perm_settings beta rows \<and>
     permutation_holds two_column_sparse_perm_settings beta rows \<and>
     lookup_holds lookup_xor_settings beta rows \<and> lookup_holds lookup_err_settings beta rows"

lemma bit_iff: "x * (- x + 1) = 0 \<longleftrightarrow> x \<in> {0, 1 :: ff}"
  by (auto simp: eq_neg_iff_add_eq_0 add.commute)

lemma toy_relation_iff: "row_holds toy_avm_relation r \<longleftrightarrow> toy_bits r"
  by (simp only: row_holds_def toy_avm_relation_def toy_bits_def list.pred_inject bit_iff simp_thms)

lemma toy_zero_row: "toy_bits toy_zero" "toy_clean toy_zero"
  "\<not> is_read lookup_xor_settings toy_zero" "\<not> is_write lookup_xor_settings toy_zero"
  "\<not> is_read lookup_err_settings toy_zero" "\<not> is_write lookup_err_settings toy_zero"
  "\<not> in_first two_column_perm_settings toy_zero" "\<not> in_second two_column_perm_settings toy_zero"
  "\<not> in_first two_column_sparse_perm_settings toy_zero" "\<not> in_second two_column_sparse_perm_settings toy_zero"
  by (simp_all add: toy_bits_def toy_clean_def toy_zero_def toy_settings_defs is_read_def is_write_def in_first_def in_second_def)

lemma clean_toy_row:
  assumes "toy_clean r" and "toy_bits r"
  shows "clean_row (perm_const_entities two_column_perm_settings) r"
    "clean_row (perm_const_entities two_column_sparse_perm_settings) r"
    "clean_row (get_const_entities lookup_xor_settings) r" "clean_row (get_const_entities lookup_err_settings) r"
  using assms by (auto simp: clean_row_def toy_clean_def toy_bits_def toy_settings_defs)

lemma padded:
  "list_all toy_bits (rows @ replicate n toy_zero) \<longleftrightarrow> list_all toy_bits rows"
  "list_all toy_clean (rows @ replicate n toy_zero) \<longleftrightarrow> list_all toy_clean rows"
  "toy_regular beta gamma (rows @ replicate n toy_zero) \<longleftrightarrow> toy_regular beta gamma rows"
  "toy_holds beta (rows @ replicate n toy_zero) \<longleftrightarrow> toy_holds beta rows"
  by (simp_all only: toy_regular_def permutation_regular_def lookup_regular_def toy_holds_def permutation_holds_def
    lookup_holds_def list_all_pad filter_pad toy_zero_row simp_thms)

text \<open>Setting one column of inverses leaves the columns of the other relations.\<close>

lemma toy_after:
  "map (perm_const_entities two_column_sparse_perm_settings) (fst (evaluate_permutation two_column_perm_settings params rows)) =
     map (perm_const_entities two_column_sparse_perm_settings) rows"
  "map (get_const_entities lookup_xor_settings) (fst (evaluate_permutation two_column_perm_settings params rows)) =
     map (get_const_entities lookup_xor_settings) rows"
  "map (get_const_entities lookup_err_settings) (fst (evaluate_permutation two_column_perm_settings params rows)) =
     map (get_const_entities lookup_err_settings) rows"
  "map (get_const_entities lookup_xor_settings) (fst (evaluate_permutation two_column_sparse_perm_settings params rows)) =
     map (get_const_entities lookup_xor_settings) rows"
  "map (get_const_entities lookup_err_settings) (fst (evaluate_permutation two_column_sparse_perm_settings params rows)) =
     map (get_const_entities lookup_err_settings) rows"
  "map (get_const_entities lookup_err_settings) (fst (evaluate_lookup lookup_xor_settings params rows)) =
     map (get_const_entities lookup_err_settings) rows"
  unfolding evaluate_permutation_def evaluate_lookup_def Let_def fst_conv
  by (rule entities_after; simp add: generic_permutation_def generic_lookup_def toy_settings_defs)+

lemma toy_check_pass:
  assumes "list_all toy_clean polys" and "list_all toy_bits polys" and "toy_regular beta gamma polys"
    and "polys = toy_compute_polynomials rows"
  defines "params \<equiv> \<lparr>param_beta = beta, param_gamma = gamma\<rparr>"
  shows "toy_check_circuit beta gamma rows = Inr True \<longleftrightarrow>
    permutation_result two_column_perm_settings params polys = (0, 0) \<and>
    permutation_result two_column_sparse_perm_settings params polys = (0, 0) \<and>
    lookup_result lookup_xor_settings params polys = (0, 0) \<and> lookup_result lookup_err_settings params polys = (0, 0)"
proof -
  define p1 where "p1 = fst (evaluate_permutation two_column_perm_settings params polys)"
  define p2 where "p2 = fst (evaluate_permutation two_column_sparse_perm_settings params p1)"
  define p3 where "p3 = fst (evaluate_lookup lookup_xor_settings params p2)"
  have "row_holds toy_avm_relation r" if "r \<in> set polys" for r
    using assms(2) that by (auto simp: toy_relation_iff list_all_iff)
  then have rel: "evaluate_relation ''toy_avm'' 3 toy_avm_relation polys = Inr True"
    by (subst evaluate_relation_iff) (simp_all add: toy_avm_relation_def)
  have clean: "list_all (clean_row (perm_const_entities two_column_perm_settings)) polys"
      "list_all (clean_row (perm_const_entities two_column_sparse_perm_settings)) polys"
      "list_all (clean_row (get_const_entities lookup_xor_settings)) polys"
      "list_all (clean_row (get_const_entities lookup_err_settings)) polys"
    using assms(1,2) clean_toy_row by (auto simp: list_all_iff)
  have "permutation_result two_column_sparse_perm_settings params p1 = permutation_result two_column_sparse_perm_settings params polys"
    using assms(3) unfolding p1_def params_def by (intro sparse.result_transfer_perm toy_after clean) (simp add: toy_regular_def)
  moreover have "lookup_result lookup_xor_settings params p2 = lookup_result lookup_xor_settings params polys"
    using assms(3) toy_after unfolding p2_def p1_def params_def
    by (intro xors.result_transfer clean) (simp_all add: toy_regular_def)
  moreover have "lookup_result lookup_err_settings params p3 = lookup_result lookup_err_settings params polys"
    using assms(3) toy_after unfolding p3_def p2_def p1_def params_def
    by (intro errs.result_transfer clean) (simp_all add: toy_regular_def)
  ultimately show ?thesis
    unfolding toy_check_circuit_def Let_def split_def params_def [symmetric] assms(4) [symmetric] rel
      p1_def [symmetric] p2_def [symmetric] p3_def [symmetric]
    by (simp add: evaluate_lookup_result evaluate_permutation_result)
qed


lemma small_of_nat_inj: "n \<le> 2 ^ 63 \<Longrightarrow> inj_on (of_nat :: nat \<Rightarrow> ff) {..n}"
proof (rule inj_onI)
  fix i j
  assume "n \<le> 2 ^ 63" "i \<in> {..n}" "j \<in> {..n}" and eq: "(of_nat i :: ff) = of_nat j"
  then have "i \<le> 2 ^ 63" "j \<le> 2 ^ 63"
    by simp_all
  then have "i < 2 ^ 253" "j < 2 ^ 253"
    by simp_all
  then show "i = j"
    using eq of_nat_ff_inject by blast
qed

text \<open>
  C19: check_circuit of the toy machine, for a trace in which the four selectors that no relation
  constrains (sparse_lhs, sparse_rhs, q_err and q_err_check) are bits and the four inverse columns
  are zero, as in a new trace. For a fixed beta, which compresses the tuples, and at least twice as
  many challenges gamma as rows of the padded table, away from the poles: it returns true for all of
  them if and only if the other three selectors (q_tuple_set, q_xor and q_xor_table) are bits, both
  pairs of compressed columns are permutations of each other and both lookups find the compressed
  tuples they read as often as the counts say.
\<close>

theorem toy_check_circuit_iff:
  assumes "list_all toy_clean rows" and "length rows \<le> 2 ^ 63"
    and "finite A" and "2 * get_circuit_subgroup_size (length rows) \<le> card A"
    and "\<And>gamma. gamma \<in> A \<Longrightarrow> toy_regular beta gamma rows"
  shows "(\<forall>gamma\<in>A. toy_check_circuit beta gamma rows = Inr True) \<longleftrightarrow> toy_holds beta rows"
proof -
  define polys where "polys = toy_compute_polynomials rows"
  note size = subgroup_size_fits [OF assms(2)]
  have len: "length polys = get_circuit_subgroup_size (length rows)"
    using size(1) by (simp add: polys_def toy_compute_polynomials_def)
  have pad: "list_all toy_bits polys = list_all toy_bits rows" "list_all toy_clean polys" "toy_holds beta polys = toy_holds beta rows"
      "toy_regular beta gamma polys = toy_regular beta gamma rows" for gamma
    using assms(1) by (simp_all only: polys_def toy_compute_polynomials_def padded)
  show ?thesis
  proof (cases "list_all toy_bits rows")
    case True
    then have bits: "list_all toy_bits polys"
      by (simp add: pad)
    have clean: "list_all (clean_row (perm_const_entities two_column_perm_settings)) polys"
        "list_all (clean_row (perm_const_entities two_column_sparse_perm_settings)) polys"
        "list_all (clean_row (get_const_entities lookup_xor_settings)) polys"
        "list_all (clean_row (get_const_entities lookup_err_settings)) polys"
      using pad(2) bits clean_toy_row by (auto simp: list_all_iff)
    have regular: "toy_regular beta gamma polys" if "gamma \<in> A" for gamma
      using assms(5) that by (simp add: pad)
    have card: "2 * length polys \<le> card A" and inj: "inj_on (of_nat :: nat \<Rightarrow> ff) {..length polys}"
      using assms(4) small_of_nat_inj [OF size(2)] by (simp_all add: len)
    have "(\<forall>gamma\<in>A. toy_check_circuit beta gamma rows = Inr True) \<longleftrightarrow>
        (\<forall>gamma\<in>A. permutation_result two_column_perm_settings \<lparr>param_beta = beta, param_gamma = gamma\<rparr> polys = (0, 0)) \<and>
        (\<forall>gamma\<in>A. permutation_result two_column_sparse_perm_settings \<lparr>param_beta = beta, param_gamma = gamma\<rparr> polys = (0, 0)) \<and>
        (\<forall>gamma\<in>A. lookup_result lookup_xor_settings \<lparr>param_beta = beta, param_gamma = gamma\<rparr> polys = (0, 0)) \<and>
        (\<forall>gamma\<in>A. lookup_result lookup_err_settings \<lparr>param_beta = beta, param_gamma = gamma\<rparr> polys = (0, 0))"
      using toy_check_pass [OF pad(2) bits regular polys_def] by blast
    also have "\<dots> \<longleftrightarrow> toy_holds beta polys"
      using regular unfolding toy_regular_def toy_holds_def
      by (simp add: tuples.argument_perm [OF clean(1) assms(3) card inj] sparse.argument_perm [OF clean(2) assms(3) card inj]
        xors.argument [OF clean(3) assms(3) card] errs.argument [OF clean(4) assms(3) card] bits)
    finally show ?thesis
      by (simp add: pad)
  next
    case False
    then obtain r where "r \<in> set polys" "\<not> row_holds toy_avm_relation r"
      using pad(1) by (auto simp: list_all_iff toy_relation_iff)
    then have "evaluate_relation ''toy_avm'' 3 toy_avm_relation polys \<noteq> Inr True"
      by (subst evaluate_relation_iff) (auto simp: toy_avm_relation_def)
    then have "toy_check_circuit beta gamma rows \<noteq> Inr True" for gamma
      using evaluate_relation_iff(2) [of toy_avm_relation 3 "''toy_avm''" polys]
      by (cases "evaluate_relation ''toy_avm'' 3 toy_avm_relation polys")
        (auto simp: toy_check_circuit_def Let_def polys_def [symmetric] toy_avm_relation_def)
    moreover have "A \<noteq> {}"
      using assms(4) size(3) by auto
    ultimately show ?thesis
      using False by (auto simp: toy_holds_def)
  qed
qed

section \<open>Examples\<close>

text \<open>Two errors are looked up in the row of one clock cycle.\<close>

definition toy_err_rows :: "ToyFullRow list" where
  "toy_err_rows =
     [toy_zero\<lparr>toy_q_err := 1, toy_clk := 1, lookup_err_counts := 2, toy_m_clk := 1, toy_q_err_check := 1\<rparr>,
      toy_zero\<lparr>toy_m_clk := 1, toy_q_err_check := 1\<rparr>]"

lemma toy_err_rows_length: "length toy_err_rows = 2"
  by (simp add: toy_err_rows_def)

lemma toy_err_rows_ok:
  "list_all toy_clean toy_err_rows" "toy_holds 0 toy_err_rows" "get_circuit_subgroup_size (length toy_err_rows) = 2"
proof -
  show "list_all toy_clean toy_err_rows"
    by (simp add: toy_err_rows_def toy_clean_def toy_zero_def)
  show "toy_holds 0 toy_err_rows"
    by (simp add: toy_holds_def toy_err_rows_def toy_bits_def permutation_holds_def lookup_holds_def toy_settings_defs
      in_first_def in_second_def is_read_def is_write_def read_value_def write_value_def tuple_value_def toy_zero_def numeral_eq_Suc)
  show "get_circuit_subgroup_size (length toy_err_rows) = 2"
    using subgroup_size [of 1 2] by (simp add: toy_err_rows_length)
qed

lemma numeral_ff_eq_0: "(numeral n :: ff) = 0 \<longleftrightarrow> numeral n mod fr_order = 0"
  using of_nat_ff_eq_0_iff [of "numeral n"] by simp

lemma toy_err_rows_regular:
  "gamma \<in> {1, 2, 3, 4} \<Longrightarrow> toy_regular 0 gamma toy_err_rows"
  by (auto simp: toy_err_rows_def toy_regular_def permutation_regular_def lookup_regular_def toy_settings_defs
      in_first_def in_second_def is_read_def is_write_def read_value_def write_value_def tuple_value_def toy_zero_def
      numeral_eq_Suc numeral_ff_eq_0)

lemma card_challenges: "card {1, 2, 3, 4 :: ff} = 4"
  by (simp add: ff_int_inject [symmetric])

lemma toy_check_circuit_iff_witness:
  "toy_check_circuit 0 1 toy_err_rows = Inr True \<and> toy_check_circuit 0 4 toy_err_rows = Inr True"
  using card_challenges toy_check_circuit_iff [of toy_err_rows "{1, 2, 3, 4}" 0] toy_err_rows_ok toy_err_rows_regular
  by (simp add: toy_err_rows_length)

lemma lookup_argument_witness:
  "lookup_result lookup_err_settings \<lparr>param_beta = 0, param_gamma = 1\<rparr> toy_err_rows = (0, 0) \<and>
   lookup_result lookup_err_settings \<lparr>param_beta = 0, param_gamma = 4\<rparr> toy_err_rows = (0, 0)"
proof -
  have "list_all (clean_row (get_const_entities lookup_err_settings)) toy_err_rows"
    by (simp add: toy_err_rows_def clean_row_def toy_settings_defs toy_zero_def)
  moreover have "lookup_holds lookup_err_settings 0 toy_err_rows"
    using toy_err_rows_ok(2) by (simp add: toy_holds_def)
  ultimately show ?thesis
    using lookup_argument [OF errs.single_lookup_axioms, of toy_err_rows "{1, 2, 3, 4}" 0] toy_err_rows_regular card_challenges
    by (simp add: toy_err_rows_length toy_regular_def)
qed

definition toy_perm_rows :: "ToyFullRow list" where
  "toy_perm_rows =
     [toy_zero\<lparr>toy_sparse_lhs := 1, toy_sparse_column_1 := 5\<rparr>, toy_zero\<lparr>toy_sparse_rhs := 1, toy_sparse_column_2 := 5\<rparr>]"

lemmas perm_simps = toy_perm_rows_def permutation_holds_def permutation_regular_def clean_row_def toy_settings_defs
  in_first_def in_second_def first_value_def second_value_def tuple_value_def toy_zero_def numeral_eq_Suc

lemma permutation_argument_witness:
  "permutation_result two_column_sparse_perm_settings \<lparr>param_beta = 0, param_gamma = 1\<rparr> toy_perm_rows = (0, 0) \<and>
   permutation_result two_column_sparse_perm_settings \<lparr>param_beta = 0, param_gamma = 4\<rparr> toy_perm_rows = (0, 0)"
proof -
  have "list_all (clean_row (perm_const_entities two_column_sparse_perm_settings)) toy_perm_rows"
      "permutation_holds two_column_sparse_perm_settings 0 toy_perm_rows" "length toy_perm_rows = 2"
    by (simp_all add: perm_simps)
  moreover have "permutation_regular two_column_sparse_perm_settings 0 gamma toy_perm_rows" if "gamma \<in> {1, 2, 3, 4}" for gamma
    using that by (auto simp: perm_simps numeral_ff_eq_0)
  ultimately show ?thesis
    using permutation_argument [OF sparse.permutation_columns_axioms, of toy_perm_rows "{1, 2, 3, 4}" 0]
      card_challenges small_of_nat_inj [of 2] by simp
qed

lemma permutation_lengths_witness:
  "deg_le 3 (\<lambda>x. fst (accumulate_permutation (generic_permutation two_column_perm_settings)
     \<lparr>param_beta = 1, param_gamma = 2\<rparr> 1 (0, 0)
     (toy_zero\<lparr>two_column_perm := x, toy_q_tuple_set := x, toy_set_1_column_1 := x\<rparr>)))"
proof -
  have "columns_affine (\<lambda>x :: ff. [x, x, x, x, x, 0, 0, 0])"
    by (intro columns_affine_Cons columns_affine_Nil deg_le_id deg_le_const)
  then have "columns_affine (\<lambda>x. perm_const_entities two_column_perm_settings
      (toy_zero\<lparr>two_column_perm := x, toy_q_tuple_set := x, toy_set_1_column_1 := x\<rparr>))"
    by (simp add: two_column_perm_settings_def toy_zero_def)
  from permutation_lengths [OF this] show ?thesis
    by blast
qed

end
