(* ===== verification/Merkle_Tree.thy ===== *)
theory Merkle_Tree
  imports Scalar_Field Bitop
begin

text \<open>
  crypto/merkle_tree/memory_tree.hpp, hash.hpp and hash_path.hpp: a tree of a fixed depth whose
  layers lie one after the other in a vector, and the functions that compute a tree, a path and
  a root from scratch. The hashing policy, a template parameter of the tree, is the argument
  hash_pair, which the functions of hash.hpp and hash_path.hpp fix to Pedersen; indices and
  sizes, at most 2^21 here, are natural numbers.
\<close>

section \<open>Computing a whole tree\<close>

fun next_layer :: "(ff \<Rightarrow> ff \<Rightarrow> ff) \<Rightarrow> ff list \<Rightarrow> ff list" where
  "next_layer hash_pair (a # b # layer) = hash_pair a b # next_layer hash_pair layer"
| "next_layer hash_pair layer = []"

lemma length_next_layer [simp]: "length (next_layer hash_pair layer) = length layer div 2"
  by (induction hash_pair layer rule: next_layer.induct) simp_all

text \<open>
  compute_tree_root_native and compute_tree_native. The code asserts that the number of leaves
  is a power of two.
\<close>

datatype tree_error = Assertion | Bad_optional_access

function tree_root :: "(ff \<Rightarrow> ff \<Rightarrow> ff) \<Rightarrow> ff list \<Rightarrow> ff" where
  "tree_root hash_pair layer =
     (if length layer > 1 then tree_root hash_pair (next_layer hash_pair layer) else layer ! 0)"
  by pat_completeness auto
termination
  by (relation "measure (\<lambda>(_, layer). length layer)") simp_all

declare tree_root.simps [simp del]

function tree_layers :: "(ff \<Rightarrow> ff \<Rightarrow> ff) \<Rightarrow> ff list \<Rightarrow> ff list" where
  "tree_layers hash_pair layer =
     (if length layer > 1
      then next_layer hash_pair layer @ tree_layers hash_pair (next_layer hash_pair layer)
      else [])"
  by pat_completeness auto
termination
  by (relation "measure (\<lambda>(_, layer). length layer)") simp_all

declare tree_layers.simps [simp del]

definition compute_tree_root_native :: "(ff \<Rightarrow> ff \<Rightarrow> ff) \<Rightarrow> ff list \<Rightarrow> tree_error + ff" where
  "compute_tree_root_native hash_pair input =
     (if input \<noteq> [] \<and> is_power_of_two (of_nat (length input)) then Inr (tree_root hash_pair input) else Inl Assertion)"

definition compute_tree_native :: "(ff \<Rightarrow> ff \<Rightarrow> ff) \<Rightarrow> ff list \<Rightarrow> tree_error + ff list" where
  "compute_tree_native hash_pair input =
     (if input \<noteq> [] \<and> is_power_of_two (of_nat (length input)) then Inr (input @ tree_layers hash_pair input) else Inl Assertion)"

section \<open>The tree in memory\<close>

record MemoryTree =
  mt_depth :: nat
  mt_total_size :: nat
  mt_root :: ff
  mt_hashes :: "ff list"

text \<open>
  The constructor fills a layer at a time with the hash of an empty tree of its height; the
  loop stops when the offset leaves the vector, with a layer of size 1 to come.
\<close>

definition fill_layer :: "ff list \<Rightarrow> nat \<Rightarrow> nat \<Rightarrow> ff \<Rightarrow> ff list" where
  "fill_layer hashes offset layer_size current =
     foldl (\<lambda>hashes i. hashes[offset + i := current]) hashes [0..<layer_size]"

function fill_layers :: "(ff \<Rightarrow> ff \<Rightarrow> ff) \<Rightarrow> ff list \<Rightarrow> nat \<Rightarrow> nat \<Rightarrow> ff \<Rightarrow> ff list \<times> ff" where
  "fill_layers hash_pair hashes offset layer_size current =
     (if offset < length hashes \<and> 0 < layer_size
      then fill_layers hash_pair (fill_layer hashes offset layer_size current) (offset + layer_size) (layer_size div 2)
             (hash_pair current current)
      else (hashes, current))"
  by pat_completeness auto

lemma length_fill_layer [simp]: "length (fill_layer hashes offset layer_size current) = length hashes"
  unfolding fill_layer_def by (induction layer_size) simp_all

termination fill_layers
  by (relation "measure (\<lambda>(_, hashes, offset, _). length hashes - offset)") auto

declare fill_layers.simps [simp del]

definition memory_tree_init :: "(ff \<Rightarrow> ff \<Rightarrow> ff) \<Rightarrow> nat \<Rightarrow> tree_error + MemoryTree" where
  "memory_tree_init hash_pair depth =
     (if \<not> (1 \<le> depth \<and> depth \<le> 20) then Inl Assertion
      else let total_size = 2 ^ depth;
               (hashes, current) = fill_layers hash_pair (replicate (total_size * 2 - 2) 0) 0 total_size 0
           in Inr \<lparr>mt_depth = depth, mt_total_size = total_size, mt_root = current, mt_hashes = hashes\<rparr>)"

fun hash_path_loop :: "nat \<Rightarrow> ff list \<Rightarrow> nat \<Rightarrow> nat \<Rightarrow> nat \<Rightarrow> (ff \<times> ff) list" where
  "hash_path_loop 0 hashes offset layer_size index = []"
| "hash_path_loop (Suc levels) hashes offset layer_size index =
     (let index = index - index mod 2
      in (hashes ! (offset + index), hashes ! (offset + index + 1)) #
         hash_path_loop levels hashes (offset + layer_size) (layer_size div 2) (index div 2))"

definition get_hash_path :: "'a MemoryTree_scheme \<Rightarrow> nat \<Rightarrow> (ff \<times> ff) list" where
  "get_hash_path t index = hash_path_loop (mt_depth t) (mt_hashes t) 0 (mt_total_size t) index"

fun sibling_path_loop :: "nat \<Rightarrow> ff list \<Rightarrow> nat \<Rightarrow> nat \<Rightarrow> nat \<Rightarrow> ff list" where
  "sibling_path_loop 0 hashes offset layer_size index = []"
| "sibling_path_loop (Suc levels) hashes offset layer_size index =
     (if index mod 2 = 0 then hashes ! (offset + index + 1) else hashes ! (offset + index - 1)) #
     sibling_path_loop levels hashes (offset + layer_size) (layer_size div 2) (index div 2)"

definition get_sibling_path :: "'a MemoryTree_scheme \<Rightarrow> nat \<Rightarrow> ff list" where
  "get_sibling_path t index = sibling_path_loop (mt_depth t) (mt_hashes t) 0 (mt_total_size t) index"

fun update_loop :: "(ff \<Rightarrow> ff \<Rightarrow> ff) \<Rightarrow> nat \<Rightarrow> ff list \<Rightarrow> nat \<Rightarrow> nat \<Rightarrow> nat \<Rightarrow> ff \<Rightarrow> ff list \<times> ff" where
  "update_loop hash_pair 0 hashes offset layer_size index current = (hashes, current)"
| "update_loop hash_pair (Suc levels) hashes offset layer_size index current =
     (let hashes = hashes[offset + index := current];
          index = index - index mod 2;
          current = hash_pair (hashes ! (offset + index)) (hashes ! (offset + index + 1))
      in update_loop hash_pair levels hashes (offset + layer_size) (layer_size div 2) (index div 2) current)"

definition update_element :: "(ff \<Rightarrow> ff \<Rightarrow> ff) \<Rightarrow> nat \<Rightarrow> ff \<Rightarrow> 'a MemoryTree_scheme \<Rightarrow> 'a MemoryTree_scheme" where
  "update_element hash_pair index value t =
     (let (hashes, current) = update_loop hash_pair (mt_depth t) (mt_hashes t) 0 (mt_total_size t) index value
      in t\<lparr>mt_hashes := hashes, mt_root := current\<rparr>)"

section \<open>Paths\<close>

fun new_hash_path_loop :: "(ff \<Rightarrow> ff \<Rightarrow> ff) \<Rightarrow> (ff \<times> ff) list \<Rightarrow> nat \<Rightarrow> ff \<Rightarrow> (ff \<times> ff) list" where
  "new_hash_path_loop hash_pair [] index current = []"
| "new_hash_path_loop hash_pair (node # path) index current =
     (let node = (if index mod 2 = 1 then (fst node, current) else (current, snd node))
      in node # new_hash_path_loop hash_pair path (index div 2) (hash_pair (fst node) (snd node)))"

definition get_new_hash_path :: "(ff \<Rightarrow> ff \<Rightarrow> ff) \<Rightarrow> (ff \<times> ff) list \<Rightarrow> nat \<Rightarrow> ff \<Rightarrow> (ff \<times> ff) list" where
  "get_new_hash_path hash_pair old_path index value = new_hash_path_loop hash_pair old_path index value"

definition get_hash_path_root :: "(ff \<Rightarrow> ff \<Rightarrow> ff) \<Rightarrow> (ff \<times> ff) list \<Rightarrow> ff" where
  "get_hash_path_root hash_pair input = hash_pair (fst (last input)) (snd (last input))"

fun zero_hash_at_height :: "(ff \<Rightarrow> ff \<Rightarrow> ff) \<Rightarrow> nat \<Rightarrow> ff" where
  "zero_hash_at_height hash_pair height = ((\<lambda>current. hash_pair current current) ^^ height) 0"

section \<open>Layers\<close>

abbreviation full_tree :: "(ff \<Rightarrow> ff \<Rightarrow> ff) \<Rightarrow> ff list \<Rightarrow> ff list" where
  "full_tree hash_pair L \<equiv> L @ tree_layers hash_pair L"

lemma next_layer_nth:
  "2 * k + 1 < length L \<Longrightarrow> next_layer hash_pair L ! k = hash_pair (L ! (2 * k)) (L ! (2 * k + 1))"
proof (induction hash_pair L arbitrary: k rule: next_layer.induct)
  case (1 hash_pair a b layer)
  then show ?case
    by (cases k) simp_all
qed simp_all

lemma next_layer_update:
  assumes "i < length L" and "even (length L)"
  shows "next_layer hash_pair (L[i := v]) = (next_layer hash_pair L)[i div 2 :=
    hash_pair (L[i := v] ! (i - i mod 2)) (L[i := v] ! (i - i mod 2 + 1))]"
proof (rule nth_equalityI)
  fix k assume k: "k < length (next_layer hash_pair (L[i := v]))"
  have i: "i - i mod 2 = 2 * (i div 2)"
    by (simp add: minus_mod_eq_mult_div)
  have "2 * k + 1 < length L"
    using k by simp
  moreover have "2 * (i div 2) + 1 < length L"
    using assms by presburger
  ultimately show "next_layer hash_pair (L[i := v]) ! k = (next_layer hash_pair L)[i div 2 :=
      hash_pair (L[i := v] ! (i - i mod 2)) (L[i := v] ! (i - i mod 2 + 1))] ! k"
    unfolding i by (cases "k = i div 2") (auto simp: next_layer_nth nth_list_update)
qed simp

lemma full_tree_Suc:
  assumes "length L = 2 ^ Suc n"
  shows "full_tree hash_pair L = L @ full_tree hash_pair (next_layer hash_pair L)"
    and "tree_root hash_pair L = tree_root hash_pair (next_layer hash_pair L)"
    and "length (next_layer hash_pair L) = 2 ^ n"
proof -
  have "length L > 1"
    using one_less_power [of "2 :: nat" "Suc n"] assms by simp
  then show "full_tree hash_pair L = L @ full_tree hash_pair (next_layer hash_pair L)"
      "tree_root hash_pair L = tree_root hash_pair (next_layer hash_pair L)"
    using tree_layers.simps [of hash_pair L] tree_root.simps [of hash_pair L] by simp_all
qed (simp add: assms)

lemma full_tree_0: "length L = 1 \<Longrightarrow> full_tree hash_pair L = L" "length L = 1 \<Longrightarrow> tree_root hash_pair L = L ! 0"
  by (subst tree_layers.simps, simp) (subst tree_root.simps, simp)

lemma full_tree_facts:
  assumes "length L = 2 ^ n"
  shows "length (full_tree hash_pair L) = 2 * 2 ^ n - 1" and "last (full_tree hash_pair L) = tree_root hash_pair L"
    and "full_tree hash_pair L \<noteq> []"
proof -
  have "length (full_tree hash_pair L) = 2 * 2 ^ n - 1 \<and> last (full_tree hash_pair L) = tree_root hash_pair L"
    using assms
  proof (induction n arbitrary: L)
    case 0
    then show ?case
      using full_tree_0 [of L hash_pair] by (cases L) simp_all
  next
    case (Suc n)
    note step = full_tree_Suc [OF Suc.prems, of hash_pair]
    have "next_layer hash_pair L \<noteq> []"
      using step(3) by (metis list.size(3) power_eq_0_iff zero_neq_numeral)
    then show ?case
      using Suc.IH [OF step(3)] unfolding step(1,2) by (simp add: Suc.prems)
  qed
  then show "length (full_tree hash_pair L) = 2 * 2 ^ n - 1" "last (full_tree hash_pair L) = tree_root hash_pair L"
    by simp_all
  show "full_tree hash_pair L \<noteq> []"
    using assms by auto
qed

text \<open>The vector of a tree: its layers without the root.\<close>

definition tree_vector :: "(ff \<Rightarrow> ff \<Rightarrow> ff) \<Rightarrow> ff list \<Rightarrow> ff list" where
  "tree_vector hash_pair L = butlast (full_tree hash_pair L)"

lemma tree_vector_Suc:
  assumes "length L = 2 ^ Suc n"
  shows "tree_vector hash_pair L = L @ tree_vector hash_pair (next_layer hash_pair L)"
  unfolding tree_vector_def full_tree_Suc(1) [OF assms]
  using full_tree_facts(3) [OF full_tree_Suc(3) [OF assms], of hash_pair hash_pair] by (rule butlast_append [THEN trans, OF if_not_P])

lemma tree_vector_0: "length L = 1 \<Longrightarrow> tree_vector hash_pair L = []"
  unfolding tree_vector_def full_tree_0 by (cases L) simp_all

lemma length_tree_vector: "length L = 2 ^ n \<Longrightarrow> length (tree_vector hash_pair L) = 2 * 2 ^ n - 2"
  unfolding tree_vector_def length_butlast using full_tree_facts(1) [of L n hash_pair] by simp

lemma half_index: "i < 2 ^ Suc n \<Longrightarrow> i div 2 < 2 ^ n" for i :: nat
  by simp

lemma update_loop_eq:
  assumes "length L = 2 ^ n" and "index < 2 ^ n"
  shows "update_loop hash_pair n (pre @ tree_vector hash_pair L) (length pre) (2 ^ n) index v =
    (pre @ tree_vector hash_pair (L[index := v]), tree_root hash_pair (L[index := v]))"
  using assms
proof (induction n arbitrary: L pre index v)
  case 0
  then show ?case
    by (cases L) (simp_all add: tree_vector_0 full_tree_0)
next
  case (Suc n)
  define L' where "L' = L[index := v]"
  define j where "j = index - index mod 2"
  have len: "length L' = 2 ^ Suc n"
    using Suc.prems by (simp add: L'_def)
  have j: "j < length L'" "j + 1 < length L'"
    using Suc.prems len by (auto simp: j_def) presburger
  have half: "j div 2 = index div 2"
    unfolding j_def by presburger
  define w where "w = hash_pair (L' ! j) (L' ! (j + 1))"
  have above: "next_layer hash_pair L' = (next_layer hash_pair L)[index div 2 := w]"
    unfolding L'_def w_def j_def using Suc.prems by (intro next_layer_update) simp_all
  have hashes: "(pre @ tree_vector hash_pair L)[length pre + index := v] =
      (pre @ L') @ tree_vector hash_pair (next_layer hash_pair L)"
    using Suc.prems by (simp add: tree_vector_Suc list_update_append L'_def)
  have "update_loop hash_pair n ((pre @ L') @ tree_vector hash_pair (next_layer hash_pair L)) (length (pre @ L')) (2 ^ n) (index div 2) w =
      ((pre @ L') @ tree_vector hash_pair (next_layer hash_pair L'), tree_root hash_pair (next_layer hash_pair L'))"
    unfolding above using Suc.prems(2) full_tree_Suc(3) [OF Suc.prems(1)]
    by (intro Suc.IH) simp_all
  then show ?case
    using j half unfolding L'_def [symmetric]
    by (simp add: hashes Let_def j_def [symmetric] nth_append w_def len tree_vector_Suc [OF len] full_tree_Suc(2) [OF len])
qed

text \<open>The path of a leaf: the pair of siblings of every layer.\<close>

fun tree_path :: "(ff \<Rightarrow> ff \<Rightarrow> ff) \<Rightarrow> nat \<Rightarrow> ff list \<Rightarrow> nat \<Rightarrow> (ff \<times> ff) list" where
  "tree_path hash_pair 0 L i = []"
| "tree_path hash_pair (Suc n) L i =
     (L ! (2 * (i div 2)), L ! (2 * (i div 2) + 1)) # tree_path hash_pair n (next_layer hash_pair L) (i div 2)"

lemma hash_path_loop_eq:
  assumes "length L = 2 ^ n" and "index < 2 ^ n"
  shows "hash_path_loop n (pre @ tree_vector hash_pair L) (length pre) (2 ^ n) index = tree_path hash_pair n L index"
  using assms
proof (induction n arbitrary: L pre index)
  case (Suc n)
  have j: "index - index mod 2 = 2 * (index div 2)" "2 * (index div 2) + 1 < length L"
    using Suc.prems by (auto simp: minus_mod_eq_mult_div) presburger
  have "hash_path_loop n ((pre @ L) @ tree_vector hash_pair (next_layer hash_pair L)) (length (pre @ L)) (2 ^ n) (index div 2) =
      tree_path hash_pair n (next_layer hash_pair L) (index div 2)"
    using Suc.prems full_tree_Suc(3) [OF Suc.prems(1)] by (intro Suc.IH) simp_all
  then show ?case
    using j by (simp add: j(1) Let_def tree_vector_Suc [OF Suc.prems(1)] nth_append Suc.prems(1))
qed simp

lemma sibling_path_loop_eq:
  assumes "length L = 2 ^ n" and "index < 2 ^ n"
  shows "sibling_path_loop n (pre @ tree_vector hash_pair L) (length pre) (2 ^ n) index =
    map2 (\<lambda>k (l, r). if (index div 2 ^ k) mod 2 = 0 then r else l) [0..<n] (tree_path hash_pair n L index)"
  using assms
proof (induction n arbitrary: L pre index)
  case (Suc n)
  have j: "2 * (index div 2) + 1 < length L"
    using Suc.prems by auto presburger
  have odd: "index - 1 = 2 * (index div 2)" if "index mod 2 = 1"
    using that by presburger
  have "sibling_path_loop n ((pre @ L) @ tree_vector hash_pair (next_layer hash_pair L)) (length (pre @ L)) (2 ^ n) (index div 2) =
      map2 (\<lambda>k (l, r). if (index div 2 div 2 ^ k) mod 2 = 0 then r else l) [0..<n]
        (tree_path hash_pair n (next_layer hash_pair L) (index div 2))"
    using Suc.prems full_tree_Suc(3) [OF Suc.prems(1)] by (intro Suc.IH) simp_all
  moreover have "[0..<Suc n] = 0 # map Suc [0..<n]"
    by (simp add: upt_conv_Cons map_Suc_upt del: upt_Suc)
  ultimately show ?case
    using j odd Suc.prems
    by (cases "index mod 2 = 0") (auto simp: tree_vector_Suc [OF Suc.prems(1)] nth_append div_mult2_eq zip_map1 comp_def split_def
      simp del: upt_Suc)
qed simp

lemma tree_path_length [simp]: "length (tree_path hash_pair n L i) = n"
  by (induction n arbitrary: L i) simp_all

text \<open>What a verifier checks: the leaf is on its side of the first pair, and so up to the root.\<close>

fun path_ok :: "(ff \<Rightarrow> ff \<Rightarrow> ff) \<Rightarrow> nat \<Rightarrow> ff \<Rightarrow> (ff \<times> ff) list \<Rightarrow> ff \<Rightarrow> bool" where
  "path_ok hash_pair i current [] root \<longleftrightarrow> current = root"
| "path_ok hash_pair i current ((l, r) # path) root \<longleftrightarrow>
     (if i mod 2 = 1 then r else l) = current \<and> path_ok hash_pair (i div 2) (hash_pair l r) path root"

lemma index_halves: "i mod 2 = 1 \<Longrightarrow> 2 * (i div 2) + 1 = i" "i mod 2 \<noteq> 1 \<Longrightarrow> 2 * (i div 2) = i" for i :: nat
  by presburger+

lemma tree_path_pair:
  assumes "length L = 2 ^ Suc n" and "i < 2 ^ Suc n"
  shows "next_layer hash_pair L ! (i div 2) = hash_pair (L ! (2 * (i div 2))) (L ! (2 * (i div 2) + 1))"
    and "(if i mod 2 = 1 then L ! Suc (2 * (i div 2)) else L ! (2 * (i div 2))) = L ! i"
proof -
  have "2 * (i div 2) + 1 < length L"
    using assms by auto presburger
  then show "next_layer hash_pair L ! (i div 2) = hash_pair (L ! (2 * (i div 2))) (L ! (2 * (i div 2) + 1))"
    by (rule next_layer_nth)
  show "(if i mod 2 = 1 then L ! Suc (2 * (i div 2)) else L ! (2 * (i div 2))) = L ! i"
    using index_halves [of i] by auto
qed

lemma tree_path_ok:
  assumes "length L = 2 ^ n" and "i < 2 ^ n"
  shows "path_ok hash_pair i (L ! i) (tree_path hash_pair n L i) (tree_root hash_pair L)"
  using assms
proof (induction n arbitrary: L i)
  case 0
  then show ?case
    by (simp add: full_tree_0)
next
  case (Suc n)
  note step = full_tree_Suc [OF Suc.prems(1), of hash_pair] tree_path_pair(1) [OF Suc.prems, of hash_pair] tree_path_pair(2) [OF Suc.prems]
  show ?case
    using Suc.IH [OF step(3), of "i div 2"] Suc.prems(2) step(5) by (simp add: step(2,4))
qed

lemma tree_path_binding:
  assumes "length L = 2 ^ n" and "i < 2 ^ n" and "length path = n" and "path_ok hash_pair i v path (tree_root hash_pair L)"
    and "v \<noteq> L ! i"
  shows "\<exists>k<n. path ! k \<noteq> tree_path hash_pair n L i ! k \<and>
    case_prod hash_pair (path ! k) = case_prod hash_pair (tree_path hash_pair n L i ! k)"
  using assms
proof (induction n arbitrary: L i v path)
  case 0
  then show ?case
    by (simp add: full_tree_0)
next
  case (Suc n)
  note step = full_tree_Suc [OF Suc.prems(1), of hash_pair] tree_path_pair(1) [OF Suc.prems(1,2), of hash_pair] tree_path_pair(2) [OF Suc.prems(1,2)]
  obtain l r p where path: "path = (l, r) # p" "length p = n"
    using Suc.prems(3) by (cases path) auto
  have v: "(if i mod 2 = 1 then r else l) = v" and rest: "path_ok hash_pair (i div 2) (hash_pair l r) p (tree_root hash_pair (next_layer hash_pair L))"
    using Suc.prems(4) by (simp_all add: path(1) step(2))
  show ?case
  proof (cases "hash_pair l r = next_layer hash_pair L ! (i div 2)")
    case True
    then show ?thesis
      using v step(4,5) Suc.prems(5) path(1) by (intro exI [of _ 0]) (auto split: if_splits)
  next
    case False
    then obtain k where "k < n" "p ! k \<noteq> tree_path hash_pair n (next_layer hash_pair L) (i div 2) ! k"
        "case_prod hash_pair (p ! k) = case_prod hash_pair (tree_path hash_pair n (next_layer hash_pair L) (i div 2) ! k)"
      using Suc.IH [OF step(3) half_index [OF Suc.prems(2)] path(2) rest False] by blast
    then show ?thesis
      by (intro exI [of _ "Suc k"]) (simp add: path(1))
  qed
qed

lemma tree_path_update:
  assumes "length L = 2 ^ n" and "i < 2 ^ n"
  shows "tree_path hash_pair n (L[i := v]) i = get_new_hash_path hash_pair (tree_path hash_pair n L i) i v"
  unfolding get_new_hash_path_def
  using assms
proof (induction n arbitrary: L i v)
  case (Suc n)
  define j where "j = 2 * (i div 2)"
  have j: "i - i mod 2 = j" "Suc j < length L"
    using Suc.prems by (auto simp: j_def minus_mod_eq_mult_div) presburger
  have pair: "(L[i := v] ! j, L[i := v] ! Suc j) = (if i mod 2 = 1 then (L ! j, v) else (v, L ! Suc j))"
    using index_halves [of i] j(2) by (auto simp: j_def [symmetric] nth_list_update)
  have "next_layer hash_pair (L[i := v]) = (next_layer hash_pair L)[i div 2 := hash_pair (L[i := v] ! j) (L[i := v] ! Suc j)]"
    using next_layer_update [of i L hash_pair v] Suc.prems by (simp add: j(1))
  then have "tree_path hash_pair n (next_layer hash_pair (L[i := v])) (i div 2) =
      new_hash_path_loop hash_pair (tree_path hash_pair n (next_layer hash_pair L) (i div 2)) (i div 2)
        (hash_pair (L[i := v] ! j) (L[i := v] ! Suc j))"
    using Suc.IH [OF full_tree_Suc(3) [OF Suc.prems(1)], of "i div 2"] Suc.prems(2) by simp
  then show ?case
    using pair by (simp add: Let_def j_def [symmetric] split: if_splits)
qed simp

lemma tree_path_root:
  "length L = 2 ^ Suc n \<Longrightarrow> i < 2 ^ Suc n \<Longrightarrow> get_hash_path_root hash_pair (tree_path hash_pair (Suc n) L i) = tree_root hash_pair L"
proof (induction n arbitrary: L i)
  case 0
  note step = full_tree_Suc [OF 0(1), of hash_pair] tree_path_pair(1) [OF 0, of hash_pair] tree_path_pair(2) [OF 0]
  show ?case
    using step(4) 0(2) full_tree_0(2) [of "next_layer hash_pair L" hash_pair] step(3)
    by (simp add: get_hash_path_root_def step(2))
next
  case (Suc n)
  note step = full_tree_Suc [OF Suc.prems(1), of hash_pair]
  show ?case
    using Suc.IH [OF step(3), of "i div 2"] Suc.prems(2) by (simp add: get_hash_path_root_def step(2))
qed

section \<open>The tree represents its leaves\<close>

definition stores :: "(ff \<Rightarrow> ff \<Rightarrow> ff) \<Rightarrow> 'a MemoryTree_scheme \<Rightarrow> ff list \<Rightarrow> bool" where
  "stores hash_pair t L \<longleftrightarrow>
     1 \<le> mt_depth t \<and> mt_depth t \<le> 20 \<and> mt_total_size t = 2 ^ mt_depth t \<and> length L = 2 ^ mt_depth t \<and>
     mt_hashes t = tree_vector hash_pair L"

definition represents :: "(ff \<Rightarrow> ff \<Rightarrow> ff) \<Rightarrow> 'a MemoryTree_scheme \<Rightarrow> ff list \<Rightarrow> bool" where
  "represents hash_pair t L \<longleftrightarrow> stores hash_pair t L \<and> mt_root t = tree_root hash_pair L"

lemmas represents_defs = represents_def stores_def

lemma stores_update:
  assumes "stores hash_pair t L" and "i < 2 ^ mt_depth t"
  shows "represents hash_pair (update_element hash_pair i v t) (L[i := v])"
    and "mt_depth (update_element hash_pair i v t) = mt_depth t"
  using assms update_loop_eq [of L "mt_depth t" i hash_pair "[]" v]
  by (simp_all add: represents_defs update_element_def Let_def split_def)

lemma represents_update:
  assumes "represents hash_pair t L" and "i < 2 ^ mt_depth t"
  shows "represents hash_pair (update_element hash_pair i v t) (L[i := v])"
    and "mt_depth (update_element hash_pair i v t) = mt_depth t"
  using assms stores_update [of hash_pair t L i] by (simp_all add: represents_def)

lemma represents_hash_path:
  assumes "represents hash_pair t L" and "i < 2 ^ mt_depth t"
  shows "get_hash_path t i = tree_path hash_pair (mt_depth t) L i"
  using assms hash_path_loop_eq [of L "mt_depth t" i "[]" hash_pair] by (simp add: represents_defs get_hash_path_def)

lemma fill_layer_eq: "fill_layer (pre @ xs @ ys) (length pre) (length xs) c = pre @ replicate (length xs) c @ ys"
  unfolding fill_layer_def
proof (induction xs arbitrary: ys rule: rev_induct)
  case (snoc x xs)
  have "foldl (\<lambda>hashes i. hashes[length pre + i := c]) (pre @ xs @ x # ys) [0..<length xs] = pre @ replicate (length xs) c @ x # ys"
    by (rule snoc.IH)
  then show ?case
    by (simp add: list_update_append replicate_append_same [symmetric])
qed simp

lemma next_layer_replicate: "next_layer hash_pair (replicate (2 * n) c) = replicate n (hash_pair c c)"
  by (induction n) simp_all

lemma fill_layers_eq:
  "length junk = 2 * 2 ^ n - 2 \<Longrightarrow> fill_layers hash_pair (pre @ junk) (length pre) (2 ^ n) c =
    (pre @ tree_vector hash_pair (replicate (2 ^ n) c), tree_root hash_pair (replicate (2 ^ n) c))"
proof (induction n arbitrary: pre junk c)
  case 0
  then show ?case
    by (subst fill_layers.simps) (simp add: tree_vector_0 full_tree_0)
next
  case (Suc n)
  define xs ys where "xs = take (2 ^ Suc n) junk" and "ys = drop (2 ^ Suc n) junk"
  have junk: "junk = xs @ ys" "length xs = 2 ^ Suc n" "length ys = 2 * 2 ^ n - 2" "junk \<noteq> []"
  proof -
    obtain m where "(2 :: nat) ^ n = Suc m"
      by (cases "(2 :: nat) ^ n") auto
    then show "junk = xs @ ys" "length xs = 2 ^ Suc n" "length ys = 2 * 2 ^ n - 2" "junk \<noteq> []"
      using Suc.prems by (auto simp: xs_def ys_def)
  qed
  have len: "length (replicate (2 ^ Suc n) c) = 2 ^ Suc n"
    by simp
  have above: "next_layer hash_pair (replicate (2 ^ Suc n) c) = replicate (2 ^ n) (hash_pair c c)"
    using next_layer_replicate [of hash_pair "2 ^ n"] by simp
  have "fill_layers hash_pair (pre @ junk) (length pre) (2 ^ Suc n) c =
      fill_layers hash_pair ((pre @ replicate (2 ^ Suc n) c) @ ys) (length (pre @ replicate (2 ^ Suc n) c)) (2 ^ n) (hash_pair c c)"
    using junk(4) fill_layer_eq [of pre xs ys c] unfolding junk(1,2)
    by (subst fill_layers.simps) (simp add: junk(2))
  then show ?case
    using Suc.IH [OF junk(3), of "pre @ replicate (2 ^ Suc n) c" "hash_pair c c"]
      tree_vector_Suc [OF len, of hash_pair] full_tree_Suc(2) [OF len, of hash_pair] above
    by (simp del: replicate_Suc)
qed

lemma represents_init:
  assumes "memory_tree_init hash_pair depth = Inr t"
  shows "represents hash_pair t (replicate (2 ^ depth) 0)" and "mt_depth t = depth"
proof -
  have "fill_layers hash_pair (replicate (2 ^ depth * 2 - 2) 0) 0 (2 ^ depth) 0 =
      (tree_vector hash_pair (replicate (2 ^ depth) 0), tree_root hash_pair (replicate (2 ^ depth) 0))"
    using fill_layers_eq [of "replicate (2 * 2 ^ depth - 2) 0" depth hash_pair "[]" 0] by (simp add: mult.commute)
  then show "represents hash_pair t (replicate (2 ^ depth) 0)" "mt_depth t = depth"
    using assms by (auto simp: memory_tree_init_def represents_defs Let_def split: if_splits)
qed

text \<open>A tree after some updates, and the leaves they leave.\<close>

abbreviation tree_after :: "(ff \<Rightarrow> ff \<Rightarrow> ff) \<Rightarrow> (nat \<times> ff) list \<Rightarrow> MemoryTree \<Rightarrow> MemoryTree" where
  "tree_after hash_pair updates t \<equiv> fold (\<lambda>(i, v). update_element hash_pair i v) updates t"

abbreviation leaves_after :: "(nat \<times> ff) list \<Rightarrow> nat \<Rightarrow> ff list" where
  "leaves_after updates depth \<equiv> fold (\<lambda>(i, v) leaves. leaves[i := v]) updates (replicate (2 ^ depth) 0)"

lemma represents_after:
  assumes "memory_tree_init hash_pair depth = Inr t" and "list_all (\<lambda>(i, v). i < 2 ^ depth) updates"
  shows "represents hash_pair (tree_after hash_pair updates t) (leaves_after updates depth)"
    and "mt_depth (tree_after hash_pair updates t) = depth"
proof -
  have "represents hash_pair (tree_after hash_pair us t') (fold (\<lambda>(i, v) leaves. leaves[i := v]) us L) \<and>
      mt_depth (tree_after hash_pair us t') = depth"
    if "represents hash_pair t' L" "mt_depth t' = depth" "list_all (\<lambda>(i, v). i < 2 ^ depth) us" for us t' L
    using that
  proof (induction us arbitrary: t' L)
    case (Cons u us)
    obtain i v where u: "u = (i, v)"
      by (cases u)
    show ?case
      using Cons.IH [of "update_element hash_pair i v t'" "L[i := v]"] represents_update [OF Cons.prems(1), of i v] Cons.prems
      by (simp add: u)
  qed simp
  then show "represents hash_pair (tree_after hash_pair updates t) (leaves_after updates depth)"
      "mt_depth (tree_after hash_pair updates t) = depth"
    using represents_init [OF assms(1)] assms(2) by blast+
qed

lemma compute_represented:
  assumes "represents hash_pair t L"
  shows "compute_tree_native hash_pair L = Inr (mt_hashes t @ [mt_root t])"
    and "compute_tree_root_native hash_pair L = Inr (mt_root t)"
proof -
  have len: "length L = 2 ^ mt_depth t" "mt_depth t \<le> 20"
    using assms by (simp_all add: represents_defs)
  then have "(2 :: nat) ^ mt_depth t < 2 ^ 64" "(2 :: int) ^ mt_depth t < 2 ^ 64"
    by (intro power_strict_increasing; simp)+
  then have "uint (of_nat (length L) :: u64) = 2 ^ mt_depth t"
    by (simp add: len(1) unsigned_of_nat take_bit_eq_mod del: of_nat_power)
  then have "is_power_of_two (of_nat (length L))"
    unfolding is_power_of_two_iff by blast
  moreover have "L \<noteq> []"
    using len(1) by auto
  moreover have "full_tree hash_pair L = mt_hashes t @ [mt_root t]"
    using assms append_butlast_last_id [OF full_tree_facts(3) [OF len(1), of hash_pair]]
      full_tree_facts(2) [OF len(1), of hash_pair]
    by (simp only: represents_defs tree_vector_def)
  ultimately show "compute_tree_native hash_pair L = Inr (mt_hashes t @ [mt_root t])"
      "compute_tree_root_native hash_pair L = Inr (mt_root t)"
    using assms by (simp_all add: compute_tree_native_def compute_tree_root_native_def represents_defs)
qed

text \<open>A tree of depth 2 for the hash x + 2 y, and two updates, for the witnesses.\<close>

abbreviation example_pair :: "ff \<Rightarrow> ff \<Rightarrow> ff" where
  "example_pair x y \<equiv> x + 2 * y"

abbreviation example_tree :: MemoryTree where
  "example_tree \<equiv> \<lparr>mt_depth = 2, mt_total_size = 4, mt_root = 0, mt_hashes = [0, 0, 0, 0, 0, 0]\<rparr>"

lemma example_init: "memory_tree_init example_pair 2 = Inr example_tree"
proof -
  have "replicate (2 ^ 2 * 2 - 2) (0 :: ff) = [0, 0, 0, 0, 0, 0]"
    by (simp add: numeral_eq_Suc)
  moreover have "fill_layers example_pair [0, 0, 0, 0, 0, 0] 0 4 0 = ([0, 0, 0, 0, 0, 0], 0)"
    by (subst fill_layers.simps, simp add: fill_layer_def upt_rec)+
  ultimately show ?thesis
    by (simp add: memory_tree_init_def Let_def)
qed

text \<open>
  C27: After any updates inside the tree, the vector of hashes and the root are those that
  compute_tree_native and compute_tree_root_native compute from all leaves, which are zero
  where nothing was written, for the hash they are given.
\<close>

theorem memory_tree_recomputed:
  assumes "memory_tree_init hash_pair depth = Inr t" and "list_all (\<lambda>(i, v). i < 2 ^ depth) updates"
  shows "compute_tree_native hash_pair (leaves_after updates depth) =
      Inr (mt_hashes (tree_after hash_pair updates t) @ [mt_root (tree_after hash_pair updates t)]) \<and>
    compute_tree_root_native hash_pair (leaves_after updates depth) = Inr (mt_root (tree_after hash_pair updates t))"
  using compute_represented [OF represents_after(1) [OF assms]] by blast

theorem memory_tree_recomputed_witness:
  "compute_tree_root_native example_pair [0, 5, 0, 7] = Inr (mt_root (tree_after example_pair [(1, 5), (3, 7)] example_tree))"
  using memory_tree_recomputed [OF example_init, of "[(1, 5), (3, 7)]"] by (simp add: numeral_eq_Suc)

text \<open>
  C28: The path of a leaf proves it against the root, the sibling path is the other half of
  it, and an update turns the path into the one get_new_hash_path computes, whose root is the
  new root.
\<close>

theorem memory_tree_paths:
  assumes "memory_tree_init hash_pair depth = Inr t" and "list_all (\<lambda>(i, v). i < 2 ^ depth) updates"
    and "i < 2 ^ depth" and "t' = tree_after hash_pair updates t"
  shows "path_ok hash_pair i (leaves_after updates depth ! i) (get_hash_path t' i) (mt_root t') \<and>
    get_sibling_path t' i = map2 (\<lambda>k (l, r). if (i div 2 ^ k) mod 2 = 0 then r else l) [0..<depth] (get_hash_path t' i) \<and>
    get_hash_path (update_element hash_pair i v t') i = get_new_hash_path hash_pair (get_hash_path t' i) i v \<and>
    mt_root (update_element hash_pair i v t') = get_hash_path_root hash_pair (get_new_hash_path hash_pair (get_hash_path t' i) i v)"
proof -
  define L where "L = leaves_after updates depth"
  have t': "represents hash_pair t' L" "mt_depth t' = depth"
    using represents_after [OF assms(1,2)] by (simp_all add: assms(4) L_def)
  have i: "i < 2 ^ mt_depth t'"
    using assms(3) t'(2) by simp
  note new = represents_update [OF t'(1) i, of v]
  obtain n where n: "depth = Suc n"
    using t' by (cases depth) (auto simp: represents_defs)
  have L: "length L = 2 ^ depth" "mt_root t' = tree_root hash_pair L" "mt_hashes t' = tree_vector hash_pair L"
      "mt_total_size t' = 2 ^ depth"
    using t' by (simp_all add: represents_defs)
  have "mt_root (update_element hash_pair i v t') = tree_root hash_pair (L[i := v])"
    using new(1) by (simp add: represents_defs)
  also have "\<dots> = get_hash_path_root hash_pair (tree_path hash_pair depth (L[i := v]) i)"
    using tree_path_root [of "L[i := v]" n i hash_pair] L(1) assms(3) by (simp add: n)
  finally show ?thesis
    using represents_hash_path [OF t'(1) i] represents_hash_path [OF new(1)] new(2) i
      tree_path_ok [OF L(1) assms(3), of hash_pair] tree_path_update [OF L(1) assms(3), of hash_pair v]
      sibling_path_loop_eq [OF L(1) assms(3), of "[]" hash_pair]
    by (simp add: L t'(2) L_def [symmetric] get_sibling_path_def)
qed

theorem memory_tree_paths_witness:
  "path_ok example_pair 1 5 (get_hash_path (tree_after example_pair [(1, 5)] example_tree) 1)
    (mt_root (tree_after example_pair [(1, 5)] example_tree))"
  using memory_tree_paths [OF example_init, of "[(1, 5)]" 1 "tree_after example_pair [(1, 5)] example_tree" 0]
  by (simp add: numeral_eq_Suc)

text \<open>
  C29: The root binds the leaves: a path of the right length that proves another value for a
  leaf differs from the true path in a level where both pairs have the same hash, a collision
  of hash_pair that can be read off the two paths.
\<close>

theorem memory_tree_binding:
  assumes "memory_tree_init hash_pair depth = Inr t" and "list_all (\<lambda>(i, v). i < 2 ^ depth) updates"
    and "i < 2 ^ depth" and "t' = tree_after hash_pair updates t"
    and "length path = depth" and "path_ok hash_pair i v path (mt_root t')" and "v \<noteq> leaves_after updates depth ! i"
  shows "\<exists>k<depth. path ! k \<noteq> get_hash_path t' i ! k \<and>
    case_prod hash_pair (path ! k) = case_prod hash_pair (get_hash_path t' i ! k)"
proof -
  define L where "L = leaves_after updates depth"
  have t': "represents hash_pair t' L" "mt_depth t' = depth"
    using represents_after [OF assms(1,2)] by (simp_all add: assms(4) L_def)
  then have L: "length L = 2 ^ depth" "mt_root t' = tree_root hash_pair L"
    by (simp_all add: represents_defs)
  have "get_hash_path t' i = tree_path hash_pair depth L i"
    using represents_hash_path [OF t'(1)] assms(3) t'(2) by simp
  then show ?thesis
    using tree_path_binding [OF L(1) assms(3,5)] assms(6,7) by (simp add: L(2) L_def)
qed

text \<open>With the hash x + y, the pair (0, 1) proves leaf 0 to be 0 where it is 1.\<close>

lemma example_sum: "memory_tree_init (+) 1 = Inr \<lparr>mt_depth = 1, mt_total_size = 2, mt_root = 0, mt_hashes = [0, 0]\<rparr>"
proof -
  have "fill_layers (+) [0, 0] 0 2 0 = ([0, 0], 0)"
    by (subst fill_layers.simps, simp add: fill_layer_def upt_rec)+
  then show ?thesis
    by (simp add: memory_tree_init_def Let_def numeral_2_eq_2)
qed

theorem memory_tree_binding_witness:
  "\<exists>k. [(0, 1)] ! k \<noteq> get_hash_path (tree_after (+) [(0, 1)] \<lparr>mt_depth = 1, mt_total_size = 2, mt_root = 0, mt_hashes = [0, 0]\<rparr>) 0 ! k"
  using memory_tree_binding [OF example_sum, of "[(0, 1)]" 0 _ "[(0, 1)]" 0]
  by (intro exI [of _ 0]) (simp add: update_element_def Let_def numeral_2_eq_2)

end
