(* ===== verification/Nullifier_Tree.thy ===== *)
theory Nullifier_Tree
  imports Merkle_Tree Prelude
begin

text \<open>
  crypto/merkle_tree/nullifier_tree: nullifier_leaf.hpp and nullifier_memory_tree.hpp, a tree in
  memory whose leaves form a linked list in the order of their values. The hashing policy is
  given by hash, for the fields of a leaf, and hash_pair; an index_t is a natural number, since
  indices stay below 2^21.
\<close>

section \<open>Leaves\<close>

record nullifier_leaf =
  leaf_value :: ff
  nextIndex :: nat
  nextValue :: ff

type_synonym wrapped_leaf = "nullifier_leaf option"

definition get_hash_inputs :: "nullifier_leaf \<Rightarrow> ff list" where
  "get_hash_inputs l = [leaf_value l, of_nat (nextIndex l), nextValue l]"

definition zero_leaf :: nullifier_leaf where
  "zero_leaf = \<lparr>leaf_value = 0, nextIndex = 0, nextValue = 0\<rparr>"

definition leaf_hash :: "(ff list \<Rightarrow> ff) \<Rightarrow> wrapped_leaf \<Rightarrow> ff" where
  "leaf_hash hash w = (case w of Some l \<Rightarrow> hash (get_hash_inputs l) | None \<Rightarrow> 0)"

text \<open>
  find_closest_leaf: the distances of the new value from every leaf, unless a leaf has it; a
  larger leaf counts with its own value.
\<close>

fun leaf_distances :: "wrapped_leaf list \<Rightarrow> int \<Rightarrow> nat \<Rightarrow> int list \<Rightarrow> nat + int list" where
  "leaf_distances [] new_value i diff = Inr diff"
| "leaf_distances (None # leaves) new_value i diff = leaf_distances leaves new_value (Suc i) (diff @ [new_value])"
| "leaf_distances (Some l # leaves) new_value i diff =
     (if ff_int (leaf_value l) > new_value
      then leaf_distances leaves new_value (Suc i) (diff @ [ff_int (leaf_value l)])
      else if ff_int (leaf_value l) = new_value then Inl i
      else leaf_distances leaves new_value (Suc i) (diff @ [new_value - ff_int (leaf_value l)]))"

text \<open>std::min_element: the position of the first smallest element, the end of an empty range.\<close>

fun min_from :: "int list \<Rightarrow> nat \<Rightarrow> nat \<Rightarrow> int \<Rightarrow> nat" where
  "min_from [] i best smallest = best"
| "min_from (x # xs) i best smallest = (if x < smallest then min_from xs (Suc i) i x else min_from xs (Suc i) best smallest)"

definition min_element :: "int list \<Rightarrow> nat" where
  "min_element xs = (case xs of [] \<Rightarrow> 0 | x # ys \<Rightarrow> min_from ys 1 0 x)"

definition find_closest_leaf :: "wrapped_leaf list \<Rightarrow> ff \<Rightarrow> nat \<times> bool" where
  "find_closest_leaf leaves new_value =
     (case leaf_distances leaves (ff_int new_value) 0 [] of
        Inl i \<Rightarrow> (i, True)
      | Inr diff \<Rightarrow> (min_element diff, False))"

section \<open>The tree\<close>

record NullifierMemoryTree = MemoryTree +
  nmt_leaves :: "wrapped_leaf list"

definition unwrap :: "wrapped_leaf \<Rightarrow> tree_error + nullifier_leaf" where
  "unwrap w = (case w of Some l \<Rightarrow> Inr l | None \<Rightarrow> Inl Bad_optional_access)"

text \<open>
  The constructor of the base class runs first, so a depth over 20 fails its assertion; resize
  to the size the vector has does nothing. The root is the one of the last update.
\<close>

definition initial_leaves :: "nat \<Rightarrow> wrapped_leaf list" where
  "initial_leaves initial_size =
     (map (\<lambda>i. Some \<lparr>leaf_value = of_nat i, nextIndex = i + 1, nextValue = of_nat (i + 1)\<rparr>) [0..<initial_size])
       [initial_size - 1 := Some \<lparr>leaf_value = of_nat (initial_size - 1), nextIndex = 0, nextValue = 0\<rparr>]"

definition nullifier_tree_init ::
  "(ff list \<Rightarrow> ff) \<Rightarrow> (ff \<Rightarrow> ff \<Rightarrow> ff) \<Rightarrow> nat \<Rightarrow> nat \<Rightarrow> tree_error + NullifierMemoryTree" where
  "nullifier_tree_init hash hash_pair depth initial_size =
     ebind (memory_tree_init hash_pair depth) (\<lambda>base.
     if \<not> (1 \<le> depth \<and> depth \<le> 32) \<or> \<not> initial_size > 0 then Inl Assertion
     else let (hashes, current) = fill_layers hash_pair (mt_hashes base) 0 (2 ^ depth) (leaf_hash hash (Some zero_leaf));
              leaves = initial_leaves initial_size;
              t = \<lparr>mt_depth = depth, mt_total_size = 2 ^ depth, mt_root = mt_root base, mt_hashes = hashes, nmt_leaves = leaves\<rparr>
          in Inr (fold (\<lambda>i. update_element hash_pair i (leaf_hash hash (leaves ! i))) [0..<initial_size] t))"

text \<open>update_element of the class: the new tree and the path of the low leaf before.\<close>

definition update_value ::
  "(ff list \<Rightarrow> ff) \<Rightarrow> (ff \<Rightarrow> ff \<Rightarrow> ff) \<Rightarrow> ff \<Rightarrow> NullifierMemoryTree \<Rightarrow>
     tree_error + NullifierMemoryTree \<times> (ff \<times> ff) list" where
  "update_value hash hash_pair value t =
     (if value = 0
      then let hash_path = get_hash_path t (length (nmt_leaves t) - 1);
               leaves = nmt_leaves t @ [None]
           in Inr (update_element hash_pair (length leaves - 1) (leaf_hash hash None) (t\<lparr>nmt_leaves := leaves\<rparr>), hash_path)
      else let (current, is_already_present) = find_closest_leaf (nmt_leaves t) value
      in ebind (unwrap (nmt_leaves t ! current)) (\<lambda>current_leaf.
         let new_leaf = \<lparr>leaf_value = value, nextIndex = nextIndex current_leaf, nextValue = nextValue current_leaf\<rparr>;
             (current_leaf, leaves) =
               (if \<not> is_already_present
                then let current_leaf = current_leaf\<lparr>nextIndex := length (nmt_leaves t), nextValue := value\<rparr>
                     in (current_leaf, (nmt_leaves t)[current := Some current_leaf] @ [Some new_leaf])
                else (current_leaf, nmt_leaves t));
             hash_path = get_hash_path t current;
             t = update_element hash_pair current (hash (get_hash_inputs current_leaf)) (t\<lparr>nmt_leaves := leaves\<rparr>);
             new_leaf_index = (if is_already_present then current else length leaves - 1)
         in Inr (update_element hash_pair new_leaf_index (hash (get_hash_inputs new_leaf)) t, hash_path)))"

definition get_leaf :: "nat \<Rightarrow> NullifierMemoryTree \<Rightarrow> wrapped_leaf" where
  "get_leaf index t = (if index < length (nmt_leaves t) then nmt_leaves t ! index else Some zero_leaf)"

section \<open>The linked list\<close>

abbreviation leaf_at :: "wrapped_leaf list \<Rightarrow> nat \<Rightarrow> nullifier_leaf \<Rightarrow> bool" where
  "leaf_at ls i l \<equiv> i < length ls \<and> ls ! i = Some l"

abbreviation key :: "nullifier_leaf \<Rightarrow> int" where
  "key l \<equiv> ff_int (leaf_value l)"

definition last_leaf :: "wrapped_leaf list \<Rightarrow> nullifier_leaf \<Rightarrow> bool" where
  "last_leaf ls l \<longleftrightarrow> nextIndex l = 0 \<and> nextValue l = 0 \<and> (\<forall>j m. leaf_at ls j m \<longrightarrow> key m \<le> key l)"

definition linked_leaf :: "wrapped_leaf list \<Rightarrow> nullifier_leaf \<Rightarrow> bool" where
  "linked_leaf ls l \<longleftrightarrow> (\<exists>m. leaf_at ls (nextIndex l) m \<and> leaf_value m = nextValue l \<and> key l < key m \<and>
     (\<forall>j k. leaf_at ls j k \<longrightarrow> \<not> (key l < key k \<and> key k < key m)))"

definition leaves_ok :: "wrapped_leaf list \<Rightarrow> bool" where
  "leaves_ok ls \<longleftrightarrow>
     (\<exists>l. leaf_at ls 0 l \<and> leaf_value l = 0) \<and>
     (\<forall>i j l m. leaf_at ls i l \<longrightarrow> leaf_at ls j m \<longrightarrow> leaf_value l = leaf_value m \<longrightarrow> i = j) \<and>
     (\<forall>i l. leaf_at ls i l \<longrightarrow> last_leaf ls l \<or> linked_leaf ls l)"

definition leaf_values :: "wrapped_leaf list \<Rightarrow> ff set" where
  "leaf_values ls = {leaf_value l | i l. leaf_at ls i l}"

subsection \<open>The low leaf\<close>

text \<open>The first of the smallest elements.\<close>

definition first_min :: "int list \<Rightarrow> nat \<Rightarrow> bool" where
  "first_min xs b \<longleftrightarrow> b < length xs \<and> (\<forall>j<length xs. xs ! b \<le> xs ! j) \<and> (\<forall>j<b. xs ! b < xs ! j)"

lemma first_min_snoc:
  assumes "first_min ys b"
  shows "first_min (ys @ [x]) (if x < ys ! b then length ys else b)"
proof (cases "x < ys ! b")
  case True
  then have "x < ys ! j" if "j < length ys" for j
    using assms that by (auto simp: first_min_def intro: less_le_trans)
  then show ?thesis
    using True by (auto simp: first_min_def nth_append less_Suc_eq intro: less_imp_le)
next
  case False
  then show ?thesis
    using assms by (auto simp: first_min_def nth_append less_Suc_eq)
qed

lemma min_from_first: "first_min ys b \<Longrightarrow> first_min (ys @ xs) (min_from xs (length ys) b (ys ! b))"
proof (induction xs arbitrary: ys b)
  case (Cons x xs)
  have b: "b < length ys"
    using Cons.prems by (simp add: first_min_def)
  show ?case
    using Cons.IH [OF first_min_snoc [OF Cons.prems, of x]] b by (simp add: nth_append split: if_splits)
qed simp

lemma min_element_first: "xs \<noteq> [] \<Longrightarrow> first_min xs (min_element xs)"
  using min_from_first [of "[hd xs]" 0 "tl xs"] by (cases xs) (simp_all add: min_element_def first_min_def)

text \<open>The distances, if the value is new.\<close>

definition distance :: "int \<Rightarrow> wrapped_leaf \<Rightarrow> int" where
  "distance v w = (case w of None \<Rightarrow> v | Some l \<Rightarrow> if key l > v then key l else v - key l)"

lemma leaf_distances_new:
  "(\<And>l. Some l \<in> set ls \<Longrightarrow> key l \<noteq> v) \<Longrightarrow> leaf_distances ls v i diff = Inr (diff @ map (distance v) ls)"
  by (induction ls v i diff rule: leaf_distances.induct) (auto simp: distance_def)

lemma leaf_distances_present:
  "Some l \<in> set ls \<Longrightarrow> key l = v \<Longrightarrow> \<exists>j m. leaf_distances ls v i diff = Inl (i + j) \<and> leaf_at ls j m \<and> key m = v"
proof (induction ls v i diff rule: leaf_distances.induct)
  case (2 ls v i diff)
  then obtain j m where "leaf_distances ls v (Suc i) (diff @ [v]) = Inl (Suc i + j)" "leaf_at ls j m" "key m = v"
    by auto
  then show ?case
    by (intro exI [of _ "Suc j"] exI [of _ m]) simp
next
  case (3 k ls v i diff)
  show ?case
  proof (cases "key k = v")
    case True
    then show ?thesis
      by (intro exI [of _ 0] exI [of _ k]) simp
  next
    case False
    then have l: "Some l \<in> set ls"
      using 3(3,4) by auto
    obtain j m where "leaf_distances (Some k # ls) v i diff = Inl (Suc i + j)" "leaf_at ls j m" "key m = v"
      using 3(1) [OF _ l 3(4)] 3(2) [OF _ False l 3(4)] False by (cases "key k > v") auto
    then show ?thesis
      by (intro exI [of _ "Suc j"] exI [of _ m]) simp
  qed
qed simp

lemma mem_leaf_values: "v \<in> leaf_values ls \<longleftrightarrow> (\<exists>l. Some l \<in> set ls \<and> leaf_value l = v)"
  by (auto simp: leaf_values_def in_set_conv_nth)

lemma leaf_values_one: "leaf_values [Some l] = {leaf_value l}"
  by (auto simp: mem_leaf_values)

lemma find_present:
  assumes "leaves_ok ls" and "v \<in> leaf_values ls"
  shows "\<exists>i l. find_closest_leaf ls v = (i, True) \<and> leaf_at ls i l \<and> leaf_value l = v"
proof -
  obtain l where "Some l \<in> set ls" "leaf_value l = v"
    using assms(2) by (auto simp: mem_leaf_values)
  then obtain j m where "leaf_distances ls (ff_int v) 0 [] = Inl (0 + j)" "leaf_at ls j m" "key m = ff_int v"
    using leaf_distances_present [of l ls "ff_int v" 0 "[]"] by blast
  then show ?thesis
    by (auto simp: find_closest_leaf_def ff_eq_iff)
qed

text \<open>For a new value the closest leaf is the largest below: the zero leaf keeps the others away.\<close>

lemma find_low:
  assumes ok: "leaves_ok ls" and new: "v \<notin> leaf_values ls"
  shows "\<exists>i l. find_closest_leaf ls v = (i, False) \<and> leaf_at ls i l \<and> key l < ff_int v \<and>
    (\<forall>j m. leaf_at ls j m \<longrightarrow> key m < ff_int v \<longrightarrow> key m \<le> key l)"
proof -
  define w where "w = ff_int v"
  define ds where "ds = map (distance w) ls"
  obtain z where z: "leaf_at ls 0 z" "leaf_value z = 0"
    using ok by (auto simp: leaves_ok_def)
  have keys: "key l \<noteq> w" if "Some l \<in> set ls" for l
    using new that by (auto simp: mem_leaf_values w_def ff_eq_iff)
  have "key z \<noteq> w"
    using z(1) by (intro keys) (auto simp: in_set_conv_nth)
  then have w: "0 < w"
    using ff_int_range [of v] z(2) by (simp add: w_def)
  define b where "b = min_element ds"
  have ds: "length ds = length ls" "ds \<noteq> []"
    using z(1) by (auto simp: ds_def)
  then have b: "b < length ls" "\<And>j. j < length ls \<Longrightarrow> distance w (ls ! b) \<le> distance w (ls ! j)"
      "\<And>j. j < b \<Longrightarrow> distance w (ls ! b) < distance w (ls ! j)"
    using min_element_first [OF ds(2)] by (auto simp: first_min_def b_def ds_def)
  have zero: "distance w (ls ! 0) = w"
    using z w by (simp add: distance_def)
  have le: "distance w (ls ! b) \<le> w"
    using b(2) [of 0] z(1) zero by simp
  have "\<exists>l. ls ! b = Some l \<and> key l < w"
  proof (cases "b = 0")
    case True
    then show ?thesis
      using z w by simp
  next
    case False
    then have "distance w (ls ! b) < w"
      using b(3) [of 0] zero by simp
    then show ?thesis
      using keys b(1) by (auto simp: distance_def in_set_conv_nth split: option.splits if_splits)
        (metis linorder_neqE not_less_iff_gr_or_eq)
  qed
  then obtain l where l: "ls ! b = Some l" "key l < w"
    by blast
  have "key m \<le> key l" if "leaf_at ls j m" "key m < w" for j m
    using b(2) [of j] that l by (simp add: distance_def)
  moreover have "find_closest_leaf ls v = (b, False)"
    using leaf_distances_new [of ls w 0 "[]"] keys by (simp add: find_closest_leaf_def w_def [symmetric] b_def ds_def)
  ultimately show ?thesis
    using l b(1) by (auto simp: w_def)
qed

subsection \<open>Insertion\<close>

lemma linked_cases: "leaves_ok ls \<Longrightarrow> leaf_at ls i l \<Longrightarrow> last_leaf ls l \<or> linked_leaf ls l"
  unfolding leaves_ok_def by blast

lemma leaves_ok_insert:
  assumes ok: "leaves_ok ls" and new: "v \<notin> leaf_values ls" and l: "leaf_at ls c l" "key l < ff_int v"
    and low: "\<And>j m. leaf_at ls j m \<Longrightarrow> key m < ff_int v \<Longrightarrow> key m \<le> key l"
    and l': "l' = l\<lparr>nextIndex := length ls, nextValue := v\<rparr>"
    and n: "n = \<lparr>leaf_value = v, nextIndex = nextIndex l, nextValue = nextValue l\<rparr>"
  shows "leaves_ok (ls[c := Some l'] @ [Some n])"
proof -
  define ls' where "ls' = ls[c := Some l'] @ [Some n]"
  have at: "leaf_at ls' i m \<longleftrightarrow> i = length ls \<and> m = n \<or> i = c \<and> m = l' \<or> i \<noteq> c \<and> leaf_at ls i m" for i m
    using l(1) by (auto simp: ls'_def nth_append nth_list_update less_Suc_eq)
  have key: "leaf_value l' = leaf_value l" "leaf_value n = v" "nextIndex l' = length ls" "nextValue l' = v"
      "nextIndex n = nextIndex l" "nextValue n = nextValue l"
    by (simp_all add: l' n)
  have differs: "key m \<noteq> ff_int v" if "leaf_at ls i m" for i m
    using new that by (auto simp: leaf_values_def ff_eq_iff)
  have same: "i = c" if "leaf_at ls i m" "key m = key l" for i m
    using ok that l(1) unfolding leaves_ok_def ff_eq_iff by blast
  have keys: "\<exists>j m'. leaf_at ls j m' \<and> key m' = key m" if "leaf_at ls' i m" "m \<noteq> n" for i m
    using that l(1) key(1) by (auto simp: at)
  have moved: "\<exists>m'. leaf_at ls' j m' \<and> leaf_value m' = leaf_value m" if "leaf_at ls j m" for j m
    using that l(1) key(1) by (cases "j = c") (auto simp: at)
  have low': "key m \<le> key l \<or> ff_int v < key m" if "leaf_at ls j m" for j m
    using low [OF that] differs [OF that] by linarith
  have old_last: "last_leaf ls' m" if "leaf_at ls i m" "i \<noteq> c" "last_leaf ls m" for i m
  proof -
    have "key l \<noteq> key m" "key l \<le> key m"
      using same [OF that(1)] that(2,3) l(1) unfolding last_leaf_def by auto
    then have "ff_int v < key m"
      using low' [OF that(1)] by simp
    then show ?thesis
      using that(3) key(1,2) l(1) by (auto simp: last_leaf_def at)
  qed
  have old_linked: "linked_leaf ls' m" if m: "leaf_at ls i m" "i \<noteq> c" "linked_leaf ls m" for i m
  proof -
    obtain k where k: "leaf_at ls (nextIndex m) k" "leaf_value k = nextValue m" "key m < key k"
        "\<And>j h. leaf_at ls j h \<Longrightarrow> \<not> (key m < key h \<and> key h < key k)"
      using m(3) unfolding linked_leaf_def by blast
    obtain k' where k': "leaf_at ls' (nextIndex m) k'" "leaf_value k' = leaf_value k"
      using moved [OF k(1)] by blast
    have "\<not> (key m < ff_int v \<and> ff_int v < key k)"
      using same [OF m(1)] m(2) low [OF m(1)] k(4) [OF l(1)] l(2) by force
    then have "\<not> (key m < key h \<and> key h < key k)" if "leaf_at ls' j h" for j h
      using keys [OF that] k(4) key(2) by (cases "h = n") force+
    then show ?thesis
      using k' k(2,3) unfolding linked_leaf_def by metis
  qed
  have low_linked: "linked_leaf ls' l'"
  proof -
    have "\<not> (key l < key h \<and> key h < ff_int v)" if "leaf_at ls' j h" for j h
      using keys [OF that] low' key(2) by (cases "h = n") force+
    then show ?thesis
      using l(2) key at unfolding linked_leaf_def by metis
  qed
  have new_linked: "last_leaf ls' n \<or> linked_leaf ls' n"
    using linked_cases [OF ok l(1)]
  proof
    assume last: "last_leaf ls l"
    have "key m \<le> ff_int v" if m: "leaf_at ls' j m" for j m
    proof (cases "m = n")
      case False
      then obtain j' m' where "leaf_at ls j' m'" "key m' = key m"
        using keys [OF m] by blast
      then show ?thesis
        using last l(2) unfolding last_leaf_def by fastforce
    qed (simp add: key)
    then show ?thesis
      using last key by (simp add: last_leaf_def)
  next
    assume "linked_leaf ls l"
    then obtain k where k: "leaf_at ls (nextIndex l) k" "leaf_value k = nextValue l" "key l < key k"
        "\<And>j h. leaf_at ls j h \<Longrightarrow> \<not> (key l < key h \<and> key h < key k)"
      unfolding linked_leaf_def by blast
    obtain k' where k': "leaf_at ls' (nextIndex l) k'" "leaf_value k' = leaf_value k"
      using moved [OF k(1)] by blast
    have "ff_int v < key k"
      using low' [OF k(1)] k(3) by simp
    moreover have "\<not> (ff_int v < key h \<and> key h < key k)" if "leaf_at ls' j h" for j h
      using keys [OF that] k(4) l(2) key(2) by (cases "h = n") force+
    ultimately show ?thesis
      using k' k(2) key unfolding linked_leaf_def by metis
  qed
  have "\<exists>z. leaf_at ls' 0 z \<and> leaf_value z = 0"
    using ok moved unfolding leaves_ok_def by metis
  moreover have "i = j" if "leaf_at ls' i a" "leaf_at ls' j b" "leaf_value a = leaf_value b" for i j a b
    using that ok l(1) differs key(1,2) unfolding at leaves_ok_def ff_eq_iff by metis
  moreover have "last_leaf ls' m \<or> linked_leaf ls' m" if "leaf_at ls' i m" for i m
    using that new_linked low_linked linked_cases [OF ok] old_last old_linked unfolding at by blast
  ultimately show ?thesis
    unfolding leaves_ok_def ls'_def [symmetric] by blast
qed

lemma leaves_ok_zero: "leaves_ok ls \<Longrightarrow> leaves_ok (ls @ [None])"
proof -
  assume ok: "leaves_ok ls"
  have at: "leaf_at (ls @ [None]) i m \<longleftrightarrow> leaf_at ls i m" for i m
    by (auto simp: nth_append less_Suc_eq)
  show ?thesis
    using ok unfolding leaves_ok_def last_leaf_def linked_leaf_def at .
qed

lemma leaf_valuesI: "leaf_at ls i l \<Longrightarrow> leaf_value l \<in> leaf_values ls"
  by (auto simp: leaf_values_def)

lemma leaf_values_insert:
  assumes l: "leaf_at ls c l" and l': "leaf_value l' = leaf_value l"
  shows "leaf_values (ls[c := Some l'] @ [Some n]) = insert (leaf_value n) (leaf_values ls)"
proof (intro equalityI subsetI)
  define ls' where "ls' = ls[c := Some l'] @ [Some n]"
  have at: "leaf_at ls' i m \<longleftrightarrow> i = length ls \<and> m = n \<or> i = c \<and> m = l' \<or> i \<noteq> c \<and> leaf_at ls i m" for i m
    using l by (auto simp: ls'_def nth_append nth_list_update less_Suc_eq)
  show "v \<in> insert (leaf_value n) (leaf_values ls)" if v: "v \<in> leaf_values (ls[c := Some l'] @ [Some n])" for v
  proof -
    obtain i m where m: "leaf_at ls' i m" "v = leaf_value m"
      using v unfolding leaf_values_def ls'_def by blast
    show ?thesis
      using m(1) leaf_valuesI [OF l] leaf_valuesI [of i ls m] l' unfolding at m(2) by auto
  qed
  show "v \<in> leaf_values (ls[c := Some l'] @ [Some n])" if v: "v \<in> insert (leaf_value n) (leaf_values ls)" for v
  proof (cases "v = leaf_value n")
    case True
    then show ?thesis
      using leaf_valuesI [of "length ls" ls' n] at [of "length ls" n] by (simp add: ls'_def)
  next
    case False
    then obtain i m where m: "leaf_at ls i m" "v = leaf_value m"
      using v by (auto simp: leaf_values_def)
    show ?thesis
    proof (cases "i = c")
      case True
      then show ?thesis
        using m l l' leaf_valuesI [of c ls' l'] at [of c l'] by (simp add: ls'_def)
    next
      case False
      then show ?thesis
        using m leaf_valuesI [of i ls' m] at [of i m] by (simp add: ls'_def)
    qed
  qed
qed

lemma leaf_values_zero: "leaf_values (ls @ [None]) = leaf_values ls"
  by (auto simp: mem_leaf_values)

lemma small_keys: "n \<le> 2 ^ 20 \<Longrightarrow> i < n \<Longrightarrow> ff_int (of_nat i) = int i"
  by (simp add: ff_int_of_nat)

lemma leaves_ok_initial:
  assumes "0 < n" and "n \<le> 2 ^ 20"
  shows "leaves_ok (initial_leaves n)"
proof -
  define L where "L i = \<lparr>leaf_value = of_nat i, nextIndex = (if i = n - 1 then 0 else i + 1),
    nextValue = (if i = n - 1 then 0 else of_nat (i + 1))\<rparr>" for i
  have at: "leaf_at (initial_leaves n) i m \<longleftrightarrow> i < n \<and> m = L i" for i m
    using assms(1) by (auto simp: initial_leaves_def L_def nth_list_update)
  have key: "key (L i) = int i" if "i < n" for i
    using small_keys [OF assms(2) that] by (simp add: L_def)
  have "last_leaf (initial_leaves n) (L i) \<or> linked_leaf (initial_leaves n) (L i)" if i: "i < n" for i
  proof (cases "i = n - 1")
    case True
    then show ?thesis
      using key by (auto simp: last_leaf_def at) (simp_all add: L_def)
  next
    case False
    then have "Suc i < n" "nextIndex (L i) = Suc i" "nextValue (L i) = leaf_value (L (Suc i))"
      using i by (simp_all add: L_def)
    then show ?thesis
      using key i by (auto simp: linked_leaf_def at)
  qed
  moreover have "i = j" if "i < n" "j < n" "leaf_value (L i) = leaf_value (L j)" for i j
    using key that by (metis of_nat_eq_iff)
  moreover have "leaf_value (L 0) = 0"
    by (simp add: L_def)
  ultimately show ?thesis
    unfolding leaves_ok_def at using assms(1) by blast
qed

section \<open>The tree and its list\<close>

definition padded_hashes :: "(ff list \<Rightarrow> ff) \<Rightarrow> nat \<Rightarrow> wrapped_leaf list \<Rightarrow> ff list" where
  "padded_hashes hash depth ls = map (leaf_hash hash) ls @ replicate (2 ^ depth - length ls) (leaf_hash hash (Some zero_leaf))"

definition nullifier_ok :: "(ff list \<Rightarrow> ff) \<Rightarrow> (ff \<Rightarrow> ff \<Rightarrow> ff) \<Rightarrow> NullifierMemoryTree \<Rightarrow> bool" where
  "nullifier_ok hash hash_pair t \<longleftrightarrow> leaves_ok (nmt_leaves t) \<and> length (nmt_leaves t) \<le> 2 ^ mt_depth t \<and>
     represents hash_pair t (padded_hashes hash (mt_depth t) (nmt_leaves t))"

lemma stores_leaves [simp]:
  "stores hash_pair (t\<lparr>nmt_leaves := ls\<rparr>) L \<longleftrightarrow> stores hash_pair t L"
  "represents hash_pair (t\<lparr>nmt_leaves := ls\<rparr>) L \<longleftrightarrow> represents hash_pair t L"
  by (simp_all add: represents_defs)

lemma update_element_leaves [simp]: "nmt_leaves (update_element hash_pair i v t) = nmt_leaves t"
  by (simp add: update_element_def split_def Let_def)

lemma padded_snoc:
  assumes "length ls < 2 ^ d"
  shows "(padded_hashes hash d ls)[length ls := leaf_hash hash w] = padded_hashes hash d (ls @ [w])"
proof -
  obtain m where "2 ^ d - length ls = Suc m"
    using assms by (cases "2 ^ d - length ls") auto
  then show ?thesis
    by (simp add: padded_hashes_def list_update_append)
qed

lemma padded_update:
  "i < length ls \<Longrightarrow> (padded_hashes hash d ls)[i := leaf_hash hash w] = padded_hashes hash d (ls[i := w])"
  by (simp add: padded_hashes_def list_update_append map_update)

text \<open>What an update has to do, and that it does it in each of its branches.\<close>

definition inserts ::
  "(ff list \<Rightarrow> ff) \<Rightarrow> (ff \<Rightarrow> ff \<Rightarrow> ff) \<Rightarrow> ff \<Rightarrow> NullifierMemoryTree \<Rightarrow> NullifierMemoryTree \<Rightarrow> nat \<Rightarrow> bool" where
  "inserts hash hash_pair v t t' i \<longleftrightarrow>
     update_value hash hash_pair v t = Inr (t', get_hash_path t i) \<and> i < length (nmt_leaves t) \<and>
     nullifier_ok hash hash_pair t' \<and> mt_depth t' = mt_depth t \<and>
     leaf_values (nmt_leaves t') = insert v (leaf_values (nmt_leaves t)) \<and>
     length (nmt_leaves t') = length (nmt_leaves t) + (if v \<noteq> 0 \<and> v \<in> leaf_values (nmt_leaves t) then 0 else 1)"

lemma nullifier_okD:
  assumes "nullifier_ok hash hash_pair t"
  shows "leaves_ok (nmt_leaves t)" "represents hash_pair t (padded_hashes hash (mt_depth t) (nmt_leaves t))"
    and "0 < length (nmt_leaves t)" "0 \<in> leaf_values (nmt_leaves t)"
  using assms by (auto simp: nullifier_ok_def leaves_ok_def leaf_values_def)

lemma insert_zero:
  assumes ok: "nullifier_ok hash hash_pair t" and room: "length (nmt_leaves t) < 2 ^ mt_depth t"
  shows "\<exists>t' i. inserts hash hash_pair 0 t t' i"
proof -
  note t = nullifier_okD [OF ok]
  define ls where "ls = nmt_leaves t"
  define t' where "t' = update_element hash_pair (length ls) (leaf_hash hash None) (t\<lparr>nmt_leaves := ls @ [None]\<rparr>)"
  have "mt_depth t' = mt_depth t" "nmt_leaves t' = ls @ [None]"
      "represents hash_pair t' (padded_hashes hash (mt_depth t) (ls @ [None]))"
    using stores_update [of hash_pair "t\<lparr>nmt_leaves := ls @ [None]\<rparr>" "padded_hashes hash (mt_depth t) ls" "length ls" "leaf_hash hash None"]
      t room padded_snoc [of ls "mt_depth t" hash None]
    by (simp_all add: t'_def represents_def ls_def)
  then have "inserts hash hash_pair 0 t t' (length ls - 1)"
    using leaves_ok_zero [OF t(1)] room t(3,4)
    by (simp add: inserts_def update_value_def nullifier_ok_def leaf_values_zero ls_def [symmetric] insert_absorb t'_def)
  then show ?thesis
    by blast
qed

lemma insert_present:
  assumes ok: "nullifier_ok hash hash_pair t" and v: "v \<noteq> 0" "v \<in> leaf_values (nmt_leaves t)"
  shows "\<exists>t' i. inserts hash hash_pair v t t' i"
proof -
  note t = nullifier_okD [OF ok]
  define ls where "ls = nmt_leaves t"
  obtain i l where i: "find_closest_leaf ls v = (i, True)" "leaf_at ls i l" "leaf_value l = v"
    using find_present [OF t(1) v(2)] by (auto simp: ls_def)
  define h where "h = leaf_hash hash (Some l)"
  define t' where "t' = update_element hash_pair i h (update_element hash_pair i h t)"
  have "ls[i := Some l] = ls"
    using i(2) by (metis list_update_id)
  then have same: "(padded_hashes hash (mt_depth t) ls)[i := h] = padded_hashes hash (mt_depth t) ls"
    using padded_update [of i ls hash "mt_depth t" "Some l"] i(2) by (simp add: h_def)
  have id: "i < 2 ^ mt_depth t"
    using i(2) ok by (simp add: nullifier_ok_def ls_def)
  note t1 = represents_update [OF t(2) id, of h, folded ls_def, unfolded same]
  have "mt_depth t' = mt_depth t" "nmt_leaves t' = ls" "represents hash_pair t' (padded_hashes hash (mt_depth t) ls)"
    using represents_update [OF t1(1), of i h] t1(2) id by (simp_all add: t'_def same [unfolded ls_def] ls_def)
  moreover have "get_hash_inputs \<lparr>leaf_value = v, nextIndex = nextIndex l, nextValue = nextValue l\<rparr> = get_hash_inputs l"
    "t\<lparr>nmt_leaves := ls\<rparr> = t"
    using i(3) by (simp_all add: get_hash_inputs_def ls_def)
  then have "update_value hash hash_pair v t = Inr (t', get_hash_path t i)"
    using i v(1) by (simp add: update_value_def ls_def [symmetric] unwrap_def t'_def leaf_hash_def h_def) (simp add: ls_def)
  ultimately have "inserts hash hash_pair v t t' i"
    using ok v i(2) by (simp add: inserts_def nullifier_ok_def ls_def insert_absorb)
  then show ?thesis
    by blast
qed

lemma insert_new:
  assumes ok: "nullifier_ok hash hash_pair t" and room: "length (nmt_leaves t) < 2 ^ mt_depth t"
    and v: "v \<noteq> 0" "v \<notin> leaf_values (nmt_leaves t)"
  shows "\<exists>t' i. inserts hash hash_pair v t t' i"
proof -
  note t = nullifier_okD [OF ok]
  define ls d where "ls = nmt_leaves t" and "d = mt_depth t"
  obtain c l where c: "find_closest_leaf ls v = (c, False)" "leaf_at ls c l" "key l < ff_int v"
      "\<And>j m. leaf_at ls j m \<Longrightarrow> key m < ff_int v \<Longrightarrow> key m \<le> key l"
    using find_low [OF t(1) v(2)] unfolding ls_def by blast
  define l' n where "l' = l\<lparr>nextIndex := length ls, nextValue := v\<rparr>"
    and "n = \<lparr>leaf_value = v, nextIndex = nextIndex l, nextValue = nextValue l\<rparr>"
  define ls' where "ls' = ls[c := Some l'] @ [Some n]"
  define t1 where "t1 = update_element hash_pair c (leaf_hash hash (Some l')) (t\<lparr>nmt_leaves := ls'\<rparr>)"
  define t' where "t' = update_element hash_pair (length ls) (leaf_hash hash (Some n)) t1"
  have t1: "mt_depth t1 = d" "nmt_leaves t1 = ls'" "represents hash_pair t1 (padded_hashes hash d (ls[c := Some l']))"
    using stores_update [of hash_pair "t\<lparr>nmt_leaves := ls'\<rparr>" "padded_hashes hash d ls" c "leaf_hash hash (Some l')"]
      t(2) c(2) room padded_update [of c ls hash d "Some l'"]
    by (simp_all add: t1_def represents_def d_def ls_def)
  have "mt_depth t' = d" "nmt_leaves t' = ls'" "represents hash_pair t' (padded_hashes hash d ls')"
    using represents_update [OF t1(3), of "length ls" "leaf_hash hash (Some n)"] t1(1,2) room
      padded_snoc [of "ls[c := Some l']" d hash "Some n"]
    by (simp_all add: t'_def ls'_def d_def ls_def)
  moreover have "update_value hash hash_pair v t = Inr (t', get_hash_path t c)"
    using c v(1) by (simp add: update_value_def ls_def [symmetric] unwrap_def t'_def t1_def leaf_hash_def Let_def ls'_def l'_def n_def)
  moreover have "leaves_ok ls'"
    unfolding ls'_def using leaves_ok_insert [OF t(1) v(2), folded ls_def, OF c(2-4) l'_def n_def] .
  moreover have "leaf_values ls' = insert v (leaf_values ls)"
    unfolding ls'_def using leaf_values_insert [OF c(2), of l' n] by (simp add: l'_def n_def)
  ultimately have "inserts hash hash_pair v t t' c"
    using room v c(2) by (simp add: inserts_def nullifier_ok_def ls_def d_def ls'_def)
  then show ?thesis
    by blast
qed

lemma update_value_inserts:
  "nullifier_ok hash hash_pair t \<Longrightarrow> length (nmt_leaves t) < 2 ^ mt_depth t \<Longrightarrow> \<exists>t' i. inserts hash hash_pair v t t' i"
  using insert_zero insert_present insert_new by metis

subsection \<open>The new tree\<close>

lemma init_updates:
  assumes "stores hash_pair t (replicate (2 ^ d) z)" and "mt_depth t = d" and "length hs \<le> 2 ^ d" and "hs \<noteq> []"
  shows "represents hash_pair (fold (\<lambda>i. update_element hash_pair i (hs ! i)) [0..<length hs] t)
    (hs @ replicate (2 ^ d - length hs) z)"
    and "mt_depth (fold (\<lambda>i. update_element hash_pair i (hs ! i)) [0..<length hs] t) = d"
proof -
  define T where "T k = fold (\<lambda>i. update_element hash_pair i (hs ! i)) [0..<k] t" for k
  have step: "stores hash_pair (T k) (take k hs @ replicate (2 ^ d - k) z) \<and> mt_depth (T k) = d \<and>
      (0 < k \<longrightarrow> represents hash_pair (T k) (take k hs @ replicate (2 ^ d - k) z))" if "k \<le> length hs" for k
    using that
  proof (induction k)
    case 0
    then show ?case
      using assms by (simp add: T_def)
  next
    case (Suc k)
    then have k: "k < length hs" "2 ^ d - k = Suc (2 ^ d - Suc k)"
      using assms(3) by simp_all
    then have "(take k hs @ replicate (2 ^ d - k) z)[k := hs ! k] = take (Suc k) hs @ replicate (2 ^ d - Suc k) z"
      by (simp add: list_update_append take_Suc_conv_app_nth)
    then show ?case
      using Suc stores_update [of hash_pair "T k" "take k hs @ replicate (2 ^ d - k) z" k "hs ! k"] k(1) assms(3)
      by (simp add: T_def represents_def)
  qed
  show "represents hash_pair (fold (\<lambda>i. update_element hash_pair i (hs ! i)) [0..<length hs] t)
      (hs @ replicate (2 ^ d - length hs) z)"
    "mt_depth (fold (\<lambda>i. update_element hash_pair i (hs ! i)) [0..<length hs] t) = d"
    using step [of "length hs"] assms(4) by (simp_all add: T_def)
qed

lemma length_initial [simp]: "length (initial_leaves n) = n"
  by (simp add: initial_leaves_def)

lemma fold_update_leaves [simp]: "nmt_leaves (fold (\<lambda>i. update_element hash_pair i (f i)) is t) = nmt_leaves t"
  by (induction "is" arbitrary: t) simp_all

lemma nullifier_ok_init:
  assumes "nullifier_tree_init hash hash_pair depth n = Inr t" and "n \<le> 2 ^ depth"
  shows "nullifier_ok hash hash_pair t" and "nmt_leaves t = initial_leaves n" and "mt_depth t = depth"
proof -
  obtain base where base: "memory_tree_init hash_pair depth = Inr base" and n: "0 < n"
    using assms(1) by (auto simp: nullifier_tree_init_def ebind_Inr_iff split: if_splits)
  define z where "z = leaf_hash hash (Some zero_leaf)"
  define t0 where "t0 = \<lparr>mt_depth = depth, mt_total_size = 2 ^ depth, mt_root = mt_root base,
    mt_hashes = fst (fill_layers hash_pair (mt_hashes base) 0 (2 ^ depth) z), nmt_leaves = initial_leaves n\<rparr>"
  have rep: "represents hash_pair base (replicate (2 ^ depth) 0)" "mt_depth base = depth"
    using represents_init [OF base] by simp_all
  then have "length (mt_hashes base) = 2 * 2 ^ depth - 2" and depth: "1 \<le> depth" "depth \<le> 20"
    using length_tree_vector [of "replicate (2 ^ depth) 0" depth hash_pair] by (simp_all add: represents_defs)
  then have "fst (fill_layers hash_pair (mt_hashes base) 0 (2 ^ depth) z) = tree_vector hash_pair (replicate (2 ^ depth) z)"
    using fill_layers_eq [of "mt_hashes base" depth hash_pair "[]" z] by simp
  then have t0: "stores hash_pair t0 (replicate (2 ^ depth) z)" "mt_depth t0 = depth" "nmt_leaves t0 = initial_leaves n"
    using depth by (simp_all add: stores_def t0_def)
  define hs where "hs = map (leaf_hash hash) (initial_leaves n)"
  have t: "t = fold (\<lambda>i. update_element hash_pair i (hs ! i)) [0..<length hs] t0"
    using assms(1) n depth
    by (auto simp: nullifier_tree_init_def base t0_def z_def hs_def split_def Let_def intro!: fold_cong)
  have hs: "length hs \<le> 2 ^ depth" "hs \<noteq> []"
    using assms(2) n by (auto simp: hs_def simp flip: length_0_conv)
  have "(2 :: nat) ^ depth \<le> 2 ^ 20"
    using depth(2) by (intro power_increasing) simp_all
  then have "leaves_ok (initial_leaves n)"
    using leaves_ok_initial [OF n] assms(2) by simp
  then show "nullifier_ok hash hash_pair t" "nmt_leaves t = initial_leaves n" "mt_depth t = depth"
    using init_updates [OF t0(1,2) hs] assms(2) unfolding t
    by (simp_all add: nullifier_ok_def padded_hashes_def t0(3) hs_def z_def)
qed

section \<open>What the tree promises\<close>

text \<open>Trees that a program can make: a new one, and the results of inserting while there is room.\<close>

inductive nullifier_tree :: "(ff list \<Rightarrow> ff) \<Rightarrow> (ff \<Rightarrow> ff \<Rightarrow> ff) \<Rightarrow> NullifierMemoryTree \<Rightarrow> bool"
  for hash :: "ff list \<Rightarrow> ff" and hash_pair :: "ff \<Rightarrow> ff \<Rightarrow> ff" where
  new: "nullifier_tree_init hash hash_pair depth n = Inr t \<Longrightarrow> n \<le> 2 ^ depth \<Longrightarrow> nullifier_tree hash hash_pair t"
| insert: "nullifier_tree hash hash_pair t \<Longrightarrow> length (nmt_leaves t) < 2 ^ mt_depth t \<Longrightarrow>
    update_value hash hash_pair v t = Inr (t', path) \<Longrightarrow> nullifier_tree hash hash_pair t'"

lemma nullifier_tree_ok: "nullifier_tree hash hash_pair t \<Longrightarrow> nullifier_ok hash hash_pair t"
proof (induction rule: nullifier_tree.induct)
  case (insert t v t' path)
  then show ?case
    using update_value_inserts [of hash hash_pair t v] by (auto simp: inserts_def)
qed (rule nullifier_ok_init)

text \<open>
  A tree of depth 1 for the hashes 1 + value and x + y, empty and with the value 30, for the
  witnesses.
\<close>

abbreviation example_hash :: "ff list \<Rightarrow> ff" where
  "example_hash xs \<equiv> 1 + hd xs"

abbreviation example_empty :: NullifierMemoryTree where
  "example_empty \<equiv> \<lparr>mt_depth = 1, mt_total_size = 2, mt_root = 2, mt_hashes = [1, 1], nmt_leaves = [Some zero_leaf]\<rparr>"

abbreviation example_inserted :: NullifierMemoryTree where
  "example_inserted \<equiv> \<lparr>mt_depth = 1, mt_total_size = 2, mt_root = 32, mt_hashes = [1, 31],
     nmt_leaves = [Some \<lparr>leaf_value = 0, nextIndex = 1, nextValue = 30\<rparr>, Some \<lparr>leaf_value = 30, nextIndex = 0, nextValue = 0\<rparr>]\<rparr>"

lemma example_empty: "nullifier_tree example_hash (+) example_empty"
proof (rule nullifier_tree.new [of _ _ 1 1])
  have "fill_layers (+) [0, 0] 0 2 1 = ([1, 1], 2)"
    by (subst fill_layers.simps, simp add: fill_layer_def upt_rec)+
  then show "nullifier_tree_init example_hash (+) 1 1 = Inr example_empty"
    by (simp add: nullifier_tree_init_def example_sum [simplified] leaf_hash_def get_hash_inputs_def zero_leaf_def initial_leaves_def
      update_element_def Let_def numeral_2_eq_2)
qed simp

lemma example_insert: "update_value example_hash (+) 30 example_empty = Inr (example_inserted, [(1, 1)])"
  by (simp add: update_value_def find_closest_leaf_def zero_leaf_def min_element_def unwrap_def get_hash_path_def
    update_element_def get_hash_inputs_def Let_def ff_eq_iff [of 30 0])

lemma example_inserted: "nullifier_tree example_hash (+) example_inserted"
  using nullifier_tree.insert [OF example_empty _ example_insert] by simp

text \<open>
  C25: While there is room, inserting a value ends without an error and adds exactly this value
  to the set of the values of the leaves; a value that is present stays the only one, zero
  appends an empty leaf. The path that is returned proves the hash of an existing leaf against
  the old root.
\<close>

theorem nullifier_insert:
  assumes "nullifier_tree hash hash_pair t" and "length (nmt_leaves t) < 2 ^ mt_depth t"
  shows "\<exists>t' path i. update_value hash hash_pair v t = Inr (t', path) \<and>
    leaf_values (nmt_leaves t') = insert v (leaf_values (nmt_leaves t)) \<and>
    length (nmt_leaves t') = length (nmt_leaves t) + (if v \<noteq> 0 \<and> v \<in> leaf_values (nmt_leaves t) then 0 else 1) \<and>
    i < length (nmt_leaves t) \<and> path_ok hash_pair i (leaf_hash hash (nmt_leaves t ! i)) path (mt_root t)"
proof -
  note ok = nullifier_tree_ok [OF assms(1)]
  define L where "L = padded_hashes hash (mt_depth t) (nmt_leaves t)"
  have L: "represents hash_pair t L"
    using nullifier_okD(2) [OF ok] by (simp add: L_def)
  obtain t' i where t': "inserts hash hash_pair v t t' i"
    using update_value_inserts [OF ok assms(2)] by blast
  then have i: "i < 2 ^ mt_depth t" "L ! i = leaf_hash hash (nmt_leaves t ! i)"
    using assms(2) by (simp_all add: inserts_def L_def padded_hashes_def nth_append)
  have "path_ok hash_pair i (L ! i) (get_hash_path t i) (mt_root t)"
    using tree_path_ok [of L "mt_depth t" i hash_pair] represents_hash_path [OF L i(1)] L i(1) by (simp add: represents_defs)
  then show ?thesis
    using t' i(2) unfolding inserts_def by auto
qed

theorem nullifier_insert_witness:
  "\<exists>t' path. update_value example_hash (+) 30 example_empty = Inr (t', path) \<and>
    leaf_values (nmt_leaves t') = {0, 30} \<and> length (nmt_leaves t') = 2 \<and>
    path_ok (+) 0 (leaf_hash example_hash (Some zero_leaf)) path 2"
  using nullifier_insert [OF example_empty, of 30]
  by (simp add: mem_leaf_values leaf_values_one zero_leaf_def insert_commute numeral_2_eq_2 ff_eq_iff [of 30 0])

text \<open>
  C24: In every reachable tree the leaves form a list: leaf 0 has the value zero, no value
  occurs twice, and every leaf points with index and value at the leaf with the next larger
  value, or at (0, 0) if it has the largest. The root is the one computed from the hashes of
  all leaves, filled up with the hash of the zero leaf.
\<close>

theorem nullifier_list:
  assumes "nullifier_tree hash hash_pair t"
  shows "leaves_ok (nmt_leaves t) \<and> length (nmt_leaves t) \<le> 2 ^ mt_depth t \<and>
    compute_tree_root_native hash_pair (padded_hashes hash (mt_depth t) (nmt_leaves t)) = Inr (mt_root t)"
  using nullifier_tree_ok [OF assms] compute_represented(2) by (auto simp: nullifier_ok_def)

theorem nullifier_list_witness:
  "leaves_ok (nmt_leaves example_inserted) \<and>
    compute_tree_root_native (+) (padded_hashes example_hash 1 (nmt_leaves example_inserted)) = Inr 32"
  using nullifier_list [OF example_inserted] by simp

text \<open>
  C26: A value is absent from a reachable tree exactly if some leaf has a smaller value and
  points at a larger one or at nothing; find_closest_leaf finds this leaf, and the leaf with
  the value if it is present.
\<close>

theorem nullifier_absence:
  assumes "nullifier_tree hash hash_pair t" and "find_closest_leaf (nmt_leaves t) v = (i, present)"
  shows "(v \<notin> leaf_values (nmt_leaves t) \<longleftrightarrow> (\<exists>j l. leaf_at (nmt_leaves t) j l \<and> ff_int (leaf_value l) < ff_int v \<and>
      (nextValue l = 0 \<or> ff_int v < ff_int (nextValue l)))) \<and>
    present = (v \<in> leaf_values (nmt_leaves t)) \<and>
    (\<exists>l. leaf_at (nmt_leaves t) i l \<and> (if present then leaf_value l = v
       else ff_int (leaf_value l) < ff_int v \<and> (nextValue l = 0 \<or> ff_int v < ff_int (nextValue l))))"
proof -
  define ls where "ls = nmt_leaves t"
  have ok: "leaves_ok ls"
    using nullifier_okD(1) [OF nullifier_tree_ok [OF assms(1)]] by (simp add: ls_def)
  have absent: "v \<notin> leaf_values ls"
    if l: "leaf_at ls j l" "key l < ff_int v" "nextValue l = 0 \<or> ff_int v < ff_int (nextValue l)" for j l
    using linked_cases [OF ok l(1)]
  proof
    assume "last_leaf ls l"
    then show ?thesis
      using l(2) by (fastforce simp: last_leaf_def leaf_values_def)
  next
    assume "linked_leaf ls l"
    then obtain m where m: "leaf_value m = nextValue l" "key l < key m" "\<And>j k. leaf_at ls j k \<Longrightarrow> \<not> (key l < key k \<and> key k < key m)"
      unfolding linked_leaf_def by blast
    have "0 \<le> key l"
      using ff_int_range by blast
    then have "nextValue l \<noteq> 0"
      using m(1,2) by (auto simp flip: m(1))
    then show ?thesis
      using l m by (fastforce simp: leaf_values_def)
  qed
  have found: "\<exists>l. leaf_at ls c l \<and> key l < ff_int v \<and> (nextValue l = 0 \<or> ff_int v < ff_int (nextValue l))"
    if v: "v \<notin> leaf_values ls" and c: "find_closest_leaf ls v = (c, p)" for c p
  proof -
    obtain l where l: "leaf_at ls c l" "key l < ff_int v" "\<And>j m. leaf_at ls j m \<Longrightarrow> key m < ff_int v \<Longrightarrow> key m \<le> key l"
      using find_low [OF ok v] c by auto
    have "ff_int v < ff_int (nextValue l)" if linked: "linked_leaf ls l"
    proof -
      obtain m where m: "leaf_at ls (nextIndex l) m" "leaf_value m = nextValue l" "key l < key m"
        using linked unfolding linked_leaf_def by blast
      have "leaf_value m \<noteq> v" "\<not> key m < ff_int v"
        using v l(3) [OF m(1)] leaf_valuesI [OF m(1)] m(3) by auto
      then show ?thesis
        using m(2) ff_eq_iff [of "leaf_value m" v] by simp
    qed
    then show ?thesis
      using linked_cases [OF ok l(1)] l(1,2) by (auto simp: last_leaf_def)
  qed
  have present: "present = (v \<in> leaf_values ls)"
    using find_present [OF ok, of v] find_low [OF ok, of v] assms(2) by (cases "v \<in> leaf_values ls") (auto simp: ls_def)
  have "\<exists>l. leaf_at ls i l \<and> (if present then leaf_value l = v
      else key l < ff_int v \<and> (nextValue l = 0 \<or> ff_int v < ff_int (nextValue l)))"
    using found [OF _ assms(2) [folded ls_def]] find_present [OF ok, of v] assms(2) present
    by (cases present) (auto simp: ls_def)
  then show ?thesis
    using absent found [OF _ assms(2) [folded ls_def]] present unfolding ls_def [symmetric] by blast
qed

theorem nullifier_absence_witness:
  "(10 :: ff) \<notin> leaf_values (nmt_leaves example_inserted)"
proof -
  have "find_closest_leaf (nmt_leaves example_inserted) 10 = (0, False)"
    by (simp add: find_closest_leaf_def min_element_def)
  then show ?thesis
    using nullifier_absence [OF example_inserted] by blast
qed

end
