(* ===== verification/Circuit_Builder.thy ===== *)
theory Circuit_Builder
  imports Scalar_Field Prelude
begin

text \<open>
  proof_system/circuit_builder/circuit_builder_base.hpp and .cpp: the variables of a circuit and
  the copy constraints between them. The variables of a class are a chain linked in both
  directions by next_var_index and prev_var_index; the last of a chain is the real variable, whose
  value stands for all. An index is a natural number, wrapped to 32 bits where the code casts it.
\<close>

section \<open>State\<close>

text \<open>
  A failed assertion, or code without a defined behaviour: an access outside a vector, or a loop
  over the links that does not end.
\<close>

datatype builder_error = Assert_failed | Undefined

definition DUMMY_TAG :: nat where
  "DUMMY_TAG = 0"

definition REAL_VARIABLE :: nat where
  "REAL_VARIABLE = 2 ^ 32 - 2"

definition FIRST_VARIABLE_IN_CLASS :: nat where
  "FIRST_VARIABLE_IN_CLASS = 2 ^ 32 - 3"

record CircuitBuilderBase =
  num_gates :: nat
  public_inputs :: "nat list"
  variables :: "ff list"
  variable_names :: "nat \<rightharpoonup> string"
  next_var_index :: "nat list"
  prev_var_index :: "nat list"
  real_variable_index :: "nat list"
  real_variable_tags :: "nat list"
  recursive_proof_public_input_indices :: "nat list"
  contains_recursive_proof :: bool
  builder_failed :: bool
  builder_err :: string
  zero_idx :: nat
  one_idx :: nat

definition base_init :: CircuitBuilderBase where
  "base_init = \<lparr>num_gates = 0, public_inputs = [], variables = [], variable_names = Map.empty,
     next_var_index = [], prev_var_index = [], real_variable_index = [], real_variable_tags = [],
     recursive_proof_public_input_indices = [], contains_recursive_proof = False,
     builder_failed = False, builder_err = '''', zero_idx = 0, one_idx = 1\<rparr>"

definition failure :: "string \<Rightarrow> 'a CircuitBuilderBase_scheme \<Rightarrow> 'a CircuitBuilderBase_scheme" where
  "failure msg B = B\<lparr>builder_failed := True, builder_err := msg\<rparr>"

section \<open>Variables\<close>

definition is_valid_variable :: "nat \<Rightarrow> 'a CircuitBuilderBase_scheme \<Rightarrow> bool" where
  "is_valid_variable index B \<longleftrightarrow> index < length (variables B)"

definition assert_valid_variables :: "nat list \<Rightarrow> 'a CircuitBuilderBase_scheme \<Rightarrow> builder_error + unit" where
  "assert_valid_variables indices B =
     (if list_all (\<lambda>i. is_valid_variable i B) indices then Inr () else Inl Assert_failed)"

definition get_variable :: "nat \<Rightarrow> 'a CircuitBuilderBase_scheme \<Rightarrow> builder_error + ff" where
  "get_variable index B =
     (if length (variables B) > index then Inr (variables B ! (real_variable_index B ! index)) else Inl Assert_failed)"

definition add_variable :: "ff \<Rightarrow> 'a CircuitBuilderBase_scheme \<Rightarrow> nat \<times> 'a CircuitBuilderBase_scheme" where
  "add_variable x B =
     (let B = B\<lparr>variables := variables B @ [x]\<rparr>;
          index = (length (variables B) - 1) mod 2 ^ 32
      in (index, B\<lparr>real_variable_index := real_variable_index B @ [index],
           next_var_index := next_var_index B @ [REAL_VARIABLE],
           prev_var_index := prev_var_index B @ [FIRST_VARIABLE_IN_CLASS],
           real_variable_tags := real_variable_tags B @ [DUMMY_TAG]\<rparr>))"

section \<open>Classes\<close>

partial_function (option) first_in_class :: "nat list \<Rightarrow> nat \<Rightarrow> nat option" where
  "first_in_class prev index =
     (if index < length prev
      then if prev ! index \<noteq> FIRST_VARIABLE_IN_CLASS then first_in_class prev (prev ! index) else Some index
      else None)"

definition get_first_variable_in_class :: "nat \<Rightarrow> 'a CircuitBuilderBase_scheme \<Rightarrow> builder_error + nat" where
  "get_first_variable_in_class index B =
     (case first_in_class (prev_var_index B) index of Some i \<Rightarrow> Inr i | None \<Rightarrow> Inl Undefined)"

partial_function (option) update_class :: "nat list \<Rightarrow> nat \<Rightarrow> nat \<Rightarrow> nat list \<Rightarrow> nat list option" where
  "update_class succs cur_index new_real_index real =
     (if cur_index < length real \<and> cur_index < length succs
      then let real = real[cur_index := new_real_index];
               cur_index = succs ! cur_index
           in if cur_index \<noteq> REAL_VARIABLE then update_class succs cur_index new_real_index real else Some real
      else None)"

definition update_real_variable_indices ::
  "nat \<Rightarrow> nat \<Rightarrow> 'a CircuitBuilderBase_scheme \<Rightarrow> builder_error + 'a CircuitBuilderBase_scheme" where
  "update_real_variable_indices index new_real_index B =
     (case update_class (next_var_index B) index new_real_index (real_variable_index B) of
        Some real \<Rightarrow> Inr (B\<lparr>real_variable_index := real\<rparr>)
      | None \<Rightarrow> Inl Undefined)"

text \<open>The end of assert_equal, after the classes are merged: the tags.\<close>

definition merge_tags :: "nat \<Rightarrow> nat \<Rightarrow> string \<Rightarrow> 'a CircuitBuilderBase_scheme \<Rightarrow> 'a CircuitBuilderBase_scheme" where
  "merge_tags a_real_idx b_real_idx msg B =
     (let tags = real_variable_tags B;
          no_tag_clash = (tags ! a_real_idx = DUMMY_TAG \<or> tags ! b_real_idx = DUMMY_TAG \<or>
            tags ! a_real_idx = tags ! b_real_idx);
          B = (if \<not> no_tag_clash \<and> \<not> builder_failed B then failure msg B else B)
      in if tags ! a_real_idx = DUMMY_TAG
         then B\<lparr>real_variable_tags := tags[a_real_idx := tags ! b_real_idx]\<rparr> else B)"

definition assert_equal ::
  "nat \<Rightarrow> nat \<Rightarrow> string \<Rightarrow> 'a CircuitBuilderBase_scheme \<Rightarrow> builder_error + 'a CircuitBuilderBase_scheme" where
  "assert_equal a_variable_idx b_variable_idx msg B =
     ebind (assert_valid_variables [a_variable_idx, b_variable_idx] B) (\<lambda>_.
     ebind (get_variable a_variable_idx B) (\<lambda>a_value.
     ebind (get_variable b_variable_idx B) (\<lambda>b_value.
     let B = (if a_value \<noteq> b_value \<and> \<not> builder_failed B then failure msg B else B);
         a_real_idx = real_variable_index B ! a_variable_idx;
         b_real_idx = real_variable_index B ! b_variable_idx
     in if a_real_idx = b_real_idx then Inr B
     else ebind (get_first_variable_in_class b_variable_idx B) (\<lambda>b_start_idx.
       ebind (update_real_variable_indices b_start_idx a_real_idx B) (\<lambda>B.
       ebind (get_first_variable_in_class a_variable_idx B) (\<lambda>a_start_idx.
       let B = B\<lparr>next_var_index := (next_var_index B)[b_real_idx := a_start_idx],
                prev_var_index := (prev_var_index B)[a_start_idx := b_real_idx]\<rparr>
       in Inr (merge_tags a_real_idx b_real_idx msg B)))))))"

section \<open>Public inputs\<close>

definition add_public_variable :: "ff \<Rightarrow> 'a CircuitBuilderBase_scheme \<Rightarrow> nat \<times> 'a CircuitBuilderBase_scheme" where
  "add_public_variable x B =
     (let (index, B) = add_variable x B in (index, B\<lparr>public_inputs := public_inputs B @ [index]\<rparr>))"

definition set_public_input :: "nat \<Rightarrow> 'a CircuitBuilderBase_scheme \<Rightarrow> 'a CircuitBuilderBase_scheme" where
  "set_public_input witness_index B =
     (if witness_index \<in> set (public_inputs B)
      then if \<not> builder_failed B
           then failure ''Attempted to set a public input that is already public!'' B else B
      else B\<lparr>public_inputs := public_inputs B @ [witness_index]\<rparr>)"

fun public_input_index :: "nat list \<Rightarrow> nat list \<Rightarrow> nat \<Rightarrow> nat \<Rightarrow> nat option" where
  "public_input_index real [] witness_index i = None"
| "public_input_index real (p # ps) witness_index i =
     (if real ! p = real ! witness_index then Some (i mod 2 ^ 32)
      else public_input_index real ps witness_index (Suc i))"

definition get_public_input_index :: "nat \<Rightarrow> 'a CircuitBuilderBase_scheme \<Rightarrow> builder_error + nat" where
  "get_public_input_index witness_index B =
     (case public_input_index (real_variable_index B) (public_inputs B) witness_index 0 of
        Some result \<Rightarrow> Inr result
      | None \<Rightarrow> Inl Assert_failed)"

definition get_public_input :: "nat \<Rightarrow> 'a CircuitBuilderBase_scheme \<Rightarrow> builder_error + ff" where
  "get_public_input index B = get_variable (public_inputs B ! index) B"

fun public_input_values :: "nat list \<Rightarrow> 'a CircuitBuilderBase_scheme \<Rightarrow> builder_error + ff list" where
  "public_input_values [] B = Inr []"
| "public_input_values (i # is) B =
     ebind (get_public_input i B) (\<lambda>x. ebind (public_input_values is B) (\<lambda>xs. Inr (x # xs)))"

definition get_public_inputs :: "'a CircuitBuilderBase_scheme \<Rightarrow> builder_error + ff list" where
  "get_public_inputs B = public_input_values [0..<length (public_inputs B)] B"

definition add_recursive_proof :: "nat list \<Rightarrow> 'a CircuitBuilderBase_scheme \<Rightarrow> 'a CircuitBuilderBase_scheme" where
  "add_recursive_proof indices B =
     (let B = (if contains_recursive_proof B then failure ''added recursive proof when one already exists'' B else B);
          B = B\<lparr>contains_recursive_proof := True\<rparr>
      in fold (\<lambda>idx B.
           let B = set_public_input idx B
           in B\<lparr>recursive_proof_public_input_indices := recursive_proof_public_input_indices B @
                  [(length (public_inputs B) - 1) mod 2 ^ 32]\<rparr>) indices B)"

fun recursive_proof_indices ::
  "nat list \<Rightarrow> 'a CircuitBuilderBase_scheme \<Rightarrow> builder_error + 'a CircuitBuilderBase_scheme" where
  "recursive_proof_indices [] B = Inr B"
| "recursive_proof_indices (idx # idxs) B =
     ebind (get_public_input_index (real_variable_index B ! idx) B) (\<lambda>i.
     recursive_proof_indices idxs
       (B\<lparr>recursive_proof_public_input_indices := recursive_proof_public_input_indices B @ [i]\<rparr>))"

definition set_recursive_proof ::
  "nat list \<Rightarrow> 'a CircuitBuilderBase_scheme \<Rightarrow> builder_error + 'a CircuitBuilderBase_scheme" where
  "set_recursive_proof indices B =
     (let B = (if contains_recursive_proof B then failure ''added recursive proof when one already exists'' B else B)
      in recursive_proof_indices indices (B\<lparr>contains_recursive_proof := True\<rparr>))"

section \<open>Names\<close>

definition set_variable_name ::
  "nat \<Rightarrow> string \<Rightarrow> 'a CircuitBuilderBase_scheme \<Rightarrow> builder_error + 'a CircuitBuilderBase_scheme" where
  "set_variable_name index name B =
     (if \<not> length (variables B) > index then Inl Assert_failed
      else ebind (get_first_variable_in_class index B) (\<lambda>first_idx.
        case variable_names B first_idx of
          Some _ \<Rightarrow> Inr (failure ''Attempted to assign a name to a variable that already has a name'' B)
        | None \<Rightarrow> Inr (B\<lparr>variable_names := (variable_names B)(first_idx \<mapsto> name)\<rparr>)))"

partial_function (option) next_named :: "nat list \<Rightarrow> (nat \<rightharpoonup> string) \<Rightarrow> nat \<Rightarrow> nat option" where
  "next_named succs names cur_idx =
     (if cur_idx \<noteq> REAL_VARIABLE \<and> names cur_idx = None
      then if cur_idx < length succs then next_named succs names (succs ! cur_idx) else None
      else Some cur_idx)"

definition update_variable_names ::
  "nat \<Rightarrow> 'a CircuitBuilderBase_scheme \<Rightarrow> builder_error + 'a CircuitBuilderBase_scheme" where
  "update_variable_names index B =
     ebind (get_first_variable_in_class index B) (\<lambda>first_idx.
     case next_named (next_var_index B) (variable_names B) (next_var_index B ! first_idx) of
       None \<Rightarrow> Inl Undefined
     | Some cur_idx \<Rightarrow>
       if variable_names B first_idx \<noteq> None
       then if cur_idx \<noteq> REAL_VARIABLE then Inr (B\<lparr>variable_names := (variable_names B)(cur_idx := None)\<rparr>) else Inr B
       else if cur_idx \<noteq> REAL_VARIABLE
       then let var_name = variable_names B cur_idx
            in Inr (B\<lparr>variable_names := (variable_names B)(cur_idx := None, first_idx := var_name)\<rparr>)
       else Inr (failure ''No previously assigned names found'' B))"

text \<open>
  finalize_variable_names goes over the names in the order of the hash map, which is an argument
  here. The second loop increments i and tests j, so that for two names or more it only ends by
  reading behind the end of firsts; for no name the first loop runs 2^64 - 1 empty rounds. The
  operator [] of the map inserts an empty string for a key that is gone.
\<close>

definition name_of :: "nat \<Rightarrow> 'a CircuitBuilderBase_scheme \<Rightarrow> string \<times> 'a CircuitBuilderBase_scheme" where
  "name_of k B =
     (case variable_names B k of
        Some s \<Rightarrow> (s, B)
      | None \<Rightarrow> ('''', B\<lparr>variable_names := (variable_names B)(k \<mapsto> '''')\<rparr>))"

function name_collisions ::
  "nat list \<Rightarrow> nat list \<Rightarrow> nat \<Rightarrow> nat \<Rightarrow> 'a CircuitBuilderBase_scheme \<Rightarrow> builder_error + 'a CircuitBuilderBase_scheme" where
  "name_collisions keys firsts i j B =
     (if \<not> j < length keys then Inr B
      else if \<not> i < length keys then Inl Undefined
      else ebind (if firsts ! i = firsts ! j
          then let (substr1, B) = name_of (keys ! i) B;
                   (substr2, B) = name_of (keys ! j) B
               in update_variable_names (firsts ! j)
                    (failure (''Variables from the same equivalence class have separate names: '' @ substr2 @ '', '' @ substr2) B)
          else Inr B)
        (\<lambda>B. name_collisions keys firsts (Suc i) j B))"
  by pat_completeness auto
termination
  by (relation "measure (\<lambda>(keys, firsts, i, j, B). length keys - i)") auto

declare name_collisions.simps [simp del]

fun firsts_in_class :: "nat list \<Rightarrow> 'a CircuitBuilderBase_scheme \<Rightarrow> builder_error + nat list" where
  "firsts_in_class [] B = Inr []"
| "firsts_in_class (k # keys) B =
     ebind (get_first_variable_in_class k B) (\<lambda>i. ebind (firsts_in_class keys B) (\<lambda>is. Inr (i # is)))"

definition finalize_variable_names ::
  "nat list \<Rightarrow> 'a CircuitBuilderBase_scheme \<Rightarrow> builder_error + 'a CircuitBuilderBase_scheme" where
  "finalize_variable_names keys B =
     ebind (firsts_in_class keys B) (\<lambda>firsts.
     if length keys < 2 then Inr B else name_collisions keys firsts 0 1 B)"

section \<open>Chains\<close>

definition linked :: "'a CircuitBuilderBase_scheme \<Rightarrow> nat \<Rightarrow> nat \<Rightarrow> bool" where
  "linked B i j \<longleftrightarrow> next_var_index B ! i = j \<and> prev_var_index B ! j = i"

definition chain :: "'a CircuitBuilderBase_scheme \<Rightarrow> nat list \<Rightarrow> bool" where
  "chain B c \<longleftrightarrow> c \<noteq> [] \<and> distinct c \<and> set c \<subseteq> {..<length (variables B)} \<and> successively (linked B) c \<and>
     prev_var_index B ! hd c = FIRST_VARIABLE_IN_CLASS \<and> next_var_index B ! last c = REAL_VARIABLE \<and>
     (\<forall>i\<in>set c. real_variable_index B ! i = last c)"

definition chains :: "'a CircuitBuilderBase_scheme \<Rightarrow> nat list set \<Rightarrow> bool" where
  "chains B C \<longleftrightarrow> (\<forall>c\<in>C. chain B c) \<and> (\<forall>i<length (variables B). \<exists>c\<in>C. i \<in> set c) \<and>
     (\<forall>c\<in>C. \<forall>d\<in>C. set c \<inter> set d \<noteq> {} \<longrightarrow> c = d)"

definition base_ok :: "'a CircuitBuilderBase_scheme \<Rightarrow> bool" where
  "base_ok B \<longleftrightarrow> length (variables B) \<le> FIRST_VARIABLE_IN_CLASS \<and>
     length (next_var_index B) = length (variables B) \<and> length (prev_var_index B) = length (variables B) \<and>
     length (real_variable_index B) = length (variables B) \<and> length (real_variable_tags B) = length (variables B) \<and>
     (\<exists>C. chains B C)"

lemma chainsD:
  assumes "chains B C"
  shows "c \<in> C \<Longrightarrow> chain B c" and "i < length (variables B) \<Longrightarrow> \<exists>c\<in>C. i \<in> set c"
    and "c \<in> C \<Longrightarrow> d \<in> C \<Longrightarrow> i \<in> set c \<Longrightarrow> i \<in> set d \<Longrightarrow> c = d"
  using assms unfolding chains_def by blast+

lemma chain_cong:
  assumes "chain B c" and "\<And>i. i \<in> set c \<Longrightarrow> next_var_index B' ! i = next_var_index B ! i"
    and "\<And>i. i \<in> set c \<Longrightarrow> prev_var_index B' ! i = prev_var_index B ! i"
    and "\<And>i. i \<in> set c \<Longrightarrow> real_variable_index B' ! i = real_variable_index B ! i"
    and "length (variables B) \<le> length (variables B')"
  shows "chain B' c"
proof -
  have "successively (linked B') c"
    using assms(1-3) by (auto simp: chain_def linked_def intro: successively_mono)
  then show ?thesis
    using assms by (fastforce simp: chain_def)
qed

lemma first_in_class_chain:
  assumes "length (prev_var_index B) = length (variables B)" and "length (variables B) \<le> FIRST_VARIABLE_IN_CLASS"
    and "chain B c" and "i \<in> set c"
  shows "first_in_class (prev_var_index B) i = Some (hd c)"
proof -
  obtain xs ys where c: "c = xs @ i # ys"
    using assms(4) by (meson split_list)
  have "first_in_class (prev_var_index B) (hd (ws @ ys)) = Some (hd (xs @ ws @ ys))"
    if "chain B (xs @ ws @ ys)" "ws @ ys \<noteq> []" for xs ws ys
    using that
  proof (induction xs arbitrary: ws rule: rev_induct)
    case Nil
    then show ?case
      using assms(1) by (subst first_in_class.simps) (cases "ws @ ys", auto simp: chain_def)
  next
    case (snoc p xs)
    define q where "q = hd (ws @ ys)"
    have "chain B (xs @ (p # ws) @ ys)"
      using snoc.prems(1) by simp
    from snoc.IH [OF this] have IH: "first_in_class (prev_var_index B) p = Some (hd ((xs @ [p]) @ ws @ ys))"
      by simp
    have "q \<in> set (ws @ ys)"
      unfolding q_def using snoc.prems(2) by (rule hd_in_set)
    then have "successively (linked B) ((xs @ [p]) @ (ws @ ys))" "p < length (variables B)" "q < length (variables B)"
      using snoc.prems by (auto simp: chain_def)
    then have "prev_var_index B ! q = p" "p \<noteq> FIRST_VARIABLE_IN_CLASS" "q < length (prev_var_index B)"
      using snoc.prems(2) assms(1,2) unfolding successively_append_iff by (auto simp: linked_def q_def)
    then show ?case
      using IH by (subst first_in_class.simps) (simp add: q_def)
  qed
  from this [of xs "[i]" ys] show ?thesis
    using assms(3) by (simp add: c)
qed

lemma update_class_chain:
  assumes "length succs = n" and "n \<le> FIRST_VARIABLE_IN_CLASS"
    and "c \<noteq> []" "set c \<subseteq> {..<n}" "successively (\<lambda>i j. succs ! i = j) c" "succs ! last c = REAL_VARIABLE"
    and "length real = n"
  shows "\<exists>real'. update_class succs (hd c) new real = Some real' \<and> length real' = n \<and>
    (\<forall>j<n. real' ! j = (if j \<in> set c then new else real ! j))"
  using assms(3-)
proof (induction c arbitrary: real)
  case (Cons i c)
  have i: "i < length real" "i < length succs"
    using Cons.prems assms(1) by simp_all
  show ?case
  proof (cases "c = []")
    case True
    then show ?thesis
      using i Cons.prems by (subst update_class.simps) (simp add: nth_list_update)
  next
    case False
    have "hd c \<in> set c" "succs ! i = hd c" "successively (\<lambda>i j. succs ! i = j) c"
      using Cons.prems False by (cases c; simp)+
    moreover from this have "hd c \<noteq> REAL_VARIABLE"
      using Cons.prems(2) assms(2) by (auto simp: REAL_VARIABLE_def FIRST_VARIABLE_IN_CLASS_def)
    moreover obtain real' where "update_class succs (hd c) new (real[i := new]) = Some real'" "length real' = n"
        "\<forall>j<n. real' ! j = (if j \<in> set c then new else real[i := new] ! j)"
      using Cons.IH [of "real[i := new]"] Cons.prems False calculation(3) by auto
    ultimately show ?thesis
      using i Cons.prems by (subst update_class.simps) (auto simp: nth_list_update)
  qed
qed simp

section \<open>What the operations do\<close>

text \<open>The value of a variable, and the constraints that the classes put on an assignment.\<close>

definition val :: "'a CircuitBuilderBase_scheme \<Rightarrow> nat \<Rightarrow> ff" where
  "val B i = variables B ! (real_variable_index B ! i)"

definition same_class :: "'a CircuitBuilderBase_scheme \<Rightarrow> nat \<Rightarrow> nat \<Rightarrow> bool" where
  "same_class B i j \<longleftrightarrow> i < length (variables B) \<and> j < length (variables B) \<and>
     real_variable_index B ! i = real_variable_index B ! j"

definition copies :: "'a CircuitBuilderBase_scheme \<Rightarrow> (nat \<Rightarrow> ff) \<Rightarrow> bool" where
  "copies B v \<longleftrightarrow> (\<forall>i j. same_class B i j \<longrightarrow> v i = v j)"

lemma copies_val: "copies B (val B)"
  by (simp add: copies_def same_class_def val_def)

lemma base_okD:
  assumes "base_ok B"
  shows "length (variables B) \<le> FIRST_VARIABLE_IN_CLASS" "length (next_var_index B) = length (variables B)"
    "length (prev_var_index B) = length (variables B)" "length (real_variable_index B) = length (variables B)"
    "length (real_variable_tags B) = length (variables B)"
  using assms by (simp_all add: base_ok_def)

lemma real_index_valid:
  assumes "base_ok B" and "i < length (variables B)"
  shows "real_variable_index B ! i < length (variables B)"
    and "real_variable_index B ! (real_variable_index B ! i) = real_variable_index B ! i"
proof -
  obtain C where C: "chains B C"
    using assms(1) by (auto simp: base_ok_def)
  obtain c where c: "c \<in> C" "i \<in> set c"
    using chainsD(2) [OF C assms(2)] by blast
  then have "chain B c" "real_variable_index B ! i = last c" "last c \<in> set c"
    using chainsD(1) [OF C] by (auto simp: chain_def)
  then show "real_variable_index B ! i < length (variables B)"
      "real_variable_index B ! (real_variable_index B ! i) = real_variable_index B ! i"
    using subsetD [of "set c" "{..<length (variables B)}" "last c"] by (auto simp: chain_def)
qed

lemma get_variable_eq: "i < length (variables B) \<Longrightarrow> get_variable i B = Inr (val B i)"
  by (simp add: get_variable_def val_def)

lemma base_ok_init: "base_ok base_init"
  unfolding base_ok_def base_init_def by (auto simp: chains_def intro: exI [of _ "{}"])

subsection \<open>A new variable\<close>

lemma add_variable_eq:
  assumes "length (variables B) < FIRST_VARIABLE_IN_CLASS"
  shows "add_variable x B = (length (variables B), B\<lparr>variables := variables B @ [x],
    real_variable_index := real_variable_index B @ [length (variables B)],
    next_var_index := next_var_index B @ [REAL_VARIABLE], prev_var_index := prev_var_index B @ [FIRST_VARIABLE_IN_CLASS],
    real_variable_tags := real_variable_tags B @ [DUMMY_TAG]\<rparr>)"
  using assms by (simp add: add_variable_def Let_def FIRST_VARIABLE_IN_CLASS_def)

lemma add_variable_facts:
  assumes "base_ok B" and room: "length (variables B) < FIRST_VARIABLE_IN_CLASS" and "add_variable x B = (i, B')"
  shows "i = length (variables B)" and "base_ok B'" and "variables B' = variables B @ [x]"
    and "copies B' v \<longleftrightarrow> copies B v" and "j < length (variables B) \<Longrightarrow> val B' j = val B j" and "val B' i = x"
    and "builder_failed B' = builder_failed B" "builder_err B' = builder_err B" "public_inputs B' = public_inputs B"
proof -
  note ok = base_okD [OF assms(1)]
  note eq = add_variable_eq [OF room, of x, unfolded assms(3)]
  then show i: "i = length (variables B)" and vars: "variables B' = variables B @ [x]"
      "builder_failed B' = builder_failed B" "builder_err B' = builder_err B" "public_inputs B' = public_inputs B"
    by simp_all
  have real: "real_variable_index B' ! j = (if j < length (variables B) then real_variable_index B ! j else length (variables B))"
    if "j \<le> length (variables B)" for j
    using eq ok(4) that by (auto simp: nth_append)
  obtain C where C: "chains B C"
    using assms(1) by (auto simp: base_ok_def)
  have "chain B' c" if "c \<in> C" for c
  proof (rule chain_cong)
    show "chain B c"
      using chainsD(1) [OF C that] .
    then have "set c \<subseteq> {..<length (variables B)}"
      by (simp add: chain_def)
    then show "j \<in> set c \<Longrightarrow> next_var_index B' ! j = next_var_index B ! j"
      "j \<in> set c \<Longrightarrow> prev_var_index B' ! j = prev_var_index B ! j"
      "j \<in> set c \<Longrightarrow> real_variable_index B' ! j = real_variable_index B ! j" for j
      using eq ok by (auto simp: nth_append)
  qed (simp add: vars)
  moreover have "chain B' [i]"
    using eq ok by (simp add: chain_def nth_append)
  moreover have "i \<notin> set c" if "c \<in> C" for c
    using chainsD(1) [OF C that] by (auto simp: chain_def i)
  ultimately have "chains B' (insert [i] C)"
    using C by (auto simp: chains_def vars i less_Suc_eq)
  then show "base_ok B'"
    using eq ok room by (auto simp: base_ok_def)
  have "same_class B' j k \<longleftrightarrow> same_class B j k \<or> j = i \<and> k = i" for j k
    using real [of j] real [of k] real_index_valid(1) [OF assms(1), of j] real_index_valid(1) [OF assms(1), of k]
    by (auto simp: same_class_def vars i less_Suc_eq)
  then show "copies B' v \<longleftrightarrow> copies B v"
    by (auto simp: copies_def)
  show "val B' j = val B j" if "j < length (variables B)"
    using real [of j] that real_index_valid(1) [OF assms(1) that] by (simp add: val_def vars nth_append)
  show "val B' i = x"
    using real [of i] by (simp add: val_def vars nth_append i)
qed

subsection \<open>Merging two classes\<close>

definition tag_of :: "'a CircuitBuilderBase_scheme \<Rightarrow> nat \<Rightarrow> nat" where
  "tag_of B i = real_variable_tags B ! (real_variable_index B ! i)"

definition tag_clash :: "'a CircuitBuilderBase_scheme \<Rightarrow> nat \<Rightarrow> nat \<Rightarrow> bool" where
  "tag_clash B i j \<longleftrightarrow> \<not> (tag_of B i = DUMMY_TAG \<or> tag_of B j = DUMMY_TAG \<or> tag_of B i = tag_of B j)"

text \<open>The chain of b in front of the chain of a, and what this makes of the chains.\<close>

lemma merged_chain:
  assumes ca: "chain B ca" and cb: "chain B cb" and disj: "set ca \<inter> set cb = {}" and ok: "base_ok B"
    and next': "next_var_index B' = (next_var_index B)[last cb := hd ca]"
    and prev': "prev_var_index B' = (prev_var_index B)[hd ca := last cb]"
    and real': "\<And>i. i < length (variables B) \<Longrightarrow> real_variable_index B' ! i = (if i \<in> set cb then last ca else real_variable_index B ! i)"
    and vars: "variables B' = variables B"
  shows "chain B' (cb @ ca)"
proof -
  have ends: "hd ca \<in> set ca" "last ca \<in> set ca" "hd cb \<in> set cb" "last cb \<in> set cb" "ca \<noteq> []" "cb \<noteq> []"
    using ca cb by (auto simp: chain_def)
  have sub: "set ca \<subseteq> {..<length (variables B)}" "set cb \<subseteq> {..<length (variables B)}"
    using ca cb by (simp_all add: chain_def)
  have "successively (linked B') cb"
  proof (rule successively_mono)
    show "successively (\<lambda>i j. linked B i j \<and> i \<noteq> last cb \<and> j \<noteq> hd ca) cb"
    proof -
      have "linked B (cb ! k) (cb ! Suc k) \<and> cb ! k \<noteq> last cb \<and> cb ! Suc k \<noteq> hd ca" if k: "Suc k < length cb" for k
      proof -
        have "cb ! k \<noteq> cb ! (length cb - 1)"
          using k cb by (auto simp: chain_def nth_eq_iff_index_eq)
        moreover have "cb ! Suc k \<noteq> hd ca"
          using nth_mem [OF k] disj ends(1) by auto
        ultimately show ?thesis
          using cb ends k by (auto simp: chain_def successively_conv_nth last_conv_nth)
      qed
      then show ?thesis
        by (auto simp: successively_conv_nth)
    qed
  qed (auto simp: linked_def next' prev')
  moreover have "successively (linked B') ca"
  proof (rule successively_mono)
    show "successively (\<lambda>i j. linked B i j \<and> i \<noteq> last cb \<and> j \<noteq> hd ca) ca"
    proof -
      have "linked B (ca ! k) (ca ! Suc k) \<and> ca ! k \<noteq> last cb \<and> ca ! Suc k \<noteq> hd ca" if k: "Suc k < length ca" for k
      proof -
        have "ca ! Suc k \<noteq> ca ! 0"
          using k ca by (auto simp: chain_def nth_eq_iff_index_eq)
        moreover have "ca ! k \<noteq> last cb"
          using nth_mem [OF Suc_lessD [OF k]] disj ends(4) by auto
        ultimately show ?thesis
          using ca ends k by (auto simp: chain_def successively_conv_nth hd_conv_nth)
      qed
      then show ?thesis
        by (auto simp: successively_conv_nth)
    qed
  qed (auto simp: linked_def next' prev')
  moreover have "last cb < length (variables B)" "hd ca < length (variables B)"
    using sub ends by blast+
  then have "linked B' (last cb) (hd ca)"
    using base_okD(2,3) [OF ok] by (simp add: linked_def next' prev')
  ultimately have "successively (linked B') (cb @ ca)"
    by (simp add: successively_append_iff)
  moreover have "prev_var_index B' ! hd cb = FIRST_VARIABLE_IN_CLASS" "next_var_index B' ! last ca = REAL_VARIABLE"
  proof -
    have "hd ca \<noteq> hd cb" "last cb \<noteq> last ca"
      using disj ends(1-4) by (metis disjoint_iff)+
    then show "prev_var_index B' ! hd cb = FIRST_VARIABLE_IN_CLASS" "next_var_index B' ! last ca = REAL_VARIABLE"
      using ca cb by (simp_all add: chain_def next' prev')
  qed
  moreover have "real_variable_index B' ! i = last ca" if "i \<in> set ca \<union> set cb" for i
    using that ca sub real' [of i] by (auto simp: chain_def)
  ultimately show ?thesis
    using ca cb disj sub ends by (auto simp: chain_def vars)
qed

lemma merged_chains:
  assumes C: "chains B C" and c: "ca \<in> C" "cb \<in> C" "ca \<noteq> cb" and ok: "base_ok B"
    and next': "next_var_index B' = (next_var_index B)[last cb := hd ca]"
    and prev': "prev_var_index B' = (prev_var_index B)[hd ca := last cb]"
    and real': "\<And>i. i < length (variables B) \<Longrightarrow> real_variable_index B' ! i = (if i \<in> set cb then last ca else real_variable_index B ! i)"
    and vars: "variables B' = variables B"
  shows "chains B' (insert (cb @ ca) (C - {ca, cb}))"
proof -
  have disj: "set x \<inter> set y = {}" if "x \<in> C" "y \<in> C" "x \<noteq> y" for x y
    using chainsD(3) [OF C that(1,2)] that(3) by blast
  note cab = chainsD(1) [OF C c(1)] chainsD(1) [OF C c(2)]
  have "chain B' (cb @ ca)"
    using merged_chain [OF cab disj [OF c] ok next' prev' _ vars] real' by blast
  moreover have "chain B' d" if d: "d \<in> C" "d \<noteq> ca" "d \<noteq> cb" for d
  proof (rule chain_cong)
    show "chain B d"
      using chainsD(1) [OF C d(1)] .
    have "last cb \<notin> set d" "hd ca \<notin> set d" "set d \<inter> set cb = {}" "set d \<subseteq> {..<length (variables B)}"
      using disj [OF d(1) c(1) d(2)] disj [OF d(1) c(2) d(3)] cab \<open>chain B d\<close>
        last_in_set [of cb] hd_in_set [of ca] by (auto simp: chain_def)
    then have "last cb \<noteq> i" "hd ca \<noteq> i" "i \<notin> set cb" "i < length (variables B)" if "i \<in> set d" for i
      using that by auto
    then show "i \<in> set d \<Longrightarrow> next_var_index B' ! i = next_var_index B ! i"
      "i \<in> set d \<Longrightarrow> prev_var_index B' ! i = prev_var_index B ! i"
      "i \<in> set d \<Longrightarrow> real_variable_index B' ! i = real_variable_index B ! i" for i
      using real' by (simp_all add: next' prev')
  qed (simp add: vars)
  moreover have "\<exists>d\<in>insert (cb @ ca) (C - {ca, cb}). i \<in> set d" if "i < length (variables B)" for i
    using chainsD(2) [OF C that] by auto
  moreover have "x = y" if "x \<in> insert (cb @ ca) (C - {ca, cb})" "y \<in> insert (cb @ ca) (C - {ca, cb})" "set x \<inter> set y \<noteq> {}" for x y
  proof -
    have apart: "set (cb @ ca) \<inter> set d = {}" if "d \<in> C - {ca, cb}" for d
      using disj [OF c(1), of d] disj [OF c(2), of d] that by auto
    show ?thesis
      using that apart disj by (metis DiffD1 Int_commute insertE)
  qed
  ultimately show ?thesis
    unfolding chains_def vars by blast
qed

lemma real_index_last:
  "chains B C \<Longrightarrow> c \<in> C \<Longrightarrow> i \<in> set c \<Longrightarrow> real_variable_index B ! i = last c"
  "chains B C \<Longrightarrow> c \<in> C \<Longrightarrow> i < length (variables B) \<Longrightarrow> real_variable_index B ! i = last c \<Longrightarrow> i \<in> set c"
proof -
  show "chains B C \<Longrightarrow> c \<in> C \<Longrightarrow> i \<in> set c \<Longrightarrow> real_variable_index B ! i = last c" for i c
    using chainsD(1) by (auto simp: chain_def)
  assume C: "chains B C" "c \<in> C" "i < length (variables B)" "real_variable_index B ! i = last c"
  obtain d where d: "d \<in> C" "i \<in> set d"
    using chainsD(2) [OF C(1,3)] by blast
  then have "d \<noteq> []" "c \<noteq> []" "last c = last d"
    using chainsD(1) [OF C(1) d(1)] chainsD(1) [OF C(1,2)] C(4) by (auto simp: chain_def)
  then have "last d \<in> set d" "last d \<in> set c"
    using last_in_set [of d] last_in_set [of c] by simp_all
  then show "i \<in> set c"
    using chainsD(3) [OF C(1) d(1) C(2)] d(2) by blast
qed

lemma merge_tags_facts:
  assumes "merge_tags i j msg B = B'"
  shows "variables B' = variables B" "next_var_index B' = next_var_index B" "prev_var_index B' = prev_var_index B"
    "real_variable_index B' = real_variable_index B" "length (real_variable_tags B') = length (real_variable_tags B)"
    "public_inputs B' = public_inputs B" "k \<noteq> i \<Longrightarrow> real_variable_tags B' ! k = real_variable_tags B ! k"
    "builder_failed B' \<longleftrightarrow> builder_failed B \<or> \<not> (real_variable_tags B ! i = DUMMY_TAG \<or> real_variable_tags B ! j = DUMMY_TAG \<or>
       real_variable_tags B ! i = real_variable_tags B ! j)"
  unfolding assms [symmetric] merge_tags_def Let_def by (simp_all add: failure_def)

lemma assert_equal_facts:
  assumes ok: "base_ok B" and a: "a < length (variables B)" and b: "b < length (variables B)"
  shows "\<exists>B'. assert_equal a b msg B = Inr B' \<and> base_ok B' \<and> variables B' = variables B \<and> public_inputs B' = public_inputs B \<and>
    (\<forall>i<length (variables B). real_variable_index B' ! i =
       (if same_class B i b then real_variable_index B ! a else real_variable_index B ! i)) \<and>
    (\<forall>i<length (variables B). \<not> same_class B i a \<longrightarrow> \<not> same_class B i b \<longrightarrow> tag_of B' i = tag_of B i) \<and>
    (builder_failed B' \<longleftrightarrow> builder_failed B \<or> val B a \<noteq> val B b \<or> \<not> same_class B a b \<and> tag_clash B a b)"
proof -
  note len = base_okD [OF ok]
  obtain C where C: "chains B C"
    using ok by (auto simp: base_ok_def)
  obtain ca cb where c: "ca \<in> C" "a \<in> set ca" "cb \<in> C" "b \<in> set cb"
    using chainsD(2) [OF C a] chainsD(2) [OF C b] by blast
  note real = real_index_last(1) [OF C c(1,2)] real_index_last(1) [OF C c(3,4)]
  define B1 where "B1 = (if val B a \<noteq> val B b \<and> \<not> builder_failed B then failure msg B else B)"
  have B1: "variables B1 = variables B" "next_var_index B1 = next_var_index B" "prev_var_index B1 = prev_var_index B"
      "real_variable_index B1 = real_variable_index B" "real_variable_tags B1 = real_variable_tags B"
      "public_inputs B1 = public_inputs B" "builder_failed B1 \<longleftrightarrow> builder_failed B \<or> val B a \<noteq> val B b"
    by (simp_all add: B1_def failure_def)
  have valid: "assert_valid_variables [a, b] B = Inr ()"
    using a b by (simp add: assert_valid_variables_def is_valid_variable_def)
  show ?thesis
  proof (cases "real_variable_index B ! a = real_variable_index B ! b")
    case True
    then have "val B a = val B b"
      by (simp add: val_def)
    then have "assert_equal a b msg B = Inr B"
      using valid a b True by (simp add: assert_equal_def get_variable_eq)
    then show ?thesis
      using ok a b True \<open>val B a = val B b\<close> by (auto simp: same_class_def)
  next
    case False
    then have ne: "ca \<noteq> cb"
      using real by auto
    note ca = chainsD(1) [OF C c(1)] and cb = chainsD(1) [OF C c(3)]
    have first: "first_in_class (prev_var_index B) a = Some (hd ca)" "first_in_class (prev_var_index B) b = Some (hd cb)"
      using first_in_class_chain [OF len(3,1) ca c(2)] first_in_class_chain [OF len(3,1) cb c(4)] by simp_all
    have "successively (\<lambda>i j. next_var_index B ! i = j) cb"
      using cb by (auto simp: chain_def linked_def intro: successively_mono)
    then obtain real' where real': "update_class (next_var_index B) (hd cb) (last ca) (real_variable_index B) = Some real'"
        "length real' = length (variables B)"
        "\<And>j. j < length (variables B) \<Longrightarrow> real' ! j = (if j \<in> set cb then last ca else real_variable_index B ! j)"
      using update_class_chain [OF len(2,1), of cb "real_variable_index B" "last ca"] cb len(4) by (auto simp: chain_def)
    define B2 where "B2 = B1\<lparr>real_variable_index := real', next_var_index := (next_var_index B)[last cb := hd ca],
      prev_var_index := (prev_var_index B)[hd ca := last cb]\<rparr>"
    define B' where "B' = merge_tags (last ca) (last cb) msg B2"
    note tags = merge_tags_facts [OF B'_def [symmetric]]
    have "assert_equal a b msg B = Inr B'"
      using valid a b False first real'(1)
      by (simp add: assert_equal_def get_variable_eq B1_def [symmetric] B1 real get_first_variable_in_class_def
        update_real_variable_indices_def B'_def B2_def Let_def)
    moreover have "chains B' (insert (cb @ ca) (C - {ca, cb}))"
      using real'(3) by (intro merged_chains [OF C c(1,3) ne ok]) (simp_all add: tags B2_def B1)
    then have "base_ok B'"
      using len real'(2) by (auto simp: base_ok_def tags B2_def B1)
    moreover have "same_class B i b \<longleftrightarrow> i \<in> set cb" if "i < length (variables B)" for i
      using that b real(2) real_index_last [OF C c(3), of i] by (auto simp: same_class_def)
    then have real2: "real_variable_index B' ! i = (if same_class B i b then real_variable_index B ! a else real_variable_index B ! i)"
      if "i < length (variables B)" for i
      using that real'(3) by (simp add: tags B2_def real)
    moreover have "tag_of B' i = tag_of B i"
      if i: "i < length (variables B)" "\<not> same_class B i a" "\<not> same_class B i b" for i
    proof -
      have "real_variable_index B' ! i = real_variable_index B ! i" "real_variable_index B ! i \<noteq> last ca"
        using i real2 [of i] a real(1) by (auto simp: same_class_def)
      then show ?thesis
        unfolding tag_of_def using tags(7) by (simp add: B2_def B1)
    qed
    moreover have "builder_failed B' \<longleftrightarrow> builder_failed B \<or> val B a \<noteq> val B b \<or> \<not> same_class B a b \<and> tag_clash B a b"
      using False by (auto simp: tags B2_def B1 tag_clash_def tag_of_def real same_class_def)
    ultimately show ?thesis
      by (auto simp: tags B2_def B1)
  qed
qed

lemma assert_equal_same_class:
  assumes ok: "base_ok B" and a: "a < length (variables B)" and b: "b < length (variables B)"
    and eq: "assert_equal a b msg B = Inr B'"
  shows "same_class B' i j \<longleftrightarrow> same_class B i j \<or> same_class B i a \<and> same_class B b j \<or> same_class B i b \<and> same_class B a j"
    and "i < length (variables B) \<Longrightarrow> val B' i = (if same_class B i b then val B a else val B i)"
    and "copies B' v \<longleftrightarrow> copies B v \<and> v a = v b"
proof -
  have vars: "variables B' = variables B" and real: "\<And>i. i < length (variables B) \<Longrightarrow> real_variable_index B' ! i =
      (if same_class B i b then real_variable_index B ! a else real_variable_index B ! i)"
    using assert_equal_facts [OF ok a b, of msg] eq by auto
  show same: "same_class B' i j \<longleftrightarrow> same_class B i j \<or> same_class B i a \<and> same_class B b j \<or> same_class B i b \<and> same_class B a j" for i j
    using a b real [of i] real [of j] by (auto simp: same_class_def vars split: if_splits)
  show "i < length (variables B) \<Longrightarrow> val B' i = (if same_class B i b then val B a else val B i)"
    using real [of i] by (simp add: val_def vars)
  have "same_class B a a" "same_class B b b"
    using a b by (simp_all add: same_class_def)
  then show "copies B' v \<longleftrightarrow> copies B v \<and> v a = v b"
    unfolding copies_def same by metis
qed

end
