(* ===== verification/Standard_Builder.thy ===== *)
theory Standard_Builder
  imports Circuit_Builder Avm_Common
begin

text \<open>
  proof_system/circuit_builder/standard_circuit_builder.hpp and .cpp over the scalar field: the
  gates q_m * l * r + q_1 * l + q_2 * r + q_3 * o + q_c = 0, the operations that add gates, and
  check_circuit. A circuit is read as the set of assignments to its variables that satisfy the
  gates and the copy constraints.
\<close>

section \<open>The builder\<close>

record StandardCircuitBuilder = CircuitBuilderBase +
  w_l :: "nat list"
  w_r :: "nat list"
  w_o :: "nat list"
  q_m :: "ff list"
  q_1 :: "ff list"
  q_2 :: "ff list"
  q_3 :: "ff list"
  q_c :: "ff list"
  constant_variable_indices :: "ff \<rightharpoonup> nat"

datatype add_triple = Add_triple (add_a: nat) (add_b: nat) (add_c: nat)
  (add_a_scaling: ff) (add_b_scaling: ff) (add_c_scaling: ff) (add_const_scaling: ff)

datatype add_quad = Add_quad (quad_a: nat) (quad_b: nat) (quad_c: nat) (quad_d: nat)
  (quad_a_scaling: ff) (quad_b_scaling: ff) (quad_c_scaling: ff) (quad_d_scaling: ff) (quad_const_scaling: ff)

datatype mul_quad = Mul_quad (mulq_a: nat) (mulq_b: nat) (mulq_c: nat) (mulq_d: nat) (mulq_mul_scaling: ff)
  (mulq_a_scaling: ff) (mulq_b_scaling: ff) (mulq_c_scaling: ff) (mulq_d_scaling: ff) (mulq_const_scaling: ff)

datatype mul_triple = Mul_triple (mul_a: nat) (mul_b: nat) (mul_c: nat)
  (mul_mul_scaling: ff) (mul_c_scaling: ff) (mul_const_scaling: ff)

datatype poly_triple = Poly_triple (poly_a: nat) (poly_b: nat) (poly_c: nat)
  (poly_q_m: ff) (poly_q_l: ff) (poly_q_r: ff) (poly_q_o: ff) (poly_q_c: ff)

section \<open>Gates\<close>

text \<open>The eight emplace_back and the increment that every operation ends with.\<close>

definition emplace_gate ::
  "nat \<Rightarrow> nat \<Rightarrow> nat \<Rightarrow> ff \<Rightarrow> ff \<Rightarrow> ff \<Rightarrow> ff \<Rightarrow> ff \<Rightarrow> StandardCircuitBuilder \<Rightarrow> StandardCircuitBuilder" where
  "emplace_gate l r out m q1 q2 q3 qc B =
     B\<lparr>w_l := w_l B @ [l], w_r := w_r B @ [r], w_o := w_o B @ [out], q_m := q_m B @ [m], q_1 := q_1 B @ [q1],
       q_2 := q_2 B @ [q2], q_3 := q_3 B @ [q3], q_c := q_c B @ [qc], num_gates := num_gates B + 1\<rparr>"

fun create_add_gate :: "add_triple \<Rightarrow> StandardCircuitBuilder \<Rightarrow> builder_error + StandardCircuitBuilder" where
  "create_add_gate (Add_triple a b c a_scaling b_scaling c_scaling const_scaling) B =
     ebind (assert_valid_variables [a, b, c] B) (\<lambda>_.
     Inr (emplace_gate a b c 0 a_scaling b_scaling c_scaling const_scaling B))"

fun create_mul_gate :: "mul_triple \<Rightarrow> StandardCircuitBuilder \<Rightarrow> builder_error + StandardCircuitBuilder" where
  "create_mul_gate (Mul_triple a b c mul_scaling c_scaling const_scaling) B =
     ebind (assert_valid_variables [a, b, c] B) (\<lambda>_.
     Inr (emplace_gate a b c mul_scaling 0 0 c_scaling const_scaling B))"

definition create_bool_gate :: "nat \<Rightarrow> StandardCircuitBuilder \<Rightarrow> builder_error + StandardCircuitBuilder" where
  "create_bool_gate variable_index B =
     ebind (assert_valid_variables [variable_index] B) (\<lambda>_.
     Inr (emplace_gate variable_index variable_index variable_index 1 0 0 (- 1) 0 B))"

fun create_poly_gate :: "poly_triple \<Rightarrow> StandardCircuitBuilder \<Rightarrow> builder_error + StandardCircuitBuilder" where
  "create_poly_gate (Poly_triple a b c m l r out k) B =
     ebind (assert_valid_variables [a, b, c] B) (\<lambda>_. Inr (emplace_gate a b c m l r out k B))"

fun create_big_add_gate :: "add_quad \<Rightarrow> StandardCircuitBuilder \<Rightarrow> builder_error + StandardCircuitBuilder" where
  "create_big_add_gate (Add_quad a b c d a_scaling b_scaling c_scaling d_scaling const_scaling) B =
     ebind (get_variable a B) (\<lambda>a_value. ebind (get_variable b B) (\<lambda>b_value.
     let t0 = a_value * a_scaling;
         t1 = b_value * b_scaling;
         temp = t0 + t1;
         (temp_idx, B) = add_variable temp B
     in ebind (create_add_gate (Add_triple a b temp_idx a_scaling b_scaling (- 1) 0) B) (\<lambda>B.
        create_add_gate (Add_triple c d temp_idx c_scaling d_scaling 1 const_scaling) B)))"

fun create_balanced_add_gate :: "add_quad \<Rightarrow> StandardCircuitBuilder \<Rightarrow> builder_error + StandardCircuitBuilder" where
  "create_balanced_add_gate (Add_quad a b c d a_scaling b_scaling c_scaling d_scaling const_scaling) B =
     ebind (assert_valid_variables [a, b, c, d] B) (\<lambda>_.
     ebind (get_variable a B) (\<lambda>a_value. ebind (get_variable b B) (\<lambda>b_value.
     let t0 = a_value * a_scaling;
         t1 = b_value * b_scaling;
         temp = t0 + t1;
         (temp_idx, B) = add_variable temp B;
         B = emplace_gate a b temp_idx 0 a_scaling b_scaling (- 1) 0 B;
         B = emplace_gate temp_idx c d 0 1 c_scaling d_scaling const_scaling B
     in ebind (get_variable d B) (\<lambda>d_value.
        let temp_2 = d_value ^ 2 - d_value;
            (temp_2_idx, B) = add_variable temp_2 B;
            B = emplace_gate d d temp_2_idx 1 (- 1) 0 (- 1) 0 B;
            neg_two = - 2
        in Inr (emplace_gate temp_2_idx d (zero_idx B) 1 neg_two 0 0 0 B)))))"

fun create_big_add_gate_with_bit_extraction ::
  "add_quad \<Rightarrow> StandardCircuitBuilder \<Rightarrow> builder_error + StandardCircuitBuilder" where
  "create_big_add_gate_with_bit_extraction (Add_quad a b c d a_scaling b_scaling c_scaling d_scaling const_scaling) B =
     ebind (get_variable d B) (\<lambda>delta.
     let delta = delta + delta;
         delta = delta + delta
     in ebind (get_variable c B) (\<lambda>c_value.
     let delta = c_value - delta;
         (delta_idx, B) = add_variable delta B
     in ebind (create_add_gate (Add_triple c d delta_idx 1 (- 4) (- 1) 0) B) (\<lambda>B.
     let r_0 = delta * 9 - (delta ^ 2 * 2 + 7);
         (r_0_idx, B) = add_variable r_0 B
     in ebind (create_poly_gate (Poly_triple delta_idx delta_idx r_0_idx (- 2) 9 0 (- 1) (- 7)) B) (\<lambda>B.
     let r_1 = r_0 * delta;
         (r_1_idx, B) = add_variable r_1 B
     in ebind (create_mul_gate (Mul_triple r_0_idx delta_idx r_1_idx 1 (- 1) 0) B) (\<lambda>B.
     ebind (get_variable d B) (\<lambda>d_value.
     let r_2 = r_1 + d_value * d_scaling;
         (r_2_idx, B) = add_variable r_2 B
     in ebind (create_add_gate (Add_triple d r_1_idx r_2_idx d_scaling 1 (- 1) 0) B) (\<lambda>B.
     create_big_add_gate (Add_quad a b c r_2_idx a_scaling b_scaling c_scaling 1 const_scaling) B)))))))"

fun create_big_mul_gate :: "mul_quad \<Rightarrow> StandardCircuitBuilder \<Rightarrow> builder_error + StandardCircuitBuilder" where
  "create_big_mul_gate (Mul_quad a b c d mul_scaling a_scaling b_scaling c_scaling d_scaling const_scaling) B =
     ebind (get_variable c B) (\<lambda>c_value. ebind (get_variable d B) (\<lambda>d_value.
     let temp = c_value * c_scaling + d_value * d_scaling;
         (temp_idx, B) = add_variable temp B
     in ebind (create_add_gate (Add_triple c d temp_idx c_scaling d_scaling (- 1) 0) B) (\<lambda>B.
        create_poly_gate (Poly_triple a b temp_idx mul_scaling a_scaling b_scaling 1 const_scaling) B)))"

section \<open>Constants\<close>

definition fix_witness :: "nat \<Rightarrow> ff \<Rightarrow> StandardCircuitBuilder \<Rightarrow> builder_error + StandardCircuitBuilder" where
  "fix_witness witness_index witness_value B =
     ebind (assert_valid_variables [witness_index] B) (\<lambda>_.
     Inr (emplace_gate witness_index (zero_idx B) (zero_idx B) 0 1 0 0 (- witness_value) B))"

definition put_constant_variable :: "ff \<Rightarrow> StandardCircuitBuilder \<Rightarrow> builder_error + nat \<times> StandardCircuitBuilder" where
  "put_constant_variable x B =
     (case constant_variable_indices B x of
        Some variable_index \<Rightarrow> Inr (variable_index, B)
      | None \<Rightarrow>
        let (variable_index, B) = add_variable x B
        in ebind (fix_witness variable_index x B) (\<lambda>B.
           Inr (variable_index, B\<lparr>constant_variable_indices := (constant_variable_indices B)(x \<mapsto> variable_index)\<rparr>)))"

definition assert_equal_constant ::
  "nat \<Rightarrow> ff \<Rightarrow> string \<Rightarrow> StandardCircuitBuilder \<Rightarrow> builder_error + StandardCircuitBuilder" where
  "assert_equal_constant a_idx b msg B =
     (if \<not> a_idx < length (variables B) then Inl Undefined
      else let B = (if variables B ! a_idx \<noteq> b \<and> \<not> builder_failed B then failure msg B else B)
      in ebind (put_constant_variable b B) (\<lambda>(b_idx, B). assert_equal a_idx b_idx msg B))"

definition standard_init :: "builder_error + StandardCircuitBuilder" where
  "standard_init =
     (let B = CircuitBuilderBase.extend base_init
            (StandardCircuitBuilder.fields [] [] [] [] [] [] [] [] Map.empty)
      in ebind (put_constant_variable 0 B) (\<lambda>(zero, B).
         let B = B\<lparr>zero_idx := zero\<rparr>
         in ebind (put_constant_variable 1 B) (\<lambda>(one, B).
            let B = B\<lparr>one_idx := one\<rparr>
            in create_poly_gate (Poly_triple one one one 1 1 1 1 (- 4)) B)))"

section \<open>Ranges\<close>

text \<open>The bit of a value, with the assertion of uint256_t on the index.\<close>

definition get_bit :: "ff \<Rightarrow> nat \<Rightarrow> builder_error + bool" where
  "get_bit x i = (case u256_get_bit (ff_to_u256 x) (of_nat i) of None \<Rightarrow> Inl Assert_failed | Some b \<Rightarrow> Inr b)"

text \<open>
  One quad of decompose_into_base4_accumulators: the variables of its bits and their sum. For an
  odd number of bits the top quad is its low bit.
\<close>

definition create_quad ::
  "bool \<Rightarrow> ff \<Rightarrow> nat \<Rightarrow> StandardCircuitBuilder \<Rightarrow> builder_error + nat \<times> StandardCircuitBuilder" where
  "create_quad is_edge_case target i B =
     ebind (get_bit target (2 * i)) (\<lambda>lo.
     let (lo_idx, B) = add_variable (if lo then 1 else 0) B
     in ebind (create_bool_gate lo_idx B) (\<lambda>B.
        if is_edge_case then Inr (lo_idx, B)
        else ebind (get_bit target (2 * i + 1)) (\<lambda>hi.
        let (hi_idx, B) = add_variable (if hi then 1 else 0) B
        in ebind (create_bool_gate hi_idx B) (\<lambda>B.
           let quad = (if lo then 1 else 0) + (if hi then 2 else 0);
               (quad_idx, B) = add_variable quad B
           in ebind (create_add_gate (Add_triple lo_idx hi_idx quad_idx 1 (1 + 1) (- 1) 0) B) (\<lambda>B.
              Inr (quad_idx, B))))))"

fun accumulate_quads ::
  "nat \<Rightarrow> nat \<Rightarrow> nat \<Rightarrow> ff \<Rightarrow> nat list \<Rightarrow> ff \<Rightarrow> nat \<Rightarrow> StandardCircuitBuilder \<Rightarrow>
     builder_error + nat list \<times> nat \<times> StandardCircuitBuilder" where
  "accumulate_quads 0 num_quads num_bits target accumulators acc_value accumulator_idx B =
     Inr (accumulators, accumulator_idx, B)"
| "accumulate_quads (Suc i) num_quads num_bits target accumulators acc_value accumulator_idx B =
     ebind (create_quad (i = num_quads - 1 \<and> num_bits mod 2 = 1) target i B) (\<lambda>(quad_idx, B).
     if i = num_quads - 1
     then ebind (get_variable quad_idx B) (\<lambda>acc_value.
       accumulate_quads i num_quads num_bits target (accumulators @ [quad_idx]) acc_value quad_idx B)
     else ebind (get_variable quad_idx B) (\<lambda>quad.
       let new_accumulator = acc_value + acc_value;
           new_accumulator = new_accumulator + new_accumulator;
           new_accumulator = new_accumulator + quad;
           (new_accumulator_idx, B) = add_variable new_accumulator B
       in ebind (create_add_gate (Add_triple accumulator_idx quad_idx new_accumulator_idx 4 1 (- 1) 0) B) (\<lambda>B.
          accumulate_quads i num_quads num_bits target (accumulators @ [new_accumulator_idx]) new_accumulator
            new_accumulator_idx B)))"

definition decompose_into_base4_accumulators ::
  "nat \<Rightarrow> nat \<Rightarrow> string \<Rightarrow> StandardCircuitBuilder \<Rightarrow> builder_error + nat list \<times> StandardCircuitBuilder" where
  "decompose_into_base4_accumulators witness_index num_bits msg B =
     (if \<not> num_bits > 0 then Inl Assert_failed
      else ebind (get_variable witness_index B) (\<lambda>target.
      let num_quads = num_bits div 2;
          num_quads = (if 2 * num_quads = num_bits then num_quads else num_quads + 1)
      in ebind (accumulate_quads num_quads num_quads num_bits target [] 0 0 B) (\<lambda>(accumulators, accumulator_idx, B).
         ebind (assert_equal witness_index accumulator_idx msg B) (\<lambda>B. Inr (accumulators, B)))))"

definition create_range_constraint ::
  "nat \<Rightarrow> nat \<Rightarrow> string \<Rightarrow> StandardCircuitBuilder \<Rightarrow> builder_error + StandardCircuitBuilder" where
  "create_range_constraint variable_index num_bits msg B =
     ebind (decompose_into_base4_accumulators variable_index num_bits msg B) (\<lambda>(accumulators, B). Inr B)"

section \<open>Logic\<close>

record accumulator_triple =
  acc_left :: "nat list"
  acc_right :: "nat list"
  acc_out :: "nat list"

definition add_bit :: "bool \<Rightarrow> StandardCircuitBuilder \<Rightarrow> nat \<times> StandardCircuitBuilder" where
  "add_bit b B = add_variable (if b then 1 else 0) B"

definition connect_bits ::
  "nat \<Rightarrow> nat \<Rightarrow> StandardCircuitBuilder \<Rightarrow> builder_error + ff \<times> nat \<times> StandardCircuitBuilder" where
  "connect_bits hi_idx lo_idx B =
     ebind (get_variable lo_idx B) (\<lambda>lo. ebind (get_variable hi_idx B) (\<lambda>hi.
     let quad = lo + hi + hi;
         (quad_idx, B) = add_variable quad B
     in ebind (create_add_gate (Add_triple hi_idx lo_idx quad_idx 2 1 (- 1) 0) B) (\<lambda>B. Inr (quad, quad_idx, B))))"

definition accumulate_quad ::
  "ff \<Rightarrow> nat \<Rightarrow> ff \<Rightarrow> nat \<Rightarrow> StandardCircuitBuilder \<Rightarrow> builder_error + ff \<times> nat \<times> StandardCircuitBuilder" where
  "accumulate_quad acc_value acc_idx quad quad_idx B =
     (let new_accumulator = acc_value + acc_value;
          new_accumulator = new_accumulator + new_accumulator;
          new_accumulator = new_accumulator + quad;
          (new_idx, B) = add_variable new_accumulator B
      in ebind (create_add_gate (Add_triple acc_idx quad_idx new_idx 4 1 (- 1) 0) B) (\<lambda>B.
         Inr (new_accumulator, new_idx, B)))"

text \<open>The gate of one bit: a and b is a * b, a xor b is a + b - 2 * a * b.\<close>

definition create_logic_gate ::
  "bool \<Rightarrow> nat \<Rightarrow> nat \<Rightarrow> nat \<Rightarrow> StandardCircuitBuilder \<Rightarrow> builder_error + StandardCircuitBuilder" where
  "create_logic_gate is_xor_gate left_idx right_idx out_idx B =
     create_poly_gate (Poly_triple left_idx right_idx out_idx (if is_xor_gate then - 2 else 1)
       (if is_xor_gate then 1 else 0) (if is_xor_gate then 1 else 0) (- 1) 0) B"

text \<open>The variables and gates of the six bits of a quad, the one with the bits i and i - 1.\<close>

definition create_logic_quad ::
  "bool \<Rightarrow> ff \<Rightarrow> ff \<Rightarrow> nat \<Rightarrow> StandardCircuitBuilder \<Rightarrow>
     builder_error + (nat \<times> nat) \<times> (nat \<times> nat) \<times> (nat \<times> nat) \<times> StandardCircuitBuilder" where
  "create_logic_quad is_xor_gate left_value right_value i B =
     ebind (get_bit left_value i) (\<lambda>left_hi_val. ebind (get_bit left_value (i - 1)) (\<lambda>left_lo_val.
     ebind (get_bit right_value i) (\<lambda>right_hi_val. ebind (get_bit right_value (i - 1)) (\<lambda>right_lo_val.
      let (left_hi_idx, B) = add_bit left_hi_val B;
          (left_lo_idx, B) = add_bit left_lo_val B;
          (right_hi_idx, B) = add_bit right_hi_val B;
          (right_lo_idx, B) = add_bit right_lo_val B;
          out_hi_val = (if is_xor_gate then left_hi_val \<noteq> right_hi_val else left_hi_val \<and> right_hi_val);
          out_lo_val = (if is_xor_gate then left_lo_val \<noteq> right_lo_val else left_lo_val \<and> right_lo_val);
          (out_hi_idx, B) = add_bit out_hi_val B;
          (out_lo_idx, B) = add_bit out_lo_val B
      in ebind (create_bool_gate left_hi_idx B) (\<lambda>B.
         ebind (create_bool_gate right_hi_idx B) (\<lambda>B.
         ebind (create_bool_gate out_hi_idx B) (\<lambda>B.
         ebind (create_bool_gate left_lo_idx B) (\<lambda>B.
         ebind (create_bool_gate right_lo_idx B) (\<lambda>B.
         ebind (create_bool_gate out_lo_idx B) (\<lambda>B.
         ebind (create_logic_gate is_xor_gate left_hi_idx right_hi_idx out_hi_idx B) (\<lambda>B.
         ebind (create_logic_gate is_xor_gate left_lo_idx right_lo_idx out_lo_idx B) (\<lambda>B.
         Inr ((left_hi_idx, left_lo_idx), (right_hi_idx, right_lo_idx), (out_hi_idx, out_lo_idx), B)))))))))))))"

text \<open>The loop: the value and the variable of the accumulators of both inputs and of the output.\<close>

fun accumulate_logic ::
  "nat \<Rightarrow> bool \<Rightarrow> ff \<Rightarrow> ff \<Rightarrow> accumulator_triple \<Rightarrow> ff \<times> nat \<Rightarrow> ff \<times> nat \<Rightarrow> ff \<times> nat \<Rightarrow>
     StandardCircuitBuilder \<Rightarrow> builder_error + accumulator_triple \<times> StandardCircuitBuilder" where
  "accumulate_logic 0 is_xor_gate left_value right_value accumulators left right out B = Inr (accumulators, B)"
| "accumulate_logic (Suc k) is_xor_gate left_value right_value accumulators left right out B =
     ebind (create_logic_quad is_xor_gate left_value right_value (2 * k + 1) B) (\<lambda>(left_bits, right_bits, out_bits, B).
     ebind (connect_bits (fst left_bits) (snd left_bits) B) (\<lambda>(left_quad, left_quad_idx, B).
     ebind (connect_bits (fst right_bits) (snd right_bits) B) (\<lambda>(right_quad, right_quad_idx, B).
     ebind (connect_bits (fst out_bits) (snd out_bits) B) (\<lambda>(out_quad, out_quad_idx, B).
     ebind (accumulate_quad (fst left) (snd left) left_quad left_quad_idx B) (\<lambda>(new_left, new_left_idx, B).
     ebind (accumulate_quad (fst right) (snd right) right_quad right_quad_idx B) (\<lambda>(new_right, new_right_idx, B).
     ebind (accumulate_quad (fst out) (snd out) out_quad out_quad_idx B) (\<lambda>(new_out, new_out_idx, B).
     accumulate_logic k is_xor_gate left_value right_value
       \<lparr>acc_left = acc_left accumulators @ [new_left_idx], acc_right = acc_right accumulators @ [new_right_idx],
        acc_out = acc_out accumulators @ [new_out_idx]\<rparr>
       (new_left, new_left_idx) (new_right, new_right_idx) (new_out, new_out_idx) B)))))))"

text \<open>x < (uint256_t(1) << num_bits): the shift gives zero from 256 bits on.\<close>

definition fits_bits :: "ff \<Rightarrow> nat \<Rightarrow> bool" where
  "fits_bits x num_bits \<longleftrightarrow> num_bits < 256 \<and> ff_int x < 2 ^ num_bits"

definition create_logic_constraint ::
  "nat \<Rightarrow> nat \<Rightarrow> nat \<Rightarrow> bool \<Rightarrow> StandardCircuitBuilder \<Rightarrow> builder_error + accumulator_triple \<times> StandardCircuitBuilder" where
  "create_logic_constraint a b num_bits is_xor_gate B =
     ebind (assert_valid_variables [a, b] B) (\<lambda>_.
     ebind (get_variable a B) (\<lambda>left_value. ebind (get_variable b B) (\<lambda>right_value.
     if \<not> fits_bits left_value num_bits \<or> \<not> fits_bits right_value num_bits \<or> num_bits mod 2 \<noteq> 0 then Inl Assert_failed
     else ebind (accumulate_logic (num_bits div 2) is_xor_gate left_value right_value
         \<lparr>acc_left = [], acc_right = [], acc_out = []\<rparr> (0, zero_idx B) (0, zero_idx B) (0, zero_idx B) B) (\<lambda>(accumulators, B).
       if acc_left accumulators = [] then Inl Undefined
       else ebind (assert_equal (last (acc_left accumulators)) a ''assert_equal'' B) (\<lambda>B.
         ebind (assert_equal (last (acc_right accumulators)) b ''assert_equal'' B) (\<lambda>B.
         Inr (accumulators, B))))))) "

definition create_and_constraint ::
  "nat \<Rightarrow> nat \<Rightarrow> nat \<Rightarrow> StandardCircuitBuilder \<Rightarrow> builder_error + accumulator_triple \<times> StandardCircuitBuilder" where
  "create_and_constraint a b num_bits = create_logic_constraint a b num_bits False"

definition create_xor_constraint ::
  "nat \<Rightarrow> nat \<Rightarrow> nat \<Rightarrow> StandardCircuitBuilder \<Rightarrow> builder_error + accumulator_triple \<times> StandardCircuitBuilder" where
  "create_xor_constraint a b num_bits = create_logic_constraint a b num_bits True"

section \<open>The check\<close>

fun check_gates :: "nat list \<Rightarrow> StandardCircuitBuilder \<Rightarrow> builder_error + bool" where
  "check_gates [] B = Inr True"
| "check_gates (i # is) B =
     ebind (get_variable (w_l B ! i) B) (\<lambda>left.
     ebind (get_variable (w_r B ! i) B) (\<lambda>right.
     ebind (get_variable (w_o B ! i) B) (\<lambda>out.
     let gate_sum = q_m B ! i * left * right + q_1 B ! i * left + q_2 B ! i * right + q_3 B ! i * out + q_c B ! i
     in if gate_sum \<noteq> 0 then Inr False else check_gates is B)))"

definition check_standard :: "StandardCircuitBuilder \<Rightarrow> builder_error + bool" where
  "check_standard B = check_gates [0..<num_gates B] B"

section \<open>Circuits as constraints\<close>

text \<open>An assignment satisfies a gate, and a circuit.\<close>

definition gate_sum :: "StandardCircuitBuilder \<Rightarrow> (nat \<Rightarrow> ff) \<Rightarrow> nat \<Rightarrow> ff" where
  "gate_sum B v i = q_m B ! i * v (w_l B ! i) * v (w_r B ! i) + q_1 B ! i * v (w_l B ! i) + q_2 B ! i * v (w_r B ! i) +
     q_3 B ! i * v (w_o B ! i) + q_c B ! i"

definition solution :: "StandardCircuitBuilder \<Rightarrow> (nat \<Rightarrow> ff) \<Rightarrow> bool" where
  "solution B v \<longleftrightarrow> (\<forall>i<num_gates B. gate_sum B v i = 0) \<and> copies B v"

definition gates_ok :: "StandardCircuitBuilder \<Rightarrow> bool" where
  "gates_ok B \<longleftrightarrow> length (w_l B) = num_gates B \<and> length (w_r B) = num_gates B \<and> length (w_o B) = num_gates B \<and>
     length (q_m B) = num_gates B \<and> length (q_1 B) = num_gates B \<and> length (q_2 B) = num_gates B \<and>
     length (q_3 B) = num_gates B \<and> length (q_c B) = num_gates B \<and>
     set (w_l B) \<union> set (w_r B) \<union> set (w_o B) \<subseteq> {..<length (variables B)}"

text \<open>The constants of the builder, and the variables for zero and one.\<close>

definition constants_ok :: "StandardCircuitBuilder \<Rightarrow> bool" where
  "constants_ok B \<longleftrightarrow> (\<forall>x i. constant_variable_indices B x = Some i \<longrightarrow>
     i < length (variables B) \<and> (\<forall>v. solution B v \<longrightarrow> v i = x))"

definition standard_ok :: "StandardCircuitBuilder \<Rightarrow> bool" where
  "standard_ok B \<longleftrightarrow> base_ok B \<and> gates_ok B \<and> constants_ok B \<and>
     zero_idx B < length (variables B) \<and> (\<forall>v. solution B v \<longrightarrow> v (zero_idx B) = 0)"

lemma check_gates_eq:
  assumes "gates_ok B" and "set is \<subseteq> {..<num_gates B}"
  shows "check_gates is B = Inr (\<forall>i\<in>set is. gate_sum B (val B) i = 0)"
  using assms(2)
proof (induction "is")
  case (Cons i "is")
  then have i: "i < num_gates B"
    by simp
  then have "w_l B ! i < length (variables B)" "w_r B ! i < length (variables B)" "w_o B ! i < length (variables B)"
    using assms(1) unfolding gates_ok_def by (metis Un_subset_iff lessThan_iff nth_mem subsetD)+
  then show ?case
    using Cons by (auto simp: get_variable_eq gate_sum_def)
qed simp

lemma check_standard_eq: "gates_ok B \<Longrightarrow> check_standard B = Inr (solution B (val B))"
  using check_gates_eq [of B "[0..<num_gates B]"] by (simp add: check_standard_def solution_def copies_val atLeast0LessThan lessThan_def)

section \<open>The two steps that operations are made of\<close>

definition push_variable :: "ff \<Rightarrow> StandardCircuitBuilder \<Rightarrow> StandardCircuitBuilder" where
  "push_variable x B = snd (add_variable x B)"

lemma push_fields [simp]:
  "num_gates (push_variable x B) = num_gates B" "w_l (push_variable x B) = w_l B" "w_r (push_variable x B) = w_r B"
  "w_o (push_variable x B) = w_o B" "q_m (push_variable x B) = q_m B" "q_1 (push_variable x B) = q_1 B"
  "q_2 (push_variable x B) = q_2 B" "q_3 (push_variable x B) = q_3 B" "q_c (push_variable x B) = q_c B"
  "constant_variable_indices (push_variable x B) = constant_variable_indices B" "zero_idx (push_variable x B) = zero_idx B"
  "one_idx (push_variable x B) = one_idx B"
  "variables (push_variable x B) = variables B @ [x]" "builder_failed (push_variable x B) = builder_failed B"
  "public_inputs (push_variable x B) = public_inputs B"
  by (simp_all add: push_variable_def add_variable_def Let_def)

lemma emplace_fields [simp]:
  "variables (emplace_gate l r out m q1 q2 q3 qc B) = variables B"
  "real_variable_index (emplace_gate l r out m q1 q2 q3 qc B) = real_variable_index B"
  "zero_idx (emplace_gate l r out m q1 q2 q3 qc B) = zero_idx B"
  "one_idx (emplace_gate l r out m q1 q2 q3 qc B) = one_idx B"
  "builder_failed (emplace_gate l r out m q1 q2 q3 qc B) = builder_failed B"
  "constant_variable_indices (emplace_gate l r out m q1 q2 q3 qc B) = constant_variable_indices B"
  "public_inputs (emplace_gate l r out m q1 q2 q3 qc B) = public_inputs B"
  "val (emplace_gate l r out m q1 q2 q3 qc B) = val B"
  "copies (emplace_gate l r out m q1 q2 q3 qc B) v = copies B v"
  "base_ok (emplace_gate l r out m q1 q2 q3 qc B) = base_ok B"
  by (simp_all add: emplace_gate_def val_def copies_def same_class_def base_ok_def chains_def chain_def linked_def [abs_def] fun_eq_iff)

lemma standard_okD:
  assumes "standard_ok B"
  shows "base_ok B" "gates_ok B" "constants_ok B" "zero_idx B < length (variables B)" "solution B v \<Longrightarrow> v (zero_idx B) = 0"
  using assms by (simp_all add: standard_ok_def)

lemma gates_emplace:
  assumes "gates_ok B"
  shows "solution (emplace_gate l r out m q1 q2 q3 qc B) v \<longleftrightarrow>
      solution B v \<and> m * v l * v r + q1 * v l + q2 * v r + q3 * v out + qc = 0"
    and "l < length (variables B) \<Longrightarrow> r < length (variables B) \<Longrightarrow> out < length (variables B) \<Longrightarrow>
      gates_ok (emplace_gate l r out m q1 q2 q3 qc B)"
proof -
  let ?B = "emplace_gate l r out m q1 q2 q3 qc B"
  have "gate_sum ?B v i = gate_sum B v i" if "i < num_gates B" for i
    using assms that by (simp add: gate_sum_def gates_ok_def emplace_gate_def nth_append)
  moreover have "gate_sum ?B v (num_gates B) = m * v l * v r + q1 * v l + q2 * v r + q3 * v out + qc"
    using assms by (simp add: gate_sum_def gates_ok_def emplace_gate_def nth_append)
  moreover have "num_gates ?B = Suc (num_gates B)"
    by (simp add: emplace_gate_def)
  ultimately show "solution ?B v \<longleftrightarrow> solution B v \<and> m * v l * v r + q1 * v l + q2 * v r + q3 * v out + qc = 0"
    by (auto simp: solution_def less_Suc_eq)
  show "l < length (variables B) \<Longrightarrow> r < length (variables B) \<Longrightarrow> out < length (variables B) \<Longrightarrow> gates_ok ?B"
    using assms unfolding gates_ok_def emplace_fields by (simp add: emplace_gate_def)
qed

lemma emplace_solution [simp]:
  "standard_ok B \<Longrightarrow> solution (emplace_gate l r out m q1 q2 q3 qc B) v \<longleftrightarrow>
    solution B v \<and> m * v l * v r + q1 * v l + q2 * v r + q3 * v out + qc = 0"
  by (rule gates_emplace(1)) (rule standard_okD)

lemma emplace_ok [simp]:
  assumes "standard_ok B" and "l < length (variables B)" "r < length (variables B)" "out < length (variables B)"
  shows "standard_ok (emplace_gate l r out m q1 q2 q3 qc B)"
  using assms gates_emplace(2) [of B l r out m q1 q2 q3 qc]
  by (auto simp: standard_ok_def constants_ok_def gates_emplace(1))

lemma base_init_facts:
  assumes "base_ok B" and "length (variables B) < FIRST_VARIABLE_IN_CLASS"
  shows "add_variable x B = (length (variables B), push_variable x B)" and "base_ok (push_variable x B)"
    and "copies (push_variable x B) v \<longleftrightarrow> copies B v" and "val (push_variable x B) (length (variables B)) = x"
    and "j < length (variables B) \<Longrightarrow> val (push_variable x B) j = val B j"
proof -
  obtain B' where B': "add_variable x B = (length (variables B), B')"
    using add_variable_eq [OF assms(2), of x] by blast
  then have "B' = push_variable x B"
    by (simp add: push_variable_def)
  then show "add_variable x B = (length (variables B), push_variable x B)" "base_ok (push_variable x B)"
      "copies (push_variable x B) v \<longleftrightarrow> copies B v" "val (push_variable x B) (length (variables B)) = x"
      "j < length (variables B) \<Longrightarrow> val (push_variable x B) j = val B j"
    using B' add_variable_facts(2,4,5,6) [OF assms B'] by simp_all
qed

lemma push_solution':
  assumes "base_ok B" and "length (variables B) < FIRST_VARIABLE_IN_CLASS"
  shows "solution (push_variable x B) v \<longleftrightarrow> solution B v"
  using base_init_facts(3) [OF assms] by (simp add: solution_def gate_sum_def)

lemma push_gates_ok: "gates_ok B \<Longrightarrow> gates_ok (push_variable x B)"
  by (auto simp: gates_ok_def)

lemma push_variable_simps [simp]:
  assumes "standard_ok B" and "length (variables B) < FIRST_VARIABLE_IN_CLASS"
  shows "add_variable x B = (length (variables B), push_variable x B)" and "standard_ok (push_variable x B)"
    and "solution (push_variable x B) v \<longleftrightarrow> solution B v" and "j = length (variables B) \<Longrightarrow> val (push_variable x B) j = x"
    and "j < length (variables B) \<Longrightarrow> val (push_variable x B) j = val B j"
proof -
  note ok = standard_okD [OF assms(1)]
  note base = base_init_facts [OF ok(1) assms(2)]
  show "add_variable x B = (length (variables B), push_variable x B)" "j = length (variables B) \<Longrightarrow> val (push_variable x B) j = x"
      "j < length (variables B) \<Longrightarrow> val (push_variable x B) j = val B j"
    using base by simp_all
  show "solution (push_variable x B) v \<longleftrightarrow> solution B v" for v
    by (rule push_solution' [OF ok(1) assms(2)])
  then show "standard_ok (push_variable x B)"
    using ok(2-4) base(2) push_gates_ok standard_okD(5) [OF assms(1)]
    by (auto simp: standard_ok_def constants_ok_def intro: less_SucI)
qed

lemma valid_variables [simp]:
  "assert_valid_variables is B = (if list_all (\<lambda>i. i < length (variables B)) is then Inr () else Inl Assert_failed)"
  by (simp add: assert_valid_variables_def is_valid_variable_def)

lemma get_variable_simp [simp]: "i < length (variables B) \<Longrightarrow> get_variable i B = Inr (val B i)"
  by (rule get_variable_eq)

end
