(* ===== verification/Standard_Gadgets.thy ===== *)
theory Standard_Gadgets
  imports Standard_Builder
begin

text \<open>
  What the operations of StandardCircuitBuilder enforce: a condition that every assignment to the
  variables of the larger circuit satisfies, and that the values the builder computes satisfy if
  the values of the inputs do.
\<close>

section \<open>Gadgets\<close>

definition room :: "nat \<Rightarrow> StandardCircuitBuilder \<Rightarrow> bool" where
  "room k B \<longleftrightarrow> length (variables B) + k \<le> FIRST_VARIABLE_IN_CLASS"

definition gadget ::
  "nat \<Rightarrow> StandardCircuitBuilder \<Rightarrow> StandardCircuitBuilder \<Rightarrow> ((nat \<Rightarrow> ff) \<Rightarrow> bool) \<Rightarrow> bool" where
  "gadget k B B' E \<longleftrightarrow> standard_ok B' \<and> length (variables B') = length (variables B) + k \<and> zero_idx B' = zero_idx B \<and>
     public_inputs B' = public_inputs B \<and> (\<forall>i<length (variables B). val B' i = val B i) \<and>
     (\<forall>v. solution B' v \<longrightarrow> solution B v \<and> E v) \<and>
     (solution B (val B) \<and> E (val B) \<longrightarrow> solution B' (val B'))"

lemma solution_local:
  assumes "standard_ok B" and "\<And>i. i < length (variables B) \<Longrightarrow> v i = w i"
  shows "solution B v \<longleftrightarrow> solution B w"
proof -
  have "v (w_l B ! i) = w (w_l B ! i) \<and> v (w_r B ! i) = w (w_r B ! i) \<and> v (w_o B ! i) = w (w_o B ! i)" if "i < num_gates B" for i
  proof -
    have "w_l B ! i < length (variables B)" "w_r B ! i < length (variables B)" "w_o B ! i < length (variables B)"
      using standard_okD(2) [OF assms(1)] that unfolding gates_ok_def by (metis Un_subset_iff lessThan_iff nth_mem subsetD)+
    then show ?thesis
      using assms(2) by simp
  qed
  moreover have "copies B v \<longleftrightarrow> copies B w"
    using assms(2) by (auto simp: copies_def same_class_def)
  ultimately show ?thesis
    by (simp add: solution_def gate_sum_def)
qed

text \<open>The values of the old variables satisfy the old circuit also as values of the new one.\<close>

lemma solution_push_val [simp]:
  assumes "standard_ok B" and "length (variables B) < FIRST_VARIABLE_IN_CLASS"
  shows "solution B (val (push_variable x B)) \<longleftrightarrow> solution B (val B)"
  using assms by (intro solution_local) simp_all

text \<open>A gate with q_3 = -1 gives the value of its output.\<close>

lemma output_eq: "x - y = 0 \<longleftrightarrow> y = x" for x y :: ff
  by auto

lemmas gadget_simps = gadget_def Let_def output_eq

lemma add_gate_gadget:
  assumes "standard_ok B" and "a < length (variables B)" "b < length (variables B)" "c < length (variables B)"
  shows "\<exists>B'. create_add_gate (Add_triple a b c sa sb sc k) B = Inr B' \<and> gadget 0 B B' (\<lambda>v. sa * v a + sb * v b + sc * v c + k = 0)"
  using assms by (simp add: gadget_def)

lemma big_add_gadget:
  assumes "standard_ok B" and "room 1 B" and "a < length (variables B)" "b < length (variables B)" "c < length (variables B)" "d < length (variables B)"
  shows "\<exists>B'. create_big_add_gate (Add_quad a b c d sa sb sc sd k) B = Inr B' \<and>
    gadget 1 B B' (\<lambda>v. sa * v a + sb * v b + sc * v c + sd * v d + k = 0)"
proof -
  have r: "length (variables B) < FIRST_VARIABLE_IN_CLASS"
    using assms(2) by (simp add: room_def)
  show ?thesis
    using assms r by (auto simp: gadget_simps simp del: right_minus_eq) (simp_all add: algebra_simps)
qed

lemma mul_gate_gadget:
  assumes "standard_ok B" and "a < length (variables B)" "b < length (variables B)" "c < length (variables B)"
  shows "\<exists>B'. create_mul_gate (Mul_triple a b c m sc k) B = Inr B' \<and> gadget 0 B B' (\<lambda>v. m * v a * v b + sc * v c + k = 0)"
  using assms by (simp add: gadget_def)

lemma bool_gate_gadget:
  assumes "standard_ok B" and "a < length (variables B)"
  shows "\<exists>B'. create_bool_gate a B = Inr B' \<and> gadget 0 B B' (\<lambda>v. v a = 0 \<or> v a = 1)"
  using assms by (auto simp: create_bool_gate_def gadget_def)

lemma poly_gate_gadget:
  assumes "standard_ok B" and "a < length (variables B)" "b < length (variables B)" "c < length (variables B)"
  shows "\<exists>B'. create_poly_gate (Poly_triple a b c m l r out k) B = Inr B' \<and>
    gadget 0 B B' (\<lambda>v. m * v a * v b + l * v a + r * v b + out * v c + k = 0)"
  using assms by (simp add: gadget_def)

lemma big_mul_gadget:
  assumes "standard_ok B" and "room 1 B" and "a < length (variables B)" "b < length (variables B)" "c < length (variables B)" "d < length (variables B)"
  shows "\<exists>B'. create_big_mul_gate (Mul_quad a b c d m sa sb sc sd k) B = Inr B' \<and>
    gadget 1 B B' (\<lambda>v. m * v a * v b + sa * v a + sb * v b + sc * v c + sd * v d + k = 0)"
proof -
  have r: "length (variables B) < FIRST_VARIABLE_IN_CLASS"
    using assms(2) by (simp add: room_def)
  show ?thesis
    using assms r by (auto simp: gadget_simps simp del: right_minus_eq) (simp_all add: algebra_simps)
qed

text \<open>The two gates of a balanced addition let d be 0, 1 or 2 only.\<close>

lemma three_roots: "(x ^ 2 - x) * x - 2 * (x ^ 2 - x) = 0 \<longleftrightarrow> x = 0 \<or> x = 1 \<or> x = 2" for x :: ff
proof -
  have "(x ^ 2 - x) * x - 2 * (x ^ 2 - x) = x * (x - 1) * (x - 2)"
    by (simp add: algebra_simps power2_eq_square)
  then show ?thesis
    by simp
qed

lemma balanced_add_gadget:
  assumes ok: "standard_ok B" and room: "room 2 B"
    and idx: "a < length (variables B)" "b < length (variables B)" "c < length (variables B)" "d < length (variables B)"
  shows "\<exists>B'. create_balanced_add_gate (Add_quad a b c d sa sb sc sd k) B = Inr B' \<and>
    gadget 2 B B' (\<lambda>v. sa * v a + sb * v b + sc * v c + sd * v d + k = 0 \<and> (v d = 0 \<or> v d = 1 \<or> v d = 2))"
proof -
  define n where "n = length (variables B)"
  have r: "n < FIRST_VARIABLE_IN_CLASS" "Suc n < FIRST_VARIABLE_IN_CLASS"
    using room by (simp_all add: room_def n_def)
  have zero: "zero_idx B < Suc n" "zero_idx B < Suc (Suc n)"
    using standard_okD(4) [OF ok] by (simp_all add: n_def)
  show ?thesis
    using ok idx r zero
    by (auto simp: gadget_simps n_def [symmetric] simp del: right_minus_eq) (simp_all add: algebra_simps)
qed

text \<open>Bit extraction: six times the high bit of c - 4 * d, if that is a number of two bits.\<close>

definition extracted :: "ff \<Rightarrow> ff" where
  "extracted delta = (delta * 9 - (delta ^ 2 * 2 + 7)) * delta"

lemma extracted_bit: "extracted 0 = 0" "extracted 1 = 0" "extracted 2 = 6" "extracted 3 = 6"
  by (simp_all add: extracted_def)

lemma bit_extraction_gadget:
  assumes ok: "standard_ok B" and room: "room 5 B"
    and idx: "a < length (variables B)" "b < length (variables B)" "c < length (variables B)" "d < length (variables B)"
  shows "\<exists>B'. create_big_add_gate_with_bit_extraction (Add_quad a b c d sa sb sc sd k) B = Inr B' \<and>
    gadget 5 B B' (\<lambda>v. sa * v a + sb * v b + sc * v c + sd * v d + extracted (v c - 4 * v d) + k = 0)"
proof -
  define n where "n = length (variables B)"
  have r: "Suc (Suc (Suc (Suc n))) < FIRST_VARIABLE_IN_CLASS"
    using room by (simp add: room_def n_def)
  have r_0: "w = u - 7" if "u - w = 7" for u w :: ff
    using that by (simp add: algebra_simps)
  show ?thesis
    using ok idx r
    by (auto simp: gadget_simps n_def [symmetric] extracted_def simp del: right_minus_eq dest!: r_0)
      (simp_all add: algebra_simps power2_eq_square)
qed

lemma fix_witness_gadget:
  assumes "standard_ok B" and "a < length (variables B)"
  shows "\<exists>B'. fix_witness a x B = Inr B' \<and> gadget 0 B B' (\<lambda>v. v a = x)"
  using assms standard_okD(4) [OF assms(1)] by (simp add: fix_witness_def gadget_def)

section \<open>Fresh variables\<close>

definition fresh :: "StandardCircuitBuilder \<Rightarrow> nat \<Rightarrow> bool" where
  "fresh B i \<longleftrightarrow> i < length (variables B) \<and> (\<forall>j. same_class B i j \<longrightarrow> j = i) \<and> tag_of B i = DUMMY_TAG"

lemma fresh_emplace [simp]: "fresh (emplace_gate l r out m q1 q2 q3 qc B) i = fresh B i"
  by (simp add: fresh_def same_class_def tag_of_def emplace_gate_def)

lemma fresh_push:
  assumes ok: "standard_ok B" and room: "length (variables B) < FIRST_VARIABLE_IN_CLASS"
  shows "fresh (push_variable x B) (length (variables B))" and "fresh B i \<Longrightarrow> fresh (push_variable x B) i"
proof -
  note base = standard_okD(1) [OF ok]
  note len = base_okD [OF base]
  have real: "real_variable_index (push_variable x B) = real_variable_index B @ [length (variables B)]"
    "real_variable_tags (push_variable x B) = real_variable_tags B @ [DUMMY_TAG]"
    using add_variable_eq [OF room, of x] by (simp_all add: push_variable_def)
  have valid: "real_variable_index B ! j < length (variables B)" "length (variables B) \<noteq> real_variable_index B ! j"
    if "j < length (variables B)" for j
    using real_index_valid(1) [OF base that] by (simp_all add: less_imp_neq [symmetric])
  show "fresh (push_variable x B) (length (variables B))"
    using valid len by (auto simp: fresh_def same_class_def tag_of_def real nth_append less_Suc_eq)
  show "fresh (push_variable x B) i" if "fresh B i"
    using that valid len by (auto simp: fresh_def same_class_def tag_of_def real nth_append less_Suc_eq dest: sym)
qed

lemma fresh_push_simps [simp]:
  "standard_ok B \<Longrightarrow> length (variables B) < FIRST_VARIABLE_IN_CLASS \<Longrightarrow> i = length (variables B) \<Longrightarrow> fresh (push_variable x B) i"
  "standard_ok B \<Longrightarrow> length (variables B) < FIRST_VARIABLE_IN_CLASS \<Longrightarrow> fresh B i \<Longrightarrow> fresh (push_variable x B) i"
  using fresh_push by simp_all

text \<open>A step that adds variables and gates, and leaves the old variables alone.\<close>

definition extends :: "nat \<Rightarrow> StandardCircuitBuilder \<Rightarrow> StandardCircuitBuilder \<Rightarrow> bool" where
  "extends k B B' \<longleftrightarrow> gadget k B B' (\<lambda>v. True) \<and> builder_failed B' = builder_failed B \<and> (\<forall>i. fresh B i \<longrightarrow> fresh B' i)"

lemma extends_trans:
  assumes "extends k B B'" and "extends l B' B''"
  shows "extends (k + l) B B''"
  using assms by (auto simp: extends_def gadget_def)

lemma extends_refl: "standard_ok B \<Longrightarrow> extends 0 B B"
  by (simp add: extends_def gadget_def)

lemma extendsD:
  assumes "extends k B B'"
  shows "standard_ok B'" "length (variables B') = length (variables B) + k" "zero_idx B' = zero_idx B"
    "i < length (variables B) \<Longrightarrow> val B' i = val B i" "solution B' v \<Longrightarrow> solution B v"
    "solution B (val B) \<Longrightarrow> solution B' (val B')" "builder_failed B' = builder_failed B" "fresh B i \<Longrightarrow> fresh B' i"
    "public_inputs B' = public_inputs B"
  using assms by (simp_all add: extends_def gadget_def)

section \<open>Ranges\<close>

definition bit_of :: "ff \<Rightarrow> nat \<Rightarrow> bool" where
  "bit_of x i \<longleftrightarrow> odd (ff_int x div 2 ^ i)"

lemma get_bit_small:
  assumes "i < 256"
  shows "get_bit x i = Inr (bit_of x i)"
proof -
  have "unat (of_nat i :: u64) = i" "(of_nat i :: u64) < 256"
    using assms by (simp_all add: unsigned_of_nat take_bit_eq_mod word_less_nat_alt)
  then show ?thesis
    using u256_get_bit_eq [of "of_nat i" "ff_to_u256 x"] by (simp add: get_bit_def bit_of_def)
qed

lemma get_bit_large:
  assumes "256 \<le> i" "i < 2 ^ 64"
  shows "get_bit x i = Inl Assert_failed"
proof -
  have "\<not> (of_nat i :: u64) < 256"
    using assms by (simp add: unsigned_of_nat take_bit_eq_mod word_less_nat_alt)
  then show ?thesis
    by (simp add: get_bit_def u256_get_bit_def)
qed

text \<open>The number that two bits make.\<close>

lemma bit_number: "x = 0 \<or> x = 1 \<Longrightarrow> \<exists>z. 0 \<le> z \<and> z < (2 :: int) \<and> x = of_int z" for x :: ff
  by (auto intro: exI [of _ 0] exI [of _ 1])

lemma quad_number:
  "x = 0 \<or> x = 1 \<Longrightarrow> y = 0 \<or> y = 1 \<Longrightarrow> \<exists>z. 0 \<le> z \<and> z < (4 :: int) \<and> x + 2 * y = of_int z" for x y :: ff
  by (auto intro: exI [of _ 0] exI [of _ 1] exI [of _ 2] exI [of _ 3])

lemma create_quad_extends:
  assumes ok: "standard_ok B" and room: "room 3 B" and i: "2 * i < 256"
  shows "\<exists>q B' k. create_quad e x i B = Inr (q, B') \<and> k \<le> 3 \<and> extends k B B' \<and> fresh B' q \<and> length (variables B) \<le> q \<and>
    val B' q = of_bool (bit_of x (2 * i)) + (if e then 0 else 2 * of_bool (bit_of x (2 * i + 1))) \<and>
    (\<forall>v. solution B' v \<longrightarrow> (\<exists>z. 0 \<le> z \<and> z < (if e then 2 else 4) \<and> v q = of_int z))"
proof -
  define n where "n = length (variables B)"
  have r: "n < FIRST_VARIABLE_IN_CLASS" "Suc n < FIRST_VARIABLE_IN_CLASS" "Suc (Suc n) < FIRST_VARIABLE_IN_CLASS"
    using room by (simp_all add: room_def n_def)
  have get: "get_bit x (2 * i) = Inr (bit_of x (2 * i))" "get_bit x (Suc (2 * i)) = Inr (bit_of x (2 * i + 1))"
    using i get_bit_small [of "2 * i" x] get_bit_small [of "Suc (2 * i)" x] by auto
  note defs = create_quad_def get create_bool_gate_def n_def [symmetric] extends_def gadget_def
  show ?thesis
  proof (cases e)
    case True
    then show ?thesis
      using ok r bit_number
      by (intro exI [of _ n] exI [of _ "emplace_gate n n n 1 0 0 (- 1) 0 (push_variable (of_bool (bit_of x (2 * i))) B)"] exI [of _ 1])
        (simp add: defs of_bool_def)
  next
    case False
    define B1 where "B1 = emplace_gate n n n 1 0 0 (- 1) 0 (push_variable (of_bool (bit_of x (2 * i))) B)"
    define B2 where "B2 = emplace_gate (Suc n) (Suc n) (Suc n) 1 0 0 (- 1) 0 (push_variable (of_bool (bit_of x (2 * i + 1))) B1)"
    define B3 where "B3 = emplace_gate n (Suc n) (Suc (Suc n)) 0 1 2 (- 1) 0
      (push_variable (of_bool (bit_of x (2 * i)) + 2 * of_bool (bit_of x (2 * i + 1))) B2)"
    have B1: "standard_ok B1" "length (variables B1) = Suc n"
      using ok r by (simp_all add: B1_def n_def [symmetric])
    then have B2: "standard_ok B2" "length (variables B2) = Suc (Suc n)"
      using r by (simp_all add: B2_def)
    have "create_quad e x i B = Inr (Suc (Suc n), B3)"
      using ok r False B1 B2
      by (simp add: defs of_bool_def B1_def [symmetric]) (simp add: B1_def B2_def B3_def)
    moreover have "extends 3 B B3 \<and> fresh B3 (Suc (Suc n))"
      using ok r B1 B2 by (simp add: B3_def) (simp add: extends_def gadget_def B2_def B1_def n_def [symmetric] output_eq del: right_minus_eq)
    moreover have "val B3 (Suc (Suc n)) = of_bool (bit_of x (2 * i)) + 2 * of_bool (bit_of x (2 * i + 1))"
      using r B2 by (simp add: B3_def)
    moreover have "\<exists>z. 0 \<le> z \<and> z < 4 \<and> v (Suc (Suc n)) = of_int z" if "solution B3 v" for v
    proof -
      have "v (Suc (Suc n)) = v n + 2 * v (Suc n)" "v n = 0 \<or> v n = 1" "v (Suc n) = 0 \<or> v (Suc n) = 1"
        using that ok r B1 B2 by (simp_all add: B3_def output_eq del: right_minus_eq) (auto simp: B2_def B1_def n_def [symmetric])
      then show ?thesis
        using quad_number [of "v n" "v (Suc n)"] by simp
    qed
    ultimately show ?thesis
      using False by (intro exI [of _ "Suc (Suc n)"] exI [of _ B3] exI [of _ 3]) (simp add: n_def)
  qed
qed

text \<open>The quads of a number, from the top.\<close>

lemma odd_div_mod: "j < nb \<Longrightarrow> odd ((t mod 2 ^ nb) div 2 ^ j) \<longleftrightarrow> odd (t div 2 ^ j)" for t :: int
  using bit_take_bit_iff [of nb t j] by (simp add: bit_iff_odd take_bit_eq_mod)

lemma quad_step:
  "u div 4 ^ i = 4 * (u div 4 ^ Suc i) + of_bool (odd (u div 2 ^ (2 * i))) + 2 * of_bool (odd (u div 2 ^ (2 * i + 1)))"
  for u :: int
proof -
  define w where "w = u div 4 ^ i"
  have "(4 :: int) ^ i = 2 ^ (2 * i)"
    by (simp add: power_mult)
  then have w: "u div 2 ^ (2 * i) = w" "u div 2 ^ (2 * i + 1) = w div 2" "u div 4 ^ Suc i = w div 4"
    by (simp_all add: w_def mult.commute [of _ "2 ^ (2 * i)"] mult.commute [of 4] div_mult2_eq zdiv_zmult2_eq)
  have "w = 4 * (w div 4) + of_bool (odd w) + 2 * of_bool (odd (w div 2))"
    by (cases "even w"; cases "even (w div 2)"; simp; presburger)
  then show ?thesis
    unfolding w w_def [symmetric] .
qed

lemma top_quad: "0 \<le> u \<Longrightarrow> u < 2 ^ nb \<Longrightarrow> nb \<le> 2 * i \<Longrightarrow> u div 4 ^ i = 0" for u :: int
proof -
  assume u: "0 \<le> u" "u < 2 ^ nb" "nb \<le> 2 * i"
  have "(2 :: int) ^ nb \<le> 2 ^ (2 * i)"
    using u(3) by (intro power_increasing) simp_all
  then show ?thesis
    using u by (simp add: power_mult div_pos_pos_trivial)
qed

definition acc_inv :: "nat \<Rightarrow> ff \<Rightarrow> nat \<Rightarrow> StandardCircuitBuilder \<Rightarrow> ff \<Rightarrow> nat \<Rightarrow> bool" where
  "acc_inv nb x i B acc idx \<longleftrightarrow> fresh B idx \<and> acc = val B idx \<and> val B idx = of_int ((ff_int x mod 2 ^ nb) div 4 ^ i) \<and>
     (\<forall>v. solution B v \<longrightarrow> (\<exists>z. 0 \<le> z \<and> z < 2 ^ (nb - 2 * i) \<and> v idx = of_int z))"

lemma freshD: "fresh B i \<Longrightarrow> i < length (variables B)"
  by (simp add: fresh_def)

lemma accumulate_quads_extends:
  assumes nq: "nq = (nb + 1) div 2" and nb: "0 < nb" "nb \<le> 256"
  shows "standard_ok B \<Longrightarrow> room (4 * i) B \<Longrightarrow> i \<le> nq \<Longrightarrow> m \<le> length (variables B) \<Longrightarrow>
    i < nq \<Longrightarrow> acc_inv nb x i B acc idx \<Longrightarrow> m \<le> idx \<Longrightarrow>
    \<exists>accs' idx' B' k. accumulate_quads i nq nb x accs acc idx B = Inr (accs', idx', B') \<and> k \<le> 4 * i \<and> extends k B B' \<and>
      acc_inv nb x 0 B' (val B' idx') idx' \<and> m \<le> idx'"
proof (induction i arbitrary: B accs acc idx)
  case 0
  then show ?case
    using extends_refl [of B] by (auto simp: acc_inv_def)
next
  case (Suc i)
  have "room 3 B"
    using Suc.prems(2) by (simp add: room_def)
  have top: "2 * i < 256"
    using Suc.prems(5) nq nb by simp
  note quad = create_quad_extends [OF Suc.prems(1) \<open>room 3 B\<close> top, of False x]
  then obtain q B1 k1 where q: "create_quad False x i B = Inr (q, B1)" "k1 \<le> 3" "extends k1 B B1" "fresh B1 q"
      "length (variables B) \<le> q" "val B1 q = of_bool (bit_of x (2 * i)) + 2 * of_bool (bit_of x (2 * i + 1))"
      "\<And>v. solution B1 v \<Longrightarrow> \<exists>z. 0 \<le> z \<and> z < 4 \<and> v q = of_int z"
    by auto
  note B1 = extendsD [OF q(3)]
  note acc = Suc.prems(6) [unfolded acc_inv_def]
  have idx: "idx < length (variables B)" "idx < length (variables B1)" "val B1 idx = acc"
    using acc B1(2,4) freshD [of B idx] by auto
  define new where "new = acc + acc + (acc + acc) + val B1 q"
  define n1 where "n1 = length (variables B1)"
  have r: "n1 < FIRST_VARIABLE_IN_CLASS"
    using Suc.prems(2) q(2) B1(2) by (simp add: room_def n1_def)
  define B2 where "B2 = emplace_gate idx q n1 0 4 1 (- 1) 0 (push_variable new B1)"
  have B2: "standard_ok B2" "length (variables B2) = Suc n1" "fresh B2 n1" "val B2 n1 = new"
    using B1(1) r idx freshD [OF q(4)] by (simp_all add: B2_def n1_def [symmetric])
  have "extends 1 B1 B2"
    using B1(1) r idx freshD [OF q(4)]
    by (simp add: extends_def gadget_def B2_def n1_def [symmetric] new_def algebra_simps)
  then have ext: "extends (Suc k1) B B2"
    using extends_trans [OF q(3)] by fastforce
  have bits: "2 * i + 1 < nb"
    using Suc.prems(5) nq nb by auto
  have "acc_inv nb x i B2 new n1"
    unfolding acc_inv_def
  proof (intro conjI allI impI)
    define u where "u = ff_int x mod 2 ^ nb"
    have "val B2 n1 = 4 * acc + val B1 q"
      using B2(4) by (simp add: new_def algebra_simps)
    also have "\<dots> = of_int (4 * (u div 4 ^ Suc i) + of_bool (odd (u div 2 ^ (2 * i))) + 2 * of_bool (odd (u div 2 ^ (2 * i + 1))))"
      using acc bits q(6) odd_div_mod [of "2 * i" nb "ff_int x"] odd_div_mod [OF bits(1), of "ff_int x"]
      by (simp add: u_def bit_of_def)
    also have "\<dots> = of_int (u div 4 ^ i)"
      unfolding quad_step [of u i] ..
    finally show "val B2 n1 = of_int ((ff_int x mod 2 ^ nb) div 4 ^ i)"
      by (simp add: u_def)
    fix v assume v: "solution B2 v"
    then have "solution B1 v" "v n1 = 4 * v idx + v q"
      using B1(1) r idx freshD [OF q(4)] by (simp_all add: B2_def output_eq n1_def [symmetric] del: right_minus_eq)
    then obtain z y where "0 \<le> z" "z < 2 ^ (nb - 2 * Suc i)" "v idx = of_int z" "0 \<le> y" "y < 4" "v q = of_int y"
      using acc B1(5) q(7) by blast
    moreover have "(2 :: int) ^ (nb - 2 * i) = 4 * 2 ^ (nb - 2 * Suc i)"
    proof -
      have "nb - 2 * i = 2 + (nb - 2 * Suc i)"
        using bits(1) by simp
      then show ?thesis
        by (simp only: power_add) simp
    qed
    ultimately show "\<exists>z. 0 \<le> z \<and> z < 2 ^ (nb - 2 * i) \<and> v n1 = of_int z"
      using \<open>v n1 = _\<close> by (intro exI [of _ "4 * z + y"]) simp
  qed (use B2 in simp_all)
  moreover have "room (4 * i) B2"
    using Suc.prems(2) q(2) B1(2) B2(2) by (simp add: room_def n1_def)
  ultimately obtain accs' idx' B' k where rest: "accumulate_quads i nq nb x (accs @ [n1]) new n1 B2 = Inr (accs', idx', B')"
      "k \<le> 4 * i" "extends k B2 B'" "acc_inv nb x 0 B' (val B' idx') idx'" "m \<le> idx'"
    using Suc.IH [OF B2(1)] Suc.prems(4,5) B2(2) B1(2) n1_def by fastforce
  have not_top: "i \<noteq> nq - Suc 0"
    using Suc.prems(5) by simp
  have "accumulate_quads (Suc i) nq nb x accs acc idx B = accumulate_quads i nq nb x (accs @ [n1]) new n1 B2"
    using not_top q(1) B1(1) r idx freshD [OF q(4)]
    by (simp add: Let_def n1_def [symmetric] new_def B2_def)
  then show ?case
    using rest extends_trans [OF ext rest(3)] q(2) by (intro exI [of _ accs'] exI [of _ idx'] exI [of _ B'] exI [of _ "Suc k1 + k"]) simp
qed

section \<open>Equal variables\<close>

text \<open>A merge changes only fields of the base.\<close>

definition same_gates :: "StandardCircuitBuilder \<Rightarrow> StandardCircuitBuilder \<Rightarrow> bool" where
  "same_gates B B' \<longleftrightarrow> num_gates B' = num_gates B \<and> w_l B' = w_l B \<and> w_r B' = w_r B \<and> w_o B' = w_o B \<and>
     q_m B' = q_m B \<and> q_1 B' = q_1 B \<and> q_2 B' = q_2 B \<and> q_3 B' = q_3 B \<and> q_c B' = q_c B \<and>
     constant_variable_indices B' = constant_variable_indices B \<and> zero_idx B' = zero_idx B \<and> one_idx B' = one_idx B"

lemma same_gates_intros:
  "same_gates B B" "same_gates B C \<Longrightarrow> same_gates B (failure msg C)"
  "same_gates B C \<Longrightarrow> same_gates B (C\<lparr>real_variable_index := r\<rparr>)"
  "same_gates B C \<Longrightarrow> same_gates B (C\<lparr>real_variable_tags := t\<rparr>)"
  "same_gates B C \<Longrightarrow> same_gates B (C\<lparr>next_var_index := n, prev_var_index := p\<rparr>)"
  by (simp_all add: same_gates_def failure_def)

lemma same_gates_tags: "same_gates B C \<Longrightarrow> same_gates B (merge_tags i j msg C)"
  unfolding merge_tags_def Let_def using same_gates_intros(2,4) by simp

lemma assert_equal_same_gates:
  assumes "assert_equal a b msg B = Inr B'"
  shows "same_gates B B'"
  using assms unfolding assert_equal_def Let_def update_real_variable_indices_def
  by (auto simp: ebind_Inr_iff split: option.splits if_splits intro!: same_gates_intros same_gates_tags)

lemma assert_equal_step:
  assumes ok: "standard_ok B" and a: "a < length (variables B)" and b: "b < length (variables B)"
  shows "\<exists>B'. assert_equal a b msg B = Inr B' \<and> standard_ok B' \<and> variables B' = variables B \<and> zero_idx B' = zero_idx B \<and>
    public_inputs B' = public_inputs B \<and> (\<forall>v. solution B' v \<longleftrightarrow> solution B v \<and> v a = v b) \<and>
    (\<forall>i<length (variables B). val B' i = (if same_class B i b then val B a else val B i)) \<and>
    (\<forall>i. fresh B i \<longrightarrow> i \<noteq> a \<longrightarrow> i \<noteq> b \<longrightarrow> fresh B' i) \<and>
    (builder_failed B' \<longleftrightarrow> builder_failed B \<or> val B a \<noteq> val B b \<or> \<not> same_class B a b \<and> tag_clash B a b)"
proof -
  note okD = standard_okD [OF ok]
  obtain B' where B': "assert_equal a b msg B = Inr B'" "base_ok B'" "variables B' = variables B" "public_inputs B' = public_inputs B"
      "\<And>i. i < length (variables B) \<Longrightarrow> \<not> same_class B i a \<Longrightarrow> \<not> same_class B i b \<Longrightarrow> tag_of B' i = tag_of B i"
      "builder_failed B' \<longleftrightarrow> builder_failed B \<or> val B a \<noteq> val B b \<or> \<not> same_class B a b \<and> tag_clash B a b"
    using assert_equal_facts [OF okD(1) a b, of msg] by blast
  note same = assert_equal_same_gates [OF B'(1), unfolded same_gates_def] and step = assert_equal_same_class [OF okD(1) a b B'(1)]
  have sol: "solution B' v \<longleftrightarrow> solution B v \<and> v a = v b" for v
    using step(3) by (simp add: solution_def gate_sum_def same)
  then have "standard_ok B'"
    using okD(2,3,4) B'(2) standard_okD(5) [OF ok] by (simp add: standard_ok_def gates_ok_def constants_ok_def same B'(3))
  moreover have "fresh B' i" if "fresh B i" "i \<noteq> a" "i \<noteq> b" for i
    using that B'(5) [of i] step(1) [of i] by (auto simp: fresh_def B'(3))
  ultimately show ?thesis
    using B' sol step(2) same by blast
qed

text \<open>With a fresh variable on the right the values of all others stay.\<close>

lemma assert_equal_fresh:
  assumes ok: "standard_ok B" and a: "a < length (variables B)" and b: "fresh B b"
  shows "\<exists>B'. assert_equal a b msg B = Inr B' \<and> standard_ok B' \<and> variables B' = variables B \<and> zero_idx B' = zero_idx B \<and>
    public_inputs B' = public_inputs B \<and> (\<forall>v. solution B' v \<longleftrightarrow> solution B v \<and> v a = v b) \<and>
    (\<forall>i<length (variables B). val B' i = (if i = b then val B a else val B i)) \<and>
    (\<forall>i. fresh B i \<longrightarrow> i \<noteq> a \<longrightarrow> i \<noteq> b \<longrightarrow> fresh B' i) \<and>
    (builder_failed B' \<longleftrightarrow> builder_failed B \<or> val B a \<noteq> val B b)"
proof -
  have "same_class B i b \<longleftrightarrow> i = b" for i
    using b by (auto simp: fresh_def same_class_def)
  moreover have "\<not> tag_clash B a b"
    using b by (simp add: fresh_def tag_clash_def)
  ultimately show ?thesis
    using assert_equal_step [OF ok a freshD [OF b], of msg] by auto
qed

section \<open>The range constraint\<close>

lemma decompose_gadget:
  assumes ok: "standard_ok B" and room: "room (2 * nb + 2) B" and w: "w < length (variables B)" and nb: "0 < nb" "nb \<le> 256"
  shows "\<exists>accs B' k. decompose_into_base4_accumulators w nb msg B = Inr (accs, B') \<and>
    gadget k B B' (\<lambda>v. ff_int (v w) < 2 ^ nb) \<and>
    (builder_failed B' \<longleftrightarrow> builder_failed B \<or> \<not> ff_int (val B w) < 2 ^ nb)"
proof -
  define nq where "nq = (nb + 1) div 2"
  define x where "x = val B w"
  define u where "u = ff_int x mod 2 ^ nb"
  obtain i where i: "nq = Suc i"
    using nb by (cases nq) (auto simp: nq_def)
  have top: "2 * i < 256"
    using nb i by (simp add: nq_def)
  have "room 3 B"
    using room nb by (simp add: room_def)
  define e where "e = (nb mod 2 = 1)"
  obtain q B1 k1 where q: "create_quad e x i B = Inr (q, B1)" "k1 \<le> 3" "extends k1 B B1" "fresh B1 q" "length (variables B) \<le> q"
      "val B1 q = of_bool (bit_of x (2 * i)) + (if e then 0 else 2 * of_bool (bit_of x (2 * i + 1)))"
      "\<And>v. solution B1 v \<Longrightarrow> \<exists>z. 0 \<le> z \<and> z < (if e then 2 else 4) \<and> v q = of_int z"
    using create_quad_extends [OF ok \<open>room 3 B\<close> top, of e x] by blast
  note B1 = extendsD [OF q(3)]
  have bits: "nb = 2 * i + (if e then 1 else 2)"
    using i nq_def by (auto simp: e_def) presburger+
  have u: "0 \<le> u" "u < 2 ^ nb"
    by (simp_all add: u_def)
  have "u div 4 ^ Suc i = 0"
    using u bits by (intro top_quad [of u nb]) auto
  moreover have "odd (u div 2 ^ (2 * i)) \<longleftrightarrow> bit_of x (2 * i)"
    using odd_div_mod [of "2 * i" nb "ff_int x"] bits by (auto simp: u_def bit_of_def split: if_splits)
  moreover have "odd (u div 2 ^ (2 * i + 1)) \<longleftrightarrow> \<not> e \<and> bit_of x (2 * i + 1)"
  proof (cases e)
    case True
    then show ?thesis
      using u bits by (simp add: div_pos_pos_trivial)
  next
    case False
    then show ?thesis
      using odd_div_mod [of "2 * i + 1" nb "ff_int x"] bits by (simp add: u_def bit_of_def)
  qed
  ultimately have "val B1 q = of_int (u div 4 ^ i)"
    using quad_step [of u i] q(6) by simp
  moreover have "(2 :: int) ^ (nb - 2 * i) = (if e then 2 else 4)"
    using bits by (simp add: power2_eq_square)
  ultimately have inv: "acc_inv nb x i B1 (val B1 q) q"
    using q(4,7) by (simp add: acc_inv_def u_def)
  have room1: "room (4 * i) B1"
    using room q(2) B1(2) bits by (auto simp: room_def split: if_splits)
  obtain accs idx B2 k2 where r: "accumulate_quads i nq nb x [q] (val B1 q) q B1 = Inr (accs, idx, B2)" "extends k2 B1 B2"
      "acc_inv nb x 0 B2 (val B2 idx) idx" "length (variables B) \<le> idx"
    using accumulate_quads_extends [OF nq_def nb B1(1) room1, of "length (variables B)" x "val B1 q" q "[q]"]
      inv i q(5) B1(2) by auto
  note B2 = extendsD [OF extends_trans [OF q(3) r(2)]]
  have idx: "fresh B2 idx" "val B2 idx = of_int u" "\<And>v. solution B2 v \<Longrightarrow> \<exists>z. 0 \<le> z \<and> z < 2 ^ nb \<and> v idx = of_int z"
    using r(3) by (auto simp: acc_inv_def u_def)
  have w2: "w < length (variables B2)"
    using w B2(2) by simp
  obtain B3 where B3: "assert_equal w idx msg B2 = Inr B3" "standard_ok B3" "variables B3 = variables B2" "zero_idx B3 = zero_idx B2"
      "public_inputs B3 = public_inputs B2" "\<And>v. solution B3 v \<longleftrightarrow> solution B2 v \<and> v w = v idx"
      "\<And>i. i < length (variables B2) \<Longrightarrow> val B3 i = (if i = idx then val B2 w else val B2 i)"
      "builder_failed B3 \<longleftrightarrow> builder_failed B2 \<or> val B2 w \<noteq> val B2 idx"
    using assert_equal_fresh [OF B2(1) w2 idx(1), of msg] by blast
  have "decompose_into_base4_accumulators w nb msg B = Inr (accs, B3)"
  proof -
    have num: "(if 2 * (nb div 2) = nb then nb div 2 else nb div 2 + 1) = Suc i"
      using bits by auto
    show ?thesis
      unfolding decompose_into_base4_accumulators_def Let_def num
      using nb w q(1) r(1) B3(1) freshD [OF q(4)] by (simp add: x_def [symmetric] e_def i)
  qed
  moreover have fits: "val B2 w = val B2 idx \<longleftrightarrow> ff_int x < 2 ^ nb"
  proof -
    have "u \<le> ff_int x"
      using ff_int_range [of x] by (simp add: u_def zmod_le_nonneg_dividend)
    then have "ff_int (of_int u) = u"
      using u(1) ff_int_range [of x] by simp
    then have "val B2 w = val B2 idx \<longleftrightarrow> ff_int x = u"
      using B2(4) [OF w] idx(2) by (simp add: ff_eq_iff x_def [symmetric])
    moreover have "ff_int x < 2 ^ nb \<Longrightarrow> u = ff_int x"
      using ff_int_range [of x] unfolding u_def by (intro mod_pos_pos_trivial) simp_all
    ultimately show ?thesis
      using u(2) by auto
  qed
  moreover have "gadget (k1 + k2) B B3 (\<lambda>v. ff_int (v w) < 2 ^ nb)"
    unfolding gadget_def
  proof (intro conjI allI impI)
    fix v assume v: "solution B3 v"
    then obtain z where z: "0 \<le> z" "z < 2 ^ nb" "v w = of_int z"
      using B3(6) [of v] idx(3) [of v] by auto
    have "z mod fr_order \<le> z"
      using z(1) by (rule zmod_le_nonneg_dividend)
    then show "ff_int (v w) < 2 ^ nb"
      using z(2,3) by simp
    show "solution B v"
      using v B3(6) B2(5) by blast
  next
    assume h: "solution B (val B) \<and> ff_int (val B w) < 2 ^ nb"
    then have eq: "val B2 w = val B2 idx" and sol: "solution B2 (val B2)"
      using fits B2(6) by (simp_all add: x_def)
    then have "val B3 i = val B2 i" if "i < length (variables B2)" for i
      using that B3(7) by simp
    then have "solution B3 (val B2) \<longleftrightarrow> solution B3 (val B3)"
      using B3(2,3) by (intro solution_local) simp_all
    then show "solution B3 (val B3)"
      using eq sol B3(6) by simp
  next
    show "val B3 i = val B i" if "i < length (variables B)" for i
      using that B3(7) [of i] B2(2,4) r(4) by simp
  qed (use B3 B2 in simp_all)
  ultimately show ?thesis
    using B3(5,8) B2(7,9) by (auto simp: x_def)
qed

text \<open>The top quad of more than 256 bits reads a bit that a uint256_t does not have.\<close>

lemma decompose_too_wide:
  assumes "w < length (variables B)" "256 < nb" "nb < 2 ^ 64"
  shows "decompose_into_base4_accumulators w nb msg B = Inl Assert_failed"
proof -
  define nq where "nq = (if 2 * (nb div 2) = nb then nb div 2 else nb div 2 + 1)"
  obtain i where i: "nq = Suc i"
    using assms(2) by (cases nq) (auto simp: nq_def split: if_splits)
  then have "256 \<le> 2 * i" "2 * i < 2 ^ 64"
    using assms(2,3) unfolding nq_def by presburger+
  then show ?thesis
    using assms(1,2) get_bit_large unfolding decompose_into_base4_accumulators_def Let_def nq_def [symmetric]
    by (simp add: i create_quad_def)
qed

end
