(* ===== verification/Standard_Logic.thy ===== *)
theory Standard_Logic
  imports Standard_Gadgets
begin

text \<open>
  create_logic_constraint of StandardCircuitBuilder: the accumulators of the inputs and of the
  output are built two bits at a time, so that the last ones are the inputs and the bitwise and,
  or exclusive or, of them.
\<close>

section \<open>Numbers bit by bit\<close>

unbundle bit_operations_syntax

definition logic_op :: "bool \<Rightarrow> int \<Rightarrow> int \<Rightarrow> int" where
  "logic_op is_xor a b = (if is_xor then a XOR b else a AND b)"

definition bit_op :: "bool \<Rightarrow> bool \<Rightarrow> bool \<Rightarrow> bool" where
  "bit_op is_xor a b = (if is_xor then a \<noteq> b else a \<and> b)"

lemma logic_op_0 [simp]: "logic_op is_xor 0 0 = 0"
  by (simp add: logic_op_def)

lemma logic_op_bit:
  "logic_op is_xor (2 * a + of_bool g) (2 * b + of_bool h) = 2 * logic_op is_xor a b + of_bool (bit_op is_xor g h)"
  unfolding logic_op_def bit_op_def
  by (subst and_int_rec, subst xor_int_rec) (auto simp: of_bool_def)

lemma logic_op_quad:
  "logic_op is_xor (4 * a + 2 * of_bool g1 + of_bool g0) (4 * b + 2 * of_bool h1 + of_bool h0) =
    4 * logic_op is_xor a b + 2 * of_bool (bit_op is_xor g1 h1) + of_bool (bit_op is_xor g0 h0)"
  using logic_op_bit [of is_xor "2 * a + of_bool g1" g0 "2 * b + of_bool h1" h0] logic_op_bit [of is_xor a g1 b h1]
  by (simp add: algebra_simps)

section \<open>The pieces of the loop\<close>

lemma connect_bits_extends:
  assumes ok: "standard_ok B" and room: "length (variables B) < FIRST_VARIABLE_IN_CLASS"
    and idx: "hi < length (variables B)" "lo < length (variables B)"
  shows "\<exists>B'. connect_bits hi lo B = Inr (2 * val B hi + val B lo, length (variables B), B') \<and> extends 1 B B' \<and>
    val B' (length (variables B)) = 2 * val B hi + val B lo \<and>
    (\<forall>v. solution B' v \<longrightarrow> v (length (variables B)) = 2 * v hi + v lo)"
proof -
  define n where "n = length (variables B)"
  define B' where "B' = emplace_gate hi lo n 0 2 1 (- 1) 0 (push_variable (2 * val B hi + val B lo) B)"
  have quad: "val B lo + val B hi + val B hi = 2 * val B hi + val B lo"
    by (simp add: mult_2 ac_simps)
  have "connect_bits hi lo B = Inr (2 * val B hi + val B lo, n, B')"
    using assms by (simp add: connect_bits_def Let_def quad n_def [symmetric] B'_def)
  moreover have "extends 1 B B' \<and> val B' n = 2 * val B hi + val B lo"
    using assms by (simp add: extends_def gadget_def B'_def n_def)
  moreover have "solution B' v \<longrightarrow> v n = 2 * v hi + v lo" for v
    using assms by (simp add: B'_def n_def output_eq del: right_minus_eq)
  ultimately show ?thesis
    by (auto simp: n_def)
qed

lemma accumulate_quad_extends:
  assumes ok: "standard_ok B" and room: "length (variables B) < FIRST_VARIABLE_IN_CLASS"
    and idx: "i < length (variables B)" "q < length (variables B)"
    and acc: "solution B (val B) \<Longrightarrow> val B i = acc" and quad: "quad = val B q"
  shows "\<exists>B'. accumulate_quad acc i quad q B = Inr (4 * acc + quad, length (variables B), B') \<and> extends 1 B B' \<and>
    fresh B' (length (variables B)) \<and> val B' (length (variables B)) = 4 * acc + quad \<and>
    (\<forall>v. solution B' v \<longrightarrow> v (length (variables B)) = 4 * v i + v q)"
proof -
  define n where "n = length (variables B)"
  define B' where "B' = emplace_gate i q n 0 4 1 (- 1) 0 (push_variable (4 * acc + quad) B)"
  have "accumulate_quad acc i quad q B = Inr (4 * acc + quad, n, B')"
    using assms by (simp add: accumulate_quad_def Let_def n_def [symmetric] B'_def)
  moreover have "extends 1 B B' \<and> fresh B' n \<and> val B' n = 4 * acc + quad"
    using assms by (simp add: extends_def gadget_def B'_def n_def output_eq del: right_minus_eq)
  moreover have "solution B' v \<longrightarrow> v n = 4 * v i + v q" for v
    using assms by (simp add: B'_def n_def output_eq del: right_minus_eq)
  ultimately show ?thesis
    by (auto simp: n_def)
qed

text \<open>The six bits of a quad.\<close>

definition is_bit :: "ff \<Rightarrow> bool" where
  "is_bit x \<longleftrightarrow> x = 0 \<or> x = 1"

lemma is_bit_eq: "is_bit x \<Longrightarrow> x = of_bool (x = 1)"
  by (auto simp: is_bit_def)

lemma is_bit_simps [simp]: "is_bit (of_bool b)" "is_bit 0" "is_bit 1"
  by (simp_all add: is_bit_def)

definition logic_gate :: "bool \<Rightarrow> ff \<Rightarrow> ff \<Rightarrow> ff \<Rightarrow> bool" where
  "logic_gate is_xor l r out \<longleftrightarrow> (if is_xor then - 2 else 1) * l * r + (if is_xor then 1 else 0) * l +
     (if is_xor then 1 else 0) * r + - 1 * out + 0 = 0"

lemma logic_gate_bits:
  assumes "is_bit l" "is_bit r"
  shows "logic_gate is_xor l r out \<longleftrightarrow> out = of_bool (bit_op is_xor (l = 1) (r = 1))"
  using assms by (auto simp: is_bit_def logic_gate_def bit_op_def)

lemma push_bit_extends:
  assumes "standard_ok B" "length (variables B) < FIRST_VARIABLE_IN_CLASS"
  shows "add_bit b B = (length (variables B), push_variable (of_bool b) B)" and "extends 1 B (push_variable (of_bool b) B)"
    and "fresh (push_variable (of_bool b) B) (length (variables B))" and "val (push_variable (of_bool b) B) (length (variables B)) = of_bool b"
  using assms by (simp_all add: add_bit_def extends_def gadget_def of_bool_def)

lemma create_logic_gate_eq:
  assumes "l < length (variables B)" "r < length (variables B)" "out < length (variables B)"
  shows "create_logic_gate is_xor l r out B = Inr (emplace_gate l r out (if is_xor then - 2 else 1)
    (if is_xor then 1 else 0) (if is_xor then 1 else 0) (- 1) 0 B)"
  using assms by (simp add: create_logic_gate_def)

lemma bool_solution: "standard_ok B \<Longrightarrow> solution (emplace_gate i i i 1 0 0 (- 1) 0 B) v \<longleftrightarrow> solution B v \<and> is_bit (v i)"
  by (auto simp: is_bit_def)

lemma logic_solution:
  "standard_ok B \<Longrightarrow> solution (emplace_gate l r out (if is_xor then - 2 else 1) (if is_xor then 1 else 0) (if is_xor then 1 else 0) (- 1) 0 B) v \<longleftrightarrow>
    solution B v \<and> logic_gate is_xor (v l) (v r) (v out)"
  by (simp add: logic_gate_def)

text \<open>The variables of a quad: i to i + 5 hold the high and low bits of left, right and output.\<close>

definition quad_bits :: "bool \<Rightarrow> (nat \<Rightarrow> ff) \<Rightarrow> nat \<Rightarrow> bool" where
  "quad_bits is_xor v n \<longleftrightarrow> is_bit (v n) \<and> is_bit (v (n + 1)) \<and> is_bit (v (n + 2)) \<and> is_bit (v (n + 3)) \<and>
     v (n + 4) = of_bool (bit_op is_xor (v n = 1) (v (n + 2) = 1)) \<and>
     v (n + 5) = of_bool (bit_op is_xor (v (n + 1) = 1) (v (n + 3) = 1))"

lemma create_logic_quad_extends:
  assumes ok: "standard_ok B" and room: "room 6 B" and n: "n = length (variables B)" and i: "i < 256"
  shows "\<exists>B'. create_logic_quad is_xor x y i B = Inr ((n, n + 1), (n + 2, n + 3), (n + 4, n + 5), B') \<and> extends 6 B B' \<and>
    val B' n = of_bool (bit_of x i) \<and> val B' (n + 1) = of_bool (bit_of x (i - 1)) \<and>
    val B' (n + 2) = of_bool (bit_of y i) \<and> val B' (n + 3) = of_bool (bit_of y (i - 1)) \<and>
    val B' (n + 4) = of_bool (bit_op is_xor (bit_of x i) (bit_of y i)) \<and>
    val B' (n + 5) = of_bool (bit_op is_xor (bit_of x (i - 1)) (bit_of y (i - 1))) \<and>
    (\<forall>v. solution B' v \<longrightarrow> quad_bits is_xor v n)"
proof -
  have r: "n + 5 < FIRST_VARIABLE_IN_CLASS"
    using room by (simp add: room_def n)
  define push where "push b B = push_variable (of_bool b) B" for b B
  define oh ol where "oh = bit_op is_xor (bit_of x i) (bit_of y i)" and "ol = bit_op is_xor (bit_of x (i - 1)) (bit_of y (i - 1))"
  define B1 where "B1 = push (bit_of x i) B"
  define B2 where "B2 = push (bit_of x (i - 1)) B1"
  define B3 where "B3 = push (bit_of y i) B2"
  define B4 where "B4 = push (bit_of y (i - 1)) B3"
  define B5 where "B5 = push oh B4"
  define B6 where "B6 = push ol B5"
  note Bs = B1_def B2_def B3_def B4_def B5_def B6_def
  have ok1: "standard_ok B1" "length (variables B1) = n + 1"
    using ok r n by (simp_all add: Bs(1) push_def)
  then have ok2: "standard_ok B2" "length (variables B2) = n + 2"
    using r by (simp_all add: Bs(2) push_def)
  then have ok3: "standard_ok B3" "length (variables B3) = n + 3"
    using r by (simp_all add: Bs(3) push_def)
  then have ok4: "standard_ok B4" "length (variables B4) = n + 4"
    using r by (simp_all add: Bs(4) push_def)
  then have ok5: "standard_ok B5" "length (variables B5) = n + 5"
    using r by (simp_all add: Bs(5) push_def)
  then have ok6: "standard_ok B6" "length (variables B6) = n + 6"
    using r by (simp_all add: Bs(6) push_def)
  note oks = ok1 ok2 ok3 ok4 ok5 ok6
  have vals: "val B6 n = of_bool (bit_of x i)" "val B6 (n + 1) = of_bool (bit_of x (i - 1))" "val B6 (n + 2) = of_bool (bit_of y i)"
      "val B6 (n + 3) = of_bool (bit_of y (i - 1))" "val B6 (n + 4) = of_bool oh" "val B6 (n + 5) = of_bool ol"
      "\<And>j. j < n \<Longrightarrow> val B6 j = val B j"
    using ok oks r n unfolding Bs(6) by (simp_all add: push_def) (simp_all add: Bs push_def)
  have sol6: "solution B6 v \<longleftrightarrow> solution B v" for v
    using ok oks r n by (simp add: Bs push_def)
  have fresh6: "fresh B j \<Longrightarrow> fresh B6 j" for j
    using ok oks r n by (simp add: Bs push_def)
  define E where "E j B = emplace_gate j j j 1 0 0 (- 1) 0 B" for j B
  define L where "L l q out B = emplace_gate l q out (if is_xor then - 2 else 1) (if is_xor then 1 else 0) (if is_xor then 1 else 0) (- 1) 0 B"
    for l q out B
  define B7 where "B7 = E (n + 5) (E (n + 3) (E (n + 1) (E (n + 4) (E (n + 2) (E n B6)))))"
  define B' where "B' = L (n + 1) (n + 3) (n + 5) (L n (n + 2) (n + 4) B7)"
  have E: "standard_ok B \<Longrightarrow> j < length (variables B) \<Longrightarrow> standard_ok (E j B)" "length (variables (E j B)) = length (variables B)"
      "val (E j B) = val B" "fresh (E j B) k = fresh B k" "standard_ok B \<Longrightarrow> solution (E j B) v \<longleftrightarrow> solution B v \<and> is_bit (v j)"
      "builder_failed (E j B) = builder_failed B" "public_inputs (E j B) = public_inputs B" "zero_idx (E j B) = zero_idx B"
      "j < length (variables B) \<Longrightarrow> create_bool_gate j B = Inr (E j B)"
    for j k B v
    unfolding E_def by (simp_all add: is_bit_def create_bool_gate_def)
  have L: "standard_ok B \<Longrightarrow> l < length (variables B) \<Longrightarrow> q < length (variables B) \<Longrightarrow> out < length (variables B) \<Longrightarrow> standard_ok (L l q out B)"
      "length (variables (L l q out B)) = length (variables B)" "val (L l q out B) = val B" "fresh (L l q out B) k = fresh B k"
      "standard_ok B \<Longrightarrow> solution (L l q out B) v \<longleftrightarrow> solution B v \<and> logic_gate is_xor (v l) (v q) (v out)"
      "builder_failed (L l q out B) = builder_failed B" "public_inputs (L l q out B) = public_inputs B" "zero_idx (L l q out B) = zero_idx B"
      "l < length (variables B) \<Longrightarrow> q < length (variables B) \<Longrightarrow> out < length (variables B) \<Longrightarrow>
        create_logic_gate is_xor l q out B = Inr (L l q out B)"
    for l q out k B v
    unfolding L_def by (simp_all only: create_logic_gate_eq logic_solution emplace_fields emplace_ok fresh_emplace)
  have B7: "standard_ok B7" "length (variables B7) = n + 6" "val B7 = val B6" "fresh B7 k = fresh B6 k"
      "solution B7 v \<longleftrightarrow> solution B v \<and> is_bit (v n) \<and> is_bit (v (n + 2)) \<and> is_bit (v (n + 4)) \<and> is_bit (v (n + 1)) \<and>
        is_bit (v (n + 3)) \<and> is_bit (v (n + 5))"
    for k v
    unfolding B7_def using ok6 by (simp_all add: E sol6)
  have B': "standard_ok B'" "length (variables B') = n + 6" "val B' = val B6" "fresh B' k = fresh B6 k"
      "solution B' v \<longleftrightarrow> solution B v \<and> quad_bits is_xor v n"
    for k v
  proof -
    show "standard_ok B'" "length (variables B') = n + 6" "val B' = val B6" "fresh B' k = fresh B6 k"
      unfolding B'_def using B7 by (simp_all add: L)
    have "solution B' v \<longleftrightarrow> solution B7 v \<and> logic_gate is_xor (v n) (v (n + 2)) (v (n + 4)) \<and>
        logic_gate is_xor (v (n + 1)) (v (n + 3)) (v (n + 5))"
      unfolding B'_def using B7 by (simp add: L)
    then show "solution B' v \<longleftrightarrow> solution B v \<and> quad_bits is_xor v n"
      unfolding B7(5) quad_bits_def by (auto simp: logic_gate_bits)
  qed
  have same: "builder_failed B' = builder_failed B" "public_inputs B' = public_inputs B" "zero_idx B' = zero_idx B"
    unfolding B'_def B7_def by (simp_all add: L E Bs push_def)
  have bits: "quad_bits is_xor (val B') n"
    unfolding quad_bits_def B'(3) vals oh_def ol_def by simp
  have "solution B (val B') \<longleftrightarrow> solution B (val B)"
    using ok vals(7) by (intro solution_local) (simp_all add: B'(3) n)
  then have "extends 6 B B'"
    unfolding extends_def gadget_def using B' same bits vals(7) fresh6 by (simp add: n)
  moreover have "create_logic_quad is_xor x y i B = Inr ((n, n + 1), (n + 2, n + 3), (n + 4, n + 5), B')"
  proof -
    have add: "add_bit b C = (length (variables C), push b C)" if "standard_ok C" "length (variables C) < FIRST_VARIABLE_IN_CLASS" for b C
      using push_bit_extends(1) [OF that] by (simp add: push_def)
    have op: "(if is_xor then g \<noteq> h else g \<and> h) = bit_op is_xor g h" for g h
      by (simp add: bit_op_def)
    have bits: "add_bit (bit_of x i) B = (n, B1)" "add_bit (bit_of x (i - 1)) B1 = (n + 1, B2)" "add_bit (bit_of y i) B2 = (n + 2, B3)"
        "add_bit (bit_of y (i - 1)) B3 = (n + 3, B4)" "add_bit oh B4 = (n + 4, B5)" "add_bit ol B5 = (n + 5, B6)"
      using ok oks r n by (simp_all add: add Bs [symmetric] del: One_nat_def)
    have get: "get_bit z i = Inr (bit_of z i)" "get_bit z (i - 1) = Inr (bit_of z (i - 1))" for z
      using i by (simp_all add: get_bit_small)
    show ?thesis
      unfolding create_logic_quad_def get ebind.simps Let_def op bits oh_def [symmetric] ol_def [symmetric] split_conv
      using ok6 B7 by (simp add: E L B7_def B'_def)
  qed
  moreover have "\<forall>v. solution B' v \<longrightarrow> quad_bits is_xor v n"
    using B'(5) by blast
  ultimately show ?thesis
    using vals unfolding oh_def ol_def B'(3) [symmetric] by blast
qed

section \<open>The loop\<close>

lemma extends_honest:
  assumes "standard_ok B" and "extends k B B'" and "solution B' (val B')"
  shows "solution B (val B)"
proof -
  have "solution B (val B')"
    using extendsD(5) [OF assms(2,3)] .
  then show ?thesis
    using solution_local [OF assms(1), of "val B'" "val B"] extendsD(4) [OF assms(2)] by simp
qed

text \<open>
  One round of the loop, with the variables of the accumulators l, r and out, and their values
  a, b and c.
\<close>

definition logic_round ::
  "bool \<Rightarrow> ff \<Rightarrow> ff \<Rightarrow> nat \<Rightarrow> ff \<times> nat \<Rightarrow> ff \<times> nat \<Rightarrow> ff \<times> nat \<Rightarrow> StandardCircuitBuilder \<Rightarrow> StandardCircuitBuilder \<Rightarrow> bool" where
  "logic_round is_xor x y k L R Out B B' \<longleftrightarrow> (\<exists>n lq rq oq.
     (\<forall>accs. accumulate_logic (Suc k) is_xor x y accs L R Out B =
       accumulate_logic k is_xor x y \<lparr>acc_left = acc_left accs @ [n], acc_right = acc_right accs @ [n + 1], acc_out = acc_out accs @ [n + 2]\<rparr>
         (4 * fst L + lq, n) (4 * fst R + rq, n + 1) (4 * fst Out + oq, n + 2) B') \<and>
     length (variables B) \<le> n \<and> extends 12 B B' \<and> fresh B' n \<and> fresh B' (n + 1) \<and> fresh B' (n + 2) \<and>
     val B' n = 4 * fst L + lq \<and> val B' (n + 1) = 4 * fst R + rq \<and> val B' (n + 2) = 4 * fst Out + oq \<and>
     lq = 2 * of_bool (bit_of x (2 * k + 1)) + of_bool (bit_of x (2 * k)) \<and>
     rq = 2 * of_bool (bit_of y (2 * k + 1)) + of_bool (bit_of y (2 * k)) \<and>
     oq = 2 * of_bool (bit_op is_xor (bit_of x (2 * k + 1)) (bit_of y (2 * k + 1))) +
       of_bool (bit_op is_xor (bit_of x (2 * k)) (bit_of y (2 * k))) \<and>
     (\<forall>v. solution B' v \<longrightarrow> (\<exists>g1 g0 h1 h0. v n = 4 * v (snd L) + 2 * of_bool g1 + of_bool g0 \<and>
       v (n + 1) = 4 * v (snd R) + 2 * of_bool h1 + of_bool h0 \<and>
       v (n + 2) = 4 * v (snd Out) + 2 * of_bool (bit_op is_xor g1 h1) + of_bool (bit_op is_xor g0 h0))))"

lemma logic_round:
  assumes ok: "standard_ok B" and room: "room 12 B"
    and idx: "snd L < length (variables B)" "snd R < length (variables B)" "snd Out < length (variables B)"
    and vals: "solution B (val B) \<Longrightarrow> val B (snd L) = fst L \<and> val B (snd R) = fst R \<and> val B (snd Out) = fst Out"
    and k: "2 * k + 1 < 256"
  shows "\<exists>B'. logic_round is_xor x y k L R Out B B'"
proof -
  define n where "n = length (variables B)"
  have r: "n + 11 < FIRST_VARIABLE_IN_CLASS" and room6: "room 6 B"
    using room by (simp_all add: room_def n_def)
  note n = n_def [symmetric]
  obtain B1 where B1: "create_logic_quad is_xor x y (2 * k + 1) B = Inr ((n, n + 1), (n + 2, n + 3), (n + 4, n + 5), B1)"
      "extends 6 B B1" "val B1 n = of_bool (bit_of x (2 * k + 1))" "val B1 (n + 1) = of_bool (bit_of x (2 * k))"
      "val B1 (n + 2) = of_bool (bit_of y (2 * k + 1))" "val B1 (n + 3) = of_bool (bit_of y (2 * k))"
      "val B1 (n + 4) = of_bool (bit_op is_xor (bit_of x (2 * k + 1)) (bit_of y (2 * k + 1)))"
      "val B1 (n + 5) = of_bool (bit_op is_xor (bit_of x (2 * k)) (bit_of y (2 * k)))"
      "\<And>v. solution B1 v \<Longrightarrow> quad_bits is_xor v n"
    using create_logic_quad_extends [OF ok room6 n_def k, of is_xor x y] by auto
  note e1 = extendsD [OF B1(2), unfolded n]
  obtain B2 where B2: "connect_bits n (n + 1) B1 = Inr (2 * val B1 n + val B1 (n + 1), n + 6, B2)" "extends 1 B1 B2"
      "val B2 (n + 6) = 2 * val B1 n + val B1 (n + 1)" "\<And>v. solution B2 v \<Longrightarrow> v (n + 6) = 2 * v n + v (n + 1)"
    using connect_bits_extends [OF e1(1), of n "n + 1"] e1(2) r by (auto simp: n)
  note e2 = extendsD [OF B2(2)]
  have l2: "length (variables B2) = n + 7"
    using e1(2) e2(2) by simp
  obtain B3 where B3: "connect_bits (n + 2) (n + 3) B2 = Inr (2 * val B1 (n + 2) + val B1 (n + 3), n + 7, B3)" "extends 1 B2 B3"
      "val B3 (n + 7) = 2 * val B1 (n + 2) + val B1 (n + 3)" "\<And>v. solution B3 v \<Longrightarrow> v (n + 7) = 2 * v (n + 2) + v (n + 3)"
    using connect_bits_extends [OF e2(1), of "n + 2" "n + 3"] e1(2) l2 e2(4) r by (auto simp: n)
  note e3 = extendsD [OF B3(2)]
  have l3: "length (variables B3) = n + 8"
    using l2 e3(2) by simp
  obtain B4 where B4: "connect_bits (n + 4) (n + 5) B3 = Inr (2 * val B1 (n + 4) + val B1 (n + 5), n + 8, B4)" "extends 1 B3 B4"
      "val B4 (n + 8) = 2 * val B1 (n + 4) + val B1 (n + 5)" "\<And>v. solution B4 v \<Longrightarrow> v (n + 8) = 2 * v (n + 4) + v (n + 5)"
    using connect_bits_extends [OF e3(1), of "n + 4" "n + 5"] e1(2) l2 l3 e2(4) e3(4) r by (auto simp: n)
  note e4 = extendsD [OF B4(2)]
  have len: "length (variables B1) = n + 6" "length (variables B2) = n + 7" "length (variables B3) = n + 8" "length (variables B4) = n + 9"
    using e1(2) e2(2) e3(2) e4(2) by simp_all
  define lq rq oq where "lq = 2 * val B1 n + val B1 (n + 1)" and "rq = 2 * val B1 (n + 2) + val B1 (n + 3)"
    and "oq = 2 * val B1 (n + 4) + val B1 (n + 5)"
  have quads: "val B4 (n + 6) = lq" "val B4 (n + 7) = rq" "val B4 (n + 8) = oq"
    using B2(3) B3(3) B4(3) e3(4) [of "n + 6"] e4(4) [of "n + 6"] e4(4) [of "n + 7"] len by (simp_all add: lq_def rq_def oq_def)
  have ext4: "extends 9 B B4"
    using extends_trans [OF extends_trans [OF extends_trans [OF B1(2) B2(2)] B3(2)] B4(2)] by simp
  note e = extendsD [OF ext4, unfolded n]
  have acc: "solution C (val C) \<Longrightarrow> val C (snd L) = fst L \<and> val C (snd R) = fst R \<and> val C (snd Out) = fst Out"
    if "extends j B C" for j C
    using extends_honest [OF ok that] vals extendsD(4) [OF that] idx by simp
  obtain B5 where B5: "accumulate_quad (fst L) (snd L) lq (n + 6) B4 = Inr (4 * fst L + lq, n + 9, B5)" "extends 1 B4 B5"
      "fresh B5 (n + 9)" "val B5 (n + 9) = 4 * fst L + lq" "\<And>v. solution B5 v \<Longrightarrow> v (n + 9) = 4 * v (snd L) + v (n + 6)"
    using accumulate_quad_extends [OF e(1), of "snd L" "n + 6" "fst L" lq] acc [OF ext4] idx len r quads by (auto simp: n)
  note e5 = extendsD [OF B5(2)]
  have l5: "length (variables B5) = n + 10"
    using len(4) e5(2) by simp
  have ext5: "extends 10 B B5"
    using extends_trans [OF ext4 B5(2)] by simp
  obtain B6 where B6: "accumulate_quad (fst R) (snd R) rq (n + 7) B5 = Inr (4 * fst R + rq, n + 10, B6)" "extends 1 B5 B6"
      "fresh B6 (n + 10)" "val B6 (n + 10) = 4 * fst R + rq" "\<And>v. solution B6 v \<Longrightarrow> v (n + 10) = 4 * v (snd R) + v (n + 7)"
    using accumulate_quad_extends [OF e5(1), of "snd R" "n + 7" "fst R" rq] acc [OF ext5] idx len r quads l5 e5(4) [of "n + 7"]
    by (auto simp: n)
  note e6 = extendsD [OF B6(2)]
  have l6: "length (variables B6) = n + 11"
    using l5 e6(2) by simp
  have ext6: "extends 11 B B6"
    using extends_trans [OF ext5 B6(2)] by simp
  obtain B' where B': "accumulate_quad (fst Out) (snd Out) oq (n + 8) B6 = Inr (4 * fst Out + oq, n + 11, B')" "extends 1 B6 B'"
      "fresh B' (n + 11)" "val B' (n + 11) = 4 * fst Out + oq" "\<And>v. solution B' v \<Longrightarrow> v (n + 11) = 4 * v (snd Out) + v (n + 8)"
    using accumulate_quad_extends [OF e6(1), of "snd Out" "n + 8" "fst Out" oq] acc [OF ext6] idx len r quads l5 e5(4) [of "n + 8"]
      l6 e6(4) [of "n + 8"] by (auto simp: n)
  note e7 = extendsD [OF B'(2)]
  have "extends 12 B B'"
    using extends_trans [OF ext6 B'(2)] by simp
  moreover have "fresh B' (n + 9)" "fresh B' (n + 10)" "val B' (n + 9) = 4 * fst L + lq" "val B' (n + 10) = 4 * fst R + rq"
    using B5(3,4) B6(3,4) e6(8) e7(8) e6(4) [of "n + 9"] e7(4) [of "n + 9"] e7(4) [of "n + 10"] l5 l6 by simp_all
  moreover have "\<exists>g1 g0 h1 h0. v (n + 9) = 4 * v (snd L) + 2 * of_bool g1 + of_bool g0 \<and>
       v (n + 10) = 4 * v (snd R) + 2 * of_bool h1 + of_bool h0 \<and>
       v (n + 11) = 4 * v (snd Out) + 2 * of_bool (bit_op is_xor g1 h1) + of_bool (bit_op is_xor g0 h0)"
    if v: "solution B' v" for v
  proof -
    have sol: "solution B6 v" "solution B5 v" "solution B4 v" "solution B3 v" "solution B2 v" "solution B1 v"
      using v e7(5) e6(5) e5(5) e4(5) e3(5) e2(5) by blast+
    have q: "quad_bits is_xor v n"
      by (rule B1(9) [OF sol(6)])
    then have "v n = of_bool (v n = 1)" "v (n + 1) = of_bool (v (n + 1) = 1)" "v (n + 2) = of_bool (v (n + 2) = 1)"
        "v (n + 3) = of_bool (v (n + 3) = 1)"
      unfolding quad_bits_def by (blast intro: is_bit_eq)+
    then show ?thesis
      using B'(5) [OF v] B6(5) [OF sol(1)] B5(5) [OF sol(2)] B4(4) [OF sol(3)] B3(4) [OF sol(4)] B2(4) [OF sol(5)] q
      by (intro exI [of _ "v n = 1"] exI [of _ "v (n + 1) = 1"] exI [of _ "v (n + 2) = 1"] exI [of _ "v (n + 3) = 1"])
        (simp add: quad_bits_def)
  qed
  moreover have "accumulate_logic (Suc k) is_xor x y accs L R Out B =
       accumulate_logic k is_xor x y \<lparr>acc_left = acc_left accs @ [n + 9], acc_right = acc_right accs @ [n + 10], acc_out = acc_out accs @ [n + 11]\<rparr>
         (4 * fst L + lq, n + 9) (4 * fst R + rq, n + 10) (4 * fst Out + oq, n + 11) B'" for accs
    unfolding accumulate_logic.simps B1(1) ebind.simps split_conv fst_conv snd_conv B2(1) [folded lq_def] B3(1) [folded rq_def]
      B4(1) [folded oq_def] B5(1) B6(1) B'(1) ..
  moreover have "lq = 2 * of_bool (bit_of x (2 * k + 1)) + of_bool (bit_of x (2 * k))"
      "rq = 2 * of_bool (bit_of y (2 * k + 1)) + of_bool (bit_of y (2 * k))"
      "oq = 2 * of_bool (bit_op is_xor (bit_of x (2 * k + 1)) (bit_of y (2 * k + 1))) +
         of_bool (bit_op is_xor (bit_of x (2 * k)) (bit_of y (2 * k)))"
    unfolding lq_def rq_def oq_def B1(3-8) by (rule refl)+
  moreover have "n + 10 = n + 9 + 1" "n + 11 = n + 9 + 2" "length (variables B) \<le> n + 9"
    by (simp_all add: n)
  ultimately show ?thesis
    unfolding logic_round_def using B'(3,4) by metis
qed

text \<open>The accumulators when the i lowest of m quads are left.\<close>

definition logic_inv ::
  "bool \<Rightarrow> ff \<Rightarrow> ff \<Rightarrow> nat \<Rightarrow> nat \<Rightarrow> nat \<Rightarrow> accumulator_triple \<Rightarrow> ff \<times> nat \<Rightarrow> ff \<times> nat \<Rightarrow> ff \<times> nat \<Rightarrow> StandardCircuitBuilder \<Rightarrow> bool" where
  "logic_inv is_xor x y m low i accs L R Out B \<longleftrightarrow>
     fst L = of_int (ff_int x div 4 ^ i) \<and> fst R = of_int (ff_int y div 4 ^ i) \<and>
     fst Out = of_int (logic_op is_xor (ff_int x div 4 ^ i) (ff_int y div 4 ^ i)) \<and>
     snd L < length (variables B) \<and> snd R < length (variables B) \<and> snd Out < length (variables B) \<and>
     (solution B (val B) \<longrightarrow> val B (snd L) = fst L \<and> val B (snd R) = fst R \<and> val B (snd Out) = fst Out) \<and>
     (\<forall>v. solution B v \<longrightarrow> (\<exists>a b. 0 \<le> a \<and> a < 4 ^ (m - i) \<and> 0 \<le> b \<and> b < 4 ^ (m - i) \<and>
        v (snd L) = of_int a \<and> v (snd R) = of_int b \<and> v (snd Out) = of_int (logic_op is_xor a b))) \<and>
     (i < m \<longrightarrow> acc_left accs \<noteq> [] \<and> last (acc_left accs) = snd L \<and> last (acc_right accs) = snd R \<and> last (acc_out accs) = snd Out \<and>
        fresh B (snd L) \<and> fresh B (snd R) \<and> snd L \<noteq> snd R \<and> low \<le> snd L \<and> low \<le> snd R \<and> val B (snd L) = fst L \<and>
        val B (snd R) = fst R)"

lemma accumulate_logic_loop:
  "standard_ok B \<Longrightarrow> room (12 * i) B \<Longrightarrow> i \<le> m \<Longrightarrow> 2 * m < 256 \<Longrightarrow> low \<le> length (variables B) \<Longrightarrow>
    logic_inv is_xor x y m low i accs L R Out B \<Longrightarrow>
    \<exists>accs' L' R' Out' B'. accumulate_logic i is_xor x y accs L R Out B = Inr (accs', B') \<and> extends (12 * i) B B' \<and>
      logic_inv is_xor x y m low 0 accs' L' R' Out' B'"
proof (induction i arbitrary: accs L R Out B)
  case 0
  then show ?case
    using extends_refl [of B] by (intro exI [of _ accs] exI [of _ L] exI [of _ R] exI [of _ Out] exI [of _ B]) simp
next
  case (Suc k)
  note inv = Suc.prems(6) [unfolded logic_inv_def]
  have room: "room 12 B"
    using Suc.prems(2) by (simp add: room_def)
  obtain B1 where "logic_round is_xor x y k L R Out B B1"
    using logic_round [OF Suc.prems(1) room, of L R Out k is_xor x y] inv Suc.prems(3,4) by auto
  then obtain n lq rq oq where round: "\<And>accs. accumulate_logic (Suc k) is_xor x y accs L R Out B =
       accumulate_logic k is_xor x y \<lparr>acc_left = acc_left accs @ [n], acc_right = acc_right accs @ [n + 1], acc_out = acc_out accs @ [n + 2]\<rparr>
         (4 * fst L + lq, n) (4 * fst R + rq, n + 1) (4 * fst Out + oq, n + 2) B1"
      and n: "length (variables B) \<le> n" and ext: "extends 12 B B1"
      and fresh: "fresh B1 n" "fresh B1 (n + 1)" "fresh B1 (n + 2)"
      and val: "val B1 n = 4 * fst L + lq" "val B1 (n + 1) = 4 * fst R + rq" "val B1 (n + 2) = 4 * fst Out + oq"
      and q: "lq = 2 * of_bool (bit_of x (2 * k + 1)) + of_bool (bit_of x (2 * k))"
        "rq = 2 * of_bool (bit_of y (2 * k + 1)) + of_bool (bit_of y (2 * k))"
        "oq = 2 * of_bool (bit_op is_xor (bit_of x (2 * k + 1)) (bit_of y (2 * k + 1))) +
          of_bool (bit_op is_xor (bit_of x (2 * k)) (bit_of y (2 * k)))"
      and sol: "\<And>v. solution B1 v \<Longrightarrow> \<exists>g1 g0 h1 h0. v n = 4 * v (snd L) + 2 * of_bool g1 + of_bool g0 \<and>
        v (n + 1) = 4 * v (snd R) + 2 * of_bool h1 + of_bool h0 \<and>
        v (n + 2) = 4 * v (snd Out) + 2 * of_bool (bit_op is_xor g1 h1) + of_bool (bit_op is_xor g0 h0)"
    unfolding logic_round_def by blast
  note e = extendsD [OF ext]
  let ?accs = "\<lparr>acc_left = acc_left accs @ [n], acc_right = acc_right accs @ [n + 1], acc_out = acc_out accs @ [n + 2]\<rparr>"
  have bits: "bit_of z (2 * k + 1) \<longleftrightarrow> odd (ff_int z div 2 ^ (2 * k + 1))" "bit_of z (2 * k) \<longleftrightarrow> odd (ff_int z div 2 ^ (2 * k))" for z
    by (simp_all add: bit_of_def)
  have step: "ff_int z div 4 ^ k = 4 * (ff_int z div 4 ^ Suc k) + 2 * of_bool (bit_of z (2 * k + 1)) + of_bool (bit_of z (2 * k))" for z
    using quad_step [of "ff_int z" k] by (simp only: bits)
  have acc: "4 * fst L + lq = of_int (ff_int x div 4 ^ k)" "4 * fst R + rq = of_int (ff_int y div 4 ^ k)"
    "4 * fst Out + oq = of_int (logic_op is_xor (ff_int x div 4 ^ k) (ff_int y div 4 ^ k))"
    using inv unfolding step logic_op_quad by (simp_all add: q)
  have range: "4 * a + 2 * of_bool g1 + of_bool g0 < 4 ^ (m - k)" if "a < 4 ^ (m - Suc k)" for a :: int and g1 g0
  proof -
    have "m - k = Suc (m - Suc k)"
      using Suc.prems(3) by simp
    then have "(4 :: int) ^ (m - k) = 4 * 4 ^ (m - Suc k)"
      by (simp only: power_Suc)
    then show ?thesis
      using that by (auto simp: of_bool_def)
  qed
  have "logic_inv is_xor x y m low k ?accs (4 * fst L + lq, n) (4 * fst R + rq, n + 1) (4 * fst Out + oq, n + 2) B1"
    unfolding logic_inv_def
  proof (intro conjI allI impI)
    fix v assume v: "solution B1 v"
    then obtain a b where ab: "0 \<le> a" "a < 4 ^ (m - Suc k)" "0 \<le> b" "b < 4 ^ (m - Suc k)" "v (snd L) = of_int a" "v (snd R) = of_int b"
        "v (snd Out) = of_int (logic_op is_xor a b)"
      using inv e(5) by blast
    obtain g1 g0 h1 h0 where g: "v n = 4 * v (snd L) + 2 * of_bool g1 + of_bool g0" "v (n + 1) = 4 * v (snd R) + 2 * of_bool h1 + of_bool h0"
        "v (n + 2) = 4 * v (snd Out) + 2 * of_bool (bit_op is_xor g1 h1) + of_bool (bit_op is_xor g0 h0)"
      using sol [OF v] by blast
    show "\<exists>a b. 0 \<le> a \<and> a < 4 ^ (m - k) \<and> 0 \<le> b \<and> b < 4 ^ (m - k) \<and> v (snd (4 * fst L + lq, n)) = of_int a \<and>
        v (snd (4 * fst R + rq, n + 1)) = of_int b \<and> v (snd (4 * fst Out + oq, n + 2)) = of_int (logic_op is_xor a b)"
      using ab g range [OF ab(2), of g1 g0] range [OF ab(4), of h1 h0]
      by (intro exI [of _ "4 * a + 2 * of_bool g1 + of_bool g0"] exI [of _ "4 * b + 2 * of_bool h1 + of_bool h0"])
        (simp add: logic_op_quad)
  qed (use acc fresh val n freshD [OF fresh(1)] freshD [OF fresh(2)] freshD [OF fresh(3)] Suc.prems(5) in simp_all)
  moreover have "room (12 * k) B1" "low \<le> length (variables B1)"
    using Suc.prems(2,5) e(2) by (simp_all add: room_def)
  ultimately obtain accs' L' R' Out' B' where "accumulate_logic k is_xor x y ?accs (4 * fst L + lq, n) (4 * fst R + rq, n + 1) (4 * fst Out + oq, n + 2) B1 =
      Inr (accs', B')" "extends (12 * k) B1 B'" "logic_inv is_xor x y m low 0 accs' L' R' Out' B'"
    using Suc.IH [OF e(1), of ?accs "(4 * fst L + lq, n)" "(4 * fst R + rq, n + 1)" "(4 * fst Out + oq, n + 2)"] Suc.prems(3,4) by auto
  moreover from this(2) have "extends (12 * Suc k) B B'"
    using extends_trans [OF ext] by fastforce
  ultimately show ?case
    unfolding round by blast
qed

section \<open>The constraint\<close>

text \<open>A fresh variable that has the value of another may be merged with it: no value changes.\<close>

lemma assert_equal_value:
  assumes ok: "standard_ok B" and l: "fresh B l" and a: "a < length (variables B)" and ne: "l \<noteq> a" and eq: "val B l = val B a"
  shows "\<exists>B'. assert_equal l a msg B = Inr B' \<and> standard_ok B' \<and> variables B' = variables B \<and> zero_idx B' = zero_idx B \<and>
    public_inputs B' = public_inputs B \<and> builder_failed B' = builder_failed B \<and>
    (\<forall>v. solution B' v \<longleftrightarrow> solution B v \<and> v l = v a) \<and> (\<forall>i<length (variables B). val B' i = val B i) \<and>
    (\<forall>i. fresh B i \<longrightarrow> i \<noteq> l \<longrightarrow> i \<noteq> a \<longrightarrow> fresh B' i)"
proof -
  have "val B i = val B a" if "same_class B i a" for i
    using that by (simp add: same_class_def val_def)
  moreover have "\<not> tag_clash B l a"
    using l by (simp add: fresh_def tag_clash_def)
  ultimately show ?thesis
    using assert_equal_step [OF ok freshD [OF l] a, of msg] eq by auto
qed

lemma logic_constraint:
  assumes ok: "standard_ok B" and room: "room (6 * nb) B" and idx: "a < length (variables B)" "b < length (variables B)"
    and nb: "0 < nb" "even nb" "nb < 256" and fits: "ff_int (val B a) < 2 ^ nb" "ff_int (val B b) < 2 ^ nb"
  shows "\<exists>accs B'. create_logic_constraint a b nb is_xor B = Inr (accs, B') \<and> standard_ok B' \<and>
    length (variables B) \<le> length (variables B') \<and> public_inputs B' = public_inputs B \<and>
    (\<forall>i<length (variables B). val B' i = val B i) \<and> builder_failed B' = builder_failed B \<and>
    (\<forall>v. solution B' v \<longrightarrow> solution B v \<and> (\<exists>x y. 0 \<le> x \<and> x < 2 ^ nb \<and> 0 \<le> y \<and> y < 2 ^ nb \<and>
       v a = of_int x \<and> v b = of_int y \<and> v (last (acc_out accs)) = of_int (logic_op is_xor x y))) \<and>
    (solution B (val B) \<longrightarrow> solution B' (val B'))"
proof -
  define m where "m = nb div 2"
  define x y where "x = val B a" and "y = val B b"
  have m: "nb = 2 * m" "0 < m" "2 * m < 256"
    using nb by (auto simp: m_def)
  have pow: "(4 :: int) ^ m = 2 ^ nb"
    by (simp add: m(1) power_mult)
  have top: "ff_int x div 4 ^ m = 0" "ff_int y div 4 ^ m = 0"
    using fits ff_int_range by (simp_all add: pow x_def y_def div_pos_pos_trivial)
  have zero: "v (zero_idx B) = 0" if "solution B v" for v
    using standard_okD(5) [OF ok that] .
  have "logic_inv is_xor x y m (length (variables B)) m \<lparr>acc_left = [], acc_right = [], acc_out = []\<rparr>
      (0, zero_idx B) (0, zero_idx B) (0, zero_idx B) B"
    unfolding logic_inv_def using top zero standard_okD(4) [OF ok] by (auto intro!: exI [of _ 0])
  moreover have "room (12 * m) B"
    using room by (simp add: m(1) mult.assoc)
  ultimately obtain accs L R Out B2 where loop:
      "accumulate_logic m is_xor x y \<lparr>acc_left = [], acc_right = [], acc_out = []\<rparr> (0, zero_idx B) (0, zero_idx B) (0, zero_idx B) B = Inr (accs, B2)"
      and ext: "extends (12 * m) B B2" and inv: "logic_inv is_xor x y m (length (variables B)) 0 accs L R Out B2"
    using accumulate_logic_loop [OF ok, of m m "length (variables B)"] m(3) by blast
  note e = extendsD [OF ext]
  obtain l r out where lr: "L = (x, l)" "R = (y, r)" "out = snd Out" "acc_left accs \<noteq> []" "last (acc_left accs) = l" "last (acc_right accs) = r"
      "last (acc_out accs) = out" "fresh B2 l" "fresh B2 r" "l \<noteq> r" "length (variables B) \<le> l" "length (variables B) \<le> r" "val B2 l = x" "val B2 r = y"
    using inv m(2) by (cases L; cases R) (auto simp: logic_inv_def)
  have old: "a < length (variables B2)" "b < length (variables B2)" "val B2 a = x" "val B2 b = y"
    using idx e(2,4) by (simp_all add: x_def y_def)
  obtain B3 where B3: "assert_equal l a ''assert_equal'' B2 = Inr B3" "standard_ok B3" "variables B3 = variables B2" "builder_failed B3 = builder_failed B2"
      "\<And>v. solution B3 v \<longleftrightarrow> solution B2 v \<and> v l = v a" "\<And>i. i < length (variables B2) \<Longrightarrow> val B3 i = val B2 i" "fresh B3 r"
      "public_inputs B3 = public_inputs B2"
    using assert_equal_value [OF e(1) lr(8) old(1), of "''assert_equal''"] lr old idx by auto
  obtain B4 where B4: "assert_equal r b ''assert_equal'' B3 = Inr B4" "standard_ok B4" "variables B4 = variables B3" "builder_failed B4 = builder_failed B3"
      "\<And>v. solution B4 v \<longleftrightarrow> solution B3 v \<and> v r = v b" "\<And>i. i < length (variables B3) \<Longrightarrow> val B4 i = val B3 i"
      "public_inputs B4 = public_inputs B3"
    using assert_equal_value [OF B3(2,7), of b "''assert_equal''"] lr old idx B3(3,6) freshD [OF lr(9)] by auto
  have "create_logic_constraint a b nb is_xor B = Inr (accs, B4)"
    using idx fits nb loop lr B3(1) B4(1) by (simp add: create_logic_constraint_def fits_bits_def x_def y_def m_def)
  moreover have "solution B v \<and> (\<exists>x y. 0 \<le> x \<and> x < 2 ^ nb \<and> 0 \<le> y \<and> y < 2 ^ nb \<and>
       v a = of_int x \<and> v b = of_int y \<and> v (last (acc_out accs)) = of_int (logic_op is_xor x y))" if v: "solution B4 v" for v
  proof -
    have sol: "solution B2 v" "v l = v a" "v r = v b"
      using v B4(5) B3(5) by blast+
    then obtain a' b' where "0 \<le> a'" "a' < 4 ^ (m - 0)" "0 \<le> b'" "b' < 4 ^ (m - 0)" "v (snd L) = of_int a'" "v (snd R) = of_int b'"
        "v (snd Out) = of_int (logic_op is_xor a' b')"
      using inv unfolding logic_inv_def by blast
    then show ?thesis
      using e(5) [OF sol(1)] sol(2,3) lr(1-3,7) by (intro conjI exI [of _ a'] exI [of _ b']) (simp_all add: pow)
  qed
  moreover have "solution B4 (val B4)" if h: "solution B (val B)"
  proof -
    have "solution B4 (val B2)"
      using e(6) [OF h] B4(5) B3(5) lr old by simp
    moreover have "val B4 i = val B2 i" if "i < length (variables B4)" for i
      using that B4(3,6) B3(3,6) by simp
    ultimately show ?thesis
      using solution_local [OF B4(2), of "val B4" "val B2"] by simp
  qed
  moreover have "val B4 i = val B i" if "i < length (variables B)" for i
    using that B4(3,6) B3(3,6) e(2,4) by simp
  ultimately show ?thesis
    using B4(2,3,4,7) B3(3,4,8) e(2,7,9) by auto
qed

end
