(* ===== verification/Standard_Circuit.thy ===== *)
theory Standard_Circuit
  imports Standard_Logic
begin

text \<open>
  What StandardCircuitBuilder promises to the circuits built with it: the invariant of every
  reachable builder, the copy constraints, and the meaning of its gates, of check_circuit, of
  range constraints and of logic constraints.
\<close>

section \<open>Fields that the constraints do not depend on\<close>

lemmas ok_defs = standard_ok_def base_ok_def chains_def chain_def linked_def [abs_def] gates_ok_def constants_ok_def solution_def
  gate_sum_def copies_def same_class_def

lemma standard_ok_fields:
  "standard_ok (B\<lparr>public_inputs := ps\<rparr>) = standard_ok B" "standard_ok (B\<lparr>variable_names := ns\<rparr>) = standard_ok B"
  "standard_ok (B\<lparr>builder_failed := f, builder_err := e\<rparr>) = standard_ok B" "standard_ok (B\<lparr>one_idx := i\<rparr>) = standard_ok B"
  "standard_ok (B\<lparr>contains_recursive_proof := c\<rparr>) = standard_ok B"
  "standard_ok (B\<lparr>recursive_proof_public_input_indices := is\<rparr>) = standard_ok B"
  by (simp_all add: ok_defs)

lemma standard_ok_failure: "standard_ok (failure msg B) = standard_ok B"
  by (simp add: failure_def standard_ok_fields)

lemma failure_simps [simp]:
  "variables (failure msg B) = variables B" "public_inputs (failure msg B) = public_inputs B"
  "val (failure msg B) = val B" "copies (failure msg B) v = copies B v"
  by (simp_all add: failure_def val_def copies_def same_class_def fun_eq_iff)

section \<open>Constants\<close>

lemma constants_update:
  assumes "standard_ok B" and "i < length (variables B)" and "\<And>v. solution B v \<Longrightarrow> v i = x"
  shows "standard_ok (B\<lparr>constant_variable_indices := (constant_variable_indices B)(x \<mapsto> i)\<rparr>)"
    and "solution (B\<lparr>constant_variable_indices := cs\<rparr>) v = solution B v" "val (B\<lparr>constant_variable_indices := cs\<rparr>) = val B"
proof -
  show sol: "solution (B\<lparr>constant_variable_indices := cs\<rparr>) v = solution B v" "val (B\<lparr>constant_variable_indices := cs\<rparr>) = val B" for cs v
    by (simp_all add: solution_def gate_sum_def copies_def same_class_def val_def fun_eq_iff)
  have "base_ok (B\<lparr>constant_variable_indices := cs\<rparr>) = base_ok B" "gates_ok (B\<lparr>constant_variable_indices := cs\<rparr>) = gates_ok B" for cs
    by (simp_all add: base_ok_def chains_def chain_def linked_def [abs_def] gates_ok_def)
  then show "standard_ok (B\<lparr>constant_variable_indices := (constant_variable_indices B)(x \<mapsto> i)\<rparr>)"
    using assms by (auto simp: standard_ok_def constants_ok_def sol)
qed

lemma put_constant_gadget:
  assumes ok: "standard_ok B" and room: "room 1 B"
  shows "\<exists>i B'. put_constant_variable x B = Inr (i, B') \<and> standard_ok B' \<and> i < length (variables B') \<and>
    variables B' = (if constant_variable_indices B x = None then variables B @ [x] else variables B) \<and> zero_idx B' = zero_idx B \<and> public_inputs B' = public_inputs B \<and>
    (\<forall>j<length (variables B). val B' j = val B j) \<and> builder_failed B' = builder_failed B \<and>
    (\<forall>v. solution B' v \<longrightarrow> solution B v \<and> v i = x) \<and> (solution B (val B) \<longrightarrow> solution B' (val B'))"
proof (cases "constant_variable_indices B x")
  case (Some i)
  then have "i < length (variables B)" "\<And>v. solution B v \<Longrightarrow> v i = x"
    using standard_okD(3) [OF ok] by (auto simp: constants_ok_def)
  then show ?thesis
    using ok Some by (intro exI [of _ i] exI [of _ B]) (simp add: put_constant_variable_def)
next
  case None
  define n where "n = length (variables B)"
  have r: "n < FIRST_VARIABLE_IN_CLASS"
    using room by (simp add: room_def n_def)
  define B1 where "B1 = emplace_gate n (zero_idx B) (zero_idx B) 0 1 0 0 (- x) (push_variable x B)"
  define B' where "B' = B1\<lparr>constant_variable_indices := (constant_variable_indices B1)(x \<mapsto> n)\<rparr>"
  have zero: "zero_idx B < Suc n"
    using standard_okD(4) [OF ok] by (simp add: n_def)
  have B1: "standard_ok B1" "length (variables B1) = Suc n" "solution B1 v \<longleftrightarrow> solution B v \<and> v n = x"
      "j < n \<Longrightarrow> val B1 j = val B j" "val B1 n = x" for v j
    using ok r zero by (auto simp: B1_def n_def [symmetric] algebra_simps)
  have "solution B1 (val B1) \<longleftrightarrow> solution B (val B)"
    using B1(3) [of "val B1"] solution_local [OF ok, of "val B1" "val B"] B1(4,5) by (simp add: n_def)
  moreover have "put_constant_variable x B = Inr (n, B')"
    using None ok r by (simp add: put_constant_variable_def fix_witness_def n_def [symmetric] B1_def B'_def)
  moreover have "standard_ok B'" "solution B' v = solution B1 v" "val B' = val B1" for v
    unfolding B'_def using constants_update [OF B1(1), of n x] B1(2,3) by simp_all
  ultimately show ?thesis
    using B1 by (intro exI [of _ n] exI [of _ B']) (simp add: B'_def None, simp add: B1_def n_def)
qed

lemma standard_init_ok: "\<exists>B. standard_init = Inr B \<and> standard_ok B \<and> solution B (val B) \<and> public_inputs B = [] \<and>
    variables B = [0, 1] \<and> val B 0 = 0 \<and> val B 1 = 1 \<and> \<not> builder_failed B"
proof -
  define E where "E = CircuitBuilderBase.extend base_init (StandardCircuitBuilder.fields [] [] [] [] [] [] [] [] Map.empty)"
  have E: "variables E = []" "num_gates E = 0" "zero_idx E = 0" "constant_variable_indices E = Map.empty" "public_inputs E = []"
      "\<not> builder_failed E"
    by (simp_all add: E_def base_init_def CircuitBuilderBase.extend_def StandardCircuitBuilder.fields_def)
  have "base_ok E" "gates_ok E"
    unfolding E_def by (auto simp: base_ok_def gates_ok_def chains_def base_init_def CircuitBuilderBase.extend_def
      StandardCircuitBuilder.fields_def intro!: exI [of _ "{}"])
  note E_ok = this
  have room: "length (variables E) < FIRST_VARIABLE_IN_CLASS"
    by (simp add: E FIRST_VARIABLE_IN_CLASS_def)
  have sol_E: "solution E v" for v
    by (simp add: solution_def E copies_def same_class_def)
  note push = base_init_facts [OF E_ok(1) room, of 0]
  define B1 where "B1 = emplace_gate 0 0 0 0 1 0 0 0 (push_variable 0 E)"
  have sol1: "solution B1 v \<longleftrightarrow> v 0 = 0" for v
    using gates_emplace(1) [OF push_gates_ok [OF E_ok(2)]] push_solution' [OF E_ok(1) room] sol_E by (simp add: B1_def)
  have val1: "val B1 0 = 0"
    using push(4) by (simp add: B1_def E)
  define B2 where "B2 = B1\<lparr>constant_variable_indices := [0 \<mapsto> 0]\<rparr>"
  have base1: "base_ok B1" "gates_ok B1" "variables B1 = [0]" "zero_idx B1 = 0" "public_inputs B1 = []"
      "constant_variable_indices B1 = Map.empty" "\<not> builder_failed B1"
    using push(2) gates_emplace(2) [OF push_gates_ok [OF E_ok(2), of 0], of 0 0 0] by (simp_all add: B1_def E)
  then have "standard_ok B1"
    using sol1 by (simp add: standard_ok_def constants_ok_def)
  then have B2: "standard_ok B2" "solution B2 v \<longleftrightarrow> v 0 = 0" "val B2 0 = 0" "variables B2 = [0]" "public_inputs B2 = []" "B2\<lparr>zero_idx := 0\<rparr> = B2"
      "constant_variable_indices B2 1 = None" "\<not> builder_failed B2" for v
    using constants_update [of B1 0 0] sol1 val1 base1 by (simp_all add: B2_def)
  have put0: "put_constant_variable 0 E = Inr (0, B2)"
    using push(1) base1(6) by (simp add: put_constant_variable_def fix_witness_def E B1_def B2_def)
  have "room 1 B2"
    by (simp add: room_def B2 FIRST_VARIABLE_IN_CLASS_def)
  then obtain i B3 where B3: "put_constant_variable 1 B2 = Inr (i, B3)" "standard_ok B3" "i < length (variables B3)"
      "public_inputs B3 = public_inputs B2" "\<forall>v. solution B3 v \<longrightarrow> solution B2 v \<and> v i = 1"
      "solution B2 (val B2) \<longrightarrow> solution B3 (val B3)"
      "variables B3 = (if constant_variable_indices B2 1 = None then variables B2 @ [1] else variables B2)"
      "builder_failed B3 = builder_failed B2"
    using put_constant_gadget [OF B2(1), of 1] by blast
  have put1: "put_constant_variable 1 B2 = Inr (length (variables B2), B3)"
    using B3(1) B2(7) by (auto simp: put_constant_variable_def add_variable_def Let_def B2(4) ebind_Inr_iff split: if_splits)
  have sol3: "solution B3 (val B3)"
    using B3(6) B2(2,3) by simp
  then have val3: "val B3 i = 1" "val B3 0 = 0"
    using B3(5) B2(2) by blast+
  define B4 where "B4 = B3\<lparr>one_idx := i\<rparr>"
  have B4: "solution B4 v = solution B3 v" "val B4 = val B3" "variables B4 = variables B3" "public_inputs B4 = public_inputs B3"
      "builder_failed B4 = builder_failed B3" for v
    by (simp_all add: B4_def solution_def gate_sum_def copies_def same_class_def val_def fun_eq_iff)
  have ok4: "standard_ok B4"
    unfolding B4_def standard_ok_fields(4) by (rule B3(2))
  define B where "B = emplace_gate i i i 1 1 1 1 (- 4) B4"
  have "standard_ok B" "solution B (val B)" "public_inputs B = []"
    using B3(3,4) B4 B2(5) ok4 sol3 val3 by (simp_all add: B_def)
  moreover have "variables B = [0, 1]" "\<not> builder_failed B"
    using B3(7,8) B2(4,7,8) B4 by (simp_all add: B_def)
  moreover have "i = 1"
    using put1 B3(1) B2(4) by simp
  then have "val B 0 = 0" "val B 1 = 1"
    using val3 B4(2) by (simp_all add: B_def)
  moreover have "standard_init = Inr B"
    unfolding standard_init_def E_def [symmetric] Let_def put0 ebind.simps split_conv B2(6) B3(1)
    using B3(3) B4(2) by (simp add: B_def B4_def)
  ultimately show ?thesis
    by blast
qed

section \<open>Reachable builders\<close>

text \<open>
  The calls of the public interface, with room for the variables they add and with variables that
  exist. The operations assert the second themselves, except where it is a premise here.
\<close>

abbreviation known :: "StandardCircuitBuilder \<Rightarrow> nat list \<Rightarrow> bool" where
  "known B is \<equiv> set is \<subseteq> {..<length (variables B)}"

inductive built :: "StandardCircuitBuilder \<Rightarrow> bool" where
  new: "standard_init = Inr B \<Longrightarrow> built B"
| variable: "built B \<Longrightarrow> room 1 B \<Longrightarrow> built (snd (add_variable x B))"
| public_variable: "built B \<Longrightarrow> room 1 B \<Longrightarrow> built (snd (add_public_variable x B))"
| public_input: "built B \<Longrightarrow> known B [i] \<Longrightarrow> built (set_public_input i B)"
| recursive_proof: "built B \<Longrightarrow> known B is \<Longrightarrow> built (add_recursive_proof is B)"
| known_recursive_proof: "built B \<Longrightarrow> set_recursive_proof is B = Inr B' \<Longrightarrow> built B'"
| variable_name: "built B \<Longrightarrow> set_variable_name i s B = Inr B' \<Longrightarrow> built B'"
| variable_names: "built B \<Longrightarrow> update_variable_names i B = Inr B' \<Longrightarrow> built B'"
| equal: "built B \<Longrightarrow> assert_equal a b msg B = Inr B' \<Longrightarrow> built B'"
| add: "built B \<Longrightarrow> create_add_gate t B = Inr B' \<Longrightarrow> built B'"
| mul: "built B \<Longrightarrow> create_mul_gate u B = Inr B' \<Longrightarrow> built B'"
| bool: "built B \<Longrightarrow> create_bool_gate i B = Inr B' \<Longrightarrow> built B'"
| poly: "built B \<Longrightarrow> create_poly_gate g B = Inr B' \<Longrightarrow> built B'"
| big_add: "built B \<Longrightarrow> room 1 B \<Longrightarrow> known B [quad_a q, quad_b q, quad_c q, quad_d q] \<Longrightarrow>
    create_big_add_gate q B = Inr B' \<Longrightarrow> built B'"
| balanced_add: "built B \<Longrightarrow> room 2 B \<Longrightarrow> create_balanced_add_gate q B = Inr B' \<Longrightarrow> built B'"
| bit_extraction: "built B \<Longrightarrow> room 5 B \<Longrightarrow> known B [quad_a q, quad_b q, quad_c q, quad_d q] \<Longrightarrow>
    create_big_add_gate_with_bit_extraction q B = Inr B' \<Longrightarrow> built B'"
| big_mul: "built B \<Longrightarrow> room 1 B \<Longrightarrow> known B [mulq_a h, mulq_b h, mulq_c h, mulq_d h] \<Longrightarrow>
    create_big_mul_gate h B = Inr B' \<Longrightarrow> built B'"
| fix_witness: "built B \<Longrightarrow> fix_witness i x B = Inr B' \<Longrightarrow> built B'"
| put_constant: "built B \<Longrightarrow> room 1 B \<Longrightarrow> put_constant_variable x B = Inr (i, B') \<Longrightarrow> built B'"
| equal_constant: "built B \<Longrightarrow> room 1 B \<Longrightarrow> assert_equal_constant i x msg B = Inr B' \<Longrightarrow> built B'"
| range: "built B \<Longrightarrow> room (2 * nb + 2) B \<Longrightarrow> decompose_into_base4_accumulators i nb msg B = Inr (accs, B') \<Longrightarrow> built B'"
| logic: "built B \<Longrightarrow> room (6 * nb) B \<Longrightarrow> create_logic_constraint a b nb is_xor B = Inr (triple, B') \<Longrightarrow> built B'"

definition circuit_ok :: "StandardCircuitBuilder \<Rightarrow> bool" where
  "circuit_ok B \<longleftrightarrow> standard_ok B \<and> known B (public_inputs B)"

lemma gadget_circuit_ok:
  "circuit_ok B \<Longrightarrow> gadget k B B' E \<Longrightarrow> circuit_ok B'"
  by (auto simp: circuit_ok_def gadget_def)

lemma circuit_ok_fields:
  "circuit_ok (B\<lparr>variable_names := ns\<rparr>) = circuit_ok B" "circuit_ok (failure msg B) = circuit_ok B"
  "circuit_ok (B\<lparr>contains_recursive_proof := c\<rparr>) = circuit_ok B"
  "circuit_ok (B\<lparr>recursive_proof_public_input_indices := is\<rparr>) = circuit_ok B"
  by (simp_all add: circuit_ok_def standard_ok_fields standard_ok_failure)

lemma set_public_input_ok: "circuit_ok B \<Longrightarrow> known B [i] \<Longrightarrow> circuit_ok (set_public_input i B) \<and> variables (set_public_input i B) = variables B"
  by (auto simp: set_public_input_def circuit_ok_fields) (auto simp: circuit_ok_def standard_ok_fields)

lemma recursive_proof_ok:
  "circuit_ok B \<Longrightarrow> known B is \<Longrightarrow> circuit_ok (add_recursive_proof is B)"
proof -
  have loop: "circuit_ok C \<Longrightarrow> known C is \<Longrightarrow> circuit_ok (fold (\<lambda>idx B. let B = set_public_input idx B
      in B\<lparr>recursive_proof_public_input_indices := recursive_proof_public_input_indices B @ [(length (public_inputs B) - 1) mod 2 ^ 32]\<rparr>) is C)"
    for C :: StandardCircuitBuilder
  proof (induction "is" arbitrary: C)
    case (Cons i "is")
    note step = set_public_input_ok [OF Cons.prems(1), of i]
    show ?case
      using Cons.IH [of "(set_public_input i C)\<lparr>recursive_proof_public_input_indices := recursive_proof_public_input_indices (set_public_input i C) @
        [(length (public_inputs (set_public_input i C)) - 1) mod 2 ^ 32]\<rparr>"] Cons.prems(2) step
      by (simp add: Let_def circuit_ok_fields)
  qed simp
  assume "circuit_ok B" "known B is"
  then show ?thesis
    unfolding add_recursive_proof_def Let_def by (intro loop [unfolded Let_def]) (simp_all add: circuit_ok_fields)
qed

lemma recursive_proof_indices_ok: "circuit_ok B \<Longrightarrow> recursive_proof_indices is B = Inr B' \<Longrightarrow> circuit_ok B'"
  by (induction "is" B rule: recursive_proof_indices.induct) (auto simp: ebind_Inr_iff circuit_ok_fields)

lemma set_recursive_proof_ok:
  assumes "circuit_ok B" and "set_recursive_proof is B = Inr B'"
  shows "circuit_ok B'"
proof -
  define C where "C = (if contains_recursive_proof B then failure ''added recursive proof when one already exists'' B else B)"
  have "circuit_ok (C\<lparr>contains_recursive_proof := True\<rparr>)"
    using assms(1) by (simp add: C_def circuit_ok_fields)
  moreover have "recursive_proof_indices is (C\<lparr>contains_recursive_proof := True\<rparr>) = Inr B'"
    using assms(2) by (simp only: set_recursive_proof_def Let_def C_def)
  ultimately show ?thesis
    by (rule recursive_proof_indices_ok)
qed

lemma set_variable_name_ok:
  assumes "circuit_ok B" and "set_variable_name i s B = Inr B'"
  shows "circuit_ok B'"
proof -
  obtain f where "(case variable_names B f of
      Some _ \<Rightarrow> Inr (failure ''Attempted to assign a name to a variable that already has a name'' B)
    | None \<Rightarrow> Inr (B\<lparr>variable_names := (variable_names B)(f \<mapsto> s)\<rparr>)) = (Inr B' :: builder_error + StandardCircuitBuilder)"
    using assms(2) unfolding set_variable_name_def by (auto simp only: ebind_Inr_iff split: if_splits)
  then have "B' = failure ''Attempted to assign a name to a variable that already has a name'' B \<or>
      B' = B\<lparr>variable_names := (variable_names B)(f \<mapsto> s)\<rparr>"
    by (cases "variable_names B f") simp_all
  then show ?thesis
    using assms(1) circuit_ok_fields(1,2) by metis
qed

lemma update_variable_names_ok:
  assumes "circuit_ok B" and "update_variable_names i B = Inr B'"
  shows "circuit_ok B'"
proof -
  obtain f where "(case next_named (next_var_index B) (variable_names B) (next_var_index B ! f) of
       None \<Rightarrow> Inl Undefined
     | Some cur_idx \<Rightarrow>
       if variable_names B f \<noteq> None
       then if cur_idx \<noteq> REAL_VARIABLE then Inr (B\<lparr>variable_names := (variable_names B)(cur_idx := None)\<rparr>) else Inr B
       else if cur_idx \<noteq> REAL_VARIABLE
       then let var_name = variable_names B cur_idx
            in Inr (B\<lparr>variable_names := (variable_names B)(cur_idx := None, f := var_name)\<rparr>)
       else Inr (failure ''No previously assigned names found'' B)) = Inr B'"
    using assms(2) unfolding update_variable_names_def by (auto simp only: ebind_Inr_iff)
  then have "(\<exists>ns. B' = B\<lparr>variable_names := ns\<rparr>) \<or> B' = B \<or> B' = failure ''No previously assigned names found'' B"
    unfolding Let_def by (cases "next_named (next_var_index B) (variable_names B) (next_var_index B ! f)") (auto split: if_splits)
  then show ?thesis
    using assms(1) circuit_ok_fields(1,2) by metis
qed

lemma add_variable_ok:
  assumes "circuit_ok B" and "room 1 B"
  shows "circuit_ok (snd (add_variable x B))" and "circuit_ok (snd (add_public_variable x B))"
proof -
  have r: "length (variables B) < FIRST_VARIABLE_IN_CLASS"
    using assms(2) by (simp add: room_def)
  have ok: "standard_ok B" "known B (public_inputs B)"
    using assms(1) by (simp_all add: circuit_ok_def)
  have "known (push_variable x B) (public_inputs B)"
    using ok(2) by auto
  then show "circuit_ok (snd (add_variable x B))" "circuit_ok (snd (add_public_variable x B))"
    using ok r by (simp_all add: circuit_ok_def add_public_variable_def standard_ok_fields)
qed

lemma assert_equal_ok:
  assumes "circuit_ok B" and "assert_equal a b msg B = Inr B'"
  shows "circuit_ok B'"
proof -
  have "a < length (variables B)" "b < length (variables B)"
    using assms(2) by (auto simp: assert_equal_def ebind_Inr_iff split: if_splits)
  then show ?thesis
    using assms assert_equal_step [of B a b msg] by (auto simp: circuit_ok_def)
qed

lemma put_constant_ok:
  assumes "circuit_ok B" and "room 1 B" and "put_constant_variable x B = Inr (i, B')"
  shows "circuit_ok B'" and "i < length (variables B')"
  using assms put_constant_gadget [of B x] by (auto simp: circuit_ok_def)

lemma equal_constant_ok:
  assumes "circuit_ok B" and "room 1 B" and "assert_equal_constant i x msg B = Inr B'"
  shows "circuit_ok B'"
proof -
  define C where "C = (if variables B ! i \<noteq> x \<and> \<not> builder_failed B then failure msg B else B)"
  have C: "circuit_ok C" "room 1 C"
    using assms(1,2) by (simp_all add: C_def circuit_ok_fields room_def)
  have "ebind (put_constant_variable x C) (\<lambda>(j, D). assert_equal i j msg D) = Inr B'"
    using assms(3) by (cases "variables B ! i \<noteq> x \<and> \<not> builder_failed B") (auto simp: assert_equal_constant_def C_def split: if_splits)
  then obtain j D where "put_constant_variable x C = Inr (j, D)" "assert_equal i j msg D = Inr B'"
    by (auto simp: ebind_Inr_iff)
  then show ?thesis
    using put_constant_ok(1) [OF C] assert_equal_ok by blast
qed

lemma gate_ops_ok:
  assumes ok: "circuit_ok B"
  shows "create_add_gate t B = Inr B' \<Longrightarrow> circuit_ok B'" "create_mul_gate u B = Inr B' \<Longrightarrow> circuit_ok B'"
    "create_bool_gate i B = Inr B' \<Longrightarrow> circuit_ok B'" "create_poly_gate g B = Inr B' \<Longrightarrow> circuit_ok B'"
    "fix_witness i x B = Inr B' \<Longrightarrow> circuit_ok B'"
proof -
  have ok': "standard_ok B" "known B (public_inputs B)" "zero_idx B < length (variables B)"
    using ok standard_okD(4) by (simp_all add: circuit_ok_def)
  show "create_add_gate t B = Inr B' \<Longrightarrow> circuit_ok B'"
    using ok' by (cases t) (auto simp: circuit_ok_def split: if_splits)
  show "create_mul_gate u B = Inr B' \<Longrightarrow> circuit_ok B'"
    using ok' by (cases u) (auto simp: circuit_ok_def split: if_splits)
  show "create_bool_gate i B = Inr B' \<Longrightarrow> circuit_ok B'"
    using ok' by (auto simp: create_bool_gate_def circuit_ok_def split: if_splits)
  show "create_poly_gate g B = Inr B' \<Longrightarrow> circuit_ok B'"
    using ok' by (cases g) (auto simp: circuit_ok_def split: if_splits)
  show "fix_witness i x B = Inr B' \<Longrightarrow> circuit_ok B'"
    using ok' by (auto simp: fix_witness_def circuit_ok_def split: if_splits)
qed

lemma room_bits: "room (2 * nb + 2) B \<Longrightarrow> nb < 2 ^ 64"
  by (simp add: room_def FIRST_VARIABLE_IN_CLASS_def)

lemma decompose_ok:
  assumes ok: "circuit_ok B" and room: "room (2 * nb + 2) B" and eq: "decompose_into_base4_accumulators i nb msg B = Inr (accs, B')"
  shows "circuit_ok B'"
proof -
  have "0 < nb" and i: "i < length (variables B)"
    using eq by (auto simp: decompose_into_base4_accumulators_def get_variable_def ebind_Inr_iff split: if_splits)
  moreover have "nb \<le> 256"
    using eq decompose_too_wide [OF i _ room_bits [OF room], of msg] by (cases "nb \<le> 256") auto
  ultimately show ?thesis
    using decompose_gadget [OF _ room, of i msg] ok eq gadget_circuit_ok [OF ok] by (auto simp: circuit_ok_def [of B])
qed

lemma logic_ok:
  assumes ok: "circuit_ok B" and room: "room (6 * nb) B" and eq: "create_logic_constraint a b nb is_xor B = Inr (triple, B')"
  shows "circuit_ok B'"
proof -
  have idx: "a < length (variables B)" "b < length (variables B)"
    using eq unfolding create_logic_constraint_def by (simp_all add: ebind_Inr_iff split: if_splits)
  have fits: "fits_bits (val B a) nb" "fits_bits (val B b) nb" "nb mod 2 = 0"
    using eq idx unfolding create_logic_constraint_def by (auto split: if_splits)
  moreover have "nb \<noteq> 0"
    using eq idx unfolding create_logic_constraint_def by (cases "nb = 0") (auto split: if_splits)
  ultimately obtain accs C where "create_logic_constraint a b nb is_xor B = Inr (accs, C)" "standard_ok C" "public_inputs C = public_inputs B"
      "length (variables B) \<le> length (variables C)"
    using logic_constraint [OF _ room idx, of is_xor] ok by (auto simp: circuit_ok_def fits_bits_def)
  then show ?thesis
    using eq ok by (auto simp: circuit_ok_def)
qed

lemma built_ok: "built B \<Longrightarrow> circuit_ok B"
proof (induction rule: built.induct)
  case (new B)
  obtain B0 where B0: "standard_init = Inr B0" "standard_ok B0" "public_inputs B0 = []"
    using standard_init_ok by blast
  have "Inr B0 = (Inr B :: builder_error + StandardCircuitBuilder)"
    by (rule trans [OF sym [OF B0(1)] new])
  then have "B = B0"
    by (rule sum.inject(2) [THEN iffD1, symmetric])
  then show ?case
    using B0 by (simp add: circuit_ok_def)
next
  case (big_add B q B')
  then show ?case
    using big_add_gadget [of B "quad_a q" "quad_b q" "quad_c q" "quad_d q" "quad_a_scaling q" "quad_b_scaling q" "quad_c_scaling q" "quad_d_scaling q" "quad_const_scaling q"]
      gadget_circuit_ok [OF big_add.IH] by (auto simp: circuit_ok_def [of B])
next
  case (bit_extraction B q B')
  then show ?case
    using bit_extraction_gadget [of B "quad_a q" "quad_b q" "quad_c q" "quad_d q" "quad_a_scaling q" "quad_b_scaling q" "quad_c_scaling q" "quad_d_scaling q" "quad_const_scaling q"]
      gadget_circuit_ok [OF bit_extraction.IH] by (auto simp: circuit_ok_def [of B])
next
  case (balanced_add B q B')
  have "known B [quad_a q, quad_b q, quad_c q, quad_d q]"
    using balanced_add.hyps by (cases q) (auto split: if_splits)
  then show ?case
    using balanced_add_gadget [of B "quad_a q" "quad_b q" "quad_c q" "quad_d q" "quad_a_scaling q" "quad_b_scaling q" "quad_c_scaling q" "quad_d_scaling q" "quad_const_scaling q"]
      gadget_circuit_ok [OF balanced_add.IH] balanced_add.hyps balanced_add.IH by (auto simp: circuit_ok_def [of B])
next
  case (big_mul B h B')
  then show ?case
    using big_mul_gadget [of B "mulq_a h" "mulq_b h" "mulq_c h" "mulq_d h" "mulq_mul_scaling h" "mulq_a_scaling h" "mulq_b_scaling h" "mulq_c_scaling h" "mulq_d_scaling h" "mulq_const_scaling h"]
      gadget_circuit_ok [OF big_mul.IH] by (auto simp: circuit_ok_def [of B])
next
  case (public_input B i)
  then show ?case
    using set_public_input_ok by blast
next
  case (known_recursive_proof B "is" B')
  show ?case
    by (rule set_recursive_proof_ok [OF known_recursive_proof.IH known_recursive_proof.hyps(2)])
next
  case (variable B x)
  show ?case
    by (rule add_variable_ok(1) [OF variable.IH variable.hyps(2)])
next
  case (public_variable B x)
  show ?case
    by (rule add_variable_ok(2) [OF public_variable.IH public_variable.hyps(2)])
next
  case (recursive_proof B "is")
  show ?case
    by (rule recursive_proof_ok [OF recursive_proof.IH recursive_proof.hyps(2)])
next
  case (variable_name B i s B')
  show ?case
    by (rule set_variable_name_ok [OF variable_name.IH variable_name.hyps(2)])
next
  case (variable_names B i B')
  show ?case
    by (rule update_variable_names_ok [OF variable_names.IH variable_names.hyps(2)])
next
  case (equal B a b msg B')
  show ?case
    by (rule assert_equal_ok [OF equal.IH equal.hyps(2)])
next
  case (add B t B')
  show ?case
    by (rule gate_ops_ok(1) [OF add.IH add.hyps(2)])
next
  case (mul B u B')
  show ?case
    by (rule gate_ops_ok(2) [OF mul.IH mul.hyps(2)])
next
  case (bool B i B')
  show ?case
    by (rule gate_ops_ok(3) [OF bool.IH bool.hyps(2)])
next
  case (poly B g B')
  show ?case
    by (rule gate_ops_ok(4) [OF poly.IH poly.hyps(2)])
next
  case (fix_witness B i x B')
  show ?case
    by (rule gate_ops_ok(5) [OF fix_witness.IH fix_witness.hyps(2)])
next
  case (put_constant B x i B')
  show ?case
    by (rule put_constant_ok(1) [OF put_constant.IH put_constant.hyps(2,3)])
next
  case (equal_constant B i x msg B')
  show ?case
    by (rule equal_constant_ok [OF equal_constant.IH equal_constant.hyps(2,3)])
next
  case (range B nb i msg accs B')
  show ?case
    by (rule decompose_ok [OF range.IH range.hyps(2,3)])
next
  case (logic B nb a b is_xor triple B')
  show ?case
    by (rule logic_ok [OF logic.IH logic.hyps(2,3)])
qed

section \<open>Properties\<close>

lemma ebind_Inl: "(\<And>x. \<exists>e. k x = Inl e) \<Longrightarrow> \<exists>e. ebind m k = Inl e"
  by (cases m) auto

lemma built_chain:
  assumes "built B" and "i < length (variables B)"
  shows "\<exists>c. chain B c \<and> i \<in> set c \<and> get_first_variable_in_class i B = Inr (hd c)"
proof -
  have ok: "base_ok B"
    using built_ok [OF assms(1)] by (simp add: circuit_ok_def standard_ok_def)
  then obtain C c where "chains B C" "c \<in> C" "i \<in> set c"
    using chainsD(2) assms(2) unfolding base_ok_def by blast
  then have "chain B c" "i \<in> set c"
    using chainsD(1) by blast+
  then show ?thesis
    using first_in_class_chain [OF base_okD(3,1) [OF ok]] by (auto simp: get_first_variable_in_class_def)
qed

lemma gadget_check:
  assumes "standard_ok B" and "gadget k B B' E" and "\<And>v w. (\<And>i. i < length (variables B) \<Longrightarrow> v i = w i) \<Longrightarrow> E v = E w"
  shows "check_standard B' = Inr (solution B (val B) \<and> E (val B))"
proof -
  have "solution B (val B') \<longleftrightarrow> solution B (val B)" "E (val B') \<longleftrightarrow> E (val B)"
    using assms(2) by (intro solution_local [OF assms(1)] assms(3); simp add: gadget_def)+
  then have "solution B' (val B') \<longleftrightarrow> solution B (val B) \<and> E (val B)"
    using assms(2) unfolding gadget_def by blast
  moreover have "gates_ok B'"
    using assms(2) by (simp add: gadget_def standard_ok_def)
  ultimately show ?thesis
    using check_standard_eq by simp
qed

lemma gadget_gate:
  assumes "standard_ok B" and "\<exists>B'. m = Inr B' \<and> gadget k B B' E" and "\<And>v w. (\<And>i. i < length (variables B) \<Longrightarrow> v i = w i) \<Longrightarrow> E v = E w"
  shows "\<exists>B'. m = Inr B' \<and> gadget k B B' E \<and> check_standard B' = Inr (solution B (val B) \<and> E (val B))"
proof -
  obtain B' where B': "m = Inr B'" "gadget k B B' E"
    using assms(2) by blast
  show ?thesis
    using B' gadget_check [OF assms(1) B'(2) assms(3)] by blast
qed

text \<open>The new builder, for concrete instances.\<close>

lemma start:
  shows "\<exists>B. standard_init = Inr B \<and> built B \<and> variables B = [0, 1] \<and> check_standard B = Inr True \<and> solution B (val B) \<and>
    val B 0 = 0 \<and> val B 1 = 1 \<and> \<not> builder_failed B"
proof -
  obtain B where B: "standard_init = Inr B" "standard_ok B" "solution B (val B)" "variables B = [0, 1]" "val B 0 = 0" "val B 1 = 1"
      "\<not> builder_failed B"
    using standard_init_ok by blast
  then have "check_standard B = Inr True"
    using check_standard_eq by (simp add: standard_ok_def)
  then show ?thesis
    using B built.new by blast
qed

lemma room_start: "variables B = [0, 1] \<Longrightarrow> k < 1000 \<Longrightarrow> room k B"
  by (simp add: room_def FIRST_VARIABLE_IN_CLASS_def)

text \<open>
  C3: In every reachable builder the wires and public inputs are variables, each constant has
  its variable, every variable is in a chain of linked variables with the same real variable,
  the last of the chain, from whose first get_first_variable_in_class starts, and check_circuit
  decides, without an error, whether the values satisfy the gates and the copy constraints.
\<close>

theorem circuit_builder_invariant:
  assumes "built B"
  shows "circuit_ok B \<and> check_standard B = Inr (solution B (val B)) \<and>
    (\<forall>i<length (variables B). \<exists>c. chain B c \<and> i \<in> set c \<and> get_first_variable_in_class i B = Inr (hd c))"
proof -
  have "circuit_ok B" "gates_ok B"
    using built_ok [OF assms] by (simp_all add: circuit_ok_def standard_ok_def)
  then show ?thesis
    using check_standard_eq built_chain [OF assms] by blast
qed

theorem circuit_builder_invariant_witness: "\<exists>B. standard_init = Inr B \<and> circuit_ok B \<and> check_standard B = Inr True"
proof -
  obtain B where "standard_init = Inr B" "built B" "solution B (val B)"
    using start by blast
  then show ?thesis
    using circuit_builder_invariant [of B] by auto
qed

text \<open>
  C4: assert_equal on two variables returns a builder in which exactly the classes of both are
  one, all of them with the value of the first variable; it fails the builder if the values
  differ or the tags clash, and every assignment that satisfies the new circuit is one of the old
  in which the two are equal.
\<close>

theorem assert_equal_merges:
  assumes "built B" and "a < length (variables B)" "b < length (variables B)"
  shows "\<exists>B'. assert_equal a b msg B = Inr B' \<and>
    (\<forall>i j. same_class B' i j \<longleftrightarrow> same_class B i j \<or> same_class B i a \<and> same_class B b j \<or> same_class B i b \<and> same_class B a j) \<and>
    (\<forall>i<length (variables B). val B' i = (if same_class B i b then val B a else val B i)) \<and>
    (builder_failed B' \<longleftrightarrow> builder_failed B \<or> val B a \<noteq> val B b \<or> \<not> same_class B a b \<and> tag_clash B a b) \<and>
    (\<forall>v. solution B' v \<longleftrightarrow> solution B v \<and> v a = v b)"
proof -
  have ok: "standard_ok B" "base_ok B"
    using built_ok [OF assms(1)] by (simp_all add: circuit_ok_def standard_ok_def)
  obtain B' where "assert_equal a b msg B = Inr B'" "\<forall>i<length (variables B). val B' i = (if same_class B i b then val B a else val B i)"
      "builder_failed B' \<longleftrightarrow> builder_failed B \<or> val B a \<noteq> val B b \<or> \<not> same_class B a b \<and> tag_clash B a b"
      "\<forall>v. solution B' v \<longleftrightarrow> solution B v \<and> v a = v b"
    using assert_equal_step [OF ok(1) assms(2,3), of msg] by blast
  moreover from this(1) have "same_class B' i j \<longleftrightarrow> same_class B i j \<or> same_class B i a \<and> same_class B b j \<or> same_class B i b \<and> same_class B a j" for i j
    by (rule assert_equal_same_class(1) [OF ok(2) assms(2,3)])
  ultimately show ?thesis
    by blast
qed

theorem assert_equal_merges_witness: "\<exists>B B'. standard_init = Inr B \<and> assert_equal 0 1 '''' B = Inr B' \<and> builder_failed B' \<and> val B' 1 = 0"
proof -
  obtain B where B: "standard_init = Inr B" "built B" "variables B = [0, 1]" "val B 0 = 0" "val B 1 = 1"
    using start by blast
  have "0 < length (variables B)" "1 < length (variables B)" "same_class B 1 1"
    using B(3) by (simp_all add: same_class_def)
  then show ?thesis
    using assert_equal_merges [OF B(2), of 0 1 "''''"] B(1,4,5) by fastforce
qed

text \<open>
  C8: The gates with four variables mean what they say: the builder that
  create_big_add_gate, create_big_mul_gate, and create_big_add_gate_with_bit_extraction return
  has the old values, check_circuit holds for it exactly if it held before and the values satisfy
  the equation, and every assignment that satisfies it satisfies the equation.
\<close>

theorem standard_gates:
  assumes "built B" and "room 5 B" and "known B [a, b, c, d]"
  shows "(\<exists>B'. create_big_add_gate (Add_quad a b c d sa sb sc sd k) B = Inr B' \<and>
      (let E = (\<lambda>v. sa * v a + sb * v b + sc * v c + sd * v d + k = 0)
       in gadget 1 B B' E \<and> check_standard B' = Inr (solution B (val B) \<and> E (val B)))) \<and>
    (\<exists>B'. create_big_mul_gate (Mul_quad a b c d m sa sb sc sd k) B = Inr B' \<and>
      (let E = (\<lambda>v. m * v a * v b + sa * v a + sb * v b + sc * v c + sd * v d + k = 0)
       in gadget 1 B B' E \<and> check_standard B' = Inr (solution B (val B) \<and> E (val B)))) \<and>
    (\<exists>B'. create_big_add_gate_with_bit_extraction (Add_quad a b c d sa sb sc sd k) B = Inr B' \<and>
      (let E = (\<lambda>v. sa * v a + sb * v b + sc * v c + sd * v d + extracted (v c - 4 * v d) + k = 0)
       in gadget 5 B B' E \<and> check_standard B' = Inr (solution B (val B) \<and> E (val B))))"
proof -
  have ok: "standard_ok B" "room 1 B"
    using built_ok [OF assms(1)] assms(2) by (simp_all add: circuit_ok_def room_def)
  have idx: "a < length (variables B)" "b < length (variables B)" "c < length (variables B)" "d < length (variables B)"
    using assms(3) by simp_all
  show ?thesis
    unfolding Let_def
    by (intro conjI, rule gadget_gate [OF ok(1) big_add_gadget [OF ok idx]], simp add: idx,
    rule gadget_gate [OF ok(1) big_mul_gadget [OF ok idx]], simp add: idx,
    rule gadget_gate [OF ok(1) bit_extraction_gadget [OF ok(1) assms(2) idx]], simp add: idx)
qed

theorem standard_gates_witness: "\<exists>B B'. standard_init = Inr B \<and>
    create_big_add_gate (Add_quad 0 0 0 1 0 0 0 1 (- 1)) B = Inr B' \<and> check_standard B' = Inr True"
proof -
  obtain B where B: "standard_init = Inr B" "built B" "variables B = [0, 1]" "solution B (val B)" "val B 0 = 0" "val B 1 = 1"
    using start by blast
  have known: "known B [0, 0, 0, 1]"
    using B(3) by simp
  have room: "room 5 B"
    using room_start [OF B(3)] by simp
  obtain B' where "create_big_add_gate (Add_quad 0 0 0 1 0 0 0 1 (- 1)) B = Inr B'"
      "check_standard B' = Inr (solution B (val B) \<and> 0 * val B 0 + 0 * val B 0 + 0 * val B 0 + 1 * val B 1 + - 1 = 0)"
    using standard_gates [OF B(2) room known, of 0 0 0 1 "- 1"] unfolding Let_def by blast
  moreover have "0 * val B 0 + 0 * val B 0 + 0 * val B 0 + 1 * val B 1 + - 1 = 0"
    using B(5,6) by simp
  ultimately show ?thesis
    using B(1,4) by metis
qed

text \<open>
  C9: The comment of create_balanced_add_gate allows d to be 0, 1, 2 or 3, but its gates allow
  no 3: if d has this value, check_circuit rejects the circuit, and no assignment to its
  variables with d = 3 satisfies it.
\<close>

theorem balanced_add_rejects_three:
  assumes "built B" and "room 2 B" and "known B [a, b, c, d]"
  shows "\<exists>B'. create_balanced_add_gate (Add_quad a b c d sa sb sc sd k) B = Inr B' \<and>
    (\<forall>v. solution B' v \<longrightarrow> v d \<in> {0, 1, 2} \<and> v d \<noteq> 3) \<and> (val B d = 3 \<longrightarrow> check_standard B' = Inr False)"
proof -
  have ok: "standard_ok B"
    using built_ok [OF assms(1)] by (simp add: circuit_ok_def)
  have idx: "a < length (variables B)" "b < length (variables B)" "c < length (variables B)" "d < length (variables B)"
    using assms(3) by simp_all
  have three: "(3 :: ff) \<noteq> 0" "(3 :: ff) \<noteq> 1" "(3 :: ff) \<noteq> 2"
    by (simp_all add: ff_eq_iff)
  obtain B' where B': "create_balanced_add_gate (Add_quad a b c d sa sb sc sd k) B = Inr B'"
      "gadget 2 B B' (\<lambda>v. sa * v a + sb * v b + sc * v c + sd * v d + k = 0 \<and> (v d = 0 \<or> v d = 1 \<or> v d = 2))"
    using balanced_add_gadget [OF ok assms(2) idx] by blast
  have "check_standard B' = Inr (solution B (val B) \<and>
      sa * val B a + sb * val B b + sc * val B c + sd * val B d + k = 0 \<and> (val B d = 0 \<or> val B d = 1 \<or> val B d = 2))"
    using idx by (intro gadget_check [OF ok B'(2)]) simp
  moreover have "v d \<in> {0, 1, 2} \<and> v d \<noteq> 3" if "solution B' v" for v
    using B'(2) that three unfolding gadget_def by (metis insertCI)
  ultimately show ?thesis
    using B'(1) three by simp
qed

theorem balanced_add_rejects_three_witness: "\<exists>B B'. standard_init = Inr B \<and>
    create_balanced_add_gate (Add_quad 0 0 0 2 0 0 0 1 (- 3)) (snd (add_variable 3 B)) = Inr B' \<and> check_standard B' = Inr False"
proof -
  obtain B where B: "standard_init = Inr B" "built B" "variables B = [0, 1]"
    using start by blast
  have r: "length (variables B) < FIRST_VARIABLE_IN_CLASS" and ok: "standard_ok B"
    using B(3) built_ok [OF B(2)] by (simp_all add: FIRST_VARIABLE_IN_CLASS_def circuit_ok_def)
  have room: "room 1 B"
    using room_start [OF B(3)] by simp
  define P where "P = snd (add_variable 3 B)"
  have P: "built P" "variables P = [0, 1, 3]" "val P 2 = 3"
    using built.variable [OF B(2) room, of 3] push_variable_simps(1) [OF ok r, of 3] push_variable_simps(4) [OF ok r, of 2 3] B(3)
    by (simp_all add: P_def)
  then have "room 2 P" "known P [0, 0, 0, 2]"
    by (simp_all add: room_def FIRST_VARIABLE_IN_CLASS_def)
  then obtain B' where "create_balanced_add_gate (Add_quad 0 0 0 2 0 0 0 1 (- 3)) P = Inr B'" "check_standard B' = Inr False"
    using balanced_add_rejects_three [OF P(1), of 0 0 0 2 0 0 0 1 "- 3"] P(3) by blast
  then show ?thesis
    using B(1) unfolding P_def by blast
qed

text \<open>
  C5: A range constraint of num_bits bits, from 1 to 256, holds in an assignment only if the value
  of the variable, read as an integer, has that many bits; the builder fails exactly if the value
  has more, and otherwise the variables it adds satisfy the new gates. With more than 256 bits no
  builder is returned: the top quad reads a bit that a uint256_t does not have, and the assertion
  of get_bit fails.
\<close>

theorem range_constraint:
  assumes "built B" and "room (2 * num_bits + 2) B" and "known B [w]" and "0 < num_bits"
  shows "if num_bits \<le> 256
    then \<exists>B'. create_range_constraint w num_bits msg B = Inr B' \<and>
      (\<forall>v. solution B' v \<longrightarrow> solution B v \<and> ff_int (v w) < 2 ^ num_bits) \<and>
      (builder_failed B' \<longleftrightarrow> builder_failed B \<or> 2 ^ num_bits \<le> ff_int (val B w)) \<and>
      check_standard B' = Inr (solution B (val B) \<and> ff_int (val B w) < 2 ^ num_bits)
    else create_range_constraint w num_bits msg B = Inl Assert_failed"
proof -
  have ok: "standard_ok B"
    using built_ok [OF assms(1)] by (simp add: circuit_ok_def)
  have w: "w < length (variables B)"
    using assms(3) by simp
  show ?thesis
  proof (cases "num_bits \<le> 256")
    case True
    obtain accs B' k where B': "decompose_into_base4_accumulators w num_bits msg B = Inr (accs, B')"
        "gadget k B B' (\<lambda>v. ff_int (v w) < 2 ^ num_bits)" "builder_failed B' \<longleftrightarrow> builder_failed B \<or> \<not> ff_int (val B w) < 2 ^ num_bits"
      using decompose_gadget [OF ok assms(2) w assms(4) True] by blast
    have "check_standard B' = Inr (solution B (val B) \<and> ff_int (val B w) < 2 ^ num_bits)"
      using w by (intro gadget_check [OF ok B'(2)]) simp
    then show ?thesis
      using True B' by (auto simp: create_range_constraint_def gadget_def)
  next
    case False
    then show ?thesis
      using decompose_too_wide [OF w _ room_bits [OF assms(2)]] by (simp add: create_range_constraint_def)
  qed
qed

theorem range_constraint_witness: "\<exists>B B'. standard_init = Inr B \<and> create_range_constraint 1 3 '''' B = Inr B' \<and>
    \<not> builder_failed B' \<and> check_standard B' = Inr True \<and> create_range_constraint 1 257 '''' B = Inl Assert_failed"
proof -
  obtain B where B: "standard_init = Inr B" "built B" "variables B = [0, 1]" "solution B (val B)" "val B 1 = 1" "\<not> builder_failed B"
    using start by blast
  have hyps: "known B [1]" "room (2 * 3 + 2) B" "room (2 * 257 + 2) B"
    using B(3) room_start [OF B(3)] by (simp_all add: room_def FIRST_VARIABLE_IN_CLASS_def)
  show ?thesis
    using range_constraint [OF B(2) hyps(2,1), of "''''"] range_constraint [OF B(2) hyps(3,1), of "''''"] B(1,4-6) by auto
qed

text \<open>
  C6: A logic constraint of at most 252 bits on variables that fit makes the last accumulator of
  the output, in every assignment that satisfies the new circuit, the bitwise and, or exclusive
  or, of the two values read as integers, which have that many bits; the variables the builder
  adds satisfy the new gates.
\<close>

theorem logic_constraint_result:
  assumes "built B" and "room (6 * num_bits) B" and "known B [a, b]" and "0 < num_bits" "even num_bits" "num_bits \<le> 252"
    and "ff_int (val B a) < 2 ^ num_bits" "ff_int (val B b) < 2 ^ num_bits"
  shows "\<exists>accs B'. create_logic_constraint a b num_bits is_xor B = Inr (accs, B') \<and>
    (\<forall>v. solution B' v \<longrightarrow> solution B v \<and> ff_int (v a) < 2 ^ num_bits \<and> ff_int (v b) < 2 ^ num_bits \<and>
       ff_int (v (last (acc_out accs))) = (if is_xor then ff_int (v a) XOR ff_int (v b) else ff_int (v a) AND ff_int (v b))) \<and>
    builder_failed B' = builder_failed B \<and> check_standard B' = Inr (solution B (val B))"
proof -
  have ok: "standard_ok B"
    using built_ok [OF assms(1)] by (simp add: circuit_ok_def)
  have idx: "a < length (variables B)" "b < length (variables B)" and nb: "num_bits < 256"
    using assms(3,6) by simp_all
  obtain accs B' where B': "create_logic_constraint a b num_bits is_xor B = Inr (accs, B')" "standard_ok B'"
      "\<forall>i<length (variables B). val B' i = val B i" "builder_failed B' = builder_failed B"
      "\<And>v. solution B' v \<Longrightarrow> solution B v \<and> (\<exists>x y. 0 \<le> x \<and> x < 2 ^ num_bits \<and> 0 \<le> y \<and> y < 2 ^ num_bits \<and>
         v a = of_int x \<and> v b = of_int y \<and> v (last (acc_out accs)) = of_int (logic_op is_xor x y))"
      "solution B (val B) \<longrightarrow> solution B' (val B')"
    using logic_constraint [OF ok assms(2) idx assms(4,5) nb assms(7,8), of is_xor] by blast
  have small: "ff_int (of_int z) = z" if "0 \<le> z" "z < 2 ^ num_bits" for z
  proof -
    have "(2 :: int) ^ num_bits \<le> 2 ^ 252"
      using assms(6) by (intro power_increasing) simp_all
    then show ?thesis
      using that by (simp add: mod_pos_pos_trivial)
  qed
  have op: "0 \<le> logic_op is_xor x y \<and> logic_op is_xor x y < 2 ^ num_bits"
    if "0 \<le> x" "x < 2 ^ num_bits" "0 \<le> y" "y < 2 ^ num_bits" for x y
    using that AND_upper1 [of x y] XOR_upper [of x num_bits y] by (auto simp: logic_op_def)
  have "solution B v \<and> ff_int (v a) < 2 ^ num_bits \<and> ff_int (v b) < 2 ^ num_bits \<and>
       ff_int (v (last (acc_out accs))) = (if is_xor then ff_int (v a) XOR ff_int (v b) else ff_int (v a) AND ff_int (v b))"
    if v: "solution B' v" for v
  proof -
    obtain x y where xy: "0 \<le> x" "x < 2 ^ num_bits" "0 \<le> y" "y < 2 ^ num_bits" "v a = of_int x" "v b = of_int y"
        "v (last (acc_out accs)) = of_int (logic_op is_xor x y)" and sol: "solution B v"
      using B'(5) [OF v] by blast
    have "ff_int (v a) = x" "ff_int (v b) = y" "ff_int (v (last (acc_out accs))) = logic_op is_xor x y"
      unfolding xy(5-7) using small xy(1-4) op by blast+
    then show ?thesis
      using sol xy(2,4) by (simp add: logic_op_def)
  qed
  moreover have "solution B' (val B') \<longleftrightarrow> solution B (val B)"
    using B'(3,5,6) solution_local [OF ok, of "val B'" "val B"] by auto
  then have "check_standard B' = Inr (solution B (val B))"
    using check_standard_eq standard_okD(2) [OF B'(2)] by simp
  ultimately show ?thesis
    using B'(1,4) by blast
qed

theorem logic_constraint_result_witness: "\<exists>B accs B'. standard_init = Inr B \<and> create_logic_constraint 0 1 2 True B = Inr (accs, B') \<and>
    check_standard B' = Inr True"
proof -
  obtain B where B: "standard_init = Inr B" "built B" "variables B = [0, 1]" "solution B (val B)" "val B 0 = 0" "val B 1 = 1"
    using start by blast
  have hyps: "known B [0, 1]" "room (6 * 2) B" "ff_int (val B 0) < 2 ^ 2" "ff_int (val B 1) < 2 ^ 2"
    using B(3,5,6) room_start [OF B(3)] by simp_all
  show ?thesis
    using logic_constraint_result [OF B(2) hyps(2,1) _ _ _ hyps(3,4), of True] B(1,4) by auto
qed

lemma collisions_end: "\<not> i < length keys \<Longrightarrow> 1 < length keys \<Longrightarrow> \<exists>e. name_collisions keys firsts i 1 B = Inl e"
  by (simp only: name_collisions.simps [of keys firsts i 1 B] not_not if_False if_True simp_thms) blast

lemma collisions_step:
  assumes "i < length keys" "1 < length keys" and rest: "\<And>B :: 'a CircuitBuilderBase_scheme. \<exists>e. name_collisions keys firsts (Suc i) 1 B = Inl e"
  shows "\<exists>e. name_collisions keys firsts i 1 (B :: 'a CircuitBuilderBase_scheme) = Inl e"
  using assms(1,2)
  by (simp only: name_collisions.simps [of keys firsts i 1 B] not_not if_False if_True simp_thms) (intro ebind_Inl rest)

text \<open>
  With two names or more, finalize_variable_names never returns: its inner loop tests j and
  increments i, so that it reads behind the end of the vector of first variables.
\<close>

theorem finalize_variable_names_undefined:
  fixes B :: "'a CircuitBuilderBase_scheme"
  assumes "2 \<le> length keys"
  shows "\<exists>e. finalize_variable_names keys B = Inl e"
proof -
  have keys: "1 < length keys"
    using assms by simp
  have "\<exists>e. name_collisions keys firsts i 1 B = Inl e" for firsts i and B :: "'a CircuitBuilderBase_scheme"
  proof (induction "length keys - i" arbitrary: i B)
    case 0
    then show ?case
      using keys by (intro collisions_end) simp_all
  next
    case (Suc n)
    then have i: "n = length keys - Suc i" "i < length keys"
      by simp_all
    show ?case
      using Suc.hyps(1) [OF i(1)] by (intro collisions_step [OF i(2) keys])
  qed
  then show ?thesis
    using assms unfolding finalize_variable_names_def by (intro ebind_Inl) simp
qed

theorem finalize_variable_names_undefined_witness: "\<exists>e. finalize_variable_names [0, 1] base_init = Inl e"
  by (rule finalize_variable_names_undefined) simp

end
