(* ===== verification/Aes128.thy ===== *)
theory Aes128
  imports Prelude
begin

text \<open>
  crypto/aes128/aes128.hpp and .cpp: the block cipher AES-128 and its cipher block chaining on a
  buffer. An array of bytes is a list; a function that writes through a pointer returns the new
  array. The block is in the order of the columns, byte 4 * j + i is row i of column j.
\<close>

section \<open>Tables\<close>

definition aes128_sbox :: "u8 list" where
  "aes128_sbox = [
    0x63, 0x7c, 0x77, 0x7b, 0xf2, 0x6b, 0x6f, 0xc5, 0x30, 0x01, 0x67, 0x2b, 0xfe, 0xd7, 0xab, 0x76,
    0xca, 0x82, 0xc9, 0x7d, 0xfa, 0x59, 0x47, 0xf0, 0xad, 0xd4, 0xa2, 0xaf, 0x9c, 0xa4, 0x72, 0xc0,
    0xb7, 0xfd, 0x93, 0x26, 0x36, 0x3f, 0xf7, 0xcc, 0x34, 0xa5, 0xe5, 0xf1, 0x71, 0xd8, 0x31, 0x15,
    0x04, 0xc7, 0x23, 0xc3, 0x18, 0x96, 0x05, 0x9a, 0x07, 0x12, 0x80, 0xe2, 0xeb, 0x27, 0xb2, 0x75,
    0x09, 0x83, 0x2c, 0x1a, 0x1b, 0x6e, 0x5a, 0xa0, 0x52, 0x3b, 0xd6, 0xb3, 0x29, 0xe3, 0x2f, 0x84,
    0x53, 0xd1, 0x00, 0xed, 0x20, 0xfc, 0xb1, 0x5b, 0x6a, 0xcb, 0xbe, 0x39, 0x4a, 0x4c, 0x58, 0xcf,
    0xd0, 0xef, 0xaa, 0xfb, 0x43, 0x4d, 0x33, 0x85, 0x45, 0xf9, 0x02, 0x7f, 0x50, 0x3c, 0x9f, 0xa8,
    0x51, 0xa3, 0x40, 0x8f, 0x92, 0x9d, 0x38, 0xf5, 0xbc, 0xb6, 0xda, 0x21, 0x10, 0xff, 0xf3, 0xd2,
    0xcd, 0x0c, 0x13, 0xec, 0x5f, 0x97, 0x44, 0x17, 0xc4, 0xa7, 0x7e, 0x3d, 0x64, 0x5d, 0x19, 0x73,
    0x60, 0x81, 0x4f, 0xdc, 0x22, 0x2a, 0x90, 0x88, 0x46, 0xee, 0xb8, 0x14, 0xde, 0x5e, 0x0b, 0xdb,
    0xe0, 0x32, 0x3a, 0x0a, 0x49, 0x06, 0x24, 0x5c, 0xc2, 0xd3, 0xac, 0x62, 0x91, 0x95, 0xe4, 0x79,
    0xe7, 0xc8, 0x37, 0x6d, 0x8d, 0xd5, 0x4e, 0xa9, 0x6c, 0x56, 0xf4, 0xea, 0x65, 0x7a, 0xae, 0x08,
    0xba, 0x78, 0x25, 0x2e, 0x1c, 0xa6, 0xb4, 0xc6, 0xe8, 0xdd, 0x74, 0x1f, 0x4b, 0xbd, 0x8b, 0x8a,
    0x70, 0x3e, 0xb5, 0x66, 0x48, 0x03, 0xf6, 0x0e, 0x61, 0x35, 0x57, 0xb9, 0x86, 0xc1, 0x1d, 0x9e,
    0xe1, 0xf8, 0x98, 0x11, 0x69, 0xd9, 0x8e, 0x94, 0x9b, 0x1e, 0x87, 0xe9, 0xce, 0x55, 0x28, 0xdf,
    0x8c, 0xa1, 0x89, 0x0d, 0xbf, 0xe6, 0x42, 0x68, 0x41, 0x99, 0x2d, 0x0f, 0xb0, 0x54, 0xbb, 0x16]"

definition aes128_sbox_inverse :: "u8 list" where
  "aes128_sbox_inverse = [
    0x52, 0x09, 0x6a, 0xd5, 0x30, 0x36, 0xa5, 0x38, 0xbf, 0x40, 0xa3, 0x9e, 0x81, 0xf3, 0xd7, 0xfb,
    0x7c, 0xe3, 0x39, 0x82, 0x9b, 0x2f, 0xff, 0x87, 0x34, 0x8e, 0x43, 0x44, 0xc4, 0xde, 0xe9, 0xcb,
    0x54, 0x7b, 0x94, 0x32, 0xa6, 0xc2, 0x23, 0x3d, 0xee, 0x4c, 0x95, 0x0b, 0x42, 0xfa, 0xc3, 0x4e,
    0x08, 0x2e, 0xa1, 0x66, 0x28, 0xd9, 0x24, 0xb2, 0x76, 0x5b, 0xa2, 0x49, 0x6d, 0x8b, 0xd1, 0x25,
    0x72, 0xf8, 0xf6, 0x64, 0x86, 0x68, 0x98, 0x16, 0xd4, 0xa4, 0x5c, 0xcc, 0x5d, 0x65, 0xb6, 0x92,
    0x6c, 0x70, 0x48, 0x50, 0xfd, 0xed, 0xb9, 0xda, 0x5e, 0x15, 0x46, 0x57, 0xa7, 0x8d, 0x9d, 0x84,
    0x90, 0xd8, 0xab, 0x00, 0x8c, 0xbc, 0xd3, 0x0a, 0xf7, 0xe4, 0x58, 0x05, 0xb8, 0xb3, 0x45, 0x06,
    0xd0, 0x2c, 0x1e, 0x8f, 0xca, 0x3f, 0x0f, 0x02, 0xc1, 0xaf, 0xbd, 0x03, 0x01, 0x13, 0x8a, 0x6b,
    0x3a, 0x91, 0x11, 0x41, 0x4f, 0x67, 0xdc, 0xea, 0x97, 0xf2, 0xcf, 0xce, 0xf0, 0xb4, 0xe6, 0x73,
    0x96, 0xac, 0x74, 0x22, 0xe7, 0xad, 0x35, 0x85, 0xe2, 0xf9, 0x37, 0xe8, 0x1c, 0x75, 0xdf, 0x6e,
    0x47, 0xf1, 0x1a, 0x71, 0x1d, 0x29, 0xc5, 0x89, 0x6f, 0xb7, 0x62, 0x0e, 0xaa, 0x18, 0xbe, 0x1b,
    0xfc, 0x56, 0x3e, 0x4b, 0xc6, 0xd2, 0x79, 0x20, 0x9a, 0xdb, 0xc0, 0xfe, 0x78, 0xcd, 0x5a, 0xf4,
    0x1f, 0xdd, 0xa8, 0x33, 0x88, 0x07, 0xc7, 0x31, 0xb1, 0x12, 0x10, 0x59, 0x27, 0x80, 0xec, 0x5f,
    0x60, 0x51, 0x7f, 0xa9, 0x19, 0xb5, 0x4a, 0x0d, 0x2d, 0xe5, 0x7a, 0x9f, 0x93, 0xc9, 0x9c, 0xef,
    0xa0, 0xe0, 0x3b, 0x4d, 0xae, 0x2a, 0xf5, 0xb0, 0xc8, 0xeb, 0xbb, 0x3c, 0x83, 0x53, 0x99, 0x61,
    0x17, 0x2b, 0x04, 0x7e, 0xba, 0x77, 0xd6, 0x26, 0xe1, 0x69, 0x14, 0x63, 0x55, 0x21, 0x0c, 0x7d]"

definition round_constants :: "u8 list" where
  "round_constants = [0x8d, 0x01, 0x02, 0x04, 0x08, 0x10, 0x20, 0x40, 0x80, 0x1b, 0x36]"

section \<open>Steps of a round\<close>

definition add_round_key :: "u8 list \<Rightarrow> u8 list \<Rightarrow> nat \<Rightarrow> u8 list" where
  "add_round_key state round_key round =
     fold (\<lambda>i. fold (\<lambda>j state. state[i + j := state ! (i + j) XOR round_key ! (round * 16 + i + j)]) [0..<4]) [0, 4, 8, 12] state"

definition xor_with_iv :: "u8 list \<Rightarrow> u8 list \<Rightarrow> u8 list" where
  "xor_with_iv state iv = fold (\<lambda>i state. state[i := state ! i XOR iv ! i]) [0..<16] state"

definition sub_bytes :: "u8 list \<Rightarrow> u8 list" where
  "sub_bytes input =
     fold (\<lambda>i. fold (\<lambda>j input. input[j * 4 + i := aes128_sbox ! unat (input ! (j * 4 + i))]) [0..<4]) [0..<4] input"

definition inverse_sub_bytes :: "u8 list \<Rightarrow> u8 list" where
  "inverse_sub_bytes input =
     fold (\<lambda>i. fold (\<lambda>j input. input[j * 4 + i := aes128_sbox_inverse ! unat (input ! (j * 4 + i))]) [0..<4]) [0..<4] input"

definition shift_rows :: "u8 list \<Rightarrow> u8 list" where
  "shift_rows input =
     (let temp = input ! (0 * 4 + 1);
          input = input[0 * 4 + 1 := input ! (1 * 4 + 1)];
          input = input[1 * 4 + 1 := input ! (2 * 4 + 1)];
          input = input[2 * 4 + 1 := input ! (3 * 4 + 1)];
          input = input[3 * 4 + 1 := temp];
          temp = input ! (0 * 4 + 2);
          input = input[0 * 4 + 2 := input ! (2 * 4 + 2)];
          input = input[2 * 4 + 2 := temp];
          temp = input ! (1 * 4 + 2);
          input = input[1 * 4 + 2 := input ! (3 * 4 + 2)];
          input = input[3 * 4 + 2 := temp];
          temp = input ! (0 * 4 + 3);
          input = input[0 * 4 + 3 := input ! (3 * 4 + 3)];
          input = input[3 * 4 + 3 := input ! (2 * 4 + 3)];
          input = input[2 * 4 + 3 := input ! (1 * 4 + 3)]
      in input[1 * 4 + 3 := temp])"

definition inverse_shift_rows :: "u8 list \<Rightarrow> u8 list" where
  "inverse_shift_rows input =
     (let temp = input ! (3 * 4 + 1);
          input = input[3 * 4 + 1 := input ! (2 * 4 + 1)];
          input = input[2 * 4 + 1 := input ! (1 * 4 + 1)];
          input = input[1 * 4 + 1 := input ! (0 * 4 + 1)];
          input = input[0 * 4 + 1 := temp];
          temp = input ! (0 * 4 + 2);
          input = input[0 * 4 + 2 := input ! (2 * 4 + 2)];
          input = input[2 * 4 + 2 := temp];
          temp = input ! (1 * 4 + 2);
          input = input[1 * 4 + 2 := input ! (3 * 4 + 2)];
          input = input[3 * 4 + 2 := temp];
          temp = input ! (0 * 4 + 3);
          input = input[0 * 4 + 3 := input ! (1 * 4 + 3)];
          input = input[1 * 4 + 3 := input ! (2 * 4 + 3)];
          input = input[2 * 4 + 3 := input ! (3 * 4 + 3)]
      in input[3 * 4 + 3 := temp])"

text \<open>The code computes in int and casts to a byte, which is to compute modulo 2^8.\<close>

definition xtime :: "u8 \<Rightarrow> u8" where
  "xtime x = push_bit 1 x XOR ((drop_bit 7 x AND 1) * 0x1b)"

definition gf2_8_mul :: "u8 \<Rightarrow> u8 \<Rightarrow> u8" where
  "gf2_8_mul x y =
     (let t0 = (y AND 1) * x;
          t1 = (drop_bit 1 y AND 1) * xtime x;
          t2 = (drop_bit 2 y AND 1) * xtime (xtime x);
          t3 = (drop_bit 3 y AND 1) * xtime (xtime (xtime x));
          t4 = (drop_bit 4 y AND 1) * xtime (xtime (xtime (xtime x)))
      in t0 XOR t1 XOR t2 XOR t3 XOR t4)"

definition mix_column :: "nat \<Rightarrow> u8 list \<Rightarrow> u8 list" where
  "mix_column i input =
     (let t = input ! (i * 4 + 0);
          Tmp = input ! (i * 4 + 0) XOR input ! (i * 4 + 1) XOR input ! (i * 4 + 2) XOR input ! (i * 4 + 3);
          Tm = input ! (i * 4 + 0) XOR input ! (i * 4 + 1);
          Tm = xtime Tm;
          input = input[i * 4 + 0 := input ! (i * 4 + 0) XOR (Tm XOR Tmp)];
          Tm = input ! (i * 4 + 1) XOR input ! (i * 4 + 2);
          Tm = xtime Tm;
          input = input[i * 4 + 1 := input ! (i * 4 + 1) XOR (Tm XOR Tmp)];
          Tm = input ! (i * 4 + 2) XOR input ! (i * 4 + 3);
          Tm = xtime Tm;
          input = input[i * 4 + 2 := input ! (i * 4 + 2) XOR (Tm XOR Tmp)];
          Tm = input ! (i * 4 + 3) XOR t;
          Tm = xtime Tm
      in input[i * 4 + 3 := input ! (i * 4 + 3) XOR (Tm XOR Tmp)])"

definition mix_columns :: "u8 list \<Rightarrow> u8 list" where
  "mix_columns input = fold mix_column [0..<4] input"

definition inverse_mix_column :: "nat \<Rightarrow> u8 list \<Rightarrow> u8 list" where
  "inverse_mix_column i input =
     (let a = input ! (i * 4 + 0);
          b = input ! (i * 4 + 1);
          c = input ! (i * 4 + 2);
          d = input ! (i * 4 + 3);
          input = input[i * 4 + 0 := gf2_8_mul a 0x0e XOR gf2_8_mul b 0x0b XOR gf2_8_mul c 0x0d XOR gf2_8_mul d 0x09];
          input = input[i * 4 + 1 := gf2_8_mul a 0x09 XOR gf2_8_mul b 0x0e XOR gf2_8_mul c 0x0b XOR gf2_8_mul d 0x0d];
          input = input[i * 4 + 2 := gf2_8_mul a 0x0d XOR gf2_8_mul b 0x09 XOR gf2_8_mul c 0x0e XOR gf2_8_mul d 0x0b]
      in input[i * 4 + 3 := gf2_8_mul a 0x0b XOR gf2_8_mul b 0x0d XOR gf2_8_mul c 0x09 XOR gf2_8_mul d 0x0e])"

definition inverse_mix_columns :: "u8 list \<Rightarrow> u8 list" where
  "inverse_mix_columns input = fold inverse_mix_column [0..<4] input"

section \<open>Key and cipher\<close>

text \<open>The word before word i of the key, rotated and substituted where a round begins.\<close>

definition key_temp :: "nat \<Rightarrow> u8 list \<Rightarrow> u8 list" where
  "key_temp i round_key =
     (let k = (i - 1) * 4;
          temp = [round_key ! k, round_key ! (k + 1), round_key ! (k + 2), round_key ! (k + 3)]
      in if i mod 4 = 0
         then let t = temp ! 0;
                  temp = temp[0 := temp ! 1];
                  temp = temp[1 := temp ! 2];
                  temp = temp[2 := temp ! 3];
                  temp = temp[3 := t];
                  temp = map (\<lambda>x. aes128_sbox ! unat x) temp
              in temp[0 := temp ! 0 XOR round_constants ! (i div 4)]
         else temp)"

definition expand_word :: "nat \<Rightarrow> u8 list \<Rightarrow> u8 list" where
  "expand_word i round_key =
     (let temp = key_temp i round_key;
          j = i * 4;
          k = (i - 4) * 4;
          round_key = round_key[j := round_key ! k XOR temp ! 0];
          round_key = round_key[j + 1 := round_key ! (k + 1) XOR temp ! 1];
          round_key = round_key[j + 2 := round_key ! (k + 2) XOR temp ! 2]
      in round_key[j + 3 := round_key ! (k + 3) XOR temp ! 3])"

definition aes128_expand_key :: "u8 list \<Rightarrow> u8 list \<Rightarrow> u8 list" where
  "aes128_expand_key key round_key =
     (let round_key = fold (\<lambda>i round_key.
            round_key[i := key ! i, i + 1 := key ! (i + 1), i + 2 := key ! (i + 2), i + 3 := key ! (i + 3)]) [0, 4, 8, 12] round_key
      in fold expand_word [4..<44] round_key)"

definition aes128_inverse_cipher :: "u8 list \<Rightarrow> u8 list \<Rightarrow> u8 list" where
  "aes128_inverse_cipher input round_key =
     (let input = add_round_key input round_key 10;
          input = fold (\<lambda>round input.
            inverse_mix_columns (add_round_key (inverse_sub_bytes (inverse_shift_rows input)) round_key round))
            [9, 8, 7, 6, 5, 4, 3, 2, 1] input;
          input = inverse_sub_bytes (inverse_shift_rows input)
      in add_round_key input round_key 0)"

definition aes128_cipher :: "u8 list \<Rightarrow> u8 list \<Rightarrow> u8 list" where
  "aes128_cipher state round_key =
     (let state = add_round_key state round_key 0;
          state = fold (\<lambda>round state. add_round_key (mix_columns (shift_rows (sub_bytes state))) round_key round) [1..<10] state;
          state = shift_rows (sub_bytes state)
      in add_round_key state round_key 10)"

section \<open>Buffers\<close>

text \<open>memcpy of 16 bytes to a place in the buffer, and from it.\<close>

definition put_block :: "nat \<Rightarrow> u8 list \<Rightarrow> u8 list \<Rightarrow> u8 list" where
  "put_block i block buffer = take (i * 16) buffer @ block @ drop (i * 16 + 16) buffer"

definition get_block :: "nat \<Rightarrow> u8 list \<Rightarrow> u8 list" where
  "get_block i buffer = take 16 (drop (i * 16) buffer)"

text \<open>The array of round keys is not initialised; its content is an argument.\<close>

definition encrypt_block :: "u8 list \<Rightarrow> nat \<Rightarrow> u8 list \<times> u8 list \<Rightarrow> u8 list \<times> u8 list" where
  "encrypt_block round_key i = (\<lambda>(buffer, iv).
     let block_state = get_block i buffer;
         block_state = xor_with_iv block_state iv;
         block_state = aes128_cipher block_state round_key
     in (put_block i block_state buffer, block_state))"

definition aes128_encrypt_buffer_cbc :: "u8 list \<Rightarrow> u8 list \<Rightarrow> u8 list \<Rightarrow> u8 list \<Rightarrow> nat \<Rightarrow> u8 list \<times> u8 list" where
  "aes128_encrypt_buffer_cbc memory buffer iv key len =
     (let round_key = aes128_expand_key key memory;
          num_blocks = len div 16
      in fold (encrypt_block round_key) [0..<num_blocks] (buffer, iv))"

definition decrypt_block :: "u8 list \<Rightarrow> nat \<Rightarrow> u8 list \<times> u8 list \<Rightarrow> u8 list \<times> u8 list" where
  "decrypt_block round_key i = (\<lambda>(buffer, iv).
     let block_state = get_block i buffer;
         next_iv = block_state;
         block_state = aes128_inverse_cipher block_state round_key;
         block_state = xor_with_iv block_state iv
     in (put_block i block_state buffer, next_iv))"

definition aes128_decrypt_buffer_cbc :: "u8 list \<Rightarrow> u8 list \<Rightarrow> u8 list \<Rightarrow> u8 list \<Rightarrow> nat \<Rightarrow> u8 list \<times> u8 list" where
  "aes128_decrypt_buffer_cbc memory buffer iv key len =
     (let round_key = aes128_expand_key key memory;
          num_blocks = len div 16
      in fold (decrypt_block round_key) [0..<num_blocks] (buffer, iv))"

section \<open>Every step has an inverse\<close>

lemma block_cases:
  assumes "length s = 16"
  obtains a0 a1 a2 a3 a4 a5 a6 a7 a8 a9 a10 a11 a12 a13 a14 a15
  where "s = [a0, a1, a2, a3, a4, a5, a6, a7, a8, a9, a10, a11, a12, a13, a14, a15]"
  using assms by (auto simp: numeral_eq_Suc length_Suc_conv)

lemma upt4: "[0..<4] = [0, 1, 2, 3 :: nat]" "[0..<16] = [0, 1, 2, 3, 4, 5, 6, 7, 8, 9, 10, 11, 12, 13, 14, 15 :: nat]"
  by (simp_all add: upt_rec)

lemma add_round_key_map:
  assumes "length s = 16"
  shows "add_round_key s rk r = map (\<lambda>i. s ! i XOR rk ! (r * 16 + i)) [0..<16]"
  using assms by (elim block_cases) (simp add: add_round_key_def upt4 ac_simps)

lemma xor_with_iv_map:
  assumes "length s = 16"
  shows "xor_with_iv s iv = map (\<lambda>i. s ! i XOR iv ! i) [0..<16]"
  using assms by (elim block_cases) (simp add: xor_with_iv_def upt4)

lemma sub_bytes_map:
  assumes "length s = 16"
  shows "sub_bytes s = map (\<lambda>x. aes128_sbox ! unat x) s" and "inverse_sub_bytes s = map (\<lambda>x. aes128_sbox_inverse ! unat x) s"
  using assms by (elim block_cases; simp add: sub_bytes_def inverse_sub_bytes_def upt4)+

lemma shift_rows_inverse:
  assumes "length s = 16"
  shows "inverse_shift_rows (shift_rows s) = s" and "shift_rows (inverse_shift_rows s) = s"
    and "length (shift_rows s) = 16" and "length (inverse_shift_rows s) = 16"
  using assms by (elim block_cases; simp add: shift_rows_def inverse_shift_rows_def Let_def)+

lemma sboxes:
  "map (\<lambda>x. aes128_sbox_inverse ! unat x) aes128_sbox = map of_nat [0..<256]"
  "map (\<lambda>x. aes128_sbox ! unat x) aes128_sbox_inverse = map of_nat [0..<256]"
  by code_simp+

lemma sbox_inverse: "aes128_sbox_inverse ! unat (aes128_sbox ! unat x) = x" "aes128_sbox ! unat (aes128_sbox_inverse ! unat x) = x"
proof -
  have x: "unat x < 256"
    using unsigned_less [of x] by simp
  have "length aes128_sbox = 256" "length aes128_sbox_inverse = 256"
    by (simp_all add: aes128_sbox_def aes128_sbox_inverse_def)
  then have "map (\<lambda>x. aes128_sbox_inverse ! unat x) aes128_sbox ! unat x = aes128_sbox_inverse ! unat (aes128_sbox ! unat x)"
      "map (\<lambda>x. aes128_sbox ! unat x) aes128_sbox_inverse ! unat x = aes128_sbox ! unat (aes128_sbox_inverse ! unat x)"
    using x by simp_all
  moreover have "map of_nat [0..<256] ! unat x = x"
    using x by simp
  ultimately show "aes128_sbox_inverse ! unat (aes128_sbox ! unat x) = x" "aes128_sbox ! unat (aes128_sbox_inverse ! unat x) = x"
    unfolding sboxes by simp_all
qed

lemma sub_bytes_inverse:
  assumes "length s = 16"
  shows "inverse_sub_bytes (sub_bytes s) = s" and "sub_bytes (inverse_sub_bytes s) = s"
    and "length (sub_bytes s) = 16" and "length (inverse_sub_bytes s) = 16"
  using assms by (simp_all add: sub_bytes_map sbox_inverse comp_def)

lemma add_round_key_inverse:
  assumes "length s = 16"
  shows "add_round_key (add_round_key s rk r) rk r = s" and "length (add_round_key s rk r) = 16"
proof -
  show "length (add_round_key s rk r) = 16"
    using assms by (simp add: add_round_key_map)
  show "add_round_key (add_round_key s rk r) rk r = s"
    using assms by (intro nth_equalityI) (simp_all add: add_round_key_map xor.assoc)
qed

lemma xor_with_iv_inverse:
  assumes "length s = 16"
  shows "xor_with_iv (xor_with_iv s iv) iv = s" and "length (xor_with_iv s iv) = 16"
proof -
  show "length (xor_with_iv s iv) = 16"
    using assms by (simp add: xor_with_iv_map)
  show "xor_with_iv (xor_with_iv s iv) iv = s"
    using assms by (intro nth_equalityI) (simp_all add: xor_with_iv_map xor.assoc)
qed

text \<open>xtime is linear, and the products with the constants of the inverse are sums of its powers.\<close>

lemma xtime_carry: "xtime x = push_bit 1 x XOR (if bit x 7 then 0x1b else 0)"
proof -
  have "drop_bit 7 x AND 1 = (if bit x 7 then 1 else 0 :: u8)"
    by (simp add: and_one_eq bit_iff_odd_drop_bit odd_iff_mod_2_eq_one)
  then show ?thesis
    by (simp add: xtime_def)
qed

lemma xtime_xor: "xtime (x XOR y) = xtime x XOR xtime y"
proof -
  have "push_bit 1 (x XOR y) = push_bit 1 x XOR push_bit 1 y"
    by (rule bit_word_eqI) (auto simp: bit_simps)
  then show ?thesis
    by (auto simp: xtime_carry bit_xor_iff xor.assoc xor.left_commute xor.commute)
qed

lemma gf2_8_mul_consts:
  "gf2_8_mul x 0x0e = xtime x XOR xtime (xtime x) XOR xtime (xtime (xtime x))"
  "gf2_8_mul x 0x0b = x XOR xtime x XOR xtime (xtime (xtime x))"
  "gf2_8_mul x 0x0d = x XOR xtime (xtime x) XOR xtime (xtime (xtime x))"
  "gf2_8_mul x 0x09 = x XOR xtime (xtime (xtime x))"
  by (simp_all add: gf2_8_mul_def)

lemmas xor_cancel = xtime_xor xor.assoc xor.left_commute xor.commute

definition mixed :: "u8 \<Rightarrow> u8 \<Rightarrow> u8 \<Rightarrow> u8 \<Rightarrow> u8" where
  "mixed a b c d = xtime a XOR (b XOR xtime b) XOR c XOR d"

definition unmixed :: "u8 \<Rightarrow> u8 \<Rightarrow> u8 \<Rightarrow> u8 \<Rightarrow> u8" where
  "unmixed a b c d = gf2_8_mul a 0x0e XOR gf2_8_mul b 0x0b XOR gf2_8_mul c 0x0d XOR gf2_8_mul d 0x09"

lemma mix_columns_eq:
  "mix_columns [a0, a1, a2, a3, a4, a5, a6, a7, a8, a9, a10, a11, a12, a13, a14, a15] =
     [mixed a0 a1 a2 a3, mixed a1 a2 a3 a0, mixed a2 a3 a0 a1, mixed a3 a0 a1 a2,
      mixed a4 a5 a6 a7, mixed a5 a6 a7 a4, mixed a6 a7 a4 a5, mixed a7 a4 a5 a6,
      mixed a8 a9 a10 a11, mixed a9 a10 a11 a8, mixed a10 a11 a8 a9, mixed a11 a8 a9 a10,
      mixed a12 a13 a14 a15, mixed a13 a14 a15 a12, mixed a14 a15 a12 a13, mixed a15 a12 a13 a14]"
  by (simp add: mix_columns_def mix_column_def upt4 mixed_def Let_def xor_cancel)

lemma inverse_mix_columns_eq:
  "inverse_mix_columns [a0, a1, a2, a3, a4, a5, a6, a7, a8, a9, a10, a11, a12, a13, a14, a15] =
     [unmixed a0 a1 a2 a3, unmixed a1 a2 a3 a0, unmixed a2 a3 a0 a1, unmixed a3 a0 a1 a2,
      unmixed a4 a5 a6 a7, unmixed a5 a6 a7 a4, unmixed a6 a7 a4 a5, unmixed a7 a4 a5 a6,
      unmixed a8 a9 a10 a11, unmixed a9 a10 a11 a8, unmixed a10 a11 a8 a9, unmixed a11 a8 a9 a10,
      unmixed a12 a13 a14 a15, unmixed a13 a14 a15 a12, unmixed a14 a15 a12 a13, unmixed a15 a12 a13 a14]"
  by (simp add: inverse_mix_columns_def inverse_mix_column_def upt4 unmixed_def Let_def ac_simps)

lemma mixed_inverse:
  "unmixed (mixed a b c d) (mixed b c d a) (mixed c d a b) (mixed d a b c) = a"
  "mixed (unmixed a b c d) (unmixed b c d a) (unmixed c d a b) (unmixed d a b c) = a"
  by (simp_all add: mixed_def unmixed_def gf2_8_mul_consts xor_cancel)

lemma mix_columns_inverse:
  assumes "length s = 16"
  shows "inverse_mix_columns (mix_columns s) = s" and "mix_columns (inverse_mix_columns s) = s"
    and "length (mix_columns s) = 16" and "length (inverse_mix_columns s) = 16"
  using assms by (elim block_cases; simp add: mix_columns_eq inverse_mix_columns_eq mixed_inverse)+

section \<open>The cipher and its inverse\<close>

lemmas step_inverse = add_round_key_inverse sub_bytes_inverse shift_rows_inverse mix_columns_inverse

text \<open>Regrouped, each round is undone by one round of the inverse.\<close>

definition forward :: "u8 list \<Rightarrow> nat \<Rightarrow> u8 list \<Rightarrow> u8 list" where
  "forward rk r s = shift_rows (sub_bytes (add_round_key (mix_columns s) rk r))"

definition backward :: "u8 list \<Rightarrow> nat \<Rightarrow> u8 list \<Rightarrow> u8 list" where
  "backward rk r s = inverse_mix_columns (add_round_key (inverse_sub_bytes (inverse_shift_rows s)) rk r)"

lemma forward_backward:
  assumes "length s = 16"
  shows "backward rk r (forward rk r s) = s" and "forward rk r (backward rk r s) = s"
    and "length (forward rk r s) = 16" and "length (backward rk r s) = 16"
  using assms by (simp_all add: forward_def backward_def step_inverse)

lemma forward_fold:
  assumes "length s = 16"
  shows "fold (backward rk) (rev rs) (fold (forward rk) rs s) = s" and "length (fold (forward rk) rs s) = 16"
    and "fold (forward rk) rs (fold (backward rk) (rev rs) s) = s" and "length (fold (backward rk) (rev rs) s) = 16"
proof -
  have len: "length (fold (forward rk) rs s) = 16" "length (fold (backward rk) (rev rs) s) = 16" if "length s = 16" for s rs
    using that by (induction rs arbitrary: s) (simp_all add: forward_backward)
  have "fold (backward rk) (rev rs) (fold (forward rk) rs s) = s" "fold (forward rk) rs (fold (backward rk) (rev rs) s) = s" if "length s = 16" for s
    using that by (induction rs arbitrary: s) (simp_all add: forward_backward len)
  then show "fold (backward rk) (rev rs) (fold (forward rk) rs s) = s" "fold (forward rk) rs (fold (backward rk) (rev rs) s) = s"
      "length (fold (forward rk) rs s) = 16" "length (fold (backward rk) (rev rs) s) = 16"
    using assms len by simp_all
qed

definition rounds :: "nat list" where
  "rounds = [1, 2, 3, 4, 5, 6, 7, 8, 9]"

lemma cipher_rounds:
  "aes128_cipher s rk =
     add_round_key (fold (forward rk) rounds (shift_rows (sub_bytes (add_round_key s rk 0)))) rk 10"
  "aes128_inverse_cipher s rk =
     add_round_key (inverse_sub_bytes (inverse_shift_rows
       (fold (backward rk) (rev rounds) (add_round_key s rk 10)))) rk 0"
proof -
  have "[1..<10] = [1, 2, 3, 4, 5, 6, 7, 8, 9 :: nat]"
    by (simp add: upt_rec)
  then show "aes128_cipher s rk =
     add_round_key (fold (forward rk) rounds (shift_rows (sub_bytes (add_round_key s rk 0)))) rk 10"
    by (simp add: aes128_cipher_def forward_def rounds_def)
qed (simp add: aes128_inverse_cipher_def backward_def rounds_def)

lemma cipher_inverse:
  assumes "length s = 16"
  shows "aes128_inverse_cipher (aes128_cipher s rk) rk = s" and "aes128_cipher (aes128_inverse_cipher s rk) rk = s"
    and "length (aes128_cipher s rk) = 16" and "length (aes128_inverse_cipher s rk) = 16"
  using assms by (simp_all add: cipher_rounds step_inverse forward_fold)

section \<open>Chaining\<close>

text \<open>The blocks that cipher block chaining makes from a list of blocks, and back.\<close>

fun cbc_encrypt :: "u8 list \<Rightarrow> u8 list \<Rightarrow> u8 list list \<Rightarrow> u8 list list" where
  "cbc_encrypt rk iv [] = []"
| "cbc_encrypt rk iv (b # bs) = (let c = aes128_cipher (xor_with_iv b iv) rk in c # cbc_encrypt rk c bs)"

fun cbc_decrypt :: "u8 list \<Rightarrow> u8 list \<Rightarrow> u8 list list \<Rightarrow> u8 list list" where
  "cbc_decrypt rk iv [] = []"
| "cbc_decrypt rk iv (c # cs) = xor_with_iv (aes128_inverse_cipher c rk) iv # cbc_decrypt rk c cs"

lemma cbc_step:
  assumes "length b = 16"
  shows "length (aes128_cipher (xor_with_iv b iv) rk) = 16" and "length (xor_with_iv (aes128_inverse_cipher b rk) iv) = 16"
    and "xor_with_iv (aes128_inverse_cipher (aes128_cipher (xor_with_iv b iv) rk) rk) iv = b"
    and "aes128_cipher (xor_with_iv (xor_with_iv (aes128_inverse_cipher b rk) iv) iv) rk = b"
  using assms by (simp_all add: cipher_inverse xor_with_iv_inverse)

lemma cbc_encrypt_lengths:
  "\<forall>b\<in>set bs. length b = 16 \<Longrightarrow> length (cbc_encrypt rk iv bs) = length bs \<and> (\<forall>c\<in>set (cbc_encrypt rk iv bs). length c = 16)"
proof (induction bs arbitrary: iv)
  case (Cons b bs)
  then show ?case
    using cbc_step(1) [of b iv rk] Cons.IH [of "aes128_cipher (xor_with_iv b iv) rk"] by (simp add: Let_def)
qed simp

lemma cbc_decrypt_lengths:
  "\<forall>b\<in>set bs. length b = 16 \<Longrightarrow> length (cbc_decrypt rk iv bs) = length bs \<and> (\<forall>c\<in>set (cbc_decrypt rk iv bs). length c = 16)"
proof (induction bs arbitrary: iv)
  case (Cons b bs)
  then show ?case
    using cbc_step(2) [of b rk iv] Cons.IH [of b] by simp
qed simp

lemma cbc_inverse:
  assumes "\<forall>b\<in>set bs. length b = 16"
  shows "cbc_decrypt rk iv (cbc_encrypt rk iv bs) = bs" and "cbc_encrypt rk iv (cbc_decrypt rk iv bs) = bs"
proof -
  show "cbc_decrypt rk iv (cbc_encrypt rk iv bs) = bs"
    using assms
  proof (induction bs arbitrary: iv)
    case (Cons b bs)
    then show ?case
      using cbc_step(3) [of b iv rk] by (simp add: Let_def)
  qed simp
  show "cbc_encrypt rk iv (cbc_decrypt rk iv bs) = bs"
    using assms
  proof (induction bs arbitrary: iv)
    case (Cons b bs)
    then show ?case
      using cbc_step(4) [of b rk iv] by (simp add: Let_def)
  qed simp
qed

lemma upt_first: "[i..<i + Suc n] = i # [Suc i..<Suc i + n]"
  by (simp add: upt_conv_Cons del: upt_Suc)

lemma blocks_loop:
  assumes step: "\<And>i pre b rest iv. length pre = i * 16 \<Longrightarrow> length b = 16 \<Longrightarrow>
      step i (pre @ b @ rest, iv) = (pre @ fst (g iv b) @ rest, snd (g iv b)) \<and> length (fst (g iv b)) = 16"
    and "length pre = i * 16" and "\<forall>b\<in>set bs. length b = 16"
    and f: "\<And>iv. f iv [] = []" "\<And>iv b bs. f iv (b # bs) = fst (g iv b) # f (snd (g iv b)) bs"
    and h: "\<And>iv. h iv [] = iv" "\<And>iv b bs. h iv (b # bs) = h (snd (g iv b)) bs"
  shows "fold step [i..<i + length bs] (pre @ concat bs @ rest, iv) = (pre @ concat (f iv bs) @ rest, h iv bs)"
  using assms(2,3)
proof (induction bs arbitrary: pre i iv)
  case Nil
  then show ?case
    by (simp add: f h)
next
  case (Cons b bs)
  define b' iv' where "b' = fst (g iv b)" and "iv' = snd (g iv b)"
  have b': "step i (pre @ b @ concat bs @ rest, iv) = (pre @ b' @ concat bs @ rest, iv')" "length b' = 16"
    using step [of pre i b "concat bs @ rest" iv] Cons.prems by (simp_all add: b'_def iv'_def)
  have "length (pre @ b') = Suc i * 16" "\<forall>b\<in>set bs. length b = 16"
    using Cons.prems b'(2) by simp_all
  from Cons.IH [OF this, of iv'] show ?case
    using b'(1) unfolding length_Cons upt_first by (simp add: f(2) h(2) b'_def [symmetric] iv'_def [symmetric] del: upt_Suc)
qed

lemma encrypt_loop:
  assumes "\<forall>b\<in>set bs. length b = 16"
  shows "fold (encrypt_block rk) [0..<length bs] (concat bs @ rest, iv) =
    (concat (cbc_encrypt rk iv bs) @ rest, last (iv # cbc_encrypt rk iv bs))"
  using blocks_loop [where step = "encrypt_block rk" and f = "cbc_encrypt rk" and pre = "[]" and i = 0 and bs = bs
      and g = "\<lambda>iv b. (aes128_cipher (xor_with_iv b iv) rk, aes128_cipher (xor_with_iv b iv) rk)"
      and h = "\<lambda>iv bs. last (iv # cbc_encrypt rk iv bs)"] assms
  by (simp add: encrypt_block_def get_block_def put_block_def Let_def cipher_inverse xor_with_iv_inverse)

lemma decrypt_loop:
  assumes "\<forall>b\<in>set bs. length b = 16"
  shows "fold (decrypt_block rk) [0..<length bs] (concat bs @ rest, iv) = (concat (cbc_decrypt rk iv bs) @ rest, last (iv # bs))"
  using blocks_loop [where step = "decrypt_block rk" and f = "cbc_decrypt rk" and pre = "[]" and i = 0 and bs = bs
      and g = "\<lambda>iv b. (xor_with_iv (aes128_inverse_cipher b rk) iv, b)" and h = "\<lambda>iv bs. last (iv # bs)"] assms
  by (simp add: decrypt_block_def get_block_def put_block_def Let_def cipher_inverse xor_with_iv_inverse)

text \<open>The blocks of a buffer.\<close>

lemma buffer_blocks:
  assumes "n * 16 \<le> length buffer"
  shows "\<exists>bs. length bs = n \<and> (\<forall>b\<in>set bs. length b = 16) \<and> take (n * 16) buffer = concat bs"
  using assms
proof (induction n arbitrary: buffer)
  case (Suc n)
  obtain bs where bs: "length bs = n" "\<forall>b\<in>set bs. length b = 16" "take (n * 16) (drop 16 buffer) = concat bs"
    using Suc.IH [of "drop 16 buffer"] Suc.prems by (metis add.commute diff_le_mono diff_add_inverse length_drop mult_Suc)
  have "take (Suc n * 16) buffer = take 16 buffer @ take (n * 16) (drop 16 buffer)"
    by (simp add: take_add)
  then show ?case
    using bs Suc.prems by (intro exI [of _ "take 16 buffer # bs"]) simp
qed simp

lemma concat_length: "\<forall>b\<in>set bs. length b = 16 \<Longrightarrow> length (concat bs) = length bs * 16"
  by (induction bs) simp_all

text \<open>
  C31: aes128_encrypt_buffer_cbc cuts the whole blocks of the buffer into the chain of block
  ciphers and leaves the bytes behind the last whole block as they are, in the clear; it leaves the
  last block of the ciphertext in iv. Decryption does the inverse.
\<close>

theorem aes_cbc_blocks:
  assumes "len \<le> length buffer"
  shows "\<exists>bs. length bs = len div 16 \<and> (\<forall>b\<in>set bs. length b = 16) \<and> buffer = concat bs @ drop (len div 16 * 16) buffer \<and>
    (let rk = aes128_expand_key key memory; cs = cbc_encrypt rk iv bs
     in aes128_encrypt_buffer_cbc memory buffer iv key len = (concat cs @ drop (len div 16 * 16) buffer, last (iv # cs)) \<and>
        aes128_decrypt_buffer_cbc memory buffer iv key len =
          (concat (cbc_decrypt rk iv bs) @ drop (len div 16 * 16) buffer, last (iv # bs)))"
proof -
  have "len div 16 * 16 \<le> length buffer"
    using assms by linarith
  then obtain bs where bs: "length bs = len div 16" "\<forall>b\<in>set bs. length b = 16" "take (len div 16 * 16) buffer = concat bs"
    using buffer_blocks by blast
  have buffer: "buffer = concat bs @ drop (len div 16 * 16) buffer"
    unfolding bs(3) [symmetric] by simp
  define rest where "rest = drop (len div 16 * 16) buffer"
  have "buffer = concat bs @ rest"
    using buffer by (simp only: rest_def)
  then have "fold (encrypt_block rk) [0..<len div 16] (buffer, iv) = (concat (cbc_encrypt rk iv bs) @ rest, last (iv # cbc_encrypt rk iv bs))"
      "fold (decrypt_block rk) [0..<len div 16] (buffer, iv) = (concat (cbc_decrypt rk iv bs) @ rest, last (iv # bs))" for rk
    using encrypt_loop [OF bs(2)] decrypt_loop [OF bs(2)] bs(1) by simp_all
  then show ?thesis
    using bs(1,2) buffer unfolding Let_def aes128_encrypt_buffer_cbc_def aes128_decrypt_buffer_cbc_def rest_def by blast
qed

theorem aes_cbc_blocks_witness:
  "\<exists>bs. length bs = (20 :: nat) div 16 \<and> replicate 20 (7 :: u8) = concat bs @ drop (20 div 16 * 16) (replicate 20 7)"
  using aes_cbc_blocks [of 20 "replicate 20 7" "[]" "[]" "[]"] by auto

text \<open>The expanded key does not depend on what was in its memory.\<close>

lemma expand_word_agree:
  assumes "4 \<le> i" "i < 44" "length r = 176" "length r' = 176" and "\<And>k. k < 4 * i \<Longrightarrow> r ! k = r' ! k"
  shows "length (expand_word i r) = 176" and "k < 4 * Suc i \<Longrightarrow> expand_word i r ! k = expand_word i r' ! k"
proof -
  show "length (expand_word i r) = 176"
    using assms(3) by (simp add: expand_word_def Let_def)
  have temp: "key_temp i r = key_temp i r'"
    using assms(1,2) assms(5) [of "(i - 1) * 4"] assms(5) [of "(i - 1) * 4 + 1"] assms(5) [of "(i - 1) * 4 + 2"]
      assms(5) [of "(i - 1) * 4 + 3"] by (simp add: key_temp_def Let_def)
  show "expand_word i r ! k = expand_word i r' ! k" if "k < 4 * Suc i"
    using that assms by (simp add: expand_word_def Let_def temp nth_list_update)
qed

lemma expand_words_agree:
  assumes "4 \<le> i" "i + n \<le> 44" "length r = 176" "length r' = 176" and "\<And>k. k < 4 * i \<Longrightarrow> r ! k = r' ! k"
  shows "length (fold expand_word [i..<i + n] r) = 176 \<and>
    (\<forall>k<4 * (i + n). fold expand_word [i..<i + n] r ! k = fold expand_word [i..<i + n] r' ! k)"
  using assms
proof (induction n arbitrary: i r r')
  case (Suc n)
  have "length (expand_word i r) = 176" "length (expand_word i r') = 176"
      "\<And>k. k < 4 * Suc i \<Longrightarrow> expand_word i r ! k = expand_word i r' ! k"
    using Suc.prems expand_word_agree [of i r r'] expand_word_agree(1) [of i r' r'] by simp_all
  then show ?case
    using Suc.IH [of "Suc i" "expand_word i r" "expand_word i r'"] Suc.prems(1,2) unfolding upt_first by (simp del: upt_Suc)
qed simp

lemma expand_key_fixed:
  assumes "length m = 176" "length m' = 176"
  shows "aes128_expand_key key m = aes128_expand_key key m'"
proof -
  define f where "f i round_key = round_key[i := key ! i, i + 1 := key ! (i + 1), i + 2 := key ! (i + 2), i + 3 := key ! (i + 3)]" for i round_key
  have word: "f i r ! k = (if i \<le> k \<and> k < i + 4 then key ! k else r ! k)" if "i + 4 \<le> length r" for i k r
  proof (cases "i \<le> k \<and> k < i + 4")
    case True
    then have "k = i \<or> k = i + 1 \<or> k = i + 2 \<or> k = i + 3"
      by auto
    then show ?thesis
      using that by (elim disjE) (simp_all add: f_def nth_list_update)
  qed (use that in \<open>auto simp: f_def nth_list_update\<close>)
  have len: "length (f i r) = length r" for i r
    by (simp add: f_def)
  have f: "fold f [0, 4, 8, 12] m ! k = (if k < 16 then key ! k else m ! k)" "length (fold f [0, 4, 8, 12] m) = 176" if "length m = 176" for k m
    using that by (auto simp: word len)
  define e where "e r = fold expand_word [4..<4 + 40] r" for r
  have e: "length (e r) = 176 \<and> (\<forall>k<176. e r ! k = e r' ! k)"
    if "length r = 176" "length r' = 176" "\<And>k. k < 16 \<Longrightarrow> r ! k = r' ! k" for r r'
    using that expand_words_agree [of 4 40 r r'] unfolding e_def by simp
  have "length (e (fold f [0, 4, 8, 12] m)) = 176 \<and> (\<forall>k<176. e (fold f [0, 4, 8, 12] m) ! k = e (fold f [0, 4, 8, 12] m') ! k)"
    if "length m = 176" "length m' = 176" for m m'
    using that by (intro e) (simp_all only: f if_True)
  then have "e (fold f [0, 4, 8, 12] m) = e (fold f [0, 4, 8, 12] m')"
    using assms by (intro nth_equalityI) metis+
  moreover have "aes128_expand_key key r = e (fold f [0, 4, 8, 12] r)" for r
    unfolding aes128_expand_key_def f_def [abs_def] e_def Let_def by (rule arg_cong2 [of _ _ _ _ "fold expand_word"]) (simp_all del: upt_rec_numeral)
  ultimately show ?thesis
    by simp
qed

text \<open>
  C30: Decrypting an encrypted buffer with the same key and initialization vector gives the
  buffer back, whatever its length, and encrypting a decrypted one as well; the memory for the
  round keys, which the code does not initialise, does not matter.
\<close>

theorem aes_cbc_roundtrip:
  assumes "len \<le> length buffer" and "length memory = 176" "length memory' = 176"
  shows "fst (aes128_decrypt_buffer_cbc memory' (fst (aes128_encrypt_buffer_cbc memory buffer iv key len)) iv key len) = buffer \<and>
    fst (aes128_encrypt_buffer_cbc memory' (fst (aes128_decrypt_buffer_cbc memory buffer iv key len)) iv key len) = buffer"
proof -
  have "len div 16 * 16 \<le> length buffer"
    using assms(1) by linarith
  then obtain bs where bs: "length bs = len div 16" "\<forall>b\<in>set bs. length b = 16" "take (len div 16 * 16) buffer = concat bs"
    using buffer_blocks by blast
  define rest where "rest = drop (len div 16 * 16) buffer"
  have buffer: "buffer = concat bs @ rest"
    unfolding bs(3) [symmetric] rest_def by simp
  note cs = cbc_encrypt_lengths [OF bs(2)] cbc_decrypt_lengths [OF bs(2)]
  have key: "aes128_expand_key key memory' = aes128_expand_key key memory"
    using assms(2,3) by (rule expand_key_fixed [symmetric])
  show ?thesis
    unfolding aes128_encrypt_buffer_cbc_def aes128_decrypt_buffer_cbc_def Let_def key buffer
    using encrypt_loop [OF bs(2)] decrypt_loop [OF bs(2)] encrypt_loop [OF conjunct2 [OF cs(2)]] decrypt_loop [OF conjunct2 [OF cs(1)]]
    by (simp add: bs(1) cs cbc_inverse [OF bs(2)] flip: bs(1))
qed

theorem aes_cbc_roundtrip_witness:
  "fst (aes128_decrypt_buffer_cbc (replicate 176 1) (fst (aes128_encrypt_buffer_cbc (replicate 176 0) (replicate 35 7)
     (replicate 16 1) (replicate 16 2) 35)) (replicate 16 1) (replicate 16 2) 35) = replicate 35 7"
  using aes_cbc_roundtrip [of 35 "replicate 35 7" "replicate 176 0" "replicate 176 1" "replicate 16 1" "replicate 16 2"]
  by (metis order_refl length_replicate)

end
