(* ===== verification/Field_Conversion.thy ===== *)
theory Field_Conversion
  imports Fr Prelude
begin

text \<open>
  ecc/fields/field_conversion.hpp and .cpp: the encoding of the values of a transcript as vectors
  of elements of the scalar field fr. The code selects the encoding by the type of a value; here a
  value carries its type, and the types are values too. An element of grumpkin::fr is the integer
  below the modulus that stands for it, and a uint256_t an integer: nothing here wraps around.

  An affine point at infinity is marked by the most significant bit of the limbs of its x. For a
  point of bn254 these limbs are a part of the value, so that the encoding of x reads them as the
  code does. A point at infinity of Grumpkin is not a value here: its x is an element of fr, which the
  code copies with its flag into the vector, and an element of ff has no flag.
\<close>

section \<open>Values and their types\<close>

text \<open>The modulus of grumpkin::fr, the base field of bn254.\<close>

definition fq_modulus :: int where
  "fq_modulus = 0x30644e72e131a029b85045b68181585d97816a916871ca8d3c208c16d87cfd47"

definition fq_params :: field_params where
  "fq_params = \<lparr>
     modulus = Uint256 0x3C208C16D87CFD47 0x97816a916871ca8d 0xb85045b68181585d 0x30644e72e131a029,
     r_squared = Uint256 0xF32CFC5B538AFA89 0xB5E71911D44501FB 0x47AB1EFF0A417FF6 0x06D89F71CAB8351F,
     r_inv = 0x87d20782e4866389,
     primitive_root = Uint256 0 0 0 0\<rparr>"

text \<open>The coordinates of a point at infinity are the limbs of x, with its flag set, and y.\<close>

datatype transcript_type = T_bool | T_uint32 | T_fr | T_grumpkin_fr | T_bn254_affine | T_grumpkin_affine
  | T_array transcript_type nat

datatype transcript_value = V_bool bool | V_uint32 u32 | V_fr ff | V_grumpkin_fr int | V_bn254_affine int int
  | V_bn254_infinity uint256_t int | V_grumpkin_affine ff ff | V_array "transcript_value list"

datatype transcript_error = Assertion_failed | Out_of_range

definition is_fq :: "int \<Rightarrow> bool" where
  "is_fq x \<longleftrightarrow> 0 \<le> x \<and> x < fq_modulus"

fun has_type :: "transcript_value \<Rightarrow> transcript_type \<Rightarrow> bool" where
  "has_type (V_bool b) T_bool = True"
| "has_type (V_uint32 w) T_uint32 = True"
| "has_type (V_fr x) T_fr = True"
| "has_type (V_grumpkin_fr x) T_grumpkin_fr = is_fq x"
| "has_type (V_bn254_affine x y) T_bn254_affine = (is_fq x \<and> is_fq y)"
| "has_type (V_bn254_infinity x y) T_bn254_affine = (fe_is_msb_set x \<and> is_fq y)"
| "has_type (V_grumpkin_affine x y) T_grumpkin_affine = True"
| "has_type (V_array vs) (T_array T n) = (length vs = n \<and> (\<forall>v\<in>set vs. has_type v T))"
| "has_type _ _ = False"

text \<open>A value without a point at infinity in it.\<close>

fun finite_points :: "transcript_value \<Rightarrow> bool" where
  "finite_points (V_bn254_infinity x y) = False"
| "finite_points (V_array vs) = (\<forall>v\<in>set vs. finite_points v)"
| "finite_points _ = True"

section \<open>Elements of grumpkin::fr\<close>

definition NUM_LIMB_BITS :: nat where
  "NUM_LIMB_BITS = 68"

definition TOTAL_BITS :: nat where
  "TOTAL_BITS = 254"

definition convert_grumpkin_fr_from_bn254_frs :: "ff list \<Rightarrow> transcript_error + int" where
  "convert_grumpkin_fr_from_bn254_frs fr_vec =
     (if \<not> ff_int (fr_vec ! 0) < push_bit (NUM_LIMB_BITS * 2) 1 then Inl Assertion_failed
      else if \<not> ff_int (fr_vec ! 1) < push_bit (TOTAL_BITS - NUM_LIMB_BITS * 2) 1 then Inl Assertion_failed
      else let value = ff_int (fr_vec ! 0) + push_bit (NUM_LIMB_BITS * 2) (ff_int (fr_vec ! 1))
           in Inr (value mod fq_modulus))"

definition convert_grumpkin_fr_to_bn254_frs :: "int \<Rightarrow> transcript_error + ff list" where
  "convert_grumpkin_fr_to_bn254_frs val =
     (let LOWER_BITS = 2 * NUM_LIMB_BITS;
          LOWER_MASK = push_bit LOWER_BITS 1 - 1
      in if \<not> val < push_bit TOTAL_BITS 1 then Inl Assertion_failed
      else let result = [of_int (val AND LOWER_MASK), of_int (drop_bit LOWER_BITS val)]
      in if \<not> ff_int (result ! 1) < push_bit (TOTAL_BITS - LOWER_BITS) 1 then Inl Assertion_failed
      else Inr result)"

definition convert_to_grumpkin_fr :: "ff \<Rightarrow> transcript_error + int" where
  "convert_to_grumpkin_fr f =
     (let NUM_BITS_IN_TWO_LIMBS = 2 * NUM_LIMB_BITS;
          LIMB_MASK = push_bit NUM_BITS_IN_TWO_LIMBS 1 - 1;
          value = ff_int f;
          low = value AND LIMB_MASK;
          hi = drop_bit NUM_BITS_IN_TWO_LIMBS value
      in if low + push_bit NUM_BITS_IN_TWO_LIMBS hi \<noteq> value then Inl Assertion_failed
      else convert_grumpkin_fr_from_bn254_frs [of_int low, of_int hi])"

section \<open>Conversions by type\<close>

abbreviation FR_NUM_BN254_SCALARS :: nat where
  "FR_NUM_BN254_SCALARS \<equiv> 1"

abbreviation FQ_NUM_BN254_SCALARS :: nat where
  "FQ_NUM_BN254_SCALARS \<equiv> 2"

fun calc_num_bn254_frs :: "transcript_type \<Rightarrow> nat" where
  "calc_num_bn254_frs T_bool = 1"
| "calc_num_bn254_frs T_uint32 = 1"
| "calc_num_bn254_frs T_fr = FR_NUM_BN254_SCALARS"
| "calc_num_bn254_frs T_grumpkin_fr = FQ_NUM_BN254_SCALARS"
| "calc_num_bn254_frs T_bn254_affine = 2 * FQ_NUM_BN254_SCALARS"
| "calc_num_bn254_frs T_grumpkin_affine = 2 * FR_NUM_BN254_SCALARS"
| "calc_num_bn254_frs (T_array T n) = calc_num_bn254_frs T * n"

definition subspan :: "nat \<Rightarrow> nat \<Rightarrow> 'a list \<Rightarrow> 'a list" where
  "subspan offset count xs = take count (drop offset xs)"

text \<open>The conversions to bool and uint32_t read the low limb; the first asserts that it is a bit.\<close>

definition fr_to_bool :: "ff \<Rightarrow> transcript_error + bool" where
  "fr_to_bool x = (if ff_int x mod 2 ^ 64 \<in> {0, 1} then Inr (ff_int x mod 2 ^ 64 \<noteq> 0) else Inl Assertion_failed)"

definition fr_to_u32 :: "ff \<Rightarrow> u32" where
  "fr_to_u32 x = word_of_int (ff_int x mod 2 ^ 64)"

fun convert_elements :: "(ff list \<Rightarrow> transcript_error + transcript_value) \<Rightarrow> nat \<Rightarrow> ff list \<Rightarrow> nat list \<Rightarrow>
    transcript_error + transcript_value list" where
  "convert_elements conv sz fr_vec [] = Inr []"
| "convert_elements conv sz fr_vec (i # is) =
     ebind (conv (subspan (sz * i) sz fr_vec)) (\<lambda>x.
     ebind (convert_elements conv sz fr_vec is) (\<lambda>xs. Inr (x # xs)))"

fun convert_from_bn254_frs :: "transcript_type \<Rightarrow> ff list \<Rightarrow> transcript_error + transcript_value" where
  "convert_from_bn254_frs T_bool fr_vec =
     (if length fr_vec = 1 then ebind (fr_to_bool (fr_vec ! 0)) (\<lambda>b. Inr (V_bool b)) else Inl Assertion_failed)"
| "convert_from_bn254_frs T_uint32 fr_vec =
     (if length fr_vec = 1 then Inr (V_uint32 (fr_to_u32 (fr_vec ! 0))) else Inl Assertion_failed)"
| "convert_from_bn254_frs T_fr fr_vec =
     (if length fr_vec = 1 then Inr (V_fr (fr_vec ! 0)) else Inl Assertion_failed)"
| "convert_from_bn254_frs T_grumpkin_fr fr_vec =
     (if length fr_vec = 2 then ebind (convert_grumpkin_fr_from_bn254_frs fr_vec) (\<lambda>x. Inr (V_grumpkin_fr x)) else Inl Assertion_failed)"
| "convert_from_bn254_frs T_bn254_affine fr_vec =
     (let BASE_FIELD_SCALAR_SIZE = calc_num_bn254_frs T_grumpkin_fr
      in if length fr_vec = 2 * BASE_FIELD_SCALAR_SIZE
         then ebind (convert_grumpkin_fr_from_bn254_frs (subspan 0 BASE_FIELD_SCALAR_SIZE fr_vec)) (\<lambda>x.
              ebind (convert_grumpkin_fr_from_bn254_frs (subspan BASE_FIELD_SCALAR_SIZE BASE_FIELD_SCALAR_SIZE fr_vec)) (\<lambda>y.
              Inr (V_bn254_affine x y)))
         else Inl Assertion_failed)"
| "convert_from_bn254_frs T_grumpkin_affine fr_vec =
     (if length fr_vec = 2 * calc_num_bn254_frs T_fr then Inr (V_grumpkin_affine (fr_vec ! 0) (fr_vec ! 1)) else Inl Assertion_failed)"
| "convert_from_bn254_frs (T_array T n) fr_vec =
     (let FieldScalarSize = calc_num_bn254_frs T
      in if length fr_vec = FieldScalarSize * n
         then ebind (convert_elements (convert_from_bn254_frs T) FieldScalarSize fr_vec [0..<n]) (\<lambda>vs. Inr (V_array vs))
         else Inl Assertion_failed)"

fun convert_to_bn254_frs :: "transcript_value \<Rightarrow> transcript_error + ff list"
  and convert_all_to_bn254_frs :: "transcript_value list \<Rightarrow> transcript_error + ff list" where
  "convert_to_bn254_frs (V_bool b) = Inr [of_bool b]"
| "convert_to_bn254_frs (V_uint32 w) = Inr [of_int (uint w)]"
| "convert_to_bn254_frs (V_fr x) = Inr [x]"
| "convert_to_bn254_frs (V_grumpkin_fr x) = convert_grumpkin_fr_to_bn254_frs x"
| "convert_to_bn254_frs (V_bn254_affine x y) =
     ebind (convert_grumpkin_fr_to_bn254_frs x) (\<lambda>fr_vec_x. ebind (convert_grumpkin_fr_to_bn254_frs y) (\<lambda>fr_vec_y.
     Inr (fr_vec_x @ fr_vec_y)))"
| "convert_to_bn254_frs (V_bn254_infinity x y) =
     ebind (convert_grumpkin_fr_to_bn254_frs (ival (fe_to_uint256 fq_params x))) (\<lambda>fr_vec_x.
     ebind (convert_grumpkin_fr_to_bn254_frs y) (\<lambda>fr_vec_y. Inr (fr_vec_x @ fr_vec_y)))"
| "convert_to_bn254_frs (V_grumpkin_affine x y) = Inr [x, y]"
| "convert_to_bn254_frs (V_array vs) = convert_all_to_bn254_frs vs"
| "convert_all_to_bn254_frs [] = Inr []"
| "convert_all_to_bn254_frs (v # vs) =
     ebind (convert_to_bn254_frs v) (\<lambda>tmp_vec. ebind (convert_all_to_bn254_frs vs) (\<lambda>fr_vec. Inr (tmp_vec @ fr_vec)))"

text \<open>A challenge is an element of fr or of grumpkin::fr.\<close>

datatype challenge_type = C_fr | C_grumpkin_fr

fun convert_challenge :: "challenge_type \<Rightarrow> ff \<Rightarrow> transcript_error + transcript_value" where
  "convert_challenge C_fr challenge = Inr (V_fr challenge)"
| "convert_challenge C_grumpkin_fr challenge = ebind (convert_to_grumpkin_fr challenge) (\<lambda>x. Inr (V_grumpkin_fr x))"

section \<open>Round trips\<close>

lemma limb_bits: "NUM_LIMB_BITS * 2 = 136" "2 * NUM_LIMB_BITS = 136" "TOTAL_BITS = 254"
  by (simp_all add: NUM_LIMB_BITS_def TOTAL_BITS_def)

lemma mask_136: "(x :: int) AND (push_bit 136 1 - 1) = x mod 2 ^ 136"
proof -
  have "x AND (push_bit 136 1 - 1) = x AND mask 136"
    by (simp only: mask_eq_exp_minus_1 push_bit_of_1)
  also have "\<dots> = x mod 2 ^ 136"
    by (simp only: take_bit_eq_mask [symmetric] take_bit_eq_mod)
  finally show ?thesis .
qed

lemma small_ff: "0 \<le> x \<Longrightarrow> x < 2 ^ 253 \<Longrightarrow> ff_int (of_int x) = x"
  by (simp add: mod_pos_pos_trivial)

lemma fq_modulus_bits: "fq_modulus < 2 ^ 254"
  by (simp add: fq_modulus_def)

lemma grumpkin_fr_to:
  assumes "0 \<le> x" "x < 2 ^ 254"
  shows "convert_grumpkin_fr_to_bn254_frs x = Inr [of_int (x mod 2 ^ 136), of_int (x div 2 ^ 136)]"
    and "ff_int (of_int (x mod 2 ^ 136)) = x mod 2 ^ 136" and "ff_int (of_int (x div 2 ^ 136)) = x div 2 ^ 136"
    and "x div 2 ^ 136 < 2 ^ 118"
proof -
  have hi: "0 \<le> x div 2 ^ 136" "x div 2 ^ 136 < 2 ^ 118"
    using assms by (simp_all add: pos_imp_zdiv_nonneg_iff)
  then show ff: "ff_int (of_int (x div 2 ^ 136)) = x div 2 ^ 136"
    by (intro small_ff) (simp_all add: order.strict_trans [of _ "2 ^ 118"])
  show "ff_int (of_int (x mod 2 ^ 136)) = x mod 2 ^ 136"
    using pos_mod_bound [of "2 ^ 136" x] by (intro small_ff) (simp_all add: order.strict_trans [of _ "2 ^ 136"])
  show "x div 2 ^ 136 < 2 ^ 118"
    by (rule hi(2))
  show "convert_grumpkin_fr_to_bn254_frs x = Inr [of_int (x mod 2 ^ 136), of_int (x div 2 ^ 136)]"
    using assms hi(2) ff unfolding convert_grumpkin_fr_to_bn254_frs_def limb_bits Let_def mask_136 drop_bit_eq_div
    by (simp add: push_bit_eq_mult del: ff_int_of_int)
qed


lemma grumpkin_fr_from:
  assumes "is_fq x"
  shows "convert_grumpkin_fr_from_bn254_frs [of_int (x mod 2 ^ 136), of_int (x div 2 ^ 136)] = Inr x"
proof -
  have x: "0 \<le> x" "x < 2 ^ 254"
    using assms fq_modulus_bits by (simp_all add: is_fq_def)
  have "x mod 2 ^ 136 + push_bit 136 (x div 2 ^ 136) = x"
    by (simp add: push_bit_eq_mult)
  then show ?thesis
    using assms grumpkin_fr_to [OF x] pos_mod_bound [of "2 ^ 136" x]
    by (simp add: convert_grumpkin_fr_from_bn254_frs_def limb_bits push_bit_eq_mult is_fq_def mod_pos_pos_trivial del: ff_int_of_int)
qed

lemma grumpkin_fr_roundtrip:
  assumes "is_fq x"
  shows "\<exists>frs. convert_grumpkin_fr_to_bn254_frs x = Inr frs \<and> length frs = 2 \<and> convert_grumpkin_fr_from_bn254_frs frs = Inr x"
proof -
  have "0 \<le> x" "x < 2 ^ 254"
    using assms fq_modulus_bits by (simp_all add: is_fq_def)
  then show ?thesis
    using grumpkin_fr_to(1) grumpkin_fr_from [OF assms] by simp
qed

lemma convert_challenge_returns: "\<exists>v. convert_challenge T f = Inr v \<and> has_type v (case T of C_fr \<Rightarrow> T_fr | C_grumpkin_fr \<Rightarrow> T_grumpkin_fr)"
proof (cases T)
  case C_grumpkin_fr
  have f: "0 \<le> ff_int f" "ff_int f < 2 ^ 254" "is_fq (ff_int f)"
    using ff_int_range [of f] by (simp_all add: is_fq_def fq_modulus_def)
  have "ff_int f mod 2 ^ 136 + push_bit 136 (drop_bit 136 (ff_int f)) = ff_int f"
    by (simp add: push_bit_eq_mult drop_bit_eq_div)
  then have "convert_to_grumpkin_fr f = Inr (ff_int f)"
    using grumpkin_fr_from [OF f(3)] unfolding convert_to_grumpkin_fr_def limb_bits Let_def mask_136 drop_bit_eq_div by simp
  then show ?thesis
    using C_grumpkin_fr f(3) by simp
qed simp

text \<open>The limbs of a point at infinity are read as some element, as all limbs are.\<close>

lemma fq_from_montgomery: "is_fq (ival (fe_to_uint256 fq_params x))"
proof -
  have P: "ival (modulus fq_params) = fq_modulus" "params_ok fq_params" "\<not> big_modulus fq_params"
    unfolding big_modulus_iff params_ok_def by (simp_all add: fq_params_def fq_modulus_def ival_def)
  define c where "c = fe_mul fq_params x (Uint256 1 0 0 0)"
  have one: "ival (Uint256 1 0 0 0) = 1"
    by (simp add: ival_def)
  obtain K where K: "B256 * ival c = ival x * 1 + ival K * fq_modulus"
    using montgomery_mul_eq [OF P(2,3), of "Uint256 1 0 0 0" x] P(1) unfolding one c_def fe_mul_def by (auto simp: fq_modulus_def)
  have "ival x < B256 * fq_modulus"
    using ival_range [of x] by (simp add: fq_modulus_def)
  then have "ival c < 2 * fq_modulus"
    by (intro redc_bound [OF K]) (simp_all add: fq_modulus_def)
  then have "ival (fe_from_montgomery_form fq_params x) < fq_modulus"
    using f_reduce_eq [of fq_params c] P(1)
    by (simp add: fe_from_montgomery_form_def fe_reduce_once_def c_def [symmetric] fq_modulus_def split: if_splits)
  then show ?thesis
    using ival_range by (simp add: is_fq_def fe_to_uint256_def Let_def)
qed

text \<open>
  What the decoding gives for a value: a value of the type without a point at infinity, the same
  value if it has none itself.
\<close>

definition read_as :: "transcript_type \<Rightarrow> transcript_value \<Rightarrow> transcript_value \<Rightarrow> bool" where
  "read_as T v w \<longleftrightarrow> has_type w T \<and> finite_points w \<and> (w = v \<longleftrightarrow> finite_points v)"

lemma read_as_all:
  assumes "list_all2 (read_as T) vs ws"
  shows "length ws = length vs \<and> (\<forall>w\<in>set ws. has_type w T \<and> finite_points w) \<and> (ws = vs \<longleftrightarrow> (\<forall>v\<in>set vs. finite_points v))"
  using assms by (induction rule: list_all2_induct) (auto simp: read_as_def)

lemma convert_elements_roundtrip:
  assumes "\<And>v. v \<in> set vs \<Longrightarrow> \<exists>frs w. convert_to_bn254_frs v = Inr frs \<and> length frs = sz \<and> conv frs = Inr w \<and> read_as T v w"
  shows "\<exists>frs ws. convert_all_to_bn254_frs vs = Inr frs \<and> length frs = sz * length vs \<and> list_all2 (read_as T) vs ws \<and>
    (\<forall>pre. length pre = sz * k \<longrightarrow> convert_elements conv sz (pre @ frs) [k..<k + length vs] = Inr ws)"
  using assms
proof (induction vs arbitrary: k)
  case Nil
  then show ?case
    by simp
next
  case (Cons v vs)
  obtain tmp w where tmp: "convert_to_bn254_frs v = Inr tmp" "length tmp = sz" "conv tmp = Inr w" "read_as T v w"
    using Cons.prems by (meson list.set_intros(1))
  obtain frs ws where frs: "convert_all_to_bn254_frs vs = Inr frs" "length frs = sz * length vs" "list_all2 (read_as T) vs ws"
      "\<forall>pre. length pre = sz * Suc k \<longrightarrow> convert_elements conv sz (pre @ frs) [Suc k..<Suc k + length vs] = Inr ws"
    using Cons.IH [of "Suc k"] Cons.prems by auto
  have "[k..<k + length (v # vs)] = k # [Suc k..<Suc k + length vs]"
    by (simp add: upt_conv_Cons del: upt_Suc)
  moreover have "convert_elements conv sz (pre @ tmp @ frs) [Suc k..<Suc k + length vs] = Inr ws"
      "conv (subspan (sz * k) sz (pre @ tmp @ frs)) = Inr w" if "length pre = sz * k" for pre
    using frs(4) [rule_format, of "pre @ tmp"] that tmp by (simp_all add: subspan_def)
  ultimately show ?case
    using tmp frs by (intro exI [of _ "tmp @ frs"] exI [of _ "w # ws"]) (simp del: upt_Suc)
qed

lemma bn254_affine_encoding:
  assumes "is_fq x" "is_fq y"
  shows "\<exists>xs ys. convert_grumpkin_fr_to_bn254_frs x = Inr xs \<and> convert_grumpkin_fr_to_bn254_frs y = Inr ys \<and> length xs = 2 \<and> length ys = 2 \<and>
    convert_from_bn254_frs T_bn254_affine (xs @ ys) = Inr (V_bn254_affine x y)"
proof -
  obtain xs ys where "convert_grumpkin_fr_to_bn254_frs x = Inr xs" "length xs = 2" "convert_grumpkin_fr_from_bn254_frs xs = Inr x"
      "convert_grumpkin_fr_to_bn254_frs y = Inr ys" "length ys = 2" "convert_grumpkin_fr_from_bn254_frs ys = Inr y"
    using grumpkin_fr_roundtrip assms by meson
  then show ?thesis
    by (simp add: subspan_def)
qed

lemma field_conversion_inverse:
  assumes "has_type v T"
  shows "\<exists>frs w. convert_to_bn254_frs v = Inr frs \<and> length frs = calc_num_bn254_frs T \<and> convert_from_bn254_frs T frs = Inr w \<and> read_as T v w"
  using assms
proof (induction T arbitrary: v)
  case T_bool
  then show ?case
    by (cases v) (auto simp: fr_to_bool_def read_as_def)
next
  case T_uint32
  then obtain w where v: "v = V_uint32 w"
    by (cases v) simp_all
  have w: "uint w < 2 ^ 32"
    using uint_lt2p [of w] by simp
  then have "ff_int (of_int (uint w)) = uint w"
    by (intro small_ff) simp_all
  then have "fr_to_u32 (of_int (uint w)) = w"
    using w by (simp only: fr_to_u32_def) (simp add: mod_pos_pos_trivial)
  then show ?case
    using v by (simp add: read_as_def)
next
  case T_fr
  then show ?case
    by (cases v) (simp_all add: read_as_def)
next
  case T_grumpkin_fr
  then obtain x where v: "v = V_grumpkin_fr x" "is_fq x"
    by (cases v) simp_all
  then show ?case
    using grumpkin_fr_roundtrip [OF v(2)] by (auto simp: read_as_def)
next
  case T_bn254_affine
  then consider x y where "v = V_bn254_affine x y" "is_fq x" "is_fq y" | x y where "v = V_bn254_infinity x y" "is_fq y"
    by (cases v) simp_all
  then show ?case
  proof cases
    case 1
    then show ?thesis
      using bn254_affine_encoding [OF 1(2,3)] by (auto simp: read_as_def simp del: convert_from_bn254_frs.simps)
  next
    case 2
    then show ?thesis
      using bn254_affine_encoding [OF fq_from_montgomery 2(2), of x] fq_from_montgomery [of x]
      by (auto simp: read_as_def simp del: convert_from_bn254_frs.simps)
  qed
next
  case T_grumpkin_affine
  then show ?case
    by (cases v) (simp_all add: read_as_def)
next
  case (T_array T n)
  then obtain vs where v: "v = V_array vs" "length vs = n" "\<forall>v\<in>set vs. has_type v T"
    by (cases v) simp_all
  obtain frs ws where frs: "convert_all_to_bn254_frs vs = Inr frs" "length frs = calc_num_bn254_frs T * length vs" "list_all2 (read_as T) vs ws"
      "\<forall>pre. length pre = calc_num_bn254_frs T * 0 \<longrightarrow>
        convert_elements (convert_from_bn254_frs T) (calc_num_bn254_frs T) (pre @ frs) [0..<0 + length vs] = Inr ws"
    using convert_elements_roundtrip [of vs "calc_num_bn254_frs T" "convert_from_bn254_frs T" T 0] T_array.IH v(3) by blast
  then show ?case
    using v(1,2) read_as_all [OF frs(3)] by (simp add: read_as_def)
qed

text \<open>
  C36: Every value of a transcript type is encoded in the number of field elements that
  calc_num_bn254_frs says for its type, without a failed assertion. The decoding gives a value of the
  type, and gives the value itself exactly if there is no point of bn254 at infinity in it: such a
  point is read back as a finite one, because the encoding of its x loses the flag. (Points of Grumpkin
  are finite here.)
\<close>

theorem field_conversion_roundtrip:
  assumes "has_type v T"
  shows "\<exists>frs w. convert_to_bn254_frs v = Inr frs \<and> length frs = calc_num_bn254_frs T \<and> convert_from_bn254_frs T frs = Inr w \<and>
    has_type w T \<and> finite_points w \<and> (w = v \<longleftrightarrow> finite_points v)"
  using field_conversion_inverse [OF assms] by (simp add: read_as_def)

theorem field_conversion_roundtrip_witness:
  "(\<exists>frs. convert_to_bn254_frs (V_array [V_grumpkin_fr (2 ^ 200), V_grumpkin_fr 5]) = Inr frs \<and>
    convert_from_bn254_frs (T_array T_grumpkin_fr 2) frs = Inr (V_array [V_grumpkin_fr (2 ^ 200), V_grumpkin_fr 5])) \<and>
   (\<exists>frs w. convert_to_bn254_frs (V_bn254_infinity (Uint256 0 0 0 (2 ^ 63)) 7) = Inr frs \<and>
    convert_from_bn254_frs T_bn254_affine frs = Inr w \<and> w \<noteq> V_bn254_infinity (Uint256 0 0 0 (2 ^ 63)) 7)"
proof (intro conjI)
  let ?v = "V_array [V_grumpkin_fr (2 ^ 200), V_grumpkin_fr 5]" and ?p = "V_bn254_infinity (Uint256 0 0 0 (2 ^ 63)) 7"
  have v: "has_type ?v (T_array T_grumpkin_fr 2)" "finite_points ?v"
    by (simp_all add: is_fq_def fq_modulus_def)
  show "\<exists>frs. convert_to_bn254_frs ?v = Inr frs \<and> convert_from_bn254_frs (T_array T_grumpkin_fr 2) frs = Inr ?v"
    using field_conversion_roundtrip [OF v(1)] v(2) by blast
  have p: "has_type ?p T_bn254_affine" "\<not> finite_points ?p"
    by (simp_all add: is_fq_def fq_modulus_def fe_is_msb_set_def)
  show "\<exists>frs w. convert_to_bn254_frs ?p = Inr frs \<and> convert_from_bn254_frs T_bn254_affine frs = Inr w \<and> w \<noteq> ?p"
    using field_conversion_roundtrip [OF p(1)] p(2) by blast
qed

end
