(* ===== verification/Transcript.thy ===== *)
theory Transcript
  imports Field_Conversion
begin

text \<open>
  transcript/transcript.hpp: the messages of a prover and the challenges that both parties derive
  from them. The hash function, Poseidon2, is a parameter. The labels of a template parameter pack
  are a list.
\<close>

section \<open>The manifest\<close>

record RoundData =
  challenge_label :: "string list"
  entries :: "(string \<times> nat) list"

type_synonym TranscriptManifest = "nat \<rightharpoonup> RoundData"

definition round_data :: "nat \<Rightarrow> TranscriptManifest \<Rightarrow> RoundData" where
  "round_data round M = (case M round of None \<Rightarrow> \<lparr>challenge_label = [], entries = []\<rparr> | Some d \<Rightarrow> d)"

definition add_challenge :: "nat \<Rightarrow> string list \<Rightarrow> TranscriptManifest \<Rightarrow> TranscriptManifest" where
  "add_challenge round labels M = M(round \<mapsto> (round_data round M)\<lparr>challenge_label := labels\<rparr>)"

definition add_entry :: "nat \<Rightarrow> string \<Rightarrow> nat \<Rightarrow> TranscriptManifest \<Rightarrow> TranscriptManifest" where
  "add_entry round element_label element_size M =
     M(round \<mapsto> (round_data round M)\<lparr>entries := entries (round_data round M) @ [(element_label, element_size)]\<rparr>)"

section \<open>The transcript\<close>

record BaseTranscript =
  proof_start :: nat
  num_frs_written :: nat
  num_frs_read :: nat
  round_number :: nat
  is_first_challenge :: bool
  previous_challenge :: ff
  current_round_data :: "ff list"
  manifest :: TranscriptManifest
  proof_data :: "ff list"

text \<open>The constructor for a verifier; the one without an argument is that of an empty proof.\<close>

definition transcript_of :: "ff list \<Rightarrow> BaseTranscript" where
  "transcript_of proof = \<lparr>proof_start = 0, num_frs_written = 0, num_frs_read = 0, round_number = 0, is_first_challenge = True,
     previous_challenge = 0, current_round_data = [], manifest = Map.empty, proof_data = proof\<rparr>"

definition get_next_challenge_buffer :: "(ff list \<Rightarrow> ff) \<Rightarrow> BaseTranscript \<Rightarrow> transcript_error + ff \<times> BaseTranscript" where
  "get_next_challenge_buffer hash T =
     (if is_first_challenge T \<and> current_round_data T = [] then Inl Assertion_failed
      else let full_buffer = (if \<not> is_first_challenge T then [previous_challenge T] else []);
               T = (if \<not> is_first_challenge T then T else T\<lparr>is_first_challenge := False\<rparr>);
               full_buffer = full_buffer @ current_round_data T;
               T = T\<lparr>current_round_data := []\<rparr>;
               base_hash = hash full_buffer;
               new_challenge = base_hash
      in Inr (new_challenge, T\<lparr>previous_challenge := new_challenge\<rparr>))"

definition consume_prover_element_frs :: "string \<Rightarrow> ff list \<Rightarrow> BaseTranscript \<Rightarrow> BaseTranscript" where
  "consume_prover_element_frs label element_frs T =
     T\<lparr>manifest := add_entry (round_number T) label (length element_frs) (manifest T),
       current_round_data := current_round_data T @ element_frs,
       num_frs_written := num_frs_written T + length element_frs\<rparr>"

definition serialize_to_buffer :: "transcript_value \<Rightarrow> ff list \<Rightarrow> transcript_error + ff list" where
  "serialize_to_buffer element buffer = ebind (convert_to_bn254_frs element) (\<lambda>element_frs. Inr (buffer @ element_frs))"

definition deserialize_from_buffer ::
  "transcript_type \<Rightarrow> ff list \<Rightarrow> nat \<Rightarrow> transcript_error + transcript_value \<times> nat" where
  "deserialize_from_buffer ty buffer offset =
     (let element_fr_size = calc_num_bn254_frs ty
      in if \<not> offset + element_fr_size \<le> length buffer then Inl Assertion_failed
      else ebind (convert_from_bn254_frs ty (subspan offset element_fr_size buffer)) (\<lambda>element.
        Inr (element, offset + element_fr_size)))"

text \<open>A copy of num_frs_written elements from proof_start on has to stay inside the vector.\<close>

definition export_proof :: "BaseTranscript \<Rightarrow> transcript_error + ff list \<times> BaseTranscript" where
  "export_proof T =
     (if length (proof_data T) < proof_start T + num_frs_written T then Inl Out_of_range
      else Inr (subspan (proof_start T) (num_frs_written T) (proof_data T),
        T\<lparr>proof_start := proof_start T + num_frs_written T, num_frs_written := 0\<rparr>))"

definition load_proof :: "ff list \<Rightarrow> BaseTranscript \<Rightarrow> BaseTranscript" where
  "load_proof proof T = T\<lparr>proof_data := proof_data T @ proof\<rparr>"

fun challenge_loop :: "(ff list \<Rightarrow> ff) \<Rightarrow> challenge_type \<Rightarrow> nat \<Rightarrow> BaseTranscript \<Rightarrow>
    transcript_error + transcript_value list \<times> BaseTranscript" where
  "challenge_loop hash ty 0 T = Inr ([], T)"
| "challenge_loop hash ty (Suc n) T =
     ebind (get_next_challenge_buffer hash T) (\<lambda>(buffer, T).
     ebind (convert_challenge ty buffer) (\<lambda>c.
     ebind (challenge_loop hash ty n T) (\<lambda>(cs, T). Inr (c # cs, T))))"

definition get_challenges :: "(ff list \<Rightarrow> ff) \<Rightarrow> challenge_type \<Rightarrow> string list \<Rightarrow> BaseTranscript \<Rightarrow>
    transcript_error + transcript_value list \<times> BaseTranscript" where
  "get_challenges hash ty labels T =
     (let num_challenges = length labels;
          T = T\<lparr>manifest := add_challenge (round_number T) labels (manifest T)\<rparr>
      in ebind (challenge_loop hash ty num_challenges T) (\<lambda>(challenges, T).
         Inr (challenges, T\<lparr>round_number := round_number T + 1\<rparr>)))"

definition get_challenge :: "(ff list \<Rightarrow> ff) \<Rightarrow> challenge_type \<Rightarrow> string \<Rightarrow> BaseTranscript \<Rightarrow>
    transcript_error + transcript_value \<times> BaseTranscript" where
  "get_challenge hash ty label T = ebind (get_challenges hash ty [label] T) (\<lambda>(cs, T). Inr (cs ! 0, T))"

definition send_to_verifier :: "string \<Rightarrow> transcript_value \<Rightarrow> BaseTranscript \<Rightarrow> transcript_error + BaseTranscript" where
  "send_to_verifier label element T =
     ebind (convert_to_bn254_frs element) (\<lambda>element_frs.
     let T = T\<lparr>proof_data := proof_data T @ element_frs\<rparr>
     in Inr (consume_prover_element_frs label element_frs T))"

definition receive_from_prover :: "transcript_type \<Rightarrow> string \<Rightarrow> BaseTranscript \<Rightarrow> transcript_error + transcript_value \<times> BaseTranscript" where
  "receive_from_prover ty label T =
     (let element_size = calc_num_bn254_frs ty
      in if \<not> num_frs_read T + element_size \<le> length (proof_data T) then Inl Assertion_failed
      else let element_frs = subspan (num_frs_read T) element_size (proof_data T);
               T = T\<lparr>num_frs_read := num_frs_read T + element_size\<rparr>;
               T = consume_prover_element_frs label element_frs T
      in ebind (convert_from_bn254_frs ty element_frs) (\<lambda>element. Inr (element, T)))"

definition prover_init_empty :: "transcript_error + BaseTranscript" where
  "prover_init_empty = send_to_verifier ''Init'' (V_uint32 42) (transcript_of [])"

definition verifier_init_empty :: "BaseTranscript \<Rightarrow> transcript_error + BaseTranscript" where
  "verifier_init_empty transcript =
     ebind (receive_from_prover T_fr ''Init'' (transcript_of (proof_data transcript))) (\<lambda>(element, T). Inr T)"

section \<open>Two parties\<close>

text \<open>What a prover does with its transcript, and what a verifier does that follows it.\<close>

datatype message = Send string transcript_value | Ask challenge_type "string list"

datatype expectation = Receive string transcript_type | Expect challenge_type "string list"

fun follows :: "message \<Rightarrow> expectation \<Rightarrow> bool" where
  "follows (Send label v) (Receive label' T) \<longleftrightarrow> label = label' \<and> has_type v T"
| "follows (Ask ty labels) (Expect ty' labels') \<longleftrightarrow> ty = ty' \<and> labels = labels'"
| "follows _ _ \<longleftrightarrow> False"

fun prover_run :: "(ff list \<Rightarrow> ff) \<Rightarrow> message list \<Rightarrow> BaseTranscript \<Rightarrow>
    transcript_error + transcript_value list \<times> BaseTranscript" where
  "prover_run hash [] P = Inr ([], P)"
| "prover_run hash (Send label v # ms) P = ebind (send_to_verifier label v P) (\<lambda>P. prover_run hash ms P)"
| "prover_run hash (Ask ty labels # ms) P =
     ebind (get_challenges hash ty labels P) (\<lambda>(cs, P). ebind (prover_run hash ms P) (\<lambda>(ds, P). Inr (cs @ ds, P)))"

fun verifier_run :: "(ff list \<Rightarrow> ff) \<Rightarrow> expectation list \<Rightarrow> BaseTranscript \<Rightarrow>
    transcript_error + transcript_value list \<times> transcript_value list \<times> BaseTranscript" where
  "verifier_run hash [] V = Inr ([], [], V)"
| "verifier_run hash (Receive label T # es) V =
     ebind (receive_from_prover T label V) (\<lambda>(v, V). ebind (verifier_run hash es V) (\<lambda>(vs, cs, V). Inr (v # vs, cs, V)))"
| "verifier_run hash (Expect ty labels # es) V =
     ebind (get_challenges hash ty labels V) (\<lambda>(cs, V). ebind (verifier_run hash es V) (\<lambda>(vs, ds, V). Inr (vs, cs @ ds, V)))"

fun sent :: "message list \<Rightarrow> transcript_value list" where
  "sent [] = []"
| "sent (Send label v # ms) = v # sent ms"
| "sent (Ask ty labels # ms) = sent ms"

text \<open>The parties agree on all that a challenge depends on, and the verifier has read what was sent.\<close>

definition synced :: "BaseTranscript \<Rightarrow> BaseTranscript \<Rightarrow> bool" where
  "synced P V \<longleftrightarrow> round_number V = round_number P \<and> is_first_challenge V = is_first_challenge P \<and>
     previous_challenge V = previous_challenge P \<and> current_round_data V = current_round_data P \<and> manifest V = manifest P \<and>
     num_frs_read V = length (proof_data P)"

text \<open>A prover that has not exported a part of its proof has written all of it.\<close>

definition unexported :: "BaseTranscript \<Rightarrow> bool" where
  "unexported P \<longleftrightarrow> proof_start P = 0 \<and> num_frs_written P = length (proof_data P)"

lemma next_challenge_synced:
  assumes "get_next_challenge_buffer hash P = Inr (c, P')" and "synced P V"
  shows "\<exists>V'. get_next_challenge_buffer hash V = Inr (c, V') \<and> synced P' V' \<and> proof_data V' = proof_data V \<and> proof_data P' = proof_data P \<and>
    (unexported P \<longrightarrow> unexported P')"
  using assms by (auto simp: get_next_challenge_buffer_def synced_def unexported_def Let_def split: if_splits)

lemma challenge_loop_synced:
  assumes "challenge_loop hash ty n P = Inr (cs, P')" and "synced P V"
  shows "\<exists>V'. challenge_loop hash ty n V = Inr (cs, V') \<and> synced P' V' \<and> proof_data V' = proof_data V \<and> proof_data P' = proof_data P \<and>
    (unexported P \<longrightarrow> unexported P')"
  using assms
proof (induction n arbitrary: cs P V)
  case (Suc n)
  obtain b Q c ds where Q: "get_next_challenge_buffer hash P = Inr (b, Q)" "convert_challenge ty b = Inr c"
      "challenge_loop hash ty n Q = Inr (ds, P')" "cs = c # ds"
    using Suc.prems(1) by (auto simp: ebind_Inr_iff)
  obtain W where W: "get_next_challenge_buffer hash V = Inr (b, W)" "synced Q W" "proof_data W = proof_data V" "proof_data Q = proof_data P"
      "unexported P \<longrightarrow> unexported Q"
    using next_challenge_synced [OF Q(1) Suc.prems(2)] by blast
  then show ?case
    using Suc.IH [OF Q(3) W(2)] Q(2,4) by (auto simp: ebind_Inr_iff)
qed simp

lemma get_challenges_synced:
  assumes "get_challenges hash ty labels P = Inr (cs, P')" and "synced P V"
  shows "\<exists>V'. get_challenges hash ty labels V = Inr (cs, V') \<and> synced P' V' \<and> proof_data V' = proof_data V \<and> proof_data P' = proof_data P \<and>
    (unexported P \<longrightarrow> unexported P')"
proof -
  define A B where "A = P\<lparr>manifest := add_challenge (round_number P) labels (manifest P)\<rparr>"
    and "B = V\<lparr>manifest := add_challenge (round_number V) labels (manifest V)\<rparr>"
  obtain Q where Q: "challenge_loop hash ty (length labels) A = Inr (cs, Q)" "P' = Q\<lparr>round_number := round_number Q + 1\<rparr>"
    using assms(1) by (auto simp: get_challenges_def ebind_Inr_iff A_def)
  have "synced A B"
    using assms(2) by (simp add: synced_def A_def B_def)
  from challenge_loop_synced [OF Q(1) this]
  obtain W where W: "challenge_loop hash ty (length labels) B = Inr (cs, W)" "synced Q W" "proof_data W = proof_data B"
      "proof_data Q = proof_data A" "unexported A \<longrightarrow> unexported Q"
    by blast
  then show ?thesis
    using Q(2) by (intro exI [of _ "W\<lparr>round_number := round_number W + 1\<rparr>"])
      (simp add: get_challenges_def synced_def unexported_def A_def B_def)
qed

lemma message_synced:
  assumes "send_to_verifier label v P = Inr P'" and "synced P V" and "has_type v T" and "proof_data V = proof_data P' @ rest"
  shows "\<exists>w V'. receive_from_prover T label V = Inr (w, V') \<and> (w = v \<longleftrightarrow> finite_points v) \<and> synced P' V' \<and> proof_data V' = proof_data V"
proof -
  obtain frs w where frs: "convert_to_bn254_frs v = Inr frs" "length frs = calc_num_bn254_frs T" "convert_from_bn254_frs T frs = Inr w"
      "read_as T v w"
    using field_conversion_inverse [OF assms(3)] by blast
  have P': "P' = consume_prover_element_frs label frs (P\<lparr>proof_data := proof_data P @ frs\<rparr>)"
    using assms(1) frs(1) by (simp add: send_to_verifier_def)
  have V: "proof_data V = proof_data P @ frs @ rest" "num_frs_read V = length (proof_data P)"
    using assms(2,4) P' by (simp_all add: consume_prover_element_frs_def synced_def)
  then have "subspan (num_frs_read V) (calc_num_bn254_frs T) (proof_data V) = frs"
    using frs(2) by (simp add: subspan_def)
  then show ?thesis
    using frs assms(2) V P' by (auto simp: read_as_def receive_from_prover_def consume_prover_element_frs_def synced_def Let_def)
qed

lemma send_prefix:
  assumes "send_to_verifier label v P = Inr P'"
  shows "\<exists>frs. proof_data P' = proof_data P @ frs" and "unexported P \<Longrightarrow> unexported P'"
  using assms by (auto simp: send_to_verifier_def consume_prover_element_frs_def ebind_Inr_iff unexported_def)

lemma challenges_keep:
  assumes "get_challenges hash ty labels P = Inr (cs, P')"
  shows "proof_data P' = proof_data P" and "unexported P \<Longrightarrow> unexported P'"
  using get_challenges_synced [OF assms, of "P\<lparr>num_frs_read := length (proof_data P)\<rparr>"] by (auto simp: synced_def)

lemma prover_prefix:
  "prover_run hash ms P = Inr (cs, P') \<Longrightarrow> (\<exists>frs. proof_data P' = proof_data P @ frs) \<and> (unexported P \<longrightarrow> unexported P')"
proof (induction ms arbitrary: cs P)
  case (Cons m ms)
  show ?case
  proof (cases m)
    case (Send label v)
    then obtain Q where Q: "send_to_verifier label v P = Inr Q" "prover_run hash ms Q = Inr (cs, P')"
      using Cons.prems by (auto simp: ebind_Inr_iff)
    then show ?thesis
      using send_prefix [OF Q(1)] Cons.IH [OF Q(2)] by auto
  next
    case (Ask ty labels)
    then obtain Q ds cs' where Q: "get_challenges hash ty labels P = Inr (ds, Q)" "prover_run hash ms Q = Inr (cs', P')"
      using Cons.prems by (auto simp: ebind_Inr_iff)
    then show ?thesis
      using challenges_keep [OF Q(1)] Cons.IH [OF Q(2)] by auto
  qed
qed simp

lemma runs_synced:
  assumes "prover_run hash ms P = Inr (cs, P')" and "synced P V" and "list_all2 follows ms es" and "proof_data V = proof_data P' @ rest"
  shows "\<exists>vs V'. verifier_run hash es V = Inr (vs, cs, V') \<and> list_all2 (\<lambda>v w. w = v \<longleftrightarrow> finite_points v) (sent ms) vs \<and>
    synced P' V' \<and> proof_data V' = proof_data V"
  using assms
proof (induction ms arbitrary: cs P V es)
  case Nil
  then show ?case
    by simp
next
  case (Cons m ms)
  then obtain e es' where es: "es = e # es'" "follows m e" "list_all2 follows ms es'"
    by (auto simp: list_all2_Cons1)
  show ?case
  proof (cases m)
    case (Send label v)
    then obtain T where e: "e = Receive label T" "has_type v T"
      using es(2) by (cases e) auto
    obtain Q where Q: "send_to_verifier label v P = Inr Q" "prover_run hash ms Q = Inr (cs, P')"
      using Cons.prems(1) Send by (auto simp: ebind_Inr_iff)
    obtain x where "proof_data P' = proof_data Q @ x"
      using prover_prefix [OF Q(2)] by blast
    then have "proof_data V = proof_data Q @ (x @ rest)"
      using Cons.prems(4) by simp
    from message_synced [OF Q(1) Cons.prems(2) e(2) this]
    obtain w W where W: "receive_from_prover T label V = Inr (w, W)" "w = v \<longleftrightarrow> finite_points v" "synced Q W" "proof_data W = proof_data V"
      by blast
    then obtain vs V' where "verifier_run hash es' W = Inr (vs, cs, V')" "list_all2 (\<lambda>v w. w = v \<longleftrightarrow> finite_points v) (sent ms) vs"
        "synced P' V'" "proof_data V' = proof_data W"
      using Cons.IH [OF Q(2) W(3) es(3)] Cons.prems(4) unfolding W(4) by blast
    then show ?thesis
      using W Send by (simp add: es(1) e(1))
  next
    case (Ask ty labels)
    then have e: "e = Expect ty labels"
      using es(2) by (cases e) auto
    obtain Q ds cs' where Q: "get_challenges hash ty labels P = Inr (ds, Q)" "prover_run hash ms Q = Inr (cs', P')" "cs = ds @ cs'"
      using Cons.prems(1) Ask by (auto simp: ebind_Inr_iff)
    obtain W where W: "get_challenges hash ty labels V = Inr (ds, W)" "synced Q W" "proof_data W = proof_data V"
      using get_challenges_synced [OF Q(1) Cons.prems(2)] by blast
    then obtain vs V' where "verifier_run hash es' W = Inr (vs, cs', V')" "list_all2 (\<lambda>v w. w = v \<longleftrightarrow> finite_points v) (sent ms) vs"
        "synced P' V'" "proof_data V' = proof_data W"
      using Cons.IH [OF Q(2) W(2) es(3)] Cons.prems(4) unfolding W(3) by blast
    then show ?thesis
      using W Ask Q(3) by (simp add: es(1) e)
  qed
qed

text \<open>The empty transcripts of the tests: a verifier reads the number 42 as a field element.\<close>

lemma init_empty: "\<exists>P V. prover_init_empty = Inr P \<and> verifier_init_empty P = Inr V \<and> synced P V"
  by (simp add: prover_init_empty_def verifier_init_empty_def send_to_verifier_def receive_from_prover_def
    consume_prover_element_frs_def transcript_of_def subspan_def synced_def Let_def)

section \<open>What a challenge binds\<close>

definition full_buffer :: "BaseTranscript \<Rightarrow> ff list" where
  "full_buffer T = (if is_first_challenge T then [] else [previous_challenge T]) @ current_round_data T"













text \<open>
  C11: A verifier that follows the messages of a prover and asks for the same challenges
  gets the same challenges, without a failed assertion, and its manifest is the same; what follows in
  the proof data is not read. It reads each value as it was sent exactly if there is no point of bn254
  at infinity in the value (points of Grumpkin are finite here). A prover that starts anew exports just
  the proof data.
\<close>

theorem transcript_verifier_follows:
  assumes "prover_run hash ms (transcript_of []) = Inr (cs, P)" and "list_all2 follows ms es"
  shows "(\<exists>vs V. verifier_run hash es (transcript_of (proof_data P @ rest)) = Inr (vs, cs, V) \<and>
      list_all2 (\<lambda>v w. w = v \<longleftrightarrow> finite_points v) (sent ms) vs \<and> manifest V = manifest P \<and>
      previous_challenge V = previous_challenge P \<and> num_frs_read V = length (proof_data P)) \<and>
    (\<exists>P'. export_proof P = Inr (proof_data P, P') \<and> proof_start P' = length (proof_data P))"
proof -
  have "synced (transcript_of []) (transcript_of (proof_data P @ rest))" "unexported (transcript_of [])"
    by (simp_all add: synced_def unexported_def transcript_of_def)
  then obtain vs V where "verifier_run hash es (transcript_of (proof_data P @ rest)) = Inr (vs, cs, V)"
      "list_all2 (\<lambda>v w. w = v \<longleftrightarrow> finite_points v) (sent ms) vs" "synced P V"
    using runs_synced [OF assms(1) _ assms(2), of "transcript_of (proof_data P @ rest)" rest] by (auto simp: transcript_of_def)
  moreover have "unexported P"
    using prover_prefix [OF assms(1)] \<open>unexported (transcript_of [])\<close> by blast
  ultimately show ?thesis
    by (auto simp: synced_def unexported_def export_proof_def subspan_def)
qed

theorem transcript_verifier_follows_witness:
  "\<exists>P V. prover_run sum_list [Send ''a'' (V_uint32 7), Ask C_fr [''x'', ''y'']] (transcript_of []) = Inr ([V_fr 7, V_fr 7], P) \<and>
    verifier_run sum_list [Receive ''a'' T_uint32, Expect C_fr [''x'', ''y'']] (transcript_of (proof_data P @ [])) =
      Inr ([V_uint32 7], [V_fr 7, V_fr 7], V)"
proof -
  obtain P where P: "prover_run sum_list [Send ''a'' (V_uint32 7), Ask C_fr [''x'', ''y'']] (transcript_of []) = Inr ([V_fr 7, V_fr 7], P)"
    by (simp add: send_to_verifier_def consume_prover_element_frs_def get_challenges_def get_next_challenge_buffer_def transcript_of_def Let_def)
  show ?thesis
    using transcript_verifier_follows [OF P, of "[Receive ''a'' T_uint32, Expect C_fr [''x'', ''y'']]" "[]"] P
    by (fastforce simp: list_all2_Cons1 simp del: verifier_run.simps prover_run.simps)
qed






end
