(* ===== verification/Spec2Isabelle.thy ===== *)
theory Spec2Isabelle
  imports Serialize_Fields Avm_Check Toy_Avm Nullifier_Tree Standard_Circuit Aes128 Transcript
begin

text \<open>
  This library models the part of barretenberg, the C++ proving system of this repository, that
  can be read as functions on values: all paths below are relative to
  src/barretenberg/cpp/src/barretenberg.

  The program and its parts. Numbers of 256 bits (numeric/uint256) and helpers on words
  (numeric/bitop) carry the prime fields (ecc/fields), whose elements are four limbs in
  Montgomery form. The virtual machine for public functions (vm/avm_trace) parses bytecode, runs
  it on a memory of tagged field elements and writes three traces as it goes: the main trace, the
  accesses to the memory and the steps of the arithmetic unit. finalize puts the traces side by
  side into rows of columns; the generated relations (relations/generated) are polynomials in the
  columns of a row and of the next, which vanish on every row if the trace is right, and lookups
  and permutations between columns (relations/generic_lookup, relations/generic_permutation),
  which honk/proof_system/logderivative_library turns into sums of fractions. The builders
  (proof_system/circuit_builder/generated) check all of it on the rows. Circuits that are written
  by hand come from the other builders: proof_system/circuit_builder/circuit_builder_base keeps
  variables and the classes of variables that must be equal, standard_circuit_builder adds gates
  on them. A prover and a verifier exchange messages and derive challenges with a transcript
  (transcript), which encodes its values as field elements (ecc/fields/field_conversion). Beside
  these stand the binary serialization (common/serialize), the Merkle trees in memory
  (crypto/merkle_tree) and the block cipher AES-128 (crypto/aes128).

  \<^bold>\<open>Theories.\<close>
  \<^item> Prelude: word types, the error monad ebind on a sum, shared lemmas.
  \<^item> Uint256, Uint256_Algos: uint256_t as a record of four 64-bit words with the carry chains of
    the code, read as an integer by ival; shifts, division, powers, the string constructor.
    Bitop: numeric/bitop.
  \<^item> Field_Limbs, Field_Montgomery, Field_Ops: the generic limb arithmetic of
    ecc/fields/field_impl_generic.hpp and the class field over it, for any parameters; the
    locale field_repr is the interface between the two. Fr interprets it on the parameters of the
    scalar field of bn254. Primality and Prime_Certificates prove that modulus prime;
    Scalar_Field is the field ff of integers modulo it, which the components above use for fr.
  \<^item> Serialize, Serialize_Fields: readers and writers of common/serialize.hpp and of fields.
  \<^item> Avm_Common, Avm_Opcode, Avm_Bytecode: tags, opcodes, wire formats and the parser of
    avm_deserialization.cpp.
  \<^item> Avm_Mem, Avm_Alu, Avm_Trace, Avm_Execution: the classes AvmMemTraceBuilder,
    AvmAluTraceBuilder and AvmTraceBuilder, one definition per operation on a record of their
    fields, and the loop of avm_execution.cpp.
  \<^item> Avm_Row: the columns of a row and the three generated relations.
  \<^item> Avm_Invariant, Avm_Machine, Avm_Alu_Circuit, Avm_Alu_Ops, Avm_Mem_Table, Avm_Tag_Errors,
    Avm_Finalize, Avm_Circuit, Avm_Main_Table: the proofs about the machine.
  \<^item> Circuit_Check, Logderivative, Generic_Relations, Relation_Degrees, Avm_Check, Toy_Avm: the
    builders and the lookup and permutation arguments. Fractions holds the algebra of sums of
    fractions they rest on.
  \<^item> Merkle_Tree, Nullifier_Tree: the trees in memory.
  \<^item> Circuit_Builder, Standard_Builder: the base class and the standard builder, the second a
    record that extends the first as the class does. Standard_Gadgets and Standard_Logic hold the
    proofs about gates, ranges and bitwise operations, Standard_Circuit the reachable builders and
    the properties.
  \<^item> Field_Conversion, Transcript: the encoding of typed values and the class BaseTranscript with
    the runs of both parties (points of Grumpkin at infinity are not values of the
    model).
  \<^item> Aes128: the cipher and its chaining on buffers.

  \<^bold>\<open>How the model reads the code.\<close> A class is a record, a method a function from the old
  record to the new one. An exception or a failed assertion is Inl of an error type of the
  component, a loop that may not end is an option. Words keep their width wherever the code can
  wrap around; sizes and indices that the code bounds are natural numbers. Virtual registers,
  logging, printing and the msgpack adaptors have no counterpart. Random challenges (beta and gamma
  of the builders) and hash functions (of the trees and the transcript) are arguments of the definitions, so that a
  property holds for all of them, and has a hypothesis where the code is right for most only.

  \<^bold>\<open>What the groups of lemmas show.\<close>
  \<^item> Numbers and fields: every operation on limbs is the operation on integers modulo 2^256, or
    modulo the prime, and keeps the bound of twice the modulus; conversions and serialization are
    inverse to each other.
  \<^item> Bytecode: the parser accepts exactly what the writer produces, and the error of every other
    input is one of the parser's.
  \<^item> The machine: the trace builder keeps the invariant trace_inv, its operations refine a machine
    without traces and fail exactly where this machine has no step; finalize succeeds exactly if
    each of the three traces has less than 256 rows (AVM_TRACE_SIZE).
  \<^item> The circuit: the tables of a finished trace satisfy the relations of the arithmetic unit
    always, those of the memory exactly if reads of cells that were never written agree on their
    tags, and those of the main trace exactly if the program halted, for programs that do not jump
    into the cells of the call stack; check_circuit of the builder decides just that.
  \<^item> Lookup and permutation arguments: the sums of fractions of the log-derivative vanish for all
    challenges but a few exactly if the lookup or the permutation holds.
  \<^item> Trees: the vector of a tree is the one computed from scratch from its leaves; a path that
    proves another leaf exhibits a collision; the leaves of the nullifier tree form a sorted list
    with one leaf per value, and inserting adds one value to it.
  \<^item> Circuits: a builder stands for the set of assignments that satisfy its gates and copy
    constraints (solution). Every operation is a gadget: the assignments of the new builder are
    those of the old that satisfy the equation of the operation, and the values that the builder
    computes satisfy the new gates whenever they satisfy the equation. A range of more than 256 bits
    fails the assertion on the bits of a uint256_t.
  \<^item> Transcripts: a verifier that follows a prover derives its challenges and reads its values, as
    they were sent exactly if no point of bn254 at infinity is among them, whose flag the encoding
    loses; equal last challenges mean equal proofs, unless two hash inputs of the runs collide.
  \<^item> AES: every step of a round has an inverse, and so have the cipher and the chaining.

  \<^bold>\<open>Bounds and fuel.\<close> The execution loop has no fuel: it is the while loop as an option, None if
  it runs forever. avm_forward_terminates gives programs for which it returns, and
  avm_runs_forever one for which it does not. Loops over bits and limbs have the bounds of the
  code; the depth of a tree is at most 20 by the assertion of its constructor.

  \<^bold>\<open>Not modelled.\<close> Circuits and proofs proper (stdlib, the ultra builder and its kin, plonk, honk
  and sumcheck, commitments, flavors, recursion), the curves, the hash functions and the DSL are listed in the manifest with
  the reason: most of them need the witness generation and the polynomial commitments of a whole
  proof system, so that a definition of a single class would leave out what it works with. The
  hand-written assembly is not modelled, only the portable code that it has to agree with.
  Threads only split loops whose iterations are independent; the models run them in order.
\<close>

end
